(* ===== verification/Prelude.thy ===== *)
theory Prelude
  imports Complex_Main "HOL-Library.Multiset" "HOL-Library.AList"
begin

text \<open>
  What the components share: the identifiers and instants of the program, the few pieces of
  JavaScript arithmetic it uses, database tables as lists of rows with the query operations
  the services call (\<open>findFirst\<close> with an order, \<open>updateMany\<close>, \<open>count\<close>), and the
  insertion-ordered \<open>Map\<close> of the language as an association list.  A table is a list in an
  arbitrary physical order; every theorem quantifies over all such lists, so it covers
  whatever row the database picks among ties of an \<open>ORDER BY\<close>.
\<close>

section \<open>Names used throughout\<close>

text \<open>Row identifiers are UUID strings that the code compares for equality only.\<close>
type_synonym uuid = string

text \<open>An instant is a number of milliseconds, as \<open>Date.getTime()\<close> returns it.\<close>
type_synonym ms = int

text \<open>Rules that drive the proofs: table operations, and invariants of state logs.\<close>
named_theorems table_simps "facts about tables of rows"
named_theorems map_simps "facts about insertion-ordered maps"

section \<open>Arithmetic of the language\<close>

text \<open>\<open>Math.round\<close> rounds to the nearest integer and rounds halves up.\<close>
definition js_round :: "rat \<Rightarrow> int" where
  "js_round x = \<lfloor>x + 1 / 2\<rfloor>"

lemma js_round_of_int [simp]: "js_round (of_int n) = n"
  by (simp add: js_round_def floor_eq_iff)

lemma js_round_zero [simp]: "js_round 0 = 0"
  using js_round_of_int [of 0] by simp

lemma js_round_numeral [simp]: "js_round (numeral n) = numeral n"
  using js_round_of_int [of "numeral n"] by simp

lemma js_round_mono: "x \<le> y \<Longrightarrow> js_round x \<le> js_round y"
  unfolding js_round_def by (rule floor_mono) simp

lemma js_round_nonneg: "0 \<le> x \<Longrightarrow> 0 \<le> js_round x"
  using js_round_mono [of 0 x] by simp

lemma js_round_near: "\<bar>of_int (js_round x) - x\<bar> \<le> 1 / 2"
  unfolding js_round_def by linarith

lemma js_round_add_int: "js_round (x + of_int n) = js_round x + n"
proof -
  have "x + of_int n + 1 / 2 = (x + 1 / 2) + of_int n" by simp
  then show ?thesis unfolding js_round_def by (metis floor_add_int)
qed

text \<open>Two decimals of SQL: \<open>ROUND(x, 2)\<close>, halves away from zero.\<close>
definition round2 :: "rat \<Rightarrow> rat" where
  "round2 x = (if 0 \<le> x then of_int \<lfloor>x * 100 + 1 / 2\<rfloor> / 100 else - (of_int \<lfloor>- x * 100 + 1 / 2\<rfloor> / 100))"

section \<open>Tables\<close>

text \<open>\<open>UPDATE ... WHERE\<close> and Prisma's \<open>updateMany\<close>: every row that satisfies the condition.\<close>
definition update_where :: "('r \<Rightarrow> bool) \<Rightarrow> ('r \<Rightarrow> 'r) \<Rightarrow> 'r list \<Rightarrow> 'r list" where
  "update_where p f rows = map (\<lambda>r. if p r then f r else r) rows"

text \<open>\<open>count\<close> with a condition.\<close>
definition count_where :: "('r \<Rightarrow> bool) \<Rightarrow> 'r list \<Rightarrow> nat" where
  "count_where p rows = length (filter p rows)"

text \<open>\<open>findFirst\<close> ordered by an ascending key: a row with the least key among the list.\<close>
fun first_asc :: "('r \<Rightarrow> 'k::linorder) \<Rightarrow> 'r list \<Rightarrow> 'r option" where
  "first_asc key [] = None"
| "first_asc key (r # rs) =
     (case first_asc key rs of
        None \<Rightarrow> Some r
      | Some q \<Rightarrow> if key r \<le> key q then Some r else Some q)"

text \<open>\<open>findFirst\<close> ordered by a descending key.\<close>
fun first_desc :: "('r \<Rightarrow> 'k::linorder) \<Rightarrow> 'r list \<Rightarrow> 'r option" where
  "first_desc key [] = None"
| "first_desc key (r # rs) =
     (case first_desc key rs of
        None \<Rightarrow> Some r
      | Some q \<Rightarrow> if key q \<le> key r then Some r else Some q)"

lemma update_where_Nil [table_simps, simp]: "update_where p f [] = []"
  by (simp add: update_where_def)

lemma update_where_Cons [table_simps, simp]:
  "update_where p f (r # rs) = (if p r then f r else r) # update_where p f rs"
  by (simp add: update_where_def)

lemma update_where_append [table_simps, simp]:
  "update_where p f (xs @ ys) = update_where p f xs @ update_where p f ys"
  by (simp add: update_where_def)

lemma length_update_where [simp]: "length (update_where p f rows) = length rows"
  by (simp add: update_where_def)

lemma set_update_where:
  "set (update_where p f rows) = f ` {r \<in> set rows. p r} \<union> {r \<in> set rows. \<not> p r}"
  by (auto simp: update_where_def)

lemma map_update_where:
  "(\<And>r. g (f r) = g r) \<Longrightarrow> map g (update_where p f rows) = map g rows"
  by (simp add: update_where_def)

lemma filter_update_where_none:
  "(\<And>r. r \<in> set rows \<Longrightarrow> q r \<Longrightarrow> p r) \<Longrightarrow> (\<And>r. p r \<Longrightarrow> \<not> q (f r)) \<Longrightarrow>
     filter q (update_where p f rows) = []"
  by (induction rows) auto

lemma filter_update_where_disjoint:
  "(\<And>r. p r \<Longrightarrow> \<not> q r) \<Longrightarrow> (\<And>r. p r \<Longrightarrow> \<not> q (f r)) \<Longrightarrow>
     filter q (update_where p f rows) = filter q rows"
  by (induction rows) auto

lemma filter_update_where_keep:
  "(\<And>r. q (f r) = q r) \<Longrightarrow> filter q (update_where p f rows) = update_where p f (filter q rows)"
  by (induction rows) auto

lemma count_where_Nil [table_simps, simp]: "count_where p [] = 0"
  by (simp add: count_where_def)

lemma count_where_Cons [table_simps, simp]:
  "count_where p (r # rs) = (if p r then Suc (count_where p rs) else count_where p rs)"
  by (simp add: count_where_def)

lemma count_where_append [table_simps, simp]:
  "count_where p (xs @ ys) = count_where p xs + count_where p ys"
  by (simp add: count_where_def)

lemma count_where_zero: "count_where p rows = 0 \<longleftrightarrow> (\<forall>r \<in> set rows. \<not> p r)"
  by (induction rows) auto

lemma count_update_where_none:
  "(\<And>r. q r \<Longrightarrow> p r) \<Longrightarrow> (\<And>r. p r \<Longrightarrow> \<not> q (f r)) \<Longrightarrow> count_where q (update_where p f rows) = 0"
  by (induction rows) auto

lemma count_update_where_same:
  "(\<And>r. p r \<Longrightarrow> q (f r) = q r) \<Longrightarrow> count_where q (update_where p f rows) = count_where q rows"
  by (induction rows) auto

lemma first_asc_None [simp]: "first_asc key rs = None \<longleftrightarrow> rs = []"
  by (cases rs) (auto split: option.splits)

lemma first_asc_Some:
  "first_asc key rs = Some r \<Longrightarrow> r \<in> set rs \<and> (\<forall>q \<in> set rs. key r \<le> key q)"
  by (induction rs arbitrary: r) (fastforce split: option.splits if_splits)+

lemma first_desc_None [simp]: "first_desc key rs = None \<longleftrightarrow> rs = []"
  by (cases rs) (auto split: option.splits)

lemma first_desc_Some:
  "first_desc key rs = Some r \<Longrightarrow> r \<in> set rs \<and> (\<forall>q \<in> set rs. key q \<le> key r)"
  by (induction rs arbitrary: r) (fastforce split: option.splits if_splits)+

text \<open>A \<open>findFirst\<close> over the rows that satisfy a condition returns one of them.\<close>
lemma first_asc_filter:
  "first_asc key (filter p rows) = Some r \<Longrightarrow> r \<in> set rows \<and> p r"
  by (auto dest: first_asc_Some)

lemma first_desc_filter:
  "first_desc key (filter p rows) = Some r \<Longrightarrow> r \<in> set rows \<and> p r"
  by (auto dest: first_desc_Some)

text \<open>\<open>findUnique\<close> by a key, after the writes.\<close>
lemma find_update_where:
  "(\<And>r. k (f r) = k r) \<Longrightarrow>
     find (\<lambda>r. k r = j) (update_where p f rows) = map_option (\<lambda>r. if p r then f r else r) (find (\<lambda>r. k r = j) rows)"
  by (induction rows) auto

lemma find_filter_key:
  "find (\<lambda>r. k r = j) (filter (\<lambda>r. k r \<noteq> i) rows) = (if j = i then None else find (\<lambda>r. k r = j) rows)"
  by (induction rows) auto

lemma find_append:
  "find p (xs @ ys) = (case find p xs of None \<Rightarrow> find p ys | Some r \<Rightarrow> Some r)"
  by (induction xs) auto

lemma find_Some_in: "find p xs = Some r \<Longrightarrow> r \<in> set xs \<and> p r"
  by (auto simp: find_Some_iff)

section \<open>Insertion-ordered maps\<close>

text \<open>
  A JavaScript \<open>Map\<close> iterates its keys in the order of their first insertion: \<open>set\<close> on a
  present key keeps its place, \<open>set\<close> on a new key appends, \<open>delete\<close> removes.  That is
  the association list with \<open>AList.update\<close> and \<open>AList.delete\<close> on distinct keys.
\<close>
type_synonym ('k, 'v) jsmap = "('k \<times> 'v) list"

abbreviation jm_get :: "('k, 'v) jsmap \<Rightarrow> 'k \<Rightarrow> 'v option" where
  "jm_get m k \<equiv> map_of m k"

abbreviation jm_set :: "'k \<Rightarrow> 'v \<Rightarrow> ('k, 'v) jsmap \<Rightarrow> ('k, 'v) jsmap" where
  "jm_set \<equiv> AList.update"

abbreviation jm_delete :: "'k \<Rightarrow> ('k, 'v) jsmap \<Rightarrow> ('k, 'v) jsmap" where
  "jm_delete \<equiv> AList.delete"

abbreviation jm_keys :: "('k, 'v) jsmap \<Rightarrow> 'k list" where
  "jm_keys m \<equiv> map fst m"

abbreviation jm_ok :: "('k, 'v) jsmap \<Rightarrow> bool" where
  "jm_ok m \<equiv> distinct (map fst m)"

lemma jm_get_set [map_simps]: "jm_get (jm_set k v m) k' = (if k' = k then Some v else jm_get m k')"
  by (simp add: update_conv)

lemma jm_get_delete [map_simps]: "jm_get (jm_delete k m) k' = (if k' = k then None else jm_get m k')"
  by (simp add: delete_conv)

lemma jm_ok_set [map_simps]: "jm_ok m \<Longrightarrow> jm_ok (jm_set k v m)"
  by (rule distinct_update)

lemma jm_ok_delete [map_simps]: "jm_ok m \<Longrightarrow> jm_ok (jm_delete k m)"
  by (rule distinct_delete)

lemma jm_keys_set [map_simps]:
  "jm_keys (jm_set k v m) = (if k \<in> set (jm_keys m) then jm_keys m else jm_keys m @ [k])"
  by (simp add: update_keys)

lemma jm_size_set [map_simps]:
  "length (jm_set k v m) = (if k \<in> set (jm_keys m) then length m else Suc (length m))"
proof -
  have "length (jm_set k v m) = length (jm_keys (jm_set k v m))" by simp
  also have "\<dots> = (if k \<in> set (jm_keys m) then length m else Suc (length m))"
    by (simp only: jm_keys_set) simp
  finally show ?thesis .
qed

lemma jm_keys_delete [map_simps]: "jm_keys (jm_delete k m) = filter (\<lambda>k'. k' \<noteq> k) (jm_keys m)"
  by (simp add: delete_keys removeAll_filter_not_eq) (rule filter_cong, auto)

lemma jm_delete_absent: "k \<notin> set (jm_keys m) \<Longrightarrow> jm_delete k m = m"
  by (simp add: delete_idem)

lemma jm_delete_first [map_simps]: "jm_ok ((k, v) # m) \<Longrightarrow> jm_delete k ((k, v) # m) = m"
  by (simp add: delete_idem)

lemma jm_length_delete: "length (jm_delete k m) \<le> length m"
  by (rule length_delete_le)

lemma jm_set_absent: "k \<notin> set (jm_keys m) \<Longrightarrow> jm_set k v m = m @ [(k, v)]"
  by (induction m) auto

lemma map_sum_Inr_iff: "map_sum id f x = Inr y \<longleftrightarrow> (\<exists>a. x = Inr a \<and> y = f a)"
  by (cases x) auto

end
