(* ===== verification/JsValue.thy ===== *)
theory JsValue
  imports Prelude
begin

text \<open>
  The values of parsed JSON text and the conversions of the language that the event pipeline
  applies to them: \<open>String(v)\<close>, \<open>Number(v)\<close>, \<open>===\<close> and \<open>??\<close>.  Numbers are
  exact rationals: the rounding of double arithmetic, and the overflow of a literal past the
  range of a double, are not modelled.  An absent property (undefined) is the value None of
  \<open>json option\<close>.
\<close>

datatype json =
    JNull
  | JBool bool
  | JNum rat
  | JStr string
  | JArr "json list"
  | JObj "(string \<times> json) list"

type_synonym json_object = "(string \<times> json) list"

text \<open>A property of an object that the text gave twice is the last one; the parser keeps one.\<close>
definition jo_get :: "json_object \<Rightarrow> string \<Rightarrow> json option" where
  "jo_get ob k = map_of ob k"

definition is_json_object :: "json \<Rightarrow> bool" where
  "is_json_object v = (case v of JObj _ \<Rightarrow> True | _ \<Rightarrow> False)"

text \<open>\<open>a ?? b\<close>: the right operand when the left one is null or undefined.\<close>
definition nullish :: "json option \<Rightarrow> json option \<Rightarrow> json option" where
  "nullish a b = (case a of None \<Rightarrow> b | Some JNull \<Rightarrow> b | Some v \<Rightarrow> Some v)"

text \<open>
  \<open>a === b\<close>.  Arrays and objects are compared by reference; two that were read from
  different messages are different references.
\<close>
fun js_same :: "json \<Rightarrow> json \<Rightarrow> bool" where
  "js_same JNull JNull = True"
| "js_same (JBool a) (JBool b) = (a = b)"
| "js_same (JNum a) (JNum b) = (a = b)"
| "js_same (JStr a) (JStr b) = (a = b)"
| "js_same _ _ = False"

fun js_scalar :: "json \<Rightarrow> bool" where
  "js_scalar (JArr _) = False"
| "js_scalar (JObj _) = False"
| "js_scalar _ = True"

lemma js_same_iff: "js_same a b \<longleftrightarrow> a = b \<and> js_scalar a"
  by (cases a; cases b) auto

lemma js_same_refl: "js_same a a = js_scalar a"
  by (simp add: js_same_iff)

lemma js_same_sym: "js_same a b = js_same b a"
  by (auto simp: js_same_iff)

section \<open>Extended numbers\<close>

text \<open>The results of \<open>Number\<close> other than NaN: the reals and the two infinities.\<close>
datatype jnum = NegInf | Fin rat | PosInf

instantiation jnum :: linorder
begin

fun less_eq_jnum :: "jnum \<Rightarrow> jnum \<Rightarrow> bool" where
  "less_eq_jnum NegInf b = True"
| "less_eq_jnum a PosInf = True"
| "less_eq_jnum (Fin a) (Fin b) = (a \<le> b)"
| "less_eq_jnum a b = False"

definition less_jnum :: "jnum \<Rightarrow> jnum \<Rightarrow> bool" where
  "less_jnum a b = (a \<le> b \<and> \<not> b \<le> a)"

instance
proof
  fix x y z :: jnum
  show "x < y \<longleftrightarrow> x \<le> y \<and> \<not> y \<le> x" by (simp add: less_jnum_def)
  show "x \<le> x" by (cases x) auto
  show "x \<le> y \<Longrightarrow> y \<le> z \<Longrightarrow> x \<le> z" by (cases x; cases y; cases z) auto
  show "x \<le> y \<Longrightarrow> y \<le> x \<Longrightarrow> x = y" by (cases x; cases y) auto
  show "x \<le> y \<or> y \<le> x" by (cases x; cases y) auto
qed

end

lemma Fin_less [simp]: "Fin a < Fin b \<longleftrightarrow> a < b"
  by (auto simp: less_jnum_def)

section \<open>Numbers to strings\<close>

definition digit_char :: "nat \<Rightarrow> char" where
  "digit_char d = char_of (48 + d)"

function nat_digits :: "nat \<Rightarrow> string" where
  "nat_digits n = (if n < 10 then [digit_char n] else nat_digits (n div 10) @ [digit_char (n mod 10)])"
  by pat_completeness auto
termination by (relation "measure id") auto

declare nat_digits.simps [simp del]

text \<open>The least number of decimals that make the value an integer, within the given bound.\<close>
fun decimals :: "nat \<Rightarrow> rat \<Rightarrow> nat" where
  "decimals 0 r = 0"
| "decimals (Suc n) r = (if r = of_int \<lfloor>r\<rfloor> then 0 else Suc (decimals n (10 * r)))"

text \<open>
  \<open>Number::toString\<close> for a positive value with digits \<open>s\<close> whose decimal point stands
  after the first \<open>n\<close> of them, in the cases of the language definition.
\<close>
definition place_point :: "string \<Rightarrow> int \<Rightarrow> string" where
  "place_point s n =
     (let k = int (length s); e = n - 1;
          ex = CHR ''e'' # (if e < 0 then CHR ''-'' # nat_digits (nat (- e)) else CHR ''+'' # nat_digits (nat e))
      in if k \<le> n \<and> n \<le> 21 then s @ replicate (nat (n - k)) (CHR ''0'')
         else if 0 < n \<and> n \<le> 21 then take (nat n) s @ CHR ''.'' # drop (nat n) s
         else if - 6 < n \<and> n \<le> 0 then ''0.'' @ replicate (nat (- n)) (CHR ''0'') @ s
         else if k = 1 then s @ ex
         else take 1 s @ CHR ''.'' # drop 1 s @ ex)"

definition strip_zeros :: "string \<Rightarrow> string" where
  "strip_zeros s = rev (dropWhile (\<lambda>c. c = CHR ''0'') (rev s))"

definition pos_to_string :: "rat \<Rightarrow> string" where
  "pos_to_string r =
     (let d = decimals 400 r; all = nat_digits (nat \<lfloor>r * 10 ^ d\<rfloor>)
      in place_point (strip_zeros all) (int (length all) - int d))"

definition num_to_string :: "rat \<Rightarrow> string" where
  "num_to_string r =
     (if r = 0 then ''0'' else if r < 0 then CHR ''-'' # pos_to_string (- r) else pos_to_string r)"

fun comma_join :: "string list \<Rightarrow> string" where
  "comma_join [] = []"
| "comma_join [x] = x"
| "comma_join (x # y # ys) = x @ CHR '','' # comma_join (y # ys)"

text \<open>\<open>String(v)\<close>; the elements of an array that are null print as the empty string.\<close>
fun js_string :: "json \<Rightarrow> string" where
  "js_string JNull = ''null''"
| "js_string (JBool b) = (if b then ''true'' else ''false'')"
| "js_string (JNum r) = num_to_string r"
| "js_string (JStr s) = s"
| "js_string (JArr xs) = comma_join (map (\<lambda>v. if v = JNull then [] else js_string v) xs)"
| "js_string (JObj _) = ''[object Object]''"

section \<open>Strings to numbers\<close>

definition char_code :: "char \<Rightarrow> nat" where
  "char_code c = of_char c"

definition is_digit :: "char \<Rightarrow> bool" where
  "is_digit c = (48 \<le> char_code c \<and> char_code c \<le> 57)"

text \<open>\<open>toLowerCase\<close> on the letters of the first 256 code points.\<close>
definition to_lower :: "char \<Rightarrow> char" where
  "to_lower c =
     (let n = char_code c
      in if 65 \<le> n \<and> n \<le> 90 \<or> 192 \<le> n \<and> n \<le> 222 \<and> n \<noteq> 215 then char_of (n + 32) else c)"

definition is_blank :: "char \<Rightarrow> bool" where
  "is_blank c = (char_code c \<in> {9, 10, 11, 12, 13, 32, 160})"

definition js_trim :: "string \<Rightarrow> string" where
  "js_trim s = rev (dropWhile is_blank (rev (dropWhile is_blank s)))"

definition hex_val :: "char \<Rightarrow> nat" where
  "hex_val c = (let n = char_code c in
     if n \<le> 57 then n - 48 else if n \<le> 70 then n - 55 else n - 87)"

definition nat_of_digits :: "nat \<Rightarrow> string \<Rightarrow> nat" where
  "nat_of_digits base ds = foldl (\<lambda>a c. base * a + hex_val c) 0 ds"

definition valid_digits :: "nat \<Rightarrow> string \<Rightarrow> bool" where
  "valid_digits base ds = (ds \<noteq> [] \<and>
     list_all (\<lambda>c. (is_digit c \<or> 65 \<le> char_code c \<and> char_code c \<le> 70 \<or> 97 \<le> char_code c \<and> char_code c \<le> 102)
                   \<and> hex_val c < base) ds)"

definition pow10 :: "int \<Rightarrow> rat" where
  "pow10 e = (if 0 \<le> e then 10 ^ nat e else 1 / 10 ^ nat (- e))"

text \<open>The exponent part of a decimal literal: absent, or e with an optionally signed integer.\<close>
fun exponent_part :: "string \<Rightarrow> int option" where
  "exponent_part [] = Some 0"
| "exponent_part (c # cs) =
     (if c \<noteq> CHR ''e'' \<and> c \<noteq> CHR ''E'' then None
      else (let (neg, ds) = (case cs of
                [] \<Rightarrow> (False, [])
              | d # ds \<Rightarrow> if d = CHR ''-'' then (True, ds) else if d = CHR ''+'' then (False, ds) else (False, cs))
            in if ds \<noteq> [] \<and> list_all is_digit ds
               then Some (if neg then - int (nat_of_digits 10 ds) else int (nat_of_digits 10 ds))
               else None))"

definition decimal_literal :: "string \<Rightarrow> rat option" where
  "decimal_literal s =
     (let ip = takeWhile is_digit s; r = dropWhile is_digit s;
          (fp, rest) = (case r of
              [] \<Rightarrow> ([], [])
            | c # cs \<Rightarrow> if c = CHR ''.'' then (takeWhile is_digit cs, dropWhile is_digit cs) else ([], r))
      in if ip = [] \<and> fp = [] then None
         else map_option (\<lambda>e. of_nat (nat_of_digits 10 (ip @ fp)) * pow10 (e - int (length fp)))
                (exponent_part rest))"

definition unsigned_literal :: "string \<Rightarrow> jnum option" where
  "unsigned_literal s = (if s = ''Infinity'' then Some PosInf else map_option Fin (decimal_literal s))"

fun negate :: "jnum \<Rightarrow> jnum" where
  "negate NegInf = PosInf"
| "negate PosInf = NegInf"
| "negate (Fin r) = Fin (- r)"

definition radix_literal :: "nat \<Rightarrow> string \<Rightarrow> jnum option" where
  "radix_literal base ds = (if valid_digits base ds then Some (Fin (of_nat (nat_of_digits base ds))) else None)"

text \<open>\<open>Number(s)\<close> on a string; None is NaN.\<close>
definition string_to_number :: "string \<Rightarrow> jnum option" where
  "string_to_number str =
     (case js_trim str of
        [] \<Rightarrow> Some (Fin 0)
      | c # cs \<Rightarrow>
          if c = CHR ''-'' then map_option negate (unsigned_literal cs)
          else if c = CHR ''+'' then unsigned_literal cs
          else if c = CHR ''0'' \<and> cs \<noteq> [] \<and> hd cs \<in> set ''xX'' then radix_literal 16 (tl cs)
          else if c = CHR ''0'' \<and> cs \<noteq> [] \<and> hd cs \<in> set ''oO'' then radix_literal 8 (tl cs)
          else if c = CHR ''0'' \<and> cs \<noteq> [] \<and> hd cs \<in> set ''bB'' then radix_literal 2 (tl cs)
          else unsigned_literal (c # cs))"

text \<open>\<open>Number(v)\<close>; an array converts through its string, an object is NaN.\<close>
definition js_number :: "json \<Rightarrow> jnum option" where
  "js_number v = (case v of
       JNull \<Rightarrow> Some (Fin 0)
     | JBool b \<Rightarrow> Some (Fin (if b then 1 else 0))
     | JNum r \<Rightarrow> Some (Fin r)
     | JStr s \<Rightarrow> string_to_number s
     | JArr xs \<Rightarrow> string_to_number (js_string v)
     | JObj _ \<Rightarrow> None)"

lemma js_number_JNum [simp]: "js_number (JNum r) = Some (Fin r)"
  by (simp add: js_number_def)

section \<open>Decimal digits\<close>

lemma char_code_digit: "d < 10 \<Longrightarrow> char_code (digit_char d) = 48 + d"
  by (simp add: char_code_def digit_char_def)

lemma nat_digits_chars: "c \<in> set (nat_digits n) \<Longrightarrow> is_digit c"
  by (induction n rule: nat_digits.induct)
     (subst (asm) (2) nat_digits.simps, auto simp: is_digit_def char_code_digit split: if_splits)

lemma nat_of_nat_digits: "nat_of_digits 10 (nat_digits n) = n"
proof (induction n rule: nat_digits.induct)
  case (1 n)
  show ?case
    by (subst nat_digits.simps)
       (use 1 in \<open>auto simp: nat_of_digits_def hex_val_def char_code_digit Let_def\<close>)
qed

lemma nat_digits_inj: "nat_digits a = nat_digits b \<longleftrightarrow> a = b"
  by (metis nat_of_nat_digits)

lemma nat_digits_ne: "nat_digits n \<noteq> []"
  by (subst nat_digits.simps) auto

end
