(* ===== verification/JsDate.thy ===== *)
theory JsDate
  imports JsValue
begin

text \<open>
  Calendar arithmetic of the \<open>Date\<close> object on UTC fields: days, the proleptic Gregorian
  calendar, and the ISO form that \<open>toISOString\<close> prints.
\<close>

definition day_ms :: int where "day_ms = 86400000"
definition hour_ms :: int where "hour_ms = 3600000"
definition minute_ms :: int where "minute_ms = 60000"

text \<open>Year, month (from 1) and day of the month of a number of days since 1970-01-01.\<close>
definition civil_of_days :: "int \<Rightarrow> int \<times> int \<times> int" where
  "civil_of_days n =
     (let z = n + 719468; era = z div 146097; doe = z mod 146097;
          yoe = (doe - doe div 1460 + doe div 36524 - doe div 146096) div 365;
          doy = doe - (365 * yoe + yoe div 4 - yoe div 100);
          mp = (5 * doy + 2) div 153;
          d = doy - (153 * mp + 2) div 5 + 1;
          m = (if mp < 10 then mp + 3 else mp - 9)
      in (yoe + era * 400 + (if m \<le> 2 then 1 else 0), m, d))"

text \<open>Decimal digits of a number, padded on the left with zeros to the given width.\<close>
definition pad :: "nat \<Rightarrow> int \<Rightarrow> string" where
  "pad w n = (let s = nat_digits (nat n) in replicate (w - length s) (CHR ''0'') @ s)"

definition iso_year :: "int \<Rightarrow> string" where
  "iso_year y = (if 0 \<le> y \<and> y \<le> 9999 then pad 4 y
                 else if y < 0 then CHR ''-'' # pad 6 (- y) else CHR ''+'' # pad 6 y)"

definition to_iso_string :: "ms \<Rightarrow> string" where
  "to_iso_string t =
     (let (y, m, d) = civil_of_days (t div day_ms); r = t mod day_ms
      in iso_year y @ ''-'' @ pad 2 m @ ''-'' @ pad 2 d @ ''T''
         @ pad 2 (r div hour_ms) @ '':'' @ pad 2 (r div minute_ms mod 60) @ '':''
         @ pad 2 (r div 1000 mod 60) @ ''.'' @ pad 3 (r mod 1000) @ ''Z'')"

text \<open>\<open>new Date(v)\<close> on a number: truncated towards zero, invalid outside the range of dates.\<close>
definition date_of_number :: "rat \<Rightarrow> ms option" where
  "date_of_number v =
     (let t = (if v < 0 then \<lceil>v\<rceil> else \<lfloor>v\<rfloor>)
      in if \<bar>v\<bar> \<le> 8640000000000000 then Some t else None)"

end
