(* ===== verification/Events.thy ===== *)
theory Events
  imports JsDate
begin

text \<open>
  The messages of the event pipeline (\<open>pipeline/types.ts\<close>, \<open>pipeline/parser.ts\<close>), the point
  readings they carry (\<open>station-events/point-reading.ts\<close>), the preprocessor that splits and
  calibrates a message of points (\<open>preprocessors/points-split-enricher.ts\<close>) and the
  conversion of one point to an ingest event (\<open>processors/http-events-processor.ts\<close>).
\<close>

section \<open>Topics\<close>

datatype resource = Health | Points
datatype topic_scope = GatewayScope | DeviceScope

record topic_metadata =
  tm_family :: string
  tm_version :: string
  tm_gateway :: string
  tm_device :: "string option"
  tm_resource :: resource
  tm_scope :: topic_scope

definition slash :: char where "slash = CHR ''/''"

text \<open>\<open>s.split("/")\<close>.\<close>
fun split_slash :: "string \<Rightarrow> string list" where
  "split_slash [] = [[]]"
| "split_slash (c # cs) =
     (if c = slash then [] # split_slash cs
      else (case split_slash cs of [] \<Rightarrow> [[c]] | s # ss \<Rightarrow> (c # s) # ss))"

fun join_slash :: "string list \<Rightarrow> string" where
  "join_slash [] = []"
| "join_slash [s] = s"
| "join_slash (s # t # ts) = s @ slash # join_slash (t # ts)"

definition strip_trailing_slashes :: "string \<Rightarrow> string" where
  "strip_trailing_slashes s = rev (dropWhile (\<lambda>c. c = slash) (rev s))"

definition drop_leading_slash :: "string \<Rightarrow> string" where
  "drop_leading_slash s = (case s of [] \<Rightarrow> [] | c # cs \<Rightarrow> if c = slash then cs else s)"

definition line_char :: "char \<Rightarrow> bool" where
  "line_char c = (char_code c \<noteq> 10 \<and> char_code c \<noteq> 13)"

text \<open>The group of \<open>/^v(.+)$/\<close>; the dot matches no line terminator.\<close>
definition version_match :: "string \<Rightarrow> string option" where
  "version_match tok = (case tok of [] \<Rightarrow> None
     | c # v \<Rightarrow> if c = CHR ''v'' \<and> v \<noteq> [] \<and> list_all line_char v then Some v else None)"

definition parse_segments :: "string list \<Rightarrow> topic_metadata option" where
  "parse_segments segs =
     (if length segs < 5 then None
      else if segs ! 0 \<noteq> ''Rockware'' \<or> segs ! 2 \<noteq> ''Gateway'' then None
      else (case version_match (segs ! 1) of
          None \<Rightarrow> None
        | Some v \<Rightarrow>
            if segs ! 3 = [] then None
            else if length segs = 5 \<and> segs ! 4 = ''Health'' then
              Some \<lparr>tm_family = ''rockware'', tm_version = v, tm_gateway = segs ! 3,
                    tm_device = None, tm_resource = Health, tm_scope = GatewayScope\<rparr>
            else if length segs = 7 \<and> segs ! 4 = ''Device'' \<and> (segs ! 6 = ''Health'' \<or> segs ! 6 = ''Points'') then
              (if segs ! 5 = [] then None
               else Some \<lparr>tm_family = ''rockware'', tm_version = v, tm_gateway = segs ! 3,
                    tm_device = Some (segs ! 5),
                    tm_resource = (if segs ! 6 = ''Health'' then Health else Points),
                    tm_scope = DeviceScope\<rparr>)
            else None))"

definition parse_topic_metadata :: "string \<Rightarrow> topic_metadata option" where
  "parse_topic_metadata topic =
     parse_segments (split_slash (drop_leading_slash (strip_trailing_slashes topic)))"

section \<open>Messages\<close>

datatype quality = Good | Bad | Unknown
datatype snapshot_source = FromStream | FromRpc

record tag_snapshot =
  ts_key :: string
  ts_point :: string
  ts_value :: json
  ts_previous :: json
  ts_quality :: "quality option"
  ts_timestamp :: "string option"
  ts_gateway_timestamp :: "string option"
  ts_processor_timestamp :: "string option"
  ts_observed_at :: string
  ts_source :: snapshot_source

record parsed_event =
  pe_id :: string
  pe_topic :: string
  pe_metadata :: "topic_metadata option"
  pe_received_at :: ms
  pe_parsed_at :: ms
  pe_payload :: json
  pe_raw :: string
  pe_tag_snapshots :: "(string, tag_snapshot) jsmap option"

definition max_safe_integer :: nat where
  "max_safe_integer = 9007199254740991"

text \<open>The module's counter is threaded; the id ends with its new value.\<close>
definition next_event_id :: "nat \<Rightarrow> string \<Rightarrow> ms \<Rightarrow> nat \<times> string" where
  "next_event_id counter topic received_at =
     (let c = (counter + 1) mod max_safe_integer
      in (c, topic @ '':'' @ num_to_string (of_int received_at) @ '':'' @ nat_digits c))"

datatype parse_error = InvalidJson string | InvalidPayload string

text \<open>
  \<open>parseMessage\<close>.  \<open>parsed\<close> is what \<open>JSON.parse\<close> makes of the raw bytes (None: it throws),
  \<open>now\<close> the clock.  A failed message leaves the counter alone.
\<close>
definition parse_message ::
  "nat \<Rightarrow> string \<Rightarrow> string \<Rightarrow> ms \<Rightarrow> json option \<Rightarrow> ms \<Rightarrow> nat \<times> (parse_error + parsed_event)" where
  "parse_message counter topic raw received_at parsed now =
     (case parsed of
        None \<Rightarrow> (counter, Inl (InvalidJson topic))
      | Some v \<Rightarrow>
          if \<not> is_json_object v then (counter, Inl (InvalidPayload topic))
          else (let (c, i) = next_event_id counter topic received_at
                in (c, Inr \<lparr>pe_id = i, pe_topic = topic, pe_metadata = parse_topic_metadata topic,
                            pe_received_at = received_at, pe_parsed_at = now, pe_payload = v,
                            pe_raw = raw, pe_tag_snapshots = None\<rparr>)))"

section \<open>Point readings\<close>

record point_reading =
  pr_point :: string
  pr_device :: "string option"
  pr_value :: json
  pr_previous :: "json option"
  pr_quality :: "quality option"
  pr_timestamp :: "string option"
  pr_gateway_timestamp :: "string option"

definition normalize_quality :: "json option \<Rightarrow> quality option" where
  "normalize_quality v =
     (if v = Some (JStr ''GOOD'') then Some Good
      else if v = Some (JStr ''BAD'') then Some Bad
      else if v = Some (JStr ''UNKNOWN'') then Some Unknown else None)"

definition normalize_timestamp :: "json option \<Rightarrow> string option" where
  "normalize_timestamp v = (case v of
       Some (JStr s) \<Rightarrow> if s \<noteq> [] then Some s else None
     | Some (JNum n) \<Rightarrow> map_option to_iso_string (date_of_number n)
     | _ \<Rightarrow> None)"

text \<open>A property that is a non-empty string.\<close>
definition string_prop :: "json_object \<Rightarrow> string \<Rightarrow> string option" where
  "string_prop ob k = (case jo_get ob k of
       Some (JStr s) \<Rightarrow> if s \<noteq> [] then Some s else None
     | _ \<Rightarrow> None)"

definition to_point_reading :: "json \<Rightarrow> string option \<Rightarrow> point_reading option" where
  "to_point_reading cand fallback = (case cand of
       JObj ob \<Rightarrow>
         (case string_prop ob ''id'' of
            None \<Rightarrow> None
          | Some pid \<Rightarrow>
              (case nullish (jo_get ob ''value'') (jo_get ob ''valueRaw'') of
                 None \<Rightarrow> None
               | Some v \<Rightarrow> Some
                   \<lparr>pr_point = pid,
                    pr_device = (case string_prop ob ''deviceId'' of Some d \<Rightarrow> Some d | None \<Rightarrow> fallback),
                    pr_value = v,
                    pr_previous = nullish (jo_get ob ''previousValue'') (jo_get ob ''previousValueRaw''),
                    pr_quality = normalize_quality (jo_get ob ''quality''),
                    pr_timestamp = normalize_timestamp (jo_get ob ''timestamp''),
                    pr_gateway_timestamp = normalize_timestamp (jo_get ob ''gatewayTimestamp'')\<rparr>))
     | _ \<Rightarrow> None)"

definition reading_keys :: "point_reading \<Rightarrow> string list" where
  "reading_keys r = [pr_point r]"

definition is_points_event :: "parsed_event \<Rightarrow> bool" where
  "is_points_event e = (case pe_metadata e of Some m \<Rightarrow> tm_resource m = Points | None \<Rightarrow> False)"

definition extract_point_readings :: "parsed_event \<Rightarrow> point_reading list" where
  "extract_point_readings e =
     (if \<not> is_points_event e then []
      else (case pe_payload e of
          JObj p \<Rightarrow>
            (let fallback = Option.bind (pe_metadata e) tm_device
             in (case jo_get p ''point'' of
                   Some c \<Rightarrow> (case to_point_reading c fallback of Some r \<Rightarrow> [r] | None \<Rightarrow> [])
                 | None \<Rightarrow>
                     (case jo_get p ''points'' of
                        Some (JArr cs) \<Rightarrow> List.map_filter (\<lambda>c. to_point_reading c fallback) cs
                      | _ \<Rightarrow> [])))
        | _ \<Rightarrow> []))"

section \<open>Splitting and calibrating a message of points\<close>

datatype failure_mode = Strict | BestEffort

record point_row =
  row_scale :: rat
  row_offset :: rat

definition to_finite_number :: "json option \<Rightarrow> rat option" where
  "to_finite_number v = (case v of Some (JNum n) \<Rightarrow> Some n | _ \<Rightarrow> None)"

text \<open>The rows of the calibration query; Inl is the failure of the query itself.\<close>
type_synonym point_query = "string \<Rightarrow> string + json_object list"

definition get_point_calibration :: "point_query \<Rightarrow> string \<Rightarrow> string + point_row option" where
  "get_point_calibration query pid = (case query pid of
       Inl err \<Rightarrow> Inl err
     | Inr [] \<Rightarrow> Inr None
     | Inr (row # _) \<Rightarrow>
         (case (to_finite_number (jo_get row ''scaleFactor''), to_finite_number (jo_get row ''offset'')) of
            (Some k, Some b) \<Rightarrow> Inr (Some \<lparr>row_scale = k, row_offset = b\<rparr>)
          | _ \<Rightarrow> Inr None))"

definition scale_point :: "rat \<Rightarrow> rat \<Rightarrow> rat \<Rightarrow> rat" where
  "scale_point raw k b = raw * k + b"

definition opt_set :: "string \<Rightarrow> rat option \<Rightarrow> json_object \<Rightarrow> json_object" where
  "opt_set k v ob = (case v of None \<Rightarrow> ob | Some n \<Rightarrow> jm_set k (JNum n) ob)"

text \<open>One candidate of the list: the point with its raw and its calibrated values.\<close>
definition enrich_point ::
  "failure_mode \<Rightarrow> point_query \<Rightarrow> string \<Rightarrow> json_object \<Rightarrow> string + json_object" where
  "enrich_point mode query fresh cand =
     (let p0 = jm_set ''pointValueId'' (JStr fresh) cand;
          pid = (case jo_get p0 ''id'' of Some (JStr s) \<Rightarrow> Some s | _ \<Rightarrow> None);
          raw = to_finite_number (jo_get p0 ''value'');
          p1 = opt_set ''valueRaw'' raw p0;
          raw_prev = to_finite_number (jo_get p1 ''previousValue'');
          p2 = opt_set ''previousValueRaw'' raw_prev p1
      in case (pid, raw) of
           (Some i, Some v) \<Rightarrow>
             if i = [] then Inr p2
             else (case get_point_calibration query i of
                 Inl err \<Rightarrow> if mode = Strict then Inl err else Inr p2
               | Inr None \<Rightarrow> if mode = Strict then Inl (''missing point calibration for '' @ i) else Inr p2
               | Inr (Some c) \<Rightarrow>
                   Inr (opt_set ''previousValue'' (map_option (\<lambda>r. scale_point r (row_scale c) (row_offset c)) raw_prev)
                     (jm_set ''value'' (JNum (scale_point v (row_scale c) (row_offset c))) p2)))
         | _ \<Rightarrow> Inr p2)"

definition derived_event :: "parsed_event \<Rightarrow> json_object \<Rightarrow> nat \<Rightarrow> json_object \<Rightarrow> parsed_event" where
  "derived_event ev base i point =
     ev\<lparr>pe_id := pe_id ev @ '':point:'' @ nat_digits i,
        pe_payload := JObj (jm_set ''point'' (JObj point) base)\<rparr>"

text \<open>The loop over \<open>points.entries()\<close>; \<open>fresh i\<close> is the UUID drawn at index i.\<close>
fun enrich_points ::
  "failure_mode \<Rightarrow> point_query \<Rightarrow> (nat \<Rightarrow> string) \<Rightarrow> parsed_event \<Rightarrow> json_object \<Rightarrow> nat \<Rightarrow> json list
     \<Rightarrow> string + parsed_event list" where
  "enrich_points mode query fresh ev base i [] = Inr []"
| "enrich_points mode query fresh ev base i (JObj ob # cs) =
     (case enrich_point mode query (fresh i) ob of
        Inl err \<Rightarrow> Inl err
      | Inr p \<Rightarrow> (case enrich_points mode query fresh ev base (Suc i) cs of
            Inl err \<Rightarrow> Inl err
          | Inr evs \<Rightarrow> Inr (derived_event ev base i p # evs)))"
| "enrich_points mode query fresh ev base i (_ # cs) = enrich_points mode query fresh ev base (Suc i) cs"

definition enrich_event ::
  "failure_mode \<Rightarrow> point_query \<Rightarrow> (nat \<Rightarrow> string) \<Rightarrow> parsed_event \<Rightarrow> string + parsed_event list" where
  "enrich_event mode query fresh ev =
     (if \<not> is_points_event ev then Inr [ev]
      else (case pe_payload ev of
          JObj p \<Rightarrow> (case jo_get p ''points'' of
              Some (JArr cs) \<Rightarrow> enrich_points mode query fresh ev (jm_delete ''points'' p) 0 cs
            | _ \<Rightarrow> Inr [ev])
        | _ \<Rightarrow> Inr [ev]))"

section \<open>Conversion to ingest events\<close>

record ingest_event =
  ie_id :: string
  ie_gateway :: string
  ie_point :: string
  ie_quality :: quality
  ie_value_raw :: json
  ie_previous_raw :: "json option"
  ie_value :: "rat option"
  ie_previous :: "rat option"
  ie_timestamp :: json
  ie_gateway_timestamp :: json
  ie_replayed :: bool

definition to_timestamp_value :: "json option \<Rightarrow> json option" where
  "to_timestamp_value v = (case v of
       Some (JNum n) \<Rightarrow> Some (JNum n)
     | Some (JStr s) \<Rightarrow> if s \<noteq> [] then Some (JStr s) else None
     | _ \<Rightarrow> None)"

definition ingest_quality :: "json option \<Rightarrow> quality" where
  "ingest_quality v = (case normalize_quality v of Some q \<Rightarrow> q | None \<Rightarrow> Unknown)"

text \<open>\<open>toPointValueIngestEvent\<close>; Inl is the reason for which the event is skipped.\<close>
definition to_ingest_event :: "parsed_event \<Rightarrow> string + ingest_event" where
  "to_ingest_event e =
     (case map_option tm_gateway (pe_metadata e) of
        None \<Rightarrow> Inl ''gateway_id_missing''
      | Some gw \<Rightarrow> if gw = [] then Inl ''gateway_id_missing'' else
     (case pe_payload e of JObj p \<Rightarrow>
       (case jo_get p ''point'' of Some (JObj point) \<Rightarrow>
         (case string_prop point ''id'' of None \<Rightarrow> Inl ''point_id_missing'' | Some pid \<Rightarrow>
         (case string_prop point ''pointValueId'' of None \<Rightarrow> Inl ''point_value_id_missing'' | Some vid \<Rightarrow>
         (case to_timestamp_value (jo_get point ''timestamp'') of None \<Rightarrow> Inl ''timestamp_missing'' | Some t \<Rightarrow>
         (case to_timestamp_value (jo_get point ''gatewayTimestamp'') of
            None \<Rightarrow> Inl ''gateway_timestamp_missing'' | Some gt \<Rightarrow>
         (case nullish (jo_get point ''valueRaw'') (jo_get point ''value'') of
            None \<Rightarrow> Inl ''value_raw_missing''
          | Some vr \<Rightarrow> Inr
              \<lparr>ie_id = vid, ie_gateway = gw, ie_point = pid,
               ie_quality = ingest_quality (jo_get point ''quality''), ie_value_raw = vr,
               ie_previous_raw = nullish (jo_get point ''previousValueRaw'') (jo_get point ''previousValue''),
               ie_value = to_finite_number (jo_get point ''value''),
               ie_previous = to_finite_number (jo_get point ''previousValue''),
               ie_timestamp = t, ie_gateway_timestamp = gt,
               ie_replayed = (jo_get p ''replayed'' = Some (JBool True))\<rparr>)))))
        | _ \<Rightarrow> Inl ''payload_point_missing'')
      | _ \<Rightarrow> Inl ''payload_not_object''))"

section \<open>Topics: the parser inverts the topic names of gateways and devices\<close>

definition topic_segments :: "topic_metadata \<Rightarrow> string list" where
  "topic_segments m =
     [''Rockware'', CHR ''v'' # tm_version m, ''Gateway'', tm_gateway m]
     @ (case tm_device m of None \<Rightarrow> [''Health'']
        | Some d \<Rightarrow> [''Device'', d, if tm_resource m = Health then ''Health'' else ''Points''])"

definition topic_name :: "topic_metadata \<Rightarrow> string" where
  "topic_name m = join_slash (topic_segments m)"

definition topic_ok :: "topic_metadata \<Rightarrow> bool" where
  "topic_ok m \<longleftrightarrow> tm_family m = ''rockware''
     \<and> tm_version m \<noteq> [] \<and> list_all line_char (tm_version m) \<and> slash \<notin> set (tm_version m)
     \<and> tm_gateway m \<noteq> [] \<and> slash \<notin> set (tm_gateway m)
     \<and> (case tm_device m of
          None \<Rightarrow> tm_resource m = Health \<and> tm_scope m = GatewayScope
        | Some d \<Rightarrow> d \<noteq> [] \<and> slash \<notin> set d \<and> tm_scope m = DeviceScope)"

lemma split_slash_ne [simp]: "split_slash s \<noteq> []"
  by (cases s) (auto split: list.splits)

lemma join_split [simp]: "join_slash (split_slash s) = s"
proof (induction s)
  case (Cons c cs)
  obtain t ts where "split_slash cs = t # ts" by (cases "split_slash cs") auto
  with Cons show ?case by (cases ts) auto
qed simp

lemma split_no_slash: "t \<in> set (split_slash s) \<Longrightarrow> slash \<notin> set t"
  by (induction s arbitrary: t) (auto split: list.splits if_splits)

lemma split_word: "slash \<notin> set s \<Longrightarrow> split_slash s = [s]"
  by (induction s) auto

lemma split_append: "slash \<notin> set s \<Longrightarrow> split_slash (s @ slash # r) = s # split_slash r"
  by (induction s) auto

lemma split_join: "ss \<noteq> [] \<Longrightarrow> \<forall>s \<in> set ss. slash \<notin> set s \<Longrightarrow> split_slash (join_slash ss) = ss"
  by (induction ss rule: join_slash.induct) (auto simp: split_word split_append)

lemma topic_segments_ok: "topic_ok m \<Longrightarrow> \<forall>s \<in> set (topic_segments m). slash \<notin> set s"
  by (auto simp: topic_ok_def topic_segments_def slash_def split: option.splits)

lemma version_match_Some: "version_match t = Some v \<longleftrightarrow> t = CHR ''v'' # v \<and> v \<noteq> [] \<and> list_all line_char v"
  by (auto simp: version_match_def split: list.splits)

lemma version_match_v: "version_match (CHR ''v'' # v) = (if v \<noteq> [] \<and> list_all line_char v then Some v else None)"
  by (simp add: version_match_def)

lemma length5: "length xs = 5 \<Longrightarrow> \<exists>a b c d e. xs = [a, b, c, d, e]"
  by (auto simp: length_Suc_conv numeral_nat)

lemma length7: "length xs = 7 \<Longrightarrow> \<exists>a b c d e f g. xs = [a, b, c, d, e, f, g]"
  by (auto simp: length_Suc_conv numeral_nat)

lemma parse_segments_sound5:
  assumes ok: "\<forall>s \<in> set [a, b, c, d, e]. slash \<notin> set s" and p: "parse_segments [a, b, c, d, e] = Some m"
  shows "topic_ok m \<and> [a, b, c, d, e] = topic_segments m"
proof -
  from p obtain v where "a = ''Rockware''" "c = ''Gateway''" "e = ''Health''" "d \<noteq> []" "version_match b = Some v"
      "m = \<lparr>tm_family = ''rockware'', tm_version = v, tm_gateway = d, tm_device = None,
            tm_resource = Health, tm_scope = GatewayScope\<rparr>"
    by (simp add: parse_segments_def split: if_split_asm option.split_asm)
  with ok show ?thesis by (simp add: version_match_Some topic_ok_def topic_segments_def)
qed

lemma parse_segments_sound7:
  assumes ok: "\<forall>s \<in> set [a, b, c, d, e, f, g]. slash \<notin> set s"
    and p: "parse_segments [a, b, c, d, e, f, g] = Some m"
  shows "topic_ok m \<and> [a, b, c, d, e, f, g] = topic_segments m"
proof -
  from p obtain v where "a = ''Rockware''" "c = ''Gateway''" "e = ''Device''" "d \<noteq> []" "f \<noteq> []"
      "g = ''Health'' \<or> g = ''Points''" "version_match b = Some v"
      "m = \<lparr>tm_family = ''rockware'', tm_version = v, tm_gateway = d, tm_device = Some f,
            tm_resource = (if g = ''Health'' then Health else Points), tm_scope = DeviceScope\<rparr>"
    by (simp add: parse_segments_def split: if_split_asm option.split_asm)
  with ok show ?thesis by (elim disjE) (simp_all add: version_match_Some topic_ok_def topic_segments_def)
qed

lemma parse_segments_length: "parse_segments segs = Some m \<Longrightarrow> length segs = 5 \<or> length segs = 7"
  by (simp add: parse_segments_def split: if_split_asm option.split_asm)

lemma parse_segments_sound:
  assumes "\<forall>s \<in> set segs. slash \<notin> set s" "parse_segments segs = Some m"
  shows "topic_ok m \<and> segs = topic_segments m"
proof (rule disjE[OF parse_segments_length[OF assms(2)]])
  assume "length segs = 5"
  from length5[OF this] show ?thesis using parse_segments_sound5 assms by blast
next
  assume "length segs = 7"
  from length7[OF this] show ?thesis using parse_segments_sound7 assms by blast
qed

lemma parse_segments_complete: "topic_ok m \<Longrightarrow> parse_segments (topic_segments m) = Some m"
  by (cases "tm_resource m"; cases m)
     (auto simp: parse_segments_def topic_segments_def topic_ok_def version_match_v
       split: option.splits)

text \<open>
  the topic parser accepts exactly the gateway and device topics.  It returns metadata m
  iff m is well formed (a version and ids that are non-empty and hold no slash) and the topic,
  less its trailing slashes and one leading slash, is the name built from m: parsing inverts
  printing, and nothing else parses.
\<close>
theorem parse_topic_iff:
  "parse_topic_metadata t = Some m \<longleftrightarrow>
     topic_ok m \<and> drop_leading_slash (strip_trailing_slashes t) = topic_name m"
proof -
  let ?s = "drop_leading_slash (strip_trailing_slashes t)"
  have "topic_segments m \<noteq> []" by (simp add: topic_segments_def)
  then have name: "split_slash (topic_name m) = topic_segments m" if "topic_ok m"
    using split_join topic_segments_ok[OF that] by (simp add: topic_name_def)
  show ?thesis
    using parse_segments_sound[of "split_slash ?s" m] split_no_slash[of _ ?s] name
      parse_segments_complete[of m] join_split[of ?s]
    unfolding parse_topic_metadata_def topic_name_def by metis
qed

section \<open>Identifiers of messages\<close>

lemma colon_not_digit: "CHR '':'' \<notin> set (nat_digits n)"
  using nat_digits_chars[of "CHR '':''" n] by (auto simp: is_digit_def char_code_def)

text \<open>The part of an id after its last colon is the counter.\<close>
lemma id_counter:
  assumes "s @ '':'' @ nat_digits a = t @ '':'' @ nat_digits b"
  shows "a = b"
proof -
  have last: "takeWhile (\<lambda>c. c \<noteq> CHR '':'') (rev (s @ '':'' @ nat_digits a)) = rev (nat_digits a)" for s a
    using colon_not_digit[of a] by (auto simp: takeWhile_append2 takeWhile_tail)
  show ?thesis using last[of s a] last[of t b] assms by (metis nat_digits_inj rev_rev_ident)
qed

text \<open>The ids given to a sequence of (topic, received at) by a parser whose counter is c.\<close>
fun event_ids :: "nat \<Rightarrow> (string \<times> ms) list \<Rightarrow> string list" where
  "event_ids c [] = []"
| "event_ids c ((t, r) # ms) = (let (c', i) = next_event_id c t r in i # event_ids c' ms)"

lemma event_ids_nth:
  "n < length ms \<Longrightarrow> \<exists>p. event_ids c ms ! n = p @ '':'' @ nat_digits ((c + Suc n) mod max_safe_integer)"
proof (induction ms arbitrary: c n)
  case (Cons m ms)
  obtain t r where m: "m = (t, r)" by (cases m)
  show ?case
  proof (cases n)
    case 0
    show ?thesis
      by (rule exI[of _ "t @ '':'' @ num_to_string (of_int r)"])
         (simp add: 0 m next_event_id_def Let_def)
  next
    case (Suc k)
    with Cons.prems have "k < length ms" by simp
    from Cons.IH[OF this, of "(c + 1) mod max_safe_integer"] show ?thesis
      by (simp only: Suc m event_ids.simps next_event_id_def Let_def prod.case nth_Cons_Suc mod_add_left_eq)
         (simp add: mod_simps ac_simps)
  qed
qed simp

lemma length_event_ids [simp]: "length (event_ids c ms) = length ms"
  by (induction c ms rule: event_ids.induct) (auto simp: next_event_id_def Let_def)

text \<open>
  The ids that the parser gives to at most \<open>Number.MAX_SAFE_INTEGER\<close> consecutive
  messages are pairwise different, whatever their topics and arrival times are and wherever
  the wrapping counter starts.
\<close>
theorem event_ids_distinct:
  "length ms \<le> max_safe_integer \<Longrightarrow> distinct (event_ids c ms)"
proof -
  assume len: "length ms \<le> max_safe_integer"
  have "event_ids c ms ! i \<noteq> event_ids c ms ! j" if ij: "i < j" "j < length ms" for i j
  proof
    assume eq: "event_ids c ms ! i = event_ids c ms ! j"
    obtain p q where
      "event_ids c ms ! i = p @ '':'' @ nat_digits ((c + Suc i) mod max_safe_integer)"
      "event_ids c ms ! j = q @ '':'' @ nat_digits ((c + Suc j) mod max_safe_integer)"
      using event_ids_nth[of i ms c] event_ids_nth[of j ms c] ij by auto
    then have "(c + Suc i) mod max_safe_integer = (c + Suc j) mod max_safe_integer"
      using id_counter[of p _ q] eq by metis
    then have "max_safe_integer dvd (c + Suc j) - (c + Suc i)"
      using ij by (metis mod_eq_dvd_iff_nat nat_add_left_cancel_le Suc_le_mono less_imp_le)
    then have "max_safe_integer dvd j - i" by simp
    with ij len show False by (metis dvd_imp_le less_imp_diff_less linorder_not_le order_less_le_trans zero_less_diff)
  qed
  then show ?thesis
    unfolding distinct_conv_nth length_event_ids by (metis linorder_neqE_nat)
qed

theorem event_ids_distinct_witness:
  "distinct (event_ids (max_safe_integer - 1) [(''a:1'', 5), (''a'', 15), (''a'', 15)])"
  by (rule event_ids_distinct) (simp add: max_safe_integer_def)

section \<open>What the enricher emits\<close>

lemma jo_get_set [map_simps]: "jo_get (jm_set k v ob) k' = (if k' = k then Some v else jo_get ob k')"
  by (simp add: jo_get_def update_conv)

lemma jo_get_opt_set [map_simps]:
  "jo_get (opt_set k n ob) k' = (if k' = k \<and> n \<noteq> None then Some (JNum (the n)) else jo_get ob k')"
  by (auto simp: opt_set_def map_simps split: option.splits)

lemma to_finite_number_Some [simp]: "to_finite_number v = Some n \<longleftrightarrow> v = Some (JNum n)"
  by (auto simp: to_finite_number_def split: option.splits json.splits)

text \<open>A point as the strict enricher must emit it for the candidate ob.\<close>
definition calibrated_point :: "point_query \<Rightarrow> string \<Rightarrow> json_object \<Rightarrow> json_object \<Rightarrow> bool" where
  "calibrated_point query u ob p \<longleftrightarrow>
     jo_get p ''pointValueId'' = Some (JStr u) \<and> jo_get p ''id'' = jo_get ob ''id''
     \<and> (\<forall>pid raw. jo_get ob ''id'' = Some (JStr pid) \<and> pid \<noteq> [] \<and> jo_get ob ''value'' = Some (JNum raw) \<longrightarrow>
          (\<exists>c. get_point_calibration query pid = Inr (Some c)
             \<and> jo_get p ''valueRaw'' = Some (JNum raw)
             \<and> jo_get p ''value'' = Some (JNum (raw * row_scale c + row_offset c))
             \<and> (\<forall>r. jo_get ob ''previousValue'' = Some (JNum r) \<longrightarrow>
                  jo_get p ''previousValue'' = Some (JNum (r * row_scale c + row_offset c)))))"

lemma enrich_point_id:
  "enrich_point mode query u ob = Inr p \<Longrightarrow>
     jo_get p ''pointValueId'' = Some (JStr u) \<and> jo_get p ''id'' = jo_get ob ''id''"
  unfolding enrich_point_def Let_def
  by (auto simp: map_simps split: option.splits sum.splits if_split_asm)

lemma enrich_point_value:
  assumes "enrich_point Strict query u ob = Inr p"
    and "jo_get ob ''id'' = Some (JStr pid)" "pid \<noteq> []" "jo_get ob ''value'' = Some (JNum raw)"
  shows "\<exists>c. get_point_calibration query pid = Inr (Some c)
     \<and> jo_get p ''valueRaw'' = Some (JNum raw)
     \<and> jo_get p ''value'' = Some (JNum (raw * row_scale c + row_offset c))
     \<and> (\<forall>r. jo_get ob ''previousValue'' = Some (JNum r) \<longrightarrow>
          jo_get p ''previousValue'' = Some (JNum (r * row_scale c + row_offset c)))"
proof -
  have raw: "to_finite_number (Some (JNum raw)) = Some raw" by (simp add: to_finite_number_def)
  from assms obtain c where "get_point_calibration query pid = Inr (Some c)"
    by (auto simp: enrich_point_def Let_def map_simps raw split: sum.splits option.splits)
  with assms show ?thesis
    by (auto simp: enrich_point_def Let_def map_simps raw scale_point_def to_finite_number_def)
qed

lemma enrich_point_calibrated:
  "enrich_point Strict query u ob = Inr p \<Longrightarrow> calibrated_point query u ob p"
  using enrich_point_id enrich_point_value unfolding calibrated_point_def by meson

fun object_indexes :: "nat \<Rightarrow> json list \<Rightarrow> nat list" where
  "object_indexes i [] = []"
| "object_indexes i (c # cs) = (if is_json_object c then i # object_indexes (Suc i) cs else object_indexes (Suc i) cs)"

lemma enrich_points_ids:
  "enrich_points mode query fresh ev base i cs = Inr evs \<Longrightarrow>
     map pe_id evs = map (\<lambda>j. pe_id ev @ '':point:'' @ nat_digits j) (object_indexes i cs)"
  by (induction mode query fresh ev base i cs arbitrary: evs rule: enrich_points.induct)
     (auto simp: is_json_object_def derived_event_def split: sum.splits)

lemma enrich_points_strict:
  "enrich_points Strict query fresh ev base i cs = Inr evs \<Longrightarrow> d \<in> set evs \<Longrightarrow>
     \<exists>j ob p. j < length cs \<and> cs ! j = JObj ob \<and> d = derived_event ev base (i + j) p
       \<and> calibrated_point query (fresh (i + j)) ob p"
proof (induction cs arbitrary: i evs)
  case (Cons c cs)
  show ?case
  proof (cases "\<exists>ob. c = JObj ob")
    case True
    then obtain ob where c: "c = JObj ob" by blast
    with Cons.prems obtain p es where
      p: "enrich_point Strict query (fresh i) ob = Inr p" and
      es: "enrich_points Strict query fresh ev base (Suc i) cs = Inr es" and
      evs: "evs = derived_event ev base i p # es"
      by (auto split: sum.splits)
    show ?thesis
    proof (cases "d = derived_event ev base i p")
      case True
      with enrich_point_calibrated[OF p] c show ?thesis
        by (intro exI[of _ 0] exI[of _ ob] exI[of _ p]) simp
    next
      case False
      with evs Cons.prems(2) have "d \<in> set es" by auto
      from Cons.IH[OF es this] show ?thesis
        by (elim exE) (rule exI[of _ "Suc _"], fastforce)
    qed
  next
    case False
    with Cons.prems have "enrich_points Strict query fresh ev base (Suc i) cs = Inr evs"
      by (cases c) auto
    from Cons.IH[OF this Cons.prems(2)] show ?thesis
      by (elim exE) (rule exI[of _ "Suc _"], fastforce)
  qed
qed simp

lemma object_indexes_ge: "j \<in> set (object_indexes i cs) \<Longrightarrow> i \<le> j"
  by (induction cs arbitrary: i) (fastforce split: if_splits)+

lemma distinct_object_indexes: "distinct (object_indexes i cs)"
  by (induction cs arbitrary: i) (auto dest: object_indexes_ge)

text \<open>
  In strict mode the enricher that succeeds emits exactly one event per object of the
  points array, under pairwise different ids, and every emitted event carries a point that is
  calibrated: no numeric reading leaves the enricher unscaled (value = raw * scale + offset, the
  raw value kept beside it).
\<close>
theorem strict_enrichment:
  assumes pts: "is_points_event ev" "pe_payload ev = JObj pl" "jo_get pl ''points'' = Some (JArr cs)"
    and ok: "enrich_event Strict query fresh ev = Inr evs"
  shows "length evs = length (filter is_json_object cs) \<and> distinct (map pe_id evs)
    \<and> (\<forall>d \<in> set evs. \<exists>j ob p. j < length cs \<and> cs ! j = JObj ob
         \<and> d = derived_event ev (jm_delete ''points'' pl) j p
         \<and> calibrated_point query (fresh j) ob p)"
proof -
  let ?b = "jm_delete ''points'' pl"
  have e: "enrich_points Strict query fresh ev ?b 0 cs = Inr evs"
    using pts ok by (simp add: enrich_event_def)
  note ids = enrich_points_ids[OF e]
  have "length (object_indexes i cs) = length (filter is_json_object cs)" for i
    by (induction cs arbitrary: i) auto
  with arg_cong[OF ids, of length] have "length evs = length (filter is_json_object cs)" by simp
  moreover have "distinct (map pe_id evs)"
    unfolding ids using distinct_object_indexes by (simp add: distinct_map inj_on_def nat_digits_inj)
  moreover have "\<forall>d \<in> set evs. \<exists>j ob p. j < length cs \<and> cs ! j = JObj ob
         \<and> d = derived_event ev ?b j p \<and> calibrated_point query (fresh j) ob p"
    using enrich_points_strict[OF e] by fastforce
  ultimately show ?thesis by blast
qed

definition sample_metadata :: topic_metadata where
  "sample_metadata = \<lparr>tm_family = ''rockware'', tm_version = ''1'', tm_gateway = ''g'',
     tm_device = Some ''d'', tm_resource = Points, tm_scope = DeviceScope\<rparr>"

definition sample_points :: "json list" where
  "sample_points = [JNull, JObj [(''id'', JStr ''p''), (''value'', JNum 10)]]"

definition sample_event :: parsed_event where
  "sample_event = \<lparr>pe_id = ''e'', pe_topic = ''t'', pe_metadata = Some sample_metadata,
     pe_received_at = 0, pe_parsed_at = 0, pe_payload = JObj [(''points'', JArr sample_points)],
     pe_raw = [], pe_tag_snapshots = None\<rparr>"

definition sample_query :: point_query where
  "sample_query pid = Inr [[(''scaleFactor'', JNum 2), (''offset'', JNum 1)]]"

lemma sample_enrichment:
  "enrich_event Strict sample_query (\<lambda>_. ''u'') sample_event =
     Inr [derived_event sample_event [] 1 [(''id'', JStr ''p''), (''value'', JNum 21),
       (''pointValueId'', JStr ''u''), (''valueRaw'', JNum 10)]]"
  by (simp add: enrich_event_def sample_event_def sample_metadata_def is_points_event_def jo_get_def
      sample_points_def enrich_point_def sample_query_def get_point_calibration_def opt_set_def
      to_finite_number_def scale_point_def Let_def)

theorem strict_enrichment_witness:
  "\<exists>evs. enrich_event Strict sample_query (\<lambda>_. ''u'') sample_event = Inr evs \<and> length evs = 1
     \<and> distinct (map pe_id evs)"
proof -
  have a: "is_points_event sample_event"
    by (simp add: is_points_event_def sample_event_def sample_metadata_def)
  have b: "pe_payload sample_event = JObj [(''points'', JArr sample_points)]"
    by (simp add: sample_event_def)
  have c: "jo_get [(''points'', JArr sample_points)] ''points'' = Some (JArr sample_points)"
    by (simp add: jo_get_def)
  have d: "length (filter is_json_object sample_points) = 1"
    by (simp add: sample_points_def is_json_object_def)
  from strict_enrichment[OF a b c sample_enrichment, unfolded d] sample_enrichment show ?thesis by blast
qed

end
