(* ===== verification/Deque.thy ===== *)
theory Deque
  imports Prelude
begin

text \<open>
  The fixed-capacity ring buffer \<open>BoundedDeque\<close> of the event-processor runtime
  (\<open>apps/workers/.../pipeline/runtime/bounded-runtime.ts\<close>): the slots, the head index and
  the length as the class keeps them, its operations, and the proof that they implement the
  bounded first-in-first-out queue that the runtime relies on.
\<close>

record 'a deque =
  dq_buffer :: "'a option list"
  dq_head :: nat
  dq_length :: nat
  dq_capacity :: nat

definition dq_new :: "nat \<Rightarrow> 'a deque" where
  "dq_new capacity =
     \<lparr>dq_buffer = replicate capacity None, dq_head = 0, dq_length = 0, dq_capacity = capacity\<rparr>"

definition dq_size :: "'a deque \<Rightarrow> nat" where
  "dq_size q = dq_length q"

definition dq_is_full :: "'a deque \<Rightarrow> bool" where
  "dq_is_full q \<longleftrightarrow> dq_length q \<ge> dq_capacity q"

text \<open>\<open>push\<close> returns false, and stores nothing, when the buffer is full.\<close>
definition dq_push :: "'a \<Rightarrow> 'a deque \<Rightarrow> 'a deque \<times> bool" where
  "dq_push v q =
     (if dq_is_full q then (q, False)
      else (let tail = (dq_head q + dq_length q) mod dq_capacity q in
        (q\<lparr>dq_buffer := (dq_buffer q)[tail := Some v], dq_length := dq_length q + 1\<rparr>, True)))"

text \<open>\<open>shift\<close> returns undefined (None) on the empty buffer, and clears the slot it reads.\<close>
definition dq_shift :: "'a deque \<Rightarrow> 'a deque \<times> 'a option" where
  "dq_shift q =
     (if dq_length q = 0 then (q, None)
      else (let v = dq_buffer q ! dq_head q in
        (q\<lparr>dq_buffer := (dq_buffer q)[dq_head q := None],
           dq_head := (dq_head q + 1) mod dq_capacity q,
           dq_length := dq_length q - 1\<rparr>, v)))"

section \<open>Invariant and abstraction\<close>

text \<open>The slot that holds the \<open>i\<close>th queued element.\<close>
abbreviation dq_slot :: "'a deque \<Rightarrow> nat \<Rightarrow> nat" where
  "dq_slot q i \<equiv> (dq_head q + i) mod dq_capacity q"

text \<open>
  The indices are in range, every slot of the occupied window holds a value and every other
  slot has been cleared (so a dequeued event is not kept alive by the buffer).
\<close>
definition dq_wf :: "'a deque \<Rightarrow> bool" where
  "dq_wf q \<longleftrightarrow> length (dq_buffer q) = dq_capacity q
     \<and> dq_length q \<le> dq_capacity q
     \<and> (dq_capacity q = 0 \<or> dq_head q < dq_capacity q)
     \<and> (\<forall>i < dq_length q. dq_buffer q ! dq_slot q i \<noteq> None)
     \<and> (\<forall>i. dq_length q \<le> i \<and> i < dq_capacity q \<longrightarrow> dq_buffer q ! dq_slot q i = None)"

definition dq_list :: "'a deque \<Rightarrow> 'a list" where
  "dq_list q = map (\<lambda>i. the (dq_buffer q ! dq_slot q i)) [0 ..< dq_length q]"

lemma length_dq_list [simp]: "length (dq_list q) = dq_length q"
  by (simp add: dq_list_def)

lemma slot_inj:
  assumes "i < c" "j < c" "(h + i) mod c = (h + j) mod (c::nat)"
  shows "i = j"
proof -
  have *: "a = b" if "a \<le> b" "b < c" "(h + a) mod c = (h + b) mod c" for a b :: nat
  proof -
    from that have "c dvd (h + b) - (h + a)" by (metis mod_eq_dvd_iff_nat nat_add_left_cancel_le)
    then have "c dvd b - a" by simp
    with that show ?thesis by (metis diff_is_0_eq dvd_imp_le le_antisym less_imp_diff_less linorder_not_le zero_less_diff)
  qed
  from assms *[of i j] *[of j i] show ?thesis by (cases "i \<le> j") auto
qed

lemma slot_less: "0 < c \<Longrightarrow> (h + i) mod c < (c::nat)"
  by simp

lemma dq_new_wf: "dq_wf (dq_new n)"
  by (auto simp: dq_wf_def dq_new_def)

lemma dq_list_new: "dq_list (dq_new n) = []"
  by (simp add: dq_list_def dq_new_def)

lemma dq_push_full: "dq_wf q \<Longrightarrow> dq_length q = dq_capacity q \<Longrightarrow> dq_push v q = (q, False)"
  by (simp add: dq_push_def dq_is_full_def)

lemma dq_push_room:
  assumes wf: "dq_wf q" and room: "dq_length q < dq_capacity q"
  shows "\<exists>q'. dq_push v q = (q', True) \<and> dq_wf q' \<and> dq_list q' = dq_list q @ [v]
           \<and> dq_capacity q' = dq_capacity q"
proof -
  define t where "t = dq_slot q (dq_length q)"
  define q' where "q' = q\<lparr>dq_buffer := (dq_buffer q)[t := Some v], dq_length := dq_length q + 1\<rparr>"
  have p: "dq_push v q = (q', True)"
    using room by (simp add: dq_push_def dq_is_full_def Let_def q'_def t_def)
  have len: "length (dq_buffer q) = dq_capacity q" using wf by (simp add: dq_wf_def)
  have t: "t < length (dq_buffer q)" using room len by (simp add: t_def)
  have other: "(dq_buffer q)[t := Some v] ! dq_slot q i = dq_buffer q ! dq_slot q i"
    if "i \<noteq> dq_length q" "i < dq_capacity q" for i
  proof -
    have "dq_slot q i \<noteq> t"
      using that slot_inj[of i "dq_capacity q" "dq_length q" "dq_head q"] room by (auto simp: t_def)
    then show ?thesis by simp
  qed
  have at: "(dq_buffer q)[t := Some v] ! t = Some v" using t by simp
  have w: "dq_wf q'"
    using wf room other at
    by (auto simp: dq_wf_def q'_def less_Suc_eq t_def[symmetric] Suc_le_eq)
  have "dq_list q' = map (\<lambda>i. the ((dq_buffer q)[t := Some v] ! dq_slot q i)) [0 ..< dq_length q] @ [v]"
    using at by (simp add: dq_list_def q'_def t_def[symmetric])
  also have "\<dots> = dq_list q @ [v]"
    using other room by (simp add: dq_list_def)
  finally show ?thesis using p w by (auto simp: q'_def)
qed

lemma dq_shift_empty: "dq_list q = [] \<Longrightarrow> dq_shift q = (q, None)"
  by (simp add: dq_shift_def dq_list_def)

lemma slot_shift: "0 < c \<Longrightarrow> ((h + 1) mod c + i) mod c = (h + Suc i) mod (c::nat)"
  by (simp add: mod_add_left_eq)

lemma dq_shift_Cons:
  assumes wf: "dq_wf q" and ne: "dq_list q = x # xs"
  shows "\<exists>q'. dq_shift q = (q', Some x) \<and> dq_wf q' \<and> dq_list q' = xs
           \<and> dq_capacity q' = dq_capacity q"
proof -
  have n: "dq_length q = Suc (length xs)" using ne length_dq_list[of q] by simp
  then have cap: "0 < dq_capacity q" using wf by (auto simp: dq_wf_def)
  have h: "dq_head q < dq_capacity q" using wf cap by (auto simp: dq_wf_def)
  then have s0: "dq_slot q 0 = dq_head q" by simp
  have len: "length (dq_buffer q) = dq_capacity q" using wf by (simp add: dq_wf_def)
  define q' where "q' = q\<lparr>dq_buffer := (dq_buffer q)[dq_head q := None],
     dq_head := (dq_head q + 1) mod dq_capacity q, dq_length := dq_length q - 1\<rparr>"
  have slot': "dq_slot q' i = dq_slot q (Suc i)" for i
    using slot_shift[OF cap, of "dq_head q" i] by (simp add: q'_def)
  have other: "(dq_buffer q)[dq_head q := None] ! dq_slot q j = dq_buffer q ! dq_slot q j"
    if "0 < j" "j < dq_capacity q" for j
  proof -
    have "dq_slot q j \<noteq> dq_head q"
      using that slot_inj[of j "dq_capacity q" 0 "dq_head q"] cap s0 by auto
    then show ?thesis by simp
  qed
  have d: "[0 ..< dq_length q] = 0 # map Suc [0 ..< length xs]"
    unfolding n map_Suc_upt by (rule upt_conv_Cons) simp
  have xxs: "x # xs = the (dq_buffer q ! dq_slot q 0)
      # map (\<lambda>i. the (dq_buffer q ! dq_slot q (Suc i))) [0 ..< length xs]"
    using ne unfolding dq_list_def d by (simp add: comp_def)
  have "dq_buffer q ! dq_slot q 0 \<noteq> None" using wf n by (auto simp: dq_wf_def)
  with xxs s0 have head: "dq_buffer q ! dq_head q = Some x" by auto
  from xxs have tl: "xs = map (\<lambda>i. the (dq_buffer q ! dq_slot q (Suc i))) [0 ..< length xs]"
    by simp
  have le: "dq_length q \<le> dq_capacity q" using wf by (simp add: dq_wf_def)
  have o2: "(dq_buffer q)[dq_head q := None] ! dq_slot q (Suc i) = dq_buffer q ! dq_slot q (Suc i)"
    if "i < length xs" for i using other[of "Suc i"] that n le by simp
  have "dq_list q' = map (\<lambda>i. the (dq_buffer q ! dq_slot q (Suc i))) [0 ..< length xs]"
    unfolding dq_list_def slot' using n le o2 by (simp add: q'_def)
  with tl have l: "dq_list q' = xs" by simp
  have clear: "(dq_buffer q)[dq_head q := None] ! dq_slot q (Suc i) = None"
    if "dq_length q \<le> Suc i" "i < dq_capacity q" for i
  proof (cases "Suc i < dq_capacity q")
    case True
    with wf that have "dq_buffer q ! dq_slot q (Suc i) = None" unfolding dq_wf_def by blast
    then show ?thesis using other[of "Suc i"] True by simp
  next
    case False
    with that have "Suc i = dq_capacity q" by simp
    then have "dq_slot q (Suc i) = dq_head q" using h by simp
    then show ?thesis using h len by simp
  qed
  have held: "(dq_buffer q)[dq_head q := None] ! dq_slot q (Suc i) \<noteq> None" if "i < length xs" for i
  proof -
    have "Suc i < dq_length q" using that n by simp
    with wf have "dq_buffer q ! dq_slot q (Suc i) \<noteq> None" unfolding dq_wf_def by blast
    then show ?thesis using o2[OF that] by simp
  qed
  have "dq_wf q'"
    unfolding dq_wf_def slot' using n h len le cap held clear
    by (auto simp: q'_def)
  moreover have "dq_shift q = (q', Some x)"
    using n head by (simp add: dq_shift_def q'_def Let_def)
  ultimately show ?thesis using l by (auto simp: q'_def)
qed

section \<open>The queue interface\<close>

text \<open>What the runtime relies on: a bounded queue seen through its list of elements.\<close>
locale bounded_fifo =
  fixes push :: "'a \<Rightarrow> 'q \<Rightarrow> 'q \<times> bool"
    and shift :: "'q \<Rightarrow> 'q \<times> 'a option"
    and full :: "'q \<Rightarrow> bool"
    and items :: "'q \<Rightarrow> 'a list"
    and capacity :: "'q \<Rightarrow> nat"
    and wf :: "'q \<Rightarrow> bool"
  assumes bounded: "wf q \<Longrightarrow> length (items q) \<le> capacity q"
    and full_iff: "wf q \<Longrightarrow> full q \<longleftrightarrow> length (items q) = capacity q"
    and push_full: "wf q \<Longrightarrow> full q \<Longrightarrow> push v q = (q, False)"
    and push_room: "wf q \<Longrightarrow> \<not> full q \<Longrightarrow>
      \<exists>q'. push v q = (q', True) \<and> wf q' \<and> items q' = items q @ [v] \<and> capacity q' = capacity q"
    and shift_empty: "items q = [] \<Longrightarrow> shift q = (q, None)"
    and shift_Cons: "wf q \<Longrightarrow> items q = x # xs \<Longrightarrow>
      \<exists>q'. shift q = (q', Some x) \<and> wf q' \<and> items q' = xs \<and> capacity q' = capacity q"
begin

text \<open>The drop-oldest discipline: on a full queue the head is dropped to make room.\<close>
lemma drop_oldest:
  assumes wf: "wf q" and cap: "0 < capacity q"
  defines "q1 \<equiv> (if full q then fst (shift q) else q)"
  shows "items (fst (push v q1)) = (if full q then tl (items q) else items q) @ [v]
    \<and> wf (fst (push v q1)) \<and> capacity (fst (push v q1)) = capacity q"
proof (cases "full q")
  case False
  then show ?thesis using push_room[OF wf False, of v] by (auto simp: q1_def)
next
  case True
  then obtain x xs where q: "items q = x # xs"
    using full_iff[OF wf] cap by (cases "items q") auto
  from shift_Cons[OF wf q] obtain q' where
    q': "shift q = (q', Some x)" "wf q'" "items q' = xs" "capacity q' = capacity q" by blast
  have "\<not> full q'" using full_iff[OF q'(2)] full_iff[OF wf] True q q' by simp
  from push_room[OF q'(2) this, of v] q' q True show ?thesis by (auto simp: q1_def)
qed

lemma push_wf: "wf q \<Longrightarrow> wf (fst (push v q)) \<and> capacity (fst (push v q)) = capacity q"
  using push_full[of q v] push_room[of q v] by (cases "full q") auto

lemma shift_wf: "wf q \<Longrightarrow> wf (fst (shift q)) \<and> capacity (fst (shift q)) = capacity q
    \<and> items (fst (shift q)) = tl (items q)"
  using shift_empty[of q] shift_Cons[of q] by (cases "items q") fastforce+

end

interpretation dq: bounded_fifo dq_push dq_shift dq_is_full dq_list dq_capacity dq_wf
proof unfold_locales
  fix q :: "'a deque"
  show "dq_wf q \<Longrightarrow> length (dq_list q) \<le> dq_capacity q" by (simp add: dq_wf_def)
next
  fix q :: "'a deque"
  show "dq_wf q \<Longrightarrow> dq_is_full q \<longleftrightarrow> length (dq_list q) = dq_capacity q"
    by (auto simp: dq_wf_def dq_is_full_def)
next
  fix q :: "'a deque" and v
  show "dq_wf q \<Longrightarrow> dq_is_full q \<Longrightarrow> dq_push v q = (q, False)"
    by (simp add: dq_push_def)
next
  fix q :: "'a deque" and v
  assume "dq_wf q" "\<not> dq_is_full q"
  then show "\<exists>q'. dq_push v q = (q', True) \<and> dq_wf q' \<and> dq_list q' = dq_list q @ [v]
      \<and> dq_capacity q' = dq_capacity q"
    by (intro dq_push_room) (simp_all add: dq_is_full_def)
next
  fix q :: "'a deque"
  show "dq_list q = [] \<Longrightarrow> dq_shift q = (q, None)" by (rule dq_shift_empty)
next
  fix q :: "'a deque" and x xs
  show "dq_wf q \<Longrightarrow> dq_list q = x # xs \<Longrightarrow>
      \<exists>q'. dq_shift q = (q', Some x) \<and> dq_wf q' \<and> dq_list q' = xs \<and> dq_capacity q' = dq_capacity q"
    by (rule dq_shift_Cons)
qed

end
