(* ===== verification/Runtime.thy ===== *)
theory Runtime
  imports Deque Events
begin

text \<open>
  The bounded runtime that executes one event processor (\<open>createBoundedRuntime\<close> in
  \<open>pipeline/runtime/bounded-runtime.ts\<close>), the dispatcher in front of the runtimes
  (\<open>pipeline/dispatcher.ts\<close>) and the counters both update (\<open>pipeline/metrics.ts\<close>).  The
  callbacks of a started event are two steps, as in the promise chain: \<open>settle\<close> is the
  \<open>then\<close>/\<open>catch\<close> callback that counts the outcome, \<open>finish\<close> the \<open>finally\<close> callback that
  frees the slot and schedules again; submissions may come between them.
\<close>

section \<open>State\<close>

record proc_metrics =
  pm_submitted :: nat
  pm_rejected :: nat
  pm_ok :: nat
  pm_failed :: nat
  pm_dropped :: nat
  pm_queue_depth :: nat
  pm_in_flight :: int

definition zero_metrics :: proc_metrics where
  "zero_metrics = \<lparr>pm_submitted = 0, pm_rejected = 0, pm_ok = 0, pm_failed = 0, pm_dropped = 0,
     pm_queue_depth = 0, pm_in_flight = 0\<rparr>"

definition inc_submitted :: "proc_metrics \<Rightarrow> proc_metrics" where
  "inc_submitted m = m\<lparr>pm_submitted := pm_submitted m + 1\<rparr>"

definition inc_rejected :: "proc_metrics \<Rightarrow> proc_metrics" where
  "inc_rejected m = m\<lparr>pm_rejected := pm_rejected m + 1\<rparr>"

definition inc_processed_ok :: "proc_metrics \<Rightarrow> proc_metrics" where
  "inc_processed_ok m = m\<lparr>pm_ok := pm_ok m + 1\<rparr>"

definition inc_processed_failed :: "proc_metrics \<Rightarrow> proc_metrics" where
  "inc_processed_failed m = m\<lparr>pm_failed := pm_failed m + 1\<rparr>"

definition inc_dropped_oldest :: "proc_metrics \<Rightarrow> proc_metrics" where
  "inc_dropped_oldest m = m\<lparr>pm_dropped := pm_dropped m + 1\<rparr>"

definition set_queue_depth :: "nat \<Rightarrow> proc_metrics \<Rightarrow> proc_metrics" where
  "set_queue_depth n m = m\<lparr>pm_queue_depth := n\<rparr>"

definition set_in_flight :: "int \<Rightarrow> proc_metrics \<Rightarrow> proc_metrics" where
  "set_in_flight n m = m\<lparr>pm_in_flight := n\<rparr>"

text \<open>A started event whose promise chain has not run to its end.\<close>
record flight =
  fl_event :: parsed_event
  fl_started :: ms
  fl_settled :: bool

record runtime =
  rt_queue :: "parsed_event deque"
  rt_in_flight :: int
  rt_flights :: "flight list"
  rt_shutting_down :: bool
  rt_aborted :: bool
  rt_concurrency :: int
  rt_metrics :: proc_metrics
  rt_latencies :: "int list"
  rt_ages :: "int list"

definition update_queue_metric :: "runtime \<Rightarrow> runtime" where
  "update_queue_metric rt = rt\<lparr>rt_metrics := set_queue_depth (dq_size (rt_queue rt)) (rt_metrics rt)\<rparr>"

definition update_in_flight_metric :: "runtime \<Rightarrow> runtime" where
  "update_in_flight_metric rt = rt\<lparr>rt_metrics := set_in_flight (rt_in_flight rt) (rt_metrics rt)\<rparr>"

definition create_runtime :: "nat \<Rightarrow> int \<Rightarrow> runtime" where
  "create_runtime capacity concurrency =
     update_in_flight_metric (update_queue_metric
       \<lparr>rt_queue = dq_new capacity, rt_in_flight = 0, rt_flights = [], rt_shutting_down = False,
        rt_aborted = False, rt_concurrency = concurrency, rt_metrics = zero_metrics,
        rt_latencies = [], rt_ages = []\<rparr>)"

section \<open>Operations\<close>

text \<open>The start of one event: the slot is taken before the processor runs.\<close>
definition start_event :: "ms \<Rightarrow> parsed_event \<Rightarrow> runtime \<Rightarrow> runtime" where
  "start_event now e rt =
     (let rt1 = update_in_flight_metric (rt\<lparr>rt_in_flight := rt_in_flight rt + 1\<rparr>)
      in rt1\<lparr>rt_ages := (now - pe_received_at e) # rt_ages rt1,
             rt_flights := rt_flights rt1 @ [\<lparr>fl_event = e, fl_started = now, fl_settled = False\<rparr>]\<rparr>)"

lemma dq_shift_less: "dq_shift q = (q', v) \<Longrightarrow> 0 < dq_size q \<Longrightarrow> dq_length q' < dq_length q"
  by (auto simp: dq_shift_def dq_size_def Let_def)

function schedule :: "ms \<Rightarrow> runtime \<Rightarrow> runtime" where
  "schedule now rt =
     (if rt_in_flight rt < rt_concurrency rt \<and> 0 < dq_size (rt_queue rt) then
        (let (q, ev) = dq_shift (rt_queue rt); rt1 = update_queue_metric (rt\<lparr>rt_queue := q\<rparr>)
         in case ev of None \<Rightarrow> schedule now rt1 | Some e \<Rightarrow> schedule now (start_event now e rt1))
      else rt)"
  by pat_completeness auto

termination
proof (relation "measure (\<lambda>(now, rt). dq_length (rt_queue rt))", goal_cases)
  case (2 now rt x q ev rt1)
  then show ?case using dq_shift_less[of "rt_queue rt" q ev] by (simp add: update_queue_metric_def)
next
  case (3 now rt x q ev rt1 e)
  then show ?case using dq_shift_less[of "rt_queue rt" q ev]
    by (simp add: update_queue_metric_def start_event_def update_in_flight_metric_def Let_def)
qed simp

declare schedule.simps [simp del]

text \<open>Accepted carries whether the oldest queued event was dropped.\<close>
datatype submit_result = Accepted bool | ShuttingDown

definition submit :: "ms \<Rightarrow> parsed_event \<Rightarrow> runtime \<Rightarrow> runtime \<times> submit_result" where
  "submit now e rt =
     (if rt_shutting_down rt then (rt\<lparr>rt_metrics := inc_rejected (rt_metrics rt)\<rparr>, ShuttingDown)
      else (let full = dq_is_full (rt_queue rt);
                rt1 = (if full then rt\<lparr>rt_queue := fst (dq_shift (rt_queue rt)),
                                       rt_metrics := inc_dropped_oldest (rt_metrics rt)\<rparr> else rt);
                rt2 = update_queue_metric (rt1\<lparr>rt_queue := fst (dq_push e (rt_queue rt1))\<rparr>)
            in (schedule now rt2, Accepted full)))"

definition settle :: "nat \<Rightarrow> bool \<Rightarrow> runtime \<Rightarrow> runtime" where
  "settle i ok rt =
     rt\<lparr>rt_flights := (rt_flights rt)[i := (rt_flights rt ! i)\<lparr>fl_settled := True\<rparr>],
        rt_metrics := (if ok then inc_processed_ok else inc_processed_failed) (rt_metrics rt)\<rparr>"

definition remove_nth :: "nat \<Rightarrow> 'a list \<Rightarrow> 'a list" where
  "remove_nth i xs = take i xs @ drop (Suc i) xs"

definition finish :: "nat \<Rightarrow> ms \<Rightarrow> runtime \<Rightarrow> runtime" where
  "finish i now rt =
     schedule now (update_in_flight_metric
       (rt\<lparr>rt_latencies := (now - fl_started (rt_flights rt ! i)) # rt_latencies rt,
           rt_in_flight := rt_in_flight rt - 1,
           rt_flights := remove_nth i (rt_flights rt)\<rparr>))"

definition begin_shutdown :: "runtime \<Rightarrow> runtime" where
  "begin_shutdown rt = rt\<lparr>rt_shutting_down := True\<rparr>"

datatype drain_status = Waiting | Drained | TimedOut

text \<open>One evaluation of the drain loop's conditions; both exits abort the processors' signal.\<close>
definition drain_poll :: "ms \<Rightarrow> ms \<Rightarrow> ms \<Rightarrow> runtime \<Rightarrow> runtime \<times> drain_status" where
  "drain_poll started timeout now rt =
     (if 0 < dq_size (rt_queue rt) \<or> 0 < rt_in_flight rt then
        if now - started > timeout then (rt\<lparr>rt_aborted := True\<rparr>, TimedOut) else (rt, Waiting)
      else (rt\<lparr>rt_aborted := True\<rparr>, Drained))"

section \<open>Dispatcher\<close>

record 's preprocessor =
  pp_name :: string
  pp_mode :: "failure_mode option"
  pp_process :: "'s \<Rightarrow> parsed_event \<Rightarrow> 's \<times> (string + parsed_event list)"

definition pp_failure_mode :: "'s preprocessor \<Rightarrow> failure_mode" where
  "pp_failure_mode p = (case pp_mode p of None \<Rightarrow> Strict | Some m \<Rightarrow> m)"

text \<open>The inner loop: one preprocessor over the events that the previous one left.\<close>
fun run_preprocessor :: "'s preprocessor \<Rightarrow> 's \<Rightarrow> parsed_event list \<Rightarrow> 's \<times> (string + parsed_event list)" where
  "run_preprocessor p s [] = (s, Inr [])"
| "run_preprocessor p s (e # es) =
     (case pp_process p s e of
        (s1, Inr out) \<Rightarrow> (case run_preprocessor p s1 es of
             (s2, Inr rest) \<Rightarrow> (s2, Inr (out @ rest)) | (s2, Inl err) \<Rightarrow> (s2, Inl err))
      | (s1, Inl err) \<Rightarrow>
          if pp_failure_mode p = Strict then (s1, Inl err)
          else (case run_preprocessor p s1 es of
             (s2, Inr rest) \<Rightarrow> (s2, Inr (e # rest)) | (s2, Inl err') \<Rightarrow> (s2, Inl err')))"

fun run_preprocessors :: "'s preprocessor list \<Rightarrow> 's \<Rightarrow> parsed_event list \<Rightarrow> 's \<times> (string + parsed_event list)" where
  "run_preprocessors [] s es = (s, Inr es)"
| "run_preprocessors (p # ps) s es =
     (case run_preprocessor p s es of
        (s1, Inl err) \<Rightarrow> (s1, Inl err)
      | (s1, Inr out) \<Rightarrow> run_preprocessors ps s1 out)"

text \<open>An entry; Inl is a matcher that throws.\<close>
record entry =
  en_name :: string
  en_matches :: "parsed_event \<Rightarrow> string + bool"
  en_runtime :: runtime

definition dispatch_entry :: "ms \<Rightarrow> parsed_event \<Rightarrow> entry \<Rightarrow> entry" where
  "dispatch_entry now e en =
     (case en_matches en e of
        Inl _ \<Rightarrow> en
      | Inr False \<Rightarrow> en
      | Inr True \<Rightarrow>
          (let (rt, res) = submit now e (en_runtime en)
           in en\<lparr>en_runtime := rt\<lparr>rt_metrics :=
                (case res of Accepted _ \<Rightarrow> inc_submitted | ShuttingDown \<Rightarrow> inc_rejected) (rt_metrics rt)\<rparr>\<rparr>))"

text \<open>The tasks run in the order in which they were created: event by event, entry by entry.\<close>
definition dispatch_events :: "ms \<Rightarrow> parsed_event list \<Rightarrow> entry list \<Rightarrow> entry list" where
  "dispatch_events now es ens = foldl (\<lambda>ens e. map (dispatch_entry now e) ens) ens es"

definition dispatch ::
  "ms \<Rightarrow> 's preprocessor list \<Rightarrow> 's \<Rightarrow> parsed_event \<Rightarrow> entry list \<Rightarrow> 's \<times> entry list \<times> string option" where
  "dispatch now ps s e ens =
     (case run_preprocessors ps s [e] of
        (s1, Inl err) \<Rightarrow> (s1, ens, Some err)
      | (s1, Inr es) \<Rightarrow> (s1, dispatch_events now es ens, None))"

definition dispatcher_shutdown :: "entry list \<Rightarrow> entry list" where
  "dispatcher_shutdown ens = map (\<lambda>en. en\<lparr>en_runtime := begin_shutdown (en_runtime en)\<rparr>) ens"

section \<open>Invariant\<close>

text \<open>What holds between any two statements of the runtime's functions.\<close>
definition rt_pre :: "nat \<Rightarrow> int \<Rightarrow> runtime \<Rightarrow> bool" where
  "rt_pre cap conc rt \<longleftrightarrow> dq_wf (rt_queue rt) \<and> dq_capacity (rt_queue rt) = cap
     \<and> rt_concurrency rt = conc
     \<and> rt_in_flight rt = int (length (rt_flights rt)) \<and> rt_in_flight rt \<le> conc
     \<and> pm_queue_depth (rt_metrics rt) = dq_size (rt_queue rt)
     \<and> pm_in_flight (rt_metrics rt) = rt_in_flight rt"

text \<open>What holds between callbacks: besides, no event waits while a slot is free.\<close>
definition rt_ok :: "nat \<Rightarrow> int \<Rightarrow> runtime \<Rightarrow> bool" where
  "rt_ok cap conc rt \<longleftrightarrow> rt_pre cap conc rt \<and> (rt_in_flight rt < conc \<longrightarrow> dq_size (rt_queue rt) = 0)"

definition pm_core :: "proc_metrics \<Rightarrow> nat \<times> nat \<times> nat \<times> nat \<times> nat" where
  "pm_core m = (pm_submitted m, pm_rejected m, pm_ok m, pm_failed m, pm_dropped m)"

abbreviation queued :: "runtime \<Rightarrow> parsed_event list" where
  "queued rt \<equiv> dq_list (rt_queue rt)"

lemmas rt_step_defs = update_queue_metric_def update_in_flight_metric_def start_event_def
  set_queue_depth_def set_in_flight_def inc_submitted_def inc_rejected_def inc_processed_ok_def
  inc_processed_failed_def inc_dropped_oldest_def pm_core_def Let_def

lemma dq_size_list: "dq_size q = length (dq_list q)"
  by (simp add: dq_size_def)

lemma schedule_stop: "rt_in_flight rt \<ge> rt_concurrency rt \<or> queued rt = [] \<Longrightarrow> schedule now rt = rt"
  by (subst schedule.simps) (auto simp: dq_size_list simp del: length_dq_list)

lemma schedule_go:
  assumes "dq_wf (rt_queue rt)" "queued rt = x # xs" "rt_in_flight rt < rt_concurrency rt"
  shows "\<exists>q. dq_wf q \<and> dq_list q = xs \<and> dq_capacity q = dq_capacity (rt_queue rt) \<and>
    schedule now rt = schedule now (start_event now x (update_queue_metric (rt\<lparr>rt_queue := q\<rparr>)))"
proof -
  obtain q where "dq_shift (rt_queue rt) = (q, Some x)" "dq_wf q" "dq_list q = xs"
      "dq_capacity q = dq_capacity (rt_queue rt)"
    using dq.shift_Cons[OF assms(1,2)] by blast
  then show ?thesis
    using assms by (intro exI[of _ q]) (subst schedule.simps, simp add: dq_size_list)
qed

definition new_flight :: "ms \<Rightarrow> parsed_event \<Rightarrow> flight" where
  "new_flight now e = \<lparr>fl_event = e, fl_started = now, fl_settled = False\<rparr>"

text \<open>Scheduling starts the oldest queued events, as many as there are free slots.\<close>
lemma schedule_spec:
  assumes "rt_pre cap conc rt" and "n = min (nat (conc - rt_in_flight rt)) (length (queued rt))"
  shows "rt_ok cap conc (schedule now rt) \<and> queued (schedule now rt) = drop n (queued rt)
    \<and> rt_flights (schedule now rt) = rt_flights rt @ map (new_flight now) (take n (queued rt))
    \<and> pm_core (rt_metrics (schedule now rt)) = pm_core (rt_metrics rt)
    \<and> rt_shutting_down (schedule now rt) = rt_shutting_down rt
    \<and> rt_aborted (schedule now rt) = rt_aborted rt"
  using assms
proof (induction "queued rt" arbitrary: rt n)
  case Nil
  then show ?case by (simp add: schedule_stop rt_ok_def dq_size_list)
next
  case (Cons x xs)
  show ?case
  proof (cases "rt_in_flight rt < conc")
    case False
    with Cons.prems have "rt_in_flight rt \<ge> rt_concurrency rt" by (simp add: rt_pre_def)
    with False Cons.prems show ?thesis by (simp add: schedule_stop rt_ok_def)
  next
    case True
    have pre: "dq_wf (rt_queue rt)" "rt_concurrency rt = conc" "dq_capacity (rt_queue rt) = cap"
      using Cons.prems by (simp_all add: rt_pre_def)
    obtain q where q: "dq_wf q" "dq_list q = xs" "dq_capacity q = cap"
      and s: "schedule now rt = schedule now (start_event now x (update_queue_metric (rt\<lparr>rt_queue := q\<rparr>)))"
      using schedule_go[OF pre(1) Cons.hyps(2)[symmetric]] True pre by auto
    let ?r = "start_event now x (update_queue_metric (rt\<lparr>rt_queue := q\<rparr>))"
    have r: "queued ?r = xs" "rt_in_flight ?r = rt_in_flight rt + 1"
      "rt_flights ?r = rt_flights rt @ [new_flight now x]"
      "pm_core (rt_metrics ?r) = pm_core (rt_metrics rt)"
      "rt_shutting_down ?r = rt_shutting_down rt" "rt_aborted ?r = rt_aborted rt"
      using q by (simp_all add: rt_step_defs new_flight_def)
    have p: "rt_pre cap conc ?r"
      using Cons.prems(1) q True by (simp add: rt_pre_def rt_step_defs dq_size_list)
    let ?m = "min (nat (conc - rt_in_flight ?r)) (length (queued ?r))"
    have len: "length (queued rt) = Suc (length xs)" by (metis Cons.hyps(2) length_Cons)
    have "nat (conc - rt_in_flight rt) = Suc (nat (conc - (rt_in_flight rt + 1)))" using True by arith
    then have n: "n = Suc ?m" unfolding Cons.prems(2) len r(1,2) by simp
    from Cons.hyps(1)[OF r(1)[symmetric] p refl] show ?thesis
      unfolding s n using r Cons.hyps(2)[symmetric] by simp
  qed
qed

lemma schedule_ok: "rt_pre cap conc rt \<Longrightarrow> rt_ok cap conc (schedule now rt)"
  using schedule_spec[OF _ refl] by blast

lemma rt_pre_create: "0 < conc \<Longrightarrow> rt_ok cap conc (create_runtime cap conc)"
  by (simp add: rt_ok_def rt_pre_def create_runtime_def rt_step_defs dq_new_wf dq_size_list dq_list_new)
     (simp add: dq_new_def dq_list_new)

text \<open>The runtime just before the call of \<open>schedule\<close> in a submission, and what it queues.\<close>
definition enqueue :: "parsed_event \<Rightarrow> runtime \<Rightarrow> runtime" where
  "enqueue e rt =
     (let rt1 = (if dq_is_full (rt_queue rt) then rt\<lparr>rt_queue := fst (dq_shift (rt_queue rt)),
                       rt_metrics := inc_dropped_oldest (rt_metrics rt)\<rparr> else rt)
      in update_queue_metric (rt1\<lparr>rt_queue := fst (dq_push e (rt_queue rt1))\<rparr>))"

lemma submit_enqueue:
  "\<not> rt_shutting_down rt \<Longrightarrow> submit now e rt = (schedule now (enqueue e rt), Accepted (dq_is_full (rt_queue rt)))"
  by (simp add: submit_def enqueue_def Let_def)

lemma enqueue_spec:
  assumes pre: "rt_pre cap conc rt" and cap: "0 < cap"
  shows "rt_pre cap conc (enqueue e rt)
    \<and> queued (enqueue e rt) = (if dq_is_full (rt_queue rt) then tl (queued rt) else queued rt) @ [e]
    \<and> rt_in_flight (enqueue e rt) = rt_in_flight rt \<and> rt_flights (enqueue e rt) = rt_flights rt
    \<and> pm_dropped (rt_metrics (enqueue e rt)) = pm_dropped (rt_metrics rt) + of_bool (dq_is_full (rt_queue rt))
    \<and> pm_ok (rt_metrics (enqueue e rt)) = pm_ok (rt_metrics rt)
    \<and> pm_failed (rt_metrics (enqueue e rt)) = pm_failed (rt_metrics rt)
    \<and> rt_shutting_down (enqueue e rt) = rt_shutting_down rt"
proof -
  let ?q = "rt_queue rt"
  define q2 where "q2 = fst (dq_push e (if dq_is_full ?q then fst (dq_shift ?q) else ?q))"
  have "dq_wf ?q" "dq_capacity ?q = cap" using pre by (simp_all add: rt_pre_def)
  then have q2: "dq_list q2 = (if dq_is_full ?q then tl (dq_list ?q) else dq_list ?q) @ [e]"
      "dq_wf q2" "dq_capacity q2 = cap"
    using dq.drop_oldest[of ?q e] cap by (auto simp: q2_def)
  have q: "rt_queue (enqueue e rt) = q2" by (simp add: enqueue_def rt_step_defs q2_def)
  have f: "pm_queue_depth (rt_metrics (enqueue e rt)) = dq_size (rt_queue (enqueue e rt))"
    "pm_in_flight (rt_metrics (enqueue e rt)) = pm_in_flight (rt_metrics rt)"
    "rt_in_flight (enqueue e rt) = rt_in_flight rt" "rt_flights (enqueue e rt) = rt_flights rt"
    "rt_concurrency (enqueue e rt) = rt_concurrency rt"
    "pm_dropped (rt_metrics (enqueue e rt)) = pm_dropped (rt_metrics rt) + of_bool (dq_is_full ?q)"
    "pm_ok (rt_metrics (enqueue e rt)) = pm_ok (rt_metrics rt)"
    "pm_failed (rt_metrics (enqueue e rt)) = pm_failed (rt_metrics rt)"
    "rt_shutting_down (enqueue e rt) = rt_shutting_down rt"
    by (simp_all add: enqueue_def rt_step_defs)
  have "rt_pre cap conc (enqueue e rt)"
    using pre q2(2,3) unfolding rt_pre_def f q by simp
  with q2(1) f show ?thesis unfolding q by simp
qed

section \<open>Reachable runtimes\<close>

text \<open>
  The runtimes that can be reached by any interleaving of submissions, callbacks, counter
  updates of the dispatcher, shutdown and drain polls; the index lists the accepted events.
\<close>
inductive rt_reach :: "nat \<Rightarrow> int \<Rightarrow> parsed_event list \<Rightarrow> runtime \<Rightarrow> bool" for cap conc where
  create: "rt_reach cap conc [] (create_runtime cap conc)"
| accept: "rt_reach cap conc acc rt \<Longrightarrow> submit now e rt = (rt', Accepted d) \<Longrightarrow> rt_reach cap conc (acc @ [e]) rt'"
| refuse: "rt_reach cap conc acc rt \<Longrightarrow> submit now e rt = (rt', ShuttingDown) \<Longrightarrow> rt_reach cap conc acc rt'"
| count: "rt_reach cap conc acc rt \<Longrightarrow> f \<in> {inc_submitted, inc_rejected} \<Longrightarrow>
    rt_reach cap conc acc (rt\<lparr>rt_metrics := f (rt_metrics rt)\<rparr>)"
| outcome: "rt_reach cap conc acc rt \<Longrightarrow> i < length (rt_flights rt) \<Longrightarrow> \<not> fl_settled (rt_flights rt ! i) \<Longrightarrow>
    rt_reach cap conc acc (settle i ok rt)"
| release: "rt_reach cap conc acc rt \<Longrightarrow> i < length (rt_flights rt) \<Longrightarrow> fl_settled (rt_flights rt ! i) \<Longrightarrow>
    rt_reach cap conc acc (finish i now rt)"
| shutdown: "rt_reach cap conc acc rt \<Longrightarrow> rt_reach cap conc acc (begin_shutdown rt)"
| poll: "rt_reach cap conc acc rt \<Longrightarrow> rt_reach cap conc acc (fst (drain_poll started timeout now rt))"

abbreviation running :: "runtime \<Rightarrow> nat" where
  "running rt \<equiv> count_where (\<lambda>f. \<not> fl_settled f) (rt_flights rt)"

definition rt_accounts :: "parsed_event list \<Rightarrow> runtime \<Rightarrow> bool" where
  "rt_accounts acc rt \<longleftrightarrow>
     length acc = pm_ok (rt_metrics rt) + pm_failed (rt_metrics rt) + pm_dropped (rt_metrics rt)
       + length (queued rt) + running rt
     \<and> (\<exists>k. queued rt = drop k acc)"

lemma count_new_flights: "count_where (\<lambda>f. \<not> fl_settled f) (map (new_flight now) es) = length es"
  by (induction es) (auto simp: new_flight_def)

lemma schedule_accounts:
  assumes "rt_pre cap conc rt" "rt_accounts acc rt"
  shows "rt_accounts acc (schedule now rt)"
proof -
  define n where "n = min (nat (conc - rt_in_flight rt)) (length (queued rt))"
  note spec = schedule_spec[OF assms(1) n_def, of now]
  have n: "n \<le> length (queued rt)" by (simp add: n_def)
  have run: "running (schedule now rt) = running rt + n"
    using spec n by (simp add: count_new_flights min_absorb2)
  have len: "length (queued (schedule now rt)) = length (queued rt) - n" using spec by simp
  have core: "pm_ok (rt_metrics (schedule now rt)) = pm_ok (rt_metrics rt)"
    "pm_failed (rt_metrics (schedule now rt)) = pm_failed (rt_metrics rt)"
    "pm_dropped (rt_metrics (schedule now rt)) = pm_dropped (rt_metrics rt)"
    using spec by (auto simp: pm_core_def)
  from assms(2) obtain k where "queued rt = drop k acc" by (auto simp: rt_accounts_def)
  then have "queued (schedule now rt) = drop (n + k) acc" using spec by simp
  moreover have "length acc = pm_ok (rt_metrics (schedule now rt)) + pm_failed (rt_metrics (schedule now rt))
      + pm_dropped (rt_metrics (schedule now rt)) + length (queued (schedule now rt)) + running (schedule now rt)"
    unfolding core run len using assms(2) n by (simp add: rt_accounts_def)
  ultimately show ?thesis unfolding rt_accounts_def by blast
qed

lemma drop_tl_snoc: "k \<le> length xs \<Longrightarrow> tl (drop k xs) @ [e] = (if k = length xs then [e] else drop (Suc k) (xs @ [e]))"
  by (auto simp: drop_Suc tl_drop)

lemma enqueue_accounts:
  assumes pre: "rt_pre cap conc rt" and cap: "0 < cap" and acc: "rt_accounts acc rt"
  shows "rt_accounts (acc @ [e]) (enqueue e rt)"
proof -
  note spec = enqueue_spec[OF pre cap, of e]
  have full: "dq_is_full (rt_queue rt) \<Longrightarrow> queued rt \<noteq> []"
    using dq.full_iff[of "rt_queue rt"] pre cap by (auto simp: rt_pre_def simp del: length_dq_list)
  from acc obtain k where k: "queued rt = drop k acc" by (auto simp: rt_accounts_def)
  define k' where "k' = (if dq_is_full (rt_queue rt) then Suc k else min k (length acc))"
  have "queued (enqueue e rt) = drop k' (acc @ [e])"
  proof (cases "dq_is_full (rt_queue rt)")
    case True
    with full k have "k < length acc" by (metis drop_eq_Nil linorder_not_le)
    then have "tl (drop k acc) @ [e] = drop (Suc k) (acc @ [e])" by (simp add: drop_Suc tl_drop)
    with True spec k show ?thesis by (simp add: k'_def)
  qed (use spec k in \<open>auto simp: k'_def min_def\<close>)
  moreover have "length (queued (enqueue e rt)) =
      Suc (length (queued rt)) - of_bool (dq_is_full (rt_queue rt))"
    using spec full by (auto simp del: length_dq_list simp: neq_Nil_conv)
  moreover have "dq_is_full (rt_queue rt) \<Longrightarrow> 0 < length (queued rt)" using full by (simp del: length_dq_list)
  ultimately show ?thesis using spec acc
    by (auto simp: rt_accounts_def simp del: length_dq_list)
qed

lemma count_where_update:
  "i < length xs \<Longrightarrow> P (xs ! i) \<Longrightarrow> \<not> P y \<Longrightarrow> Suc (count_where P (xs[i := y])) = count_where P xs"
  by (induction xs arbitrary: i) (auto split: nat.splits)

lemma count_where_remove:
  "i < length xs \<Longrightarrow> \<not> P (xs ! i) \<Longrightarrow> count_where P (remove_nth i xs) = count_where P xs"
  by (metis remove_nth_def count_where_Cons count_where_append id_take_nth_drop)

lemma length_remove_nth: "i < length xs \<Longrightarrow> Suc (length (remove_nth i xs)) = length xs"
  by (simp add: remove_nth_def)

lemma settle_ok: "rt_ok cap conc rt \<Longrightarrow> rt_ok cap conc (settle i ok rt)"
  by (simp add: rt_ok_def rt_pre_def settle_def rt_step_defs)

lemma settle_accounts:
  assumes "i < length (rt_flights rt)" "\<not> fl_settled (rt_flights rt ! i)" "rt_accounts acc rt"
  shows "rt_accounts acc (settle i ok rt)"
  using assms(3) count_where_update[of i "rt_flights rt" "\<lambda>f. \<not> fl_settled f"
      "(rt_flights rt ! i)\<lparr>fl_settled := True\<rparr>", OF assms(1,2)]
  by (simp add: rt_accounts_def settle_def rt_step_defs)

definition release_slot :: "nat \<Rightarrow> ms \<Rightarrow> runtime \<Rightarrow> runtime" where
  "release_slot i now rt =
     update_in_flight_metric
       (rt\<lparr>rt_latencies := (now - fl_started (rt_flights rt ! i)) # rt_latencies rt,
           rt_in_flight := rt_in_flight rt - 1,
           rt_flights := remove_nth i (rt_flights rt)\<rparr>)"

lemma finish_release: "finish i now rt = schedule now (release_slot i now rt)"
  by (simp add: finish_def release_slot_def)

lemma release_pre:
  "rt_pre cap conc rt \<Longrightarrow> i < length (rt_flights rt) \<Longrightarrow> rt_pre cap conc (release_slot i now rt)"
  using length_remove_nth[of i "rt_flights rt"] by (simp add: rt_pre_def release_slot_def rt_step_defs)

lemma release_accounts:
  "i < length (rt_flights rt) \<Longrightarrow> fl_settled (rt_flights rt ! i) \<Longrightarrow> rt_accounts acc rt \<Longrightarrow>
     rt_accounts acc (release_slot i now rt)"
  by (simp add: rt_accounts_def release_slot_def rt_step_defs count_where_remove)

lemma finish_ok: "rt_ok cap conc rt \<Longrightarrow> i < length (rt_flights rt) \<Longrightarrow> rt_ok cap conc (finish i now rt)"
  using schedule_ok release_pre unfolding finish_release rt_ok_def by blast

lemma submit_ok:
  assumes "rt_ok cap conc rt" "0 < cap" "submit now e rt = (rt', res)"
  shows "rt_ok cap conc rt'"
proof (cases "rt_shutting_down rt")
  case True
  with assms show ?thesis by (auto simp: submit_def rt_ok_def rt_pre_def rt_step_defs)
next
  case False
  have "rt_pre cap conc rt" using assms by (simp add: rt_ok_def)
  then have "rt_pre cap conc (enqueue e rt)" using enqueue_spec assms(2) by blast
  from schedule_spec[OF this refl] have "rt_ok cap conc (schedule now (enqueue e rt))" by blast
  with False assms(3) show ?thesis by (simp add: submit_enqueue)
qed

lemma reach_ok:
  assumes "rt_reach cap conc acc rt" "0 < cap" "0 < conc"
  shows "rt_ok cap conc rt \<and> rt_accounts acc rt"
  using assms(1)
proof induction
  case create
  have "rt_accounts [] (create_runtime cap conc)"
    by (simp add: rt_accounts_def create_runtime_def rt_step_defs zero_metrics_def dq_list_new)
  with assms show ?case by (simp add: rt_pre_create)
next
  case (accept acc rt now e rt' d)
  then have "\<not> rt_shutting_down rt" by (auto simp: submit_def)
  then have rt': "rt' = schedule now (enqueue e rt)" using accept submit_enqueue by simp
  have pre: "rt_pre cap conc rt" using accept by (simp add: rt_ok_def)
  then have "rt_pre cap conc (enqueue e rt)" using enqueue_spec assms(2) by blast
  with schedule_accounts enqueue_accounts[OF pre assms(2)] accept submit_ok assms(2) rt'
  show ?case by blast
next
  case (refuse acc rt now e rt')
  then have "rt_accounts acc rt'"
    by (auto simp: submit_def rt_accounts_def rt_step_defs split: if_splits)
  with refuse submit_ok assms show ?case by blast
next
  case (count acc rt f)
  then show ?case by (auto simp: rt_ok_def rt_pre_def rt_accounts_def rt_step_defs)
next
  case (outcome acc rt i ok)
  then show ?case using settle_ok settle_accounts by blast
next
  case (release acc rt i now)
  then have "rt_pre cap conc rt" by (simp add: rt_ok_def)
  with release show ?case
    using finish_ok schedule_accounts release_accounts release_pre unfolding finish_release by blast
next
  case (shutdown acc rt)
  then show ?case by (simp add: begin_shutdown_def rt_ok_def rt_pre_def rt_accounts_def)
next
  case (poll acc rt started timeout now)
  then show ?case by (simp add: drain_poll_def rt_ok_def rt_pre_def rt_accounts_def)
qed


section \<open>Properties\<close>

text \<open>
  C33: in every reachable runtime the in-flight count is the number of started events, never
  negative and never above the configured concurrency; the queue never exceeds its capacity;
  no event waits while a slot is free; and both gauges show the true values.
\<close>
theorem runtime_bounded:
  assumes "rt_reach cap conc acc rt" "0 < cap" "0 < conc"
  shows "rt_in_flight rt = int (length (rt_flights rt)) \<and> rt_in_flight rt \<le> conc
    \<and> dq_size (rt_queue rt) \<le> cap
    \<and> (dq_size (rt_queue rt) > 0 \<longrightarrow> rt_in_flight rt = conc)
    \<and> pm_in_flight (rt_metrics rt) = rt_in_flight rt
    \<and> pm_queue_depth (rt_metrics rt) = dq_size (rt_queue rt)"
  using reach_ok[OF assms] unfolding rt_ok_def rt_pre_def by (auto simp: dq_wf_def dq_size_def)

definition sample_runtime :: runtime where
  "sample_runtime = create_runtime 1 1"

theorem runtime_bounded_witness:
  "rt_in_flight sample_runtime \<le> 1 \<and> dq_size (rt_queue sample_runtime) \<le> 1"
  using runtime_bounded[OF rt_reach.create, of 1 1] by (simp add: sample_runtime_def)

text \<open>
  C3: no accepted event is lost without a count.  In every reachable runtime the number of
  accepted events is the sum of the processed, the failed and the dropped ones, the queued
  ones and the ones still running; and the queue holds the most recently accepted events, in
  the order of their acceptance.
\<close>
theorem runtime_accounts:
  assumes "rt_reach cap conc acc rt" "0 < cap" "0 < conc"
  shows "length acc = pm_ok (rt_metrics rt) + pm_failed (rt_metrics rt) + pm_dropped (rt_metrics rt)
      + dq_size (rt_queue rt) + count_where (\<lambda>f. \<not> fl_settled f) (rt_flights rt)
    \<and> (\<exists>k. dq_list (rt_queue rt) = drop k acc)"
  using reach_ok[OF assms] by (simp add: rt_accounts_def dq_size_list)

lemma sample_accept: "\<exists>rt. submit 0 sample_event sample_runtime = (rt, Accepted False)"
  by (simp add: submit_def sample_runtime_def create_runtime_def rt_step_defs dq_is_full_def dq_new_def)

theorem runtime_accounts_witness:
  "\<exists>rt. submit 0 sample_event sample_runtime = (rt, Accepted False)
     \<and> 1 = pm_ok (rt_metrics rt) + pm_failed (rt_metrics rt) + pm_dropped (rt_metrics rt)
      + dq_size (rt_queue rt) + count_where (\<lambda>f. \<not> fl_settled f) (rt_flights rt)"
proof -
  obtain rt where rt: "submit 0 sample_event sample_runtime = (rt, Accepted False)"
    using sample_accept by blast
  have "rt_reach 1 1 ([] @ [sample_event]) rt"
    using rt_reach.accept[OF rt_reach.create[of 1 1]] rt unfolding sample_runtime_def by blast
  from runtime_accounts[OF this] rt show ?thesis by auto
qed

text \<open>
  The overflow policy is drop-oldest.  A submission to a running, saturated runtime is
  accepted, leaves the started events alone, appends the event to the queue and drops the
  oldest queued event exactly when the queue was full, which the result and the counter report.
\<close>
theorem submit_drop_oldest:
  assumes "rt_reach cap conc acc rt" "0 < cap" "0 < conc"
    and busy: "rt_in_flight rt = conc" and run: "\<not> rt_shutting_down rt"
    and res: "submit now e rt = (rt', res)"
  shows "res = Accepted (dq_size (rt_queue rt) = cap)
    \<and> dq_list (rt_queue rt') = (if dq_size (rt_queue rt) = cap then tl (dq_list (rt_queue rt))
         else dq_list (rt_queue rt)) @ [e]
    \<and> rt_flights rt' = rt_flights rt
    \<and> pm_dropped (rt_metrics rt') = pm_dropped (rt_metrics rt) + of_bool (dq_size (rt_queue rt) = cap)"
proof -
  have pre: "rt_pre cap conc rt" using reach_ok[OF assms(1-3)] by (simp add: rt_ok_def)
  then have full: "dq_is_full (rt_queue rt) \<longleftrightarrow> dq_size (rt_queue rt) = cap"
    using dq.full_iff[of "rt_queue rt"] by (auto simp: rt_pre_def dq_size_def)
  note en = enqueue_spec[OF pre assms(2), of e]
  then have "rt_concurrency (enqueue e rt) = conc" "rt_in_flight (enqueue e rt) = conc"
    using busy unfolding rt_pre_def by (blast, metis)
  then have "schedule now (enqueue e rt) = enqueue e rt" by (simp add: schedule_stop)
  with res run en full show ?thesis by (simp add: submit_enqueue)
qed

lemma schedule_shutting_down: "rt_pre cap conc rt \<Longrightarrow> rt_shutting_down (schedule now rt) = rt_shutting_down rt"
  using schedule_spec[OF _ refl] by blast

text \<open>
  What happens after the shutdown has begun, in any order and any interleaving; the number counts
  the callbacks of started events that have run.
\<close>
inductive drain_run :: "nat \<Rightarrow> runtime \<Rightarrow> runtime \<Rightarrow> bool" where
  start: "drain_run 0 rt rt"
| outcome: "drain_run n rt rt' \<Longrightarrow> i < length (rt_flights rt') \<Longrightarrow> \<not> fl_settled (rt_flights rt' ! i) \<Longrightarrow>
    drain_run (Suc n) rt (settle i ok rt')"
| release: "drain_run n rt rt' \<Longrightarrow> i < length (rt_flights rt') \<Longrightarrow> fl_settled (rt_flights rt' ! i) \<Longrightarrow>
    drain_run (Suc n) rt (finish i now rt')"
| refuse: "drain_run n rt rt' \<Longrightarrow> drain_run n rt (fst (submit now e rt'))"
| count: "drain_run n rt rt' \<Longrightarrow> f \<in> {inc_submitted, inc_rejected} \<Longrightarrow>
    drain_run n rt (rt'\<lparr>rt_metrics := f (rt_metrics rt')\<rparr>)"
| poll: "drain_run n rt rt' \<Longrightarrow> drain_run n rt (fst (drain_poll started timeout now rt'))"

text \<open>Two callbacks for every event that waits or runs, one for every event whose outcome is counted.\<close>
definition callbacks_due :: "runtime \<Rightarrow> nat" where
  "callbacks_due rt = 2 * dq_size (rt_queue rt) + length (rt_flights rt) + count_where (\<lambda>f. \<not> fl_settled f) (rt_flights rt)"

lemma schedule_due: "rt_pre cap conc rt \<Longrightarrow> callbacks_due (schedule now rt) = callbacks_due rt"
  using schedule_spec[OF _ refl, of cap conc rt now]
  by (simp add: callbacks_due_def dq_size_list count_new_flights del: length_dq_list)

lemma settle_due:
  assumes "i < length (rt_flights rt)" "\<not> fl_settled (rt_flights rt ! i)"
  shows "Suc (callbacks_due (settle i ok rt)) = callbacks_due rt"
  using count_where_update[OF assms(1), of "\<lambda>f. \<not> fl_settled f" "(rt_flights rt ! i)\<lparr>fl_settled := True\<rparr>"] assms(2)
  by (simp add: callbacks_due_def settle_def)

lemma finish_due:
  assumes "rt_ok cap conc rt" "i < length (rt_flights rt)" "fl_settled (rt_flights rt ! i)"
  shows "Suc (callbacks_due (finish i now rt)) = callbacks_due rt"
proof -
  have pre: "rt_pre cap conc (release_slot i now rt)" using release_pre assms by (simp add: rt_ok_def)
  have "Suc (callbacks_due (release_slot i now rt)) = callbacks_due rt"
    using length_remove_nth[OF assms(2)] count_where_remove[OF assms(2), of "\<lambda>f. \<not> fl_settled f"] assms(3)
    by (simp add: callbacks_due_def release_slot_def rt_step_defs)
  with schedule_due[OF pre] show ?thesis by (simp add: finish_release)
qed

lemma drain_run_counts:
  assumes "drain_run n rt rt'" "rt_ok cap conc rt" "rt_shutting_down rt"
  shows "n + callbacks_due rt' = callbacks_due rt \<and> rt_ok cap conc rt' \<and> rt_shutting_down rt'"
  using assms
proof (induction rule: drain_run.induct)
  case (outcome n rt rt' i ok)
  then show ?case using settle_due[of i rt' ok] settle_ok by (simp add: settle_def)
next
  case (release n rt rt' i now)
  then have ok: "rt_ok cap conc rt'" by simp
  note pre = release_pre[of cap conc rt' i now]
  from release ok show ?case
    using finish_due[OF ok, of i now] finish_ok[of cap conc rt' i now] pre schedule_shutting_down[of cap conc "release_slot i now rt'" now]
    by (simp add: finish_release rt_ok_def release_slot_def rt_step_defs)
qed (auto simp: callbacks_due_def submit_def drain_poll_def rt_ok_def rt_pre_def rt_step_defs)

text \<open>
  C40: shutdown drains.  After shutdown has begun, every submission is refused without touching
  the queue or the slots.  In whatever order the started events end and with whatever outcomes,
  each callback brings the end nearer by one: of the two callbacks per queued or running event as
  many are left as have not run.  While some are left an event is running, so that the next
  callback will come, and no poll reports the runtime drained; when none is left the next
  poll does, aborting the signal, whatever the time.
\<close>
theorem shutdown_drains:
  assumes "rt_reach cap conc acc rt" "0 < cap" "0 < conc" "drain_run n (begin_shutdown rt) rt'"
  shows "snd (submit now e rt') = ShuttingDown
    \<and> rt_queue (fst (submit now e rt')) = rt_queue rt' \<and> rt_flights (fst (submit now e rt')) = rt_flights rt'
    \<and> n \<le> callbacks_due rt
    \<and> (if n < callbacks_due rt
       then rt_flights rt' \<noteq> [] \<and> (\<exists>rt''. drain_run (Suc n) (begin_shutdown rt) rt'')
         \<and> snd (drain_poll started timeout later rt') \<noteq> Drained
       else drain_poll started timeout later rt' = (rt'\<lparr>rt_aborted := True\<rparr>, Drained))"
proof -
  have "rt_ok cap conc (begin_shutdown rt)"
    using reach_ok[OF rt_reach.shutdown[OF assms(1)] assms(2,3)] by simp
  from drain_run_counts[OF assms(4) this]
  have run: "n + callbacks_due rt' = callbacks_due rt" "rt_ok cap conc rt'" "rt_shutting_down rt'"
    by (simp_all add: begin_shutdown_def callbacks_due_def)
  have flights: "rt_flights rt' \<noteq> [] \<and> 0 < rt_in_flight rt'" if "callbacks_due rt' \<noteq> 0"
    using that run(2) assms(3) by (auto simp: callbacks_due_def rt_ok_def rt_pre_def)
  have none: "dq_size (rt_queue rt') = 0 \<and> rt_in_flight rt' = 0" if "callbacks_due rt' = 0"
    using that run(2) by (simp add: callbacks_due_def rt_ok_def rt_pre_def)
  have step: "\<exists>rt''. drain_run (Suc n) (begin_shutdown rt) rt''" if "rt_flights rt' \<noteq> []"
    using that outcome[OF assms(4), of 0] release[OF assms(4), of 0] by (cases "fl_settled (rt_flights rt' ! 0)") blast+
  show ?thesis using run flights none step by (cases "callbacks_due rt' = 0") (auto simp: submit_def drain_poll_def)
qed

text \<open>One event runs and one waits.\<close>
definition sample_loaded :: runtime where
  "sample_loaded = fst (submit 1 sample_event (fst (submit 0 sample_event sample_runtime)))"

lemma sample_loaded_run:
  "snd (submit 0 sample_event sample_runtime) = Accepted False"
  "snd (submit 1 sample_event (fst (submit 0 sample_event sample_runtime))) = Accepted False"
  "callbacks_due sample_loaded = 4 \<and> dq_size (rt_queue sample_loaded) = 1"
  "0 < length (rt_flights (begin_shutdown sample_loaded)) \<and> \<not> fl_settled (rt_flights (begin_shutdown sample_loaded) ! 0)"
  by code_simp+

text \<open>The running event fails, and the poll waits; then the queued one runs, ends, and the poll is satisfied.\<close>
theorem shutdown_drains_witness:
  "\<exists>rt1 rt2. drain_run 1 (begin_shutdown sample_loaded) rt1 \<and> snd (drain_poll 0 60 9 rt1) \<noteq> Drained
    \<and> drain_run 4 (begin_shutdown sample_loaded) rt2 \<and> snd (drain_poll 0 60 9 rt2) = Drained"
proof -
  have "rt_reach 1 1 ([] @ [sample_event]) (fst (submit 0 sample_event sample_runtime))"
    using rt_reach.accept[OF rt_reach.create[of 1 1], of 0 sample_event] sample_loaded_run(1)
    unfolding sample_runtime_def by (metis prod.collapse)
  from rt_reach.accept[OF this, of 1 sample_event] sample_loaded_run(2)
  have reach: "rt_reach 1 1 (([] @ [sample_event]) @ [sample_event]) sample_loaded"
    unfolding sample_loaded_def by (metis prod.collapse)
  note drains = shutdown_drains[OF reach zero_less_one zero_less_one, of _ _ 0 sample_event 0 60 9, unfolded sample_loaded_run(3)[THEN conjunct1]]
  have one: "drain_run 1 (begin_shutdown sample_loaded) (settle 0 False (begin_shutdown sample_loaded))"
    using outcome[OF start, of 0 "begin_shutdown sample_loaded" False] sample_loaded_run(4) by simp
  from drains[OF one] obtain r2 where "drain_run (Suc 1) (begin_shutdown sample_loaded) r2" by auto
  from drains[OF this] obtain r3 where "drain_run (Suc (Suc 1)) (begin_shutdown sample_loaded) r3" by auto
  from drains[OF this] obtain r4 where "drain_run (Suc (Suc (Suc 1))) (begin_shutdown sample_loaded) r4" by auto
  then have four: "drain_run 4 (begin_shutdown sample_loaded) r4" by (simp add: eval_nat_numeral)
  have "snd (drain_poll 0 60 9 (settle 0 False (begin_shutdown sample_loaded))) \<noteq> Drained" "snd (drain_poll 0 60 9 r4) = Drained"
    using drains[OF one] drains[OF four] by auto
  with one four show ?thesis by blast
qed

theorem submit_drop_oldest_witness:
  "\<exists>rt1 rt2. submit 0 sample_event sample_runtime = (rt1, Accepted False)
     \<and> submit 1 sample_event rt1 = (rt2, Accepted False) \<and> dq_list (rt_queue rt2) = [sample_event]"
proof -
  obtain rt where rt: "submit 0 sample_event sample_runtime = (rt, Accepted False)"
    using sample_accept by blast
  have q0: "rt_queue sample_runtime = dq_new 1"
    by (simp add: sample_runtime_def create_runtime_def rt_step_defs)
  have init: "rt_pre 1 1 sample_runtime" "\<not> rt_shutting_down sample_runtime" "queued sample_runtime = []"
    "rt_in_flight sample_runtime = 0" "rt_flights sample_runtime = []" "\<not> dq_is_full (rt_queue sample_runtime)"
    subgoal using rt_pre_create[of 1 1] by (simp add: sample_runtime_def rt_ok_def)
    unfolding q0 dq_list_new
    by (simp_all add: sample_runtime_def create_runtime_def rt_step_defs dq_is_full_def dq_new_def)
  have reach: "rt_reach 1 1 ([] @ [sample_event]) rt"
    using rt_reach.accept[OF rt_reach.create[of 1 1]] rt unfolding sample_runtime_def by blast
  have e: "rt = schedule 0 (enqueue sample_event sample_runtime)" using rt init(2) by (simp add: submit_enqueue)
  note en = enqueue_spec[OF init(1), of sample_event]
  have pre: "rt_pre 1 1 (enqueue sample_event sample_runtime)" using en by simp
  have st: "rt_flights rt = [new_flight 0 sample_event]" "queued rt = []" "\<not> rt_shutting_down rt"
    using schedule_spec[OF pre refl, of 0] en init by (auto simp: e)
  then have "rt_in_flight rt = 1" using reach_ok[OF reach] by (simp add: rt_ok_def rt_pre_def)
  obtain rt2 res where "submit 1 sample_event rt = (rt2, res)" by fastforce
  with submit_drop_oldest[OF reach _ _ \<open>rt_in_flight rt = 1\<close> st(3) this] st rt show ?thesis
    by (auto simp: dq_size_list simp del: length_dq_list)
qed

text \<open>
  A submission refused during shutdown is counted twice: the runtime counts the rejection
  and the dispatcher counts it again, so the rejected counter of the processor grows by two
  for one event (everything else is left alone).
\<close>
theorem rejection_counted_twice:
  assumes "en_matches en e = Inr True" "rt_shutting_down (en_runtime en)"
  shows "dispatch_entry now e en =
    en\<lparr>en_runtime := (en_runtime en)\<lparr>rt_metrics := (rt_metrics (en_runtime en))
      \<lparr>pm_rejected := pm_rejected (rt_metrics (en_runtime en)) + 2\<rparr>\<rparr>\<rparr>"
  using assms by (simp add: dispatch_entry_def submit_def inc_rejected_def)

definition sample_entry :: entry where
  "sample_entry = \<lparr>en_name = ''p'', en_matches = (\<lambda>_. Inr True), en_runtime = begin_shutdown sample_runtime\<rparr>"

theorem rejection_counted_twice_witness:
  "pm_rejected (rt_metrics (en_runtime (dispatch_entry 0 sample_event sample_entry))) = 2"
  using rejection_counted_twice[of sample_entry sample_event 0]
  by (simp add: sample_entry_def begin_shutdown_def sample_runtime_def create_runtime_def rt_step_defs
      zero_metrics_def)

end
