(* ===== verification/Caches.thy ===== *)
theory Caches
  imports Events
begin

text \<open>
  The two in-memory caches: the TTL cache with an LRU cap of the metrics services
  (\<open>packages/services/src/metrics/ttl-cache.ts\<close>) and the tag snapshot cache of the event
  pipeline (\<open>station-events/tag-snapshot-cache.ts\<close>) with the code that fills it, from the
  stream (\<open>point-snapshot-preprocessor.ts\<close>) and by batched remote calls
  (\<open>tag-snapshot-loader.ts\<close>).  Both evict the first keys of an insertion-ordered map.
\<close>

section \<open>Eviction\<close>

text \<open>The loop of both caches: delete the oldest key while the map is at capacity.\<close>
function evict :: "nat \<Rightarrow> ('k, 'v) jsmap \<Rightarrow> ('k, 'v) jsmap" where
  "evict cap [] = []"
| "evict cap ((k, v) # m) =
     (if length ((k, v) # m) \<ge> cap then evict cap (jm_delete k ((k, v) # m)) else (k, v) # m)"
  by pat_completeness auto
termination
  by (relation "measure (\<lambda>(cap, m). length m)") (auto simp: le_imp_less_Suc jm_length_delete)

lemma evict_drop: "jm_ok m \<Longrightarrow> evict cap m = drop (Suc (length m) - max 1 cap) m"
proof (induction cap m rule: evict.induct)
  case (2 cap k v m)
  have del: "jm_delete k ((k, v) # m) = m" using jm_delete_first[OF 2(2)] .
  show ?case
  proof (cases "length ((k, v) # m) \<ge> cap")
    case True
    with 2 del have "evict cap ((k, v) # m) = drop (Suc (length m) - max 1 cap) m" by simp
    also have "\<dots> = drop (Suc (Suc (length m) - max 1 cap)) ((k, v) # m)" by simp
    also have "Suc (Suc (length m) - max 1 cap) = Suc (length ((k, v) # m)) - max 1 cap"
      using True by (auto simp: max_def)
    finally show ?thesis .
  next
    case False
    then show ?thesis by (simp add: max_def)
  qed
qed simp

lemma evict_ok: "jm_ok m \<Longrightarrow> jm_ok (evict cap m)"
  by (simp add: evict_drop drop_map[symmetric])

lemma evict_length: "jm_ok m \<Longrightarrow> Suc (length (evict cap m)) \<le> max 1 cap \<or> cap = 0 \<and> evict cap m = []"
  by (auto simp: evict_drop max_def)

lemma evict_size: "jm_ok m \<Longrightarrow> length (evict cap m) < max 1 cap"
  by (auto simp: evict_drop max_def)

lemma map_of_drop: "jm_ok m \<Longrightarrow> map_of (drop n m) k = (if k \<in> set (jm_keys (drop n m)) then map_of m k else None)"
proof -
  assume ok: "jm_ok m"
  then have d: "jm_ok (take n m @ drop n m)" by simp
  show ?thesis
  proof (cases "k \<in> set (jm_keys (drop n m))")
    case True
    with d have "k \<notin> fst ` set (take n m)" by (auto simp del: append_take_drop_id)
    then have "map_of (take n m) k = None" by (simp add: map_of_eq_None_iff)
    then have "map_of (take n m @ drop n m) k = map_of (drop n m) k"
      by (simp add: map_add_def del: append_take_drop_id split: option.splits)
    with True show ?thesis by simp
  qed (simp add: map_of_eq_None_iff)
qed

lemma evict_get: "jm_ok m \<Longrightarrow> jm_get (evict cap m) k = Some v \<Longrightarrow> jm_get m k = Some v"
  by (simp add: evict_drop map_of_drop split: if_splits)

lemma evict_room: "jm_ok m \<Longrightarrow> length m < cap \<Longrightarrow> evict cap m = m"
  by (simp add: evict_drop)

section \<open>TTL cache\<close>

record 'v ttl_entry =
  te_value :: 'v
  te_expires :: ms

record 'v ttl_cache =
  tc_map :: "(string, 'v ttl_entry) jsmap"
  tc_ttl :: ms
  tc_max :: nat

definition ttl_new :: "ms \<Rightarrow> nat \<Rightarrow> 'v ttl_cache" where
  "ttl_new ttl max_size = \<lparr>tc_map = [], tc_ttl = ttl, tc_max = max_size\<rparr>"

text \<open>A hit moves the entry to the end of the map; an expired entry is deleted.\<close>
definition ttl_get :: "ms \<Rightarrow> string \<Rightarrow> 'v ttl_cache \<Rightarrow> 'v ttl_cache \<times> 'v option" where
  "ttl_get now k c = (case jm_get (tc_map c) k of
       None \<Rightarrow> (c, None)
     | Some e \<Rightarrow>
         if now > te_expires e then (c\<lparr>tc_map := jm_delete k (tc_map c)\<rparr>, None)
         else (c\<lparr>tc_map := jm_set k e (jm_delete k (tc_map c))\<rparr>, Some (te_value e)))"

definition ttl_set :: "ms \<Rightarrow> string \<Rightarrow> 'v \<Rightarrow> 'v ttl_cache \<Rightarrow> 'v ttl_cache" where
  "ttl_set now k v c =
     c\<lparr>tc_map := jm_set k \<lparr>te_value = v, te_expires = now + tc_ttl c\<rparr>
                  (evict (tc_max c) (jm_delete k (tc_map c)))\<rparr>"

definition ttl_clear :: "'v ttl_cache \<Rightarrow> 'v ttl_cache" where
  "ttl_clear c = c\<lparr>tc_map := []\<rparr>"

definition ttl_size :: "'v ttl_cache \<Rightarrow> nat" where
  "ttl_size c = length (tc_map c)"

definition ttl_wf :: "'v ttl_cache \<Rightarrow> bool" where
  "ttl_wf c \<longleftrightarrow> jm_ok (tc_map c) \<and> length (tc_map c) \<le> max 1 (tc_max c)"

section \<open>Tag snapshot cache\<close>

record snapshot_input =
  si_key :: string
  si_point :: string
  si_value :: json
  si_previous :: "json option"
  si_quality :: "quality option"
  si_timestamp :: "string option"
  si_gateway_timestamp :: "string option"
  si_processor_timestamp :: "string option"
  si_source :: snapshot_source

record tag_cache =
  sc_map :: "(string, tag_snapshot) jsmap"
  sc_max :: nat

definition snapshot_cache_new :: "nat option \<Rightarrow> tag_cache" where
  "snapshot_cache_new max_entries =
     \<lparr>sc_map = [], sc_max = (case max_entries of None \<Rightarrow> 50000 | Some n \<Rightarrow> n)\<rparr>"

text \<open>The previous value: the value itself when it did not change, the given one, the cached one, null.\<close>
definition snapshot_previous :: "snapshot_input \<Rightarrow> tag_snapshot option \<Rightarrow> json" where
  "snapshot_previous inp existing = (case existing of
       None \<Rightarrow> (case si_previous inp of Some v \<Rightarrow> v | None \<Rightarrow> JNull)
     | Some ex \<Rightarrow>
         if js_same (ts_value ex) (si_value inp) then ts_value ex
         else (case si_previous inp of Some v \<Rightarrow> v | None \<Rightarrow> ts_value ex))"

definition snapshot_with_fallback :: "string \<Rightarrow> snapshot_input \<Rightarrow> tag_snapshot option \<Rightarrow> tag_snapshot" where
  "snapshot_with_fallback now inp existing =
     \<lparr>ts_key = si_key inp, ts_point = si_point inp, ts_value = si_value inp,
      ts_previous = snapshot_previous inp existing, ts_quality = si_quality inp,
      ts_timestamp = si_timestamp inp, ts_gateway_timestamp = si_gateway_timestamp inp,
      ts_processor_timestamp = si_processor_timestamp inp, ts_observed_at = now,
      ts_source = si_source inp\<rparr>"

definition trim_if_needed :: "string \<Rightarrow> tag_cache \<Rightarrow> tag_cache" where
  "trim_if_needed k c =
     (if k \<in> set (jm_keys (sc_map c)) then c else c\<lparr>sc_map := evict (sc_max c) (sc_map c)\<rparr>)"

definition set_snapshot :: "string \<Rightarrow> snapshot_input \<Rightarrow> tag_cache \<Rightarrow> tag_cache" where
  "set_snapshot now inp c =
     (let c1 = trim_if_needed (si_key inp) c;
          existing = jm_get (sc_map c1) (si_key inp)
      in c1\<lparr>sc_map := jm_set (si_key inp) (snapshot_with_fallback now inp existing) (sc_map c1)\<rparr>)"

definition reading_input :: "point_reading \<Rightarrow> snapshot_input" where
  "reading_input r =
     \<lparr>si_key = pr_point r, si_point = pr_point r, si_value = pr_value r, si_previous = pr_previous r,
      si_quality = pr_quality r, si_timestamp = pr_timestamp r,
      si_gateway_timestamp = pr_gateway_timestamp r, si_processor_timestamp = None,
      si_source = FromStream\<rparr>"

definition upsert_point_reading :: "string \<Rightarrow> point_reading \<Rightarrow> tag_cache \<Rightarrow> tag_cache" where
  "upsert_point_reading now r c = set_snapshot now (reading_input r) c"

definition get_snapshot :: "tag_cache \<Rightarrow> string \<Rightarrow> tag_snapshot option" where
  "get_snapshot c k = jm_get (sc_map c) k"

definition get_missing_keys :: "string list \<Rightarrow> tag_cache \<Rightarrow> string list" where
  "get_missing_keys ks c = filter (\<lambda>k. k \<notin> set (jm_keys (sc_map c))) ks"

definition snapshot_count :: "tag_cache \<Rightarrow> nat" where
  "snapshot_count c = length (sc_map c)"

definition snapshot_wf :: "tag_cache \<Rightarrow> bool" where
  "snapshot_wf c \<longleftrightarrow> jm_ok (sc_map c) \<and> length (sc_map c) \<le> max 1 (sc_max c)"

text \<open>
  The preprocessor: every reading updates the cache, and the event carries the snapshots as
  they are at that moment.
\<close>
fun capture_readings ::
  "string \<Rightarrow> point_reading list \<Rightarrow> tag_cache \<Rightarrow> (string, tag_snapshot) jsmap \<Rightarrow> tag_cache \<times> (string, tag_snapshot) jsmap" where
  "capture_readings now [] c acc = (c, acc)"
| "capture_readings now (r # rs) c acc =
     (let c1 = upsert_point_reading now r c
      in capture_readings now rs c1
           (case get_snapshot c1 (pr_point r) of None \<Rightarrow> acc | Some s \<Rightarrow> jm_set (pr_point r) s acc))"

definition snapshot_preprocess :: "string \<Rightarrow> tag_cache \<Rightarrow> parsed_event \<Rightarrow> tag_cache \<times> (string + parsed_event list)" where
  "snapshot_preprocess now c e =
     (let (c1, snaps) = capture_readings now (extract_point_readings e) c []
      in (c1, Inr [e\<lparr>pe_tag_snapshots := Some snaps\<rparr>]))"

section \<open>Hydration\<close>

text \<open>A remote snapshot, as the service answers it.\<close>
record rpc_snapshot =
  rs_point :: string
  rs_value :: json
  rs_previous :: "json option"
  rs_quality :: "quality option"
  rs_timestamp :: "string option"
  rs_gateway_timestamp :: "string option"
  rs_processor_timestamp :: "string option"

type_synonym fetch_snapshots = "string list \<Rightarrow> string + (string \<times> rpc_snapshot) list"

definition rpc_input :: "string \<times> rpc_snapshot \<Rightarrow> snapshot_input" where
  "rpc_input p = (case p of (k, s) \<Rightarrow>
     \<lparr>si_key = k, si_point = rs_point s, si_value = rs_value s, si_previous = rs_previous s,
      si_quality = rs_quality s, si_timestamp = rs_timestamp s,
      si_gateway_timestamp = rs_gateway_timestamp s, si_processor_timestamp = rs_processor_timestamp s,
      si_source = FromRpc\<rparr>)"

definition store_response :: "string \<Rightarrow> (string \<times> rpc_snapshot) list \<Rightarrow> tag_cache \<Rightarrow> tag_cache" where
  "store_response now resp c = foldl (\<lambda>c p. set_snapshot now (rpc_input p) c) c resp"

text \<open>
  The loop over batches of the missing keys.  With a batch size of zero it would not end, so
  its value is an option; a failed or timed-out call (Inl) keeps what the earlier batches stored.
\<close>
partial_function (option) hydrate_batches ::
  "nat \<Rightarrow> fetch_snapshots \<Rightarrow> string \<Rightarrow> string list \<Rightarrow> nat \<Rightarrow> tag_cache \<Rightarrow> (tag_cache \<times> (string + nat)) option" where
  "hydrate_batches b fetch now ks loaded c =
     (if ks = [] then Some (c, Inr loaded)
      else (case fetch (take b ks) of
          Inl err \<Rightarrow> Some (c, Inl err)
        | Inr resp \<Rightarrow>
            hydrate_batches b fetch now (drop b ks) (loaded + length resp) (store_response now resp c)))"

definition hydrate_missing ::
  "nat \<Rightarrow> fetch_snapshots \<Rightarrow> string \<Rightarrow> string list \<Rightarrow> tag_cache \<Rightarrow> (tag_cache \<times> (string + nat)) option" where
  "hydrate_missing b fetch now keys c =
     (let missing = get_missing_keys (rev (remdups (rev keys))) c
      in if missing = [] then Some (c, Inr 0) else hydrate_batches b fetch now missing 0 c)"

section \<open>The interface of a bounded cache\<close>

text \<open>What the clients of both caches rely on.\<close>
locale bounded_cache =
  fixes put :: "'i \<Rightarrow> 'c \<Rightarrow> 'c"
    and key :: "'i \<Rightarrow> string"
    and find :: "'c \<Rightarrow> string \<Rightarrow> 'e option"
    and size_of :: "'c \<Rightarrow> nat"
    and cap :: "'c \<Rightarrow> nat"
    and wf :: "'c \<Rightarrow> bool"
  assumes wf_size: "wf c \<Longrightarrow> size_of c \<le> max 1 (cap c)"
    and put_wf: "wf c \<Longrightarrow> wf (put i c)"
    and put_cap: "cap (put i c) = cap c"
    and put_found: "wf c \<Longrightarrow> find (put i c) (key i) \<noteq> None"
    and put_other: "wf c \<Longrightarrow> k \<noteq> key i \<Longrightarrow> find (put i c) k \<noteq> None \<Longrightarrow> find (put i c) k = find c k"
    and put_room: "wf c \<Longrightarrow> size_of c < cap c \<Longrightarrow> k \<noteq> key i \<Longrightarrow> find (put i c) k = find c k"
    and put_size: "wf c \<Longrightarrow> size_of (put i c) \<le> Suc (size_of c)"
begin

lemma puts_wf: "wf c \<Longrightarrow> wf (foldl (\<lambda>c i. put i c) c is) \<and> cap (foldl (\<lambda>c i. put i c) c is) = cap c"
  by (induction "is" arbitrary: c) (auto simp: put_wf put_cap)

lemma puts_size: "wf c \<Longrightarrow> size_of (foldl (\<lambda>c i. put i c) c is) \<le> max 1 (cap c)"
  using puts_wf wf_size by metis

lemma puts_grow: "wf c \<Longrightarrow> size_of (foldl (\<lambda>c i. put i c) c is) \<le> size_of c + length is"
proof (induction "is" arbitrary: c)
  case (Cons i "is")
  from Cons.IH[OF put_wf[OF Cons.prems], of i] put_size[OF Cons.prems, of i] show ?case by simp
qed simp

lemma put_keeps:
  "wf c \<Longrightarrow> size_of c < cap c \<Longrightarrow> find c k \<noteq> None \<Longrightarrow> find (put i c) k \<noteq> None"
  using put_found put_room by metis

lemma puts_keep:
  "wf c \<Longrightarrow> size_of c + length is \<le> cap c \<Longrightarrow> find c k \<noteq> None \<Longrightarrow> find (foldl (\<lambda>c i. put i c) c is) k \<noteq> None"
proof (induction "is" arbitrary: c)
  case (Cons i "is")
  have "size_of (put i c) + length is \<le> cap (put i c)"
    using put_size[OF Cons.prems(1), of i] put_cap[of i c] Cons.prems(2) by simp
  moreover have "find (put i c) k \<noteq> None" using put_keeps[OF Cons.prems(1) _ Cons.prems(3)] Cons.prems(2) by simp
  ultimately show ?case using Cons.IH[OF put_wf[OF Cons.prems(1)]] by simp
qed simp

text \<open>While there is room for all of them, every inserted key is found.\<close>
lemma puts_found:
  "wf c \<Longrightarrow> size_of c + length is \<le> cap c \<Longrightarrow> i \<in> set is \<Longrightarrow> find (foldl (\<lambda>c i. put i c) c is) (key i) \<noteq> None"
proof (induction "is" arbitrary: c)
  case (Cons j "is")
  have sz: "size_of (put j c) + length is \<le> cap (put j c)"
    using put_size[OF Cons.prems(1), of j] put_cap[of j c] Cons.prems(2) by simp
  show ?case
  proof (cases "i \<in> set is")
    case True
    then show ?thesis using Cons.IH[OF put_wf[OF Cons.prems(1)] sz] by simp
  next
    case False
    with Cons.prems have "i = j" by simp
    then show ?thesis using puts_keep[OF put_wf[OF Cons.prems(1)] sz put_found[OF Cons.prems(1)]] by simp
  qed
qed simp

end

lemma ttl_set_map:
  "tc_map (ttl_set now k v c) = jm_set k \<lparr>te_value = v, te_expires = now + tc_ttl c\<rparr>
     (evict (tc_max c) (jm_delete k (tc_map c)))"
  by (simp add: ttl_set_def)

lemma ttl_set_wf: "ttl_wf c \<Longrightarrow> ttl_wf (ttl_set now k v c)"
  using evict_size[of "jm_delete k (tc_map c)" "tc_max c"]
  by (simp add: ttl_wf_def ttl_set_map jm_ok_set evict_ok jm_ok_delete jm_size_set)
     (simp add: ttl_set_def)

lemma ttl_set_get:
  assumes "ttl_wf c" "jm_get (tc_map (ttl_set now k v c)) k' = Some e"
  shows "e = (if k' = k then \<lparr>te_value = v, te_expires = now + tc_ttl c\<rparr> else the (jm_get (tc_map c) k'))
    \<and> (k' \<noteq> k \<longrightarrow> jm_get (tc_map c) k' = Some e)"
proof -
  have "jm_ok (jm_delete k (tc_map c))" using assms(1) by (simp add: ttl_wf_def jm_ok_delete)
  from evict_get[OF this, of "tc_max c" k' e] assms(2) show ?thesis
    by (auto simp: ttl_set_map jm_get_set jm_get_delete split: if_splits)
qed

lemma ttl_set_room:
  assumes "ttl_wf c" "ttl_size c < tc_max c" "k' \<noteq> k"
  shows "jm_get (tc_map (ttl_set now k v c)) k' = jm_get (tc_map c) k'"
proof -
  have "jm_ok (jm_delete k (tc_map c))" using assms(1) by (simp add: ttl_wf_def jm_ok_delete)
  from evict_room[OF this] jm_length_delete[of k "tc_map c"] assms(2,3) show ?thesis
    by (simp add: ttl_set_map jm_get_set jm_get_delete ttl_size_def)
qed

lemma evict_le: "jm_ok m \<Longrightarrow> length (evict cap m) \<le> length m"
  by (simp add: evict_drop)

lemma jm_size_set_le: "length (jm_set k v m) \<le> Suc (length m)"
  by (simp add: jm_size_set)

lemma ttl_set_size: "ttl_wf c \<Longrightarrow> ttl_size (ttl_set now k v c) \<le> Suc (ttl_size c)"
  unfolding ttl_size_def ttl_set_map
  by (rule order_trans[OF jm_size_set_le])
     (simp add: order_trans[OF evict_le jm_length_delete] jm_ok_delete ttl_wf_def)

interpretation ttl: bounded_cache "\<lambda>i. ttl_set (fst i) (fst (snd i)) (snd (snd i))" "\<lambda>i. fst (snd i)"
  "\<lambda>c k. jm_get (tc_map c) k" ttl_size tc_max ttl_wf
proof unfold_locales
  fix c :: "'a ttl_cache" and i :: "ms \<times> string \<times> 'a" and k
  assume wf: "ttl_wf c" and k: "k \<noteq> fst (snd i)"
    and f: "jm_get (tc_map (ttl_set (fst i) (fst (snd i)) (snd (snd i)) c)) k \<noteq> None"
  then show "jm_get (tc_map (ttl_set (fst i) (fst (snd i)) (snd (snd i)) c)) k = jm_get (tc_map c) k"
    using ttl_set_get[OF wf] by fastforce
next
  fix c :: "'a ttl_cache"
  show "ttl_wf c \<Longrightarrow> ttl_size c \<le> max 1 (tc_max c)" by (simp add: ttl_wf_def ttl_size_def)
next
  fix c :: "'a ttl_cache" and i :: "ms \<times> string \<times> 'a"
  show "tc_max (ttl_set (fst i) (fst (snd i)) (snd (snd i)) c) = tc_max c" by (simp add: ttl_set_def)
next
  fix c :: "'a ttl_cache" and i :: "ms \<times> string \<times> 'a" and k
  assume "ttl_wf c" "ttl_size c < tc_max c" "k \<noteq> fst (snd i)"
  then show "jm_get (tc_map (ttl_set (fst i) (fst (snd i)) (snd (snd i)) c)) k = jm_get (tc_map c) k"
    by (rule ttl_set_room)
qed (simp_all add: ttl_set_wf ttl_set_size ttl_set_map jm_get_set)

lemma evict_absent: "jm_ok m \<Longrightarrow> jm_get m k = None \<Longrightarrow> jm_get (evict cap m) k = None"
  using evict_get[of m cap k] by (cases "jm_get (evict cap m) k") auto

lemma trim_get: "jm_ok (sc_map c) \<Longrightarrow> jm_get (sc_map (trim_if_needed k c)) k' \<noteq> None \<Longrightarrow>
    jm_get (sc_map (trim_if_needed k c)) k' = jm_get (sc_map c) k'"
  using evict_get[of "sc_map c" "sc_max c" k'] by (auto simp: trim_if_needed_def split: if_splits)

lemma trim_get_key: "jm_ok (sc_map c) \<Longrightarrow> jm_get (sc_map (trim_if_needed k c)) k = jm_get (sc_map c) k"
  using evict_absent[of "sc_map c" k "sc_max c"]
  by (simp add: trim_if_needed_def map_of_eq_None_iff) (metis map_of_eq_None_iff)

lemma trim_ok: "jm_ok (sc_map c) \<Longrightarrow> jm_ok (sc_map (trim_if_needed k c))"
  by (simp add: trim_if_needed_def evict_ok)

lemma set_snapshot_get:
  "jm_ok (sc_map c) \<Longrightarrow> get_snapshot (set_snapshot now inp c) k =
     (if k = si_key inp then Some (snapshot_with_fallback now inp (get_snapshot c k))
      else get_snapshot (trim_if_needed (si_key inp) c) k)"
  by (simp add: set_snapshot_def get_snapshot_def Let_def jm_get_set trim_get_key)

interpretation snap: bounded_cache "set_snapshot now" si_key get_snapshot snapshot_count sc_max snapshot_wf
  for now
proof unfold_locales
  fix c :: tag_cache and i :: snapshot_input and k
  let ?t = "trim_if_needed (si_key i) c"
  show "snapshot_wf c \<Longrightarrow> snapshot_count c \<le> max 1 (sc_max c)" by (simp add: snapshot_wf_def snapshot_count_def)
  show "sc_max (set_snapshot now i c) = sc_max c"
    by (simp add: set_snapshot_def Let_def trim_if_needed_def)
  assume wf: "snapshot_wf c"
  then have ok: "jm_ok (sc_map c)" by (simp add: snapshot_wf_def)
  have m: "sc_map (set_snapshot now i c) =
      jm_set (si_key i) (snapshot_with_fallback now i (jm_get (sc_map ?t) (si_key i))) (sc_map ?t)"
    by (simp add: set_snapshot_def Let_def)
  show "snapshot_wf (set_snapshot now i c)"
    using wf evict_size[OF ok, of "sc_max c"] unfolding snapshot_wf_def m
    by (auto simp: jm_size_set jm_ok_set trim_ok set_snapshot_def Let_def trim_if_needed_def evict_ok)
  show "get_snapshot (set_snapshot now i c) (si_key i) \<noteq> None"
    by (simp add: set_snapshot_get[OF ok])
  show "k \<noteq> si_key i \<Longrightarrow> get_snapshot (set_snapshot now i c) k \<noteq> None \<Longrightarrow>
      get_snapshot (set_snapshot now i c) k = get_snapshot c k"
    using trim_get[OF ok, of "si_key i" k] by (simp add: set_snapshot_get[OF ok]) (simp add: get_snapshot_def)
  show "snapshot_count c < sc_max c \<Longrightarrow> k \<noteq> si_key i \<Longrightarrow>
      get_snapshot (set_snapshot now i c) k = get_snapshot c k"
    by (simp add: set_snapshot_get[OF ok] trim_if_needed_def snapshot_count_def evict_room[OF ok])
  show "snapshot_count (set_snapshot now i c) \<le> Suc (snapshot_count c)"
    unfolding snapshot_count_def m
    by (auto simp: jm_size_set trim_if_needed_def evict_drop[OF ok])
qed

section \<open>Properties\<close>

datatype 'v ttl_op = OpGet ms string | OpSet ms string 'v | OpClear

fun ttl_step :: "'v ttl_cache \<Rightarrow> 'v ttl_op \<Rightarrow> 'v ttl_cache" where
  "ttl_step c (OpGet now k) = fst (ttl_get now k c)"
| "ttl_step c (OpSet now k v) = ttl_set now k v c"
| "ttl_step c OpClear = ttl_clear c"

text \<open>The abstract cache: the value and the time of the last set of every key since the last clear.\<close>
fun last_set :: "'v ttl_op list \<Rightarrow> string \<Rightarrow> ('v \<times> ms) option" where
  "last_set [] k = None"
| "last_set (OpGet _ _ # ops) k = last_set ops k"
| "last_set (OpSet now k' v # ops) k = (if k = k' then Some (v, now) else last_set ops k)"
| "last_set (OpClear # ops) k = None"

definition ttl_run :: "ms \<Rightarrow> nat \<Rightarrow> 'v ttl_op list \<Rightarrow> 'v ttl_cache" where
  "ttl_run ttl cap ops = foldl ttl_step (ttl_new ttl cap) ops"

lemma jm_length_delete_present: "jm_get m k \<noteq> None \<Longrightarrow> length (jm_delete k m) < length m"
  by (induction m) (auto simp: jm_length_delete le_imp_less_Suc split: if_splits)

lemma ttl_get_wf:
  assumes "ttl_wf c"
  shows "ttl_wf (fst (ttl_get now k c))"
proof (cases "jm_get (tc_map c) k")
  case (Some e)
  then have "length (jm_delete k (tc_map c)) < length (tc_map c)" by (intro jm_length_delete_present) simp
  with assms Some show ?thesis
    by (auto simp: ttl_get_def ttl_wf_def jm_ok_set jm_ok_delete jm_size_set)
qed (use assms in \<open>simp add: ttl_get_def\<close>)

lemma ttl_step_params: "tc_max (ttl_step c x) = tc_max c \<and> tc_ttl (ttl_step c x) = tc_ttl c"
  by (cases x) (auto simp: ttl_get_def ttl_set_def ttl_clear_def split: option.splits)

lemma ttl_step_wf: "ttl_wf c \<Longrightarrow> ttl_wf (ttl_step c x)"
  by (cases x) (simp_all add: ttl_get_wf ttl_set_wf, simp add: ttl_wf_def ttl_clear_def)

lemma ttl_get_sub: "jm_get (tc_map (fst (ttl_get now k c))) k' = Some e \<Longrightarrow> jm_get (tc_map c) k' = Some e"
  by (auto simp: ttl_get_def jm_get_set jm_get_delete split: option.splits if_splits)

text \<open>Every cached entry is the last value set for its key, with the matching expiry.\<close>
lemma ttl_run_sound:
  "ttl_wf (ttl_run ttl cap ops) \<and> tc_ttl (ttl_run ttl cap ops) = ttl \<and> tc_max (ttl_run ttl cap ops) = cap
   \<and> (\<forall>k e. jm_get (tc_map (ttl_run ttl cap ops)) k = Some e \<longrightarrow>
        (\<exists>t. last_set (rev ops) k = Some (te_value e, t) \<and> te_expires e = t + ttl))"
proof (induction ops rule: rev_induct)
  case Nil
  show ?case by (simp add: ttl_run_def ttl_new_def ttl_wf_def)
next
  case (snoc x ops)
  let ?c = "ttl_run ttl cap ops"
  have s: "ttl_run ttl cap (ops @ [x]) = ttl_step ?c x" by (simp add: ttl_run_def)
  have "\<exists>t. last_set (rev (ops @ [x])) k = Some (te_value e, t) \<and> te_expires e = t + ttl"
    if e: "jm_get (tc_map (ttl_step ?c x)) k = Some e" for k e
  proof (cases x)
    case (OpGet now k')
    with e ttl_get_sub have "jm_get (tc_map ?c) k = Some e" by simp
    with snoc OpGet show ?thesis by simp
  next
    case (OpSet now k' v)
    from snoc have wf: "ttl_wf ?c" and ttl: "tc_ttl ?c = ttl" by blast+
    from e OpSet have e': "jm_get (tc_map (ttl_set now k' v ?c)) k = Some e" by simp
    note g = ttl_set_get[OF wf e']
    show ?thesis
    proof (cases "k = k'")
      case True
      with g ttl OpSet show ?thesis by simp
    next
      case False
      with g have "jm_get (tc_map ?c) k = Some e" by blast
      with snoc OpSet False show ?thesis by simp
    qed
  next
    case OpClear
    with e show ?thesis by (simp add: ttl_clear_def)
  qed
  then show ?case using snoc ttl_step_wf[of ?c x] ttl_step_params[of ?c x] unfolding s by simp
qed

text \<open>
  after any sequence of gets, sets and clears the TTL cache holds at most \<open>maxSize\<close> entries
  (one, for a cap of zero), and a get that hits returns exactly the value most recently set for
  that key since the last clear, no later than \<open>ttlMs\<close> after it was set: eviction, the moves
  of the recency order and expiry never resurrect or mix up a value.
\<close>
theorem ttl_cache_sound:
  "ttl_size (ttl_run ttl cap ops) \<le> max 1 cap
   \<and> (case snd (ttl_get now k (ttl_run ttl cap ops)) of
        None \<Rightarrow> True
      | Some v \<Rightarrow> (case last_set (rev ops) k of None \<Rightarrow> False | Some (w, t) \<Rightarrow> v = w \<and> now \<le> t + ttl))"
proof -
  let ?c = "ttl_run ttl cap ops"
  note inv = ttl_run_sound[of ttl cap ops]
  have "ttl_size ?c \<le> max 1 cap" using inv ttl.wf_size[of ?c] by metis
  moreover have "case last_set (rev ops) k of None \<Rightarrow> False | Some (w, t) \<Rightarrow> v = w \<and> now \<le> t + ttl"
    if v: "snd (ttl_get now k ?c) = Some v" for v
  proof -
    from v obtain e where "jm_get (tc_map ?c) k = Some e" "now \<le> te_expires e" "v = te_value e"
      by (auto simp: ttl_get_def split: option.splits if_splits)
    with inv show ?thesis by fastforce
  qed
  ultimately show ?thesis by (simp split: option.split)
qed

text \<open>
  the snapshot that the trigger evaluation sees.  After a stored reading, the cache returns
  for its key the new value; the previous value is the value itself when it did not change (so a
  repeated message never looks like a change), otherwise the one the reading carries, otherwise
  the last cached value, otherwise null.
\<close>
theorem set_snapshot_value:
  assumes "snapshot_wf c"
  shows "\<exists>s. get_snapshot (set_snapshot now inp c) (si_key inp) = Some s \<and> ts_value s = si_value inp
    \<and> ts_previous s =
       (case get_snapshot c (si_key inp) of
          Some old \<Rightarrow> if js_same (ts_value old) (si_value inp) then si_value inp
                     else (case si_previous inp of Some p \<Rightarrow> p | None \<Rightarrow> ts_value old)
        | None \<Rightarrow> (case si_previous inp of Some p \<Rightarrow> p | None \<Rightarrow> JNull))"
  using set_snapshot_get[of c now inp "si_key inp"] assms
  by (auto simp: snapshot_wf_def snapshot_with_fallback_def snapshot_previous_def js_same_iff
      split: option.splits)

definition sample_input :: snapshot_input where
  "sample_input = \<lparr>si_key = ''k'', si_point = ''k'', si_value = JNum 1, si_previous = None,
     si_quality = None, si_timestamp = None, si_gateway_timestamp = None,
     si_processor_timestamp = None, si_source = FromStream\<rparr>"

theorem set_snapshot_value_witness:
  "\<exists>s. get_snapshot (set_snapshot ''now'' sample_input (snapshot_cache_new None)) ''k'' = Some s
     \<and> ts_value s = JNum 1 \<and> ts_previous s = JNull"
  using set_snapshot_value[of "snapshot_cache_new None" "''now''" sample_input]
  by (simp add: snapshot_cache_new_def snapshot_wf_def sample_input_def get_snapshot_def)

lemma store_response_fold:
  "store_response now resp c = foldl (\<lambda>c i. set_snapshot now i c) c (map rpc_input resp)"
  unfolding store_response_def by (induction resp arbitrary: c) auto

text \<open>A service that answers every batch with one snapshot for each of its keys.\<close>
definition complete_fetch :: "fetch_snapshots \<Rightarrow> bool" where
  "complete_fetch fetch \<longleftrightarrow> (\<forall>ks. \<exists>resp. fetch ks = Inr resp \<and> map fst resp = ks)"

lemma hydrate_batches_complete:
  assumes "0 < b" "complete_fetch fetch"
  shows "snapshot_wf c \<Longrightarrow> snapshot_count c + length ks \<le> sc_max c \<Longrightarrow>
    \<exists>c'. hydrate_batches b fetch now ks loaded c = Some (c', Inr (loaded + length ks))
      \<and> (\<forall>k. k \<in> set ks \<or> get_snapshot c k \<noteq> None \<longrightarrow> get_snapshot c' k \<noteq> None)"
proof (induction "length ks" arbitrary: ks loaded c rule: less_induct)
  case less
  show ?case
  proof (cases "ks = []")
    case True
    then show ?thesis by (subst hydrate_batches.simps) simp
  next
    case False
    obtain resp where resp: "fetch (take b ks) = Inr resp" "map fst resp = take b ks"
      using assms(2) by (auto simp: complete_fetch_def)
    let ?c = "store_response now resp c"
    have rl: "length resp = min b (length ks)" using arg_cong[OF resp(2), of length] by simp
    have wf: "snapshot_wf ?c" "sc_max ?c = sc_max c"
      using snap.puts_wf[OF less(2)] unfolding store_response_fold by auto
    have grow: "snapshot_count ?c \<le> snapshot_count c + length resp"
      using snap.puts_grow[OF less(2), of now "map rpc_input resp"] unfolding store_response_fold by simp
    have sp: "snapshot_count c + length (map rpc_input resp) \<le> sc_max c" using less(3) rl by simp
    have kept: "get_snapshot ?c k \<noteq> None" if "get_snapshot c k \<noteq> None" for k
      using snap.puts_keep[OF less(2) sp that] unfolding store_response_fold .
    have new: "get_snapshot ?c k \<noteq> None" if "k \<in> set (take b ks)" for k
    proof -
      from that resp(2) obtain s where "(k, s) \<in> set resp" by (metis imageE list.set_map prod.collapse)
      then have "rpc_input (k, s) \<in> set (map rpc_input resp)" by simp
      from snap.puts_found[OF less(2) sp this] show ?thesis
        unfolding store_response_fold by (simp add: rpc_input_def)
    qed
    have "length (drop b ks) < length ks" using False assms(1) by simp
    moreover have "snapshot_count ?c + length (drop b ks) \<le> sc_max ?c"
      using grow less(3) wf(2) rl by (auto simp: min_def split: if_splits)
    ultimately obtain c' where c':
      "hydrate_batches b fetch now (drop b ks) (loaded + length resp) ?c = Some (c', Inr (loaded + length resp + length (drop b ks)))"
      "\<forall>k. k \<in> set (drop b ks) \<or> get_snapshot ?c k \<noteq> None \<longrightarrow> get_snapshot c' k \<noteq> None"
      using less(1)[of "drop b ks" ?c "loaded + length resp"] wf(1) by blast
    have "hydrate_batches b fetch now ks loaded c = Some (c', Inr (loaded + length ks))"
      using False resp(1) c'(1) rl by (subst hydrate_batches.simps) (auto simp: min_def split: if_splits)
    moreover have "k \<in> set ks \<Longrightarrow> k \<in> set (take b ks) \<or> k \<in> set (drop b ks)" for k
      by (metis append_take_drop_id UnE set_append)
    ultimately show ?thesis using c'(2) kept new by blast
  qed
qed

text \<open>
  hydration returns and is complete.  With a positive batch size, a service that answers
  every key it is asked for, and room in the cache, the loop over the batches ends with success
  and afterwards no requested key is missing.
\<close>
theorem hydrate_complete:
  assumes "0 < b" "complete_fetch fetch" "snapshot_wf c" "snapshot_count c + length keys \<le> sc_max c"
  shows "\<exists>c' n. hydrate_missing b fetch now keys c = Some (c', Inr n) \<and> get_missing_keys keys c' = []"
proof -
  let ?u = "rev (remdups (rev keys))" and ?m = "get_missing_keys (rev (remdups (rev keys))) c"
  have in_keys: "k \<in> set (jm_keys (sc_map c)) \<longleftrightarrow> get_snapshot c k \<noteq> None" for k c
    by (auto simp: get_snapshot_def map_of_eq_None_iff)
  have "length ?m \<le> length ?u" unfolding get_missing_keys_def by (rule length_filter_le)
  also have "\<dots> \<le> length keys" by (metis length_remdups_leq length_rev)
  finally have "snapshot_count c + length ?m \<le> sc_max c" using assms(4) by simp
  from hydrate_batches_complete[OF assms(1,2,3) this, of now 0] obtain c' where
    c': "hydrate_batches b fetch now ?m 0 c = Some (c', Inr (0 + length ?m))"
    "\<forall>k. k \<in> set ?m \<or> get_snapshot c k \<noteq> None \<longrightarrow> get_snapshot c' k \<noteq> None" by blast
  have "get_missing_keys keys c' = []"
    using c'(2) by (auto simp: get_missing_keys_def filter_empty_conv in_keys simp del: set_map list.set_map)
  with c'(1) show ?thesis by (auto simp: hydrate_missing_def Let_def hydrate_batches.simps)
qed

definition sample_fetch :: fetch_snapshots where
  "sample_fetch ks = Inr (map (\<lambda>k. (k, \<lparr>rs_point = k, rs_value = JNum 0, rs_previous = None, rs_quality = None,
     rs_timestamp = None, rs_gateway_timestamp = None, rs_processor_timestamp = None\<rparr>)) ks)"

theorem hydrate_complete_witness:
  "\<exists>c' n. hydrate_missing 2 sample_fetch ''now'' [''a'', ''b'', ''c''] (snapshot_cache_new (Some 3)) = Some (c', Inr n)
     \<and> get_missing_keys [''a'', ''b'', ''c''] c' = []"
  by (rule hydrate_complete)
     (simp_all add: complete_fetch_def sample_fetch_def comp_def snapshot_wf_def snapshot_cache_new_def snapshot_count_def)

end
