(* ===== verification/Trigger.thy ===== *)
theory Trigger
  imports Caches "HOL-Library.Sublist"
begin

text \<open>
  Station events in the event pipeline: the evaluation of trigger conditions over tag snapshots
  (\<open>station-events/trigger-evaluator.ts\<close>), the compiled index of event definitions with its
  refresh protocol (\<open>station-events/station-event-cache.ts\<close>) and the processor that evaluates
  the candidates of a message and calls the service (\<open>processors/station-events-processor.ts\<close>).
\<close>

section \<open>Definitions of station events\<close>

datatype condition_operator = GoesAbove | GoesBelow | IncrementsUp | IncrementsDown | ChangesTo | AnyChange
datatype group_operator = OpAll | OpAny

record trigger_condition =
  tg_id :: string
  tg_tag :: string
  tg_device :: "string option"
  tg_condition :: condition_operator
  tg_value :: json

datatype clause = Condition trigger_condition | Group string group_operator "clause list"

record trigger =
  tr_operator :: group_operator
  tr_clauses :: "clause list"

record event_action =
  ea_id :: string
  ea_event :: string
  ea_inputs :: json_object
  ea_continue :: bool

record event_definition =
  ed_id :: string
  ed_station :: string
  ed_enabled :: bool
  ed_trigger :: trigger
  ed_actions :: "event_action list"

section \<open>Trigger evaluation\<close>

definition to_number :: "json \<Rightarrow> jnum option" where
  "to_number v = (if v = JNull then None else js_number v)"

definition evaluate_condition_op :: "condition_operator \<Rightarrow> json \<Rightarrow> json \<Rightarrow> json \<Rightarrow> bool" where
  "evaluate_condition_op opr cur prev thr = (case opr of
       GoesAbove \<Rightarrow> (case (to_number cur, to_number thr) of
           (Some c, Some t) \<Rightarrow> c > t \<and> (case to_number prev of None \<Rightarrow> True | Some p \<Rightarrow> p \<le> t)
         | _ \<Rightarrow> False)
     | GoesBelow \<Rightarrow> (case (to_number cur, to_number thr) of
           (Some c, Some t) \<Rightarrow> c < t \<and> (case to_number prev of None \<Rightarrow> True | Some p \<Rightarrow> p \<ge> t)
         | _ \<Rightarrow> False)
     | IncrementsUp \<Rightarrow> (case (to_number cur, to_number prev) of
           (Some c, Some p) \<Rightarrow> c > p | _ \<Rightarrow> False)
     | IncrementsDown \<Rightarrow> (case (to_number cur, to_number prev) of
           (Some c, Some p) \<Rightarrow> c < p | _ \<Rightarrow> False)
     | ChangesTo \<Rightarrow> js_string cur = js_string thr \<and> \<not> js_same cur prev
     | AnyChange \<Rightarrow> \<not> js_same cur prev)"

type_synonym snapshot_lookup = "string \<Rightarrow> tag_snapshot option"

text \<open>The evaluations thread the list of the ids that matched so far.\<close>
definition evaluate_condition :: "snapshot_lookup \<Rightarrow> trigger_condition \<Rightarrow> string list \<Rightarrow> bool \<times> string list" where
  "evaluate_condition look c ids = (case look (tg_tag c) of
       None \<Rightarrow> (False, ids)
     | Some s \<Rightarrow>
         if evaluate_condition_op (tg_condition c) (ts_value s) (ts_previous s) (tg_value c)
         then (True, ids @ [tg_id c]) else (False, ids))"

text \<open>\<open>applyOperator\<close> stops at the first clause that decides; an empty list never matches.\<close>
fun evaluate_clause :: "snapshot_lookup \<Rightarrow> clause \<Rightarrow> string list \<Rightarrow> bool \<times> string list"
  and apply_operator :: "snapshot_lookup \<Rightarrow> group_operator \<Rightarrow> clause list \<Rightarrow> string list \<Rightarrow> bool \<times> string list"
  and apply_all :: "snapshot_lookup \<Rightarrow> clause list \<Rightarrow> string list \<Rightarrow> bool \<times> string list"
  and apply_any :: "snapshot_lookup \<Rightarrow> clause list \<Rightarrow> string list \<Rightarrow> bool \<times> string list"
where
  "evaluate_clause look (Condition c) ids = evaluate_condition look c ids"
| "evaluate_clause look (Group i opr cs) ids = apply_operator look opr cs ids"
| "apply_operator look opr [] ids = (False, ids)"
| "apply_operator look opr (c # cs) ids =
     (if opr = OpAll then apply_all look (c # cs) ids else apply_any look (c # cs) ids)"
| "apply_all look [] ids = (True, ids)"
| "apply_all look (c # cs) ids =
     (case evaluate_clause look c ids of (m, ids1) \<Rightarrow> if m then apply_all look cs ids1 else (False, ids1))"
| "apply_any look [] ids = (False, ids)"
| "apply_any look (c # cs) ids =
     (case evaluate_clause look c ids of (m, ids1) \<Rightarrow> if m then (True, ids1) else apply_any look cs ids1)"

definition evaluate_trigger :: "snapshot_lookup \<Rightarrow> trigger \<Rightarrow> bool \<times> string list" where
  "evaluate_trigger look t = apply_operator look (tr_operator t) (tr_clauses t) []"

section \<open>The compiled index\<close>

text \<open>Insertion into a \<open>Set\<close>, which iterates in the order of insertion.\<close>
definition set_add :: "'a \<Rightarrow> 'a list \<Rightarrow> 'a list" where
  "set_add x xs = (if x \<in> set xs then xs else xs @ [x])"

fun strip_prefix :: "string \<Rightarrow> string \<Rightarrow> string option" where
  "strip_prefix [] s = Some s"
| "strip_prefix (p # ps) [] = None"
| "strip_prefix (p # ps) (c # cs) = (if p = c then strip_prefix ps cs else None)"

definition key_char :: "char \<Rightarrow> bool" where
  "key_char c = (let n = char_code c in is_digit c \<or> 65 \<le> n \<and> n \<le> 90 \<or> 97 \<le> n \<and> n \<le> 122
     \<or> c = CHR '':'' \<or> c = CHR ''_'' \<or> c = CHR ''-'')"

text \<open>One of the two reference patterns at the start of the string: its key and what follows.\<close>
definition match_reference :: "string \<Rightarrow> string \<Rightarrow> (string \<times> string) option" where
  "match_reference ns s =
     Option.bind (strip_prefix ''{{'' s) (\<lambda>s1.
     Option.bind (strip_prefix ns (dropWhile is_blank s1)) (\<lambda>s2.
     Option.bind (strip_prefix ''.'' s2) (\<lambda>s3.
       let key = takeWhile key_char s3 in
       if key = [] then None else
       Option.bind (strip_prefix ''.'' (dropWhile key_char s3)) (\<lambda>s4.
       Option.bind (case strip_prefix ''value'' s4 of Some r \<Rightarrow> Some r | None \<Rightarrow> strip_prefix ''previousValue'' s4) (\<lambda>s5.
       Option.bind (strip_prefix ''}}'' (dropWhile is_blank s5)) (\<lambda>rest. Some (key, rest)))))))"

text \<open>\<open>matchAll\<close>: the leftmost matches that do not overlap; the number bounds the length.\<close>
fun match_references :: "string \<Rightarrow> nat \<Rightarrow> string \<Rightarrow> string list" where
  "match_references ns 0 s = []"
| "match_references ns (Suc n) [] = []"
| "match_references ns (Suc n) (c # cs) =
     (case match_reference ns (c # cs) of
        Some (key, rest) \<Rightarrow> key # match_references ns n rest
      | None \<Rightarrow> match_references ns n cs)"

definition string_references :: "string \<Rightarrow> string list" where
  "string_references s =
     match_references ''tagValues'' (length s) s @ match_references ''tags'' (length s) s"

fun collect_references :: "json \<Rightarrow> string list \<Rightarrow> string list" where
  "collect_references (JStr s) acc = fold set_add (string_references s) acc"
| "collect_references (JArr vs) acc = fold collect_references vs acc"
| "collect_references (JObj kvs) acc = fold (\<lambda>kv. collect_references (snd kv)) kvs acc"
| "collect_references _ acc = acc"

definition collect_action_keys :: "event_action list \<Rightarrow> string list" where
  "collect_action_keys acts = fold (\<lambda>a. collect_references (JObj (ea_inputs a))) acts []"

record compiled_event =
  ce_id :: string
  ce_station :: string
  ce_trigger :: trigger
  ce_actions :: "event_action list"
  ce_condition_keys :: "string list"
  ce_action_keys :: "string list"

record compiled_snapshot =
  cs_by_id :: "(string, compiled_event) jsmap"
  cs_candidates :: "(string, string list) jsmap"

definition index_add :: "string \<Rightarrow> string \<Rightarrow> (string, string list) jsmap \<Rightarrow> (string, string list) jsmap" where
  "index_add key eid idx =
     jm_set key (set_add eid (case jm_get idx key of None \<Rightarrow> [] | Some s \<Rightarrow> s)) idx"

fun collect_condition_keys ::
  "string \<Rightarrow> clause \<Rightarrow> string list \<times> (string, string list) jsmap \<Rightarrow> string list \<times> (string, string list) jsmap" where
  "collect_condition_keys eid (Condition c) (ks, idx) = (set_add (tg_tag c) ks, index_add (tg_tag c) eid idx)"
| "collect_condition_keys eid (Group i opr cs) st = fold (collect_condition_keys eid) cs st"

definition compile_event :: "event_definition \<Rightarrow> compiled_snapshot \<Rightarrow> compiled_snapshot" where
  "compile_event ev st =
     (let (ks, idx) = fold (collect_condition_keys (ed_id ev)) (tr_clauses (ed_trigger ev)) ([], cs_candidates st)
      in \<lparr>cs_by_id = jm_set (ed_id ev)
            \<lparr>ce_id = ed_id ev, ce_station = ed_station ev, ce_trigger = ed_trigger ev, ce_actions = ed_actions ev,
             ce_condition_keys = ks, ce_action_keys = collect_action_keys (ed_actions ev)\<rparr> (cs_by_id st),
          cs_candidates = idx\<rparr>)"

definition empty_snapshot :: compiled_snapshot where
  "empty_snapshot = \<lparr>cs_by_id = [], cs_candidates = []\<rparr>"

definition compile_station_events :: "event_definition list \<Rightarrow> compiled_snapshot" where
  "compile_station_events evs = fold compile_event evs empty_snapshot"

definition get_candidate_event_ids :: "compiled_snapshot \<Rightarrow> string list \<Rightarrow> string list" where
  "get_candidate_event_ids st keys =
     fold (\<lambda>k acc. case jm_get (cs_candidates st) k of None \<Rightarrow> acc | Some ids \<Rightarrow> fold set_add ids acc) keys []"

definition get_compiled_event :: "compiled_snapshot \<Rightarrow> string \<Rightarrow> compiled_event option" where
  "get_compiled_event st eid = jm_get (cs_by_id st) eid"

definition event_keys :: "compiled_event \<Rightarrow> string list" where
  "event_keys ce = fold set_add (ce_action_keys ce) (fold set_add (ce_condition_keys ce) [])"

definition get_all_required_keys :: "compiled_snapshot \<Rightarrow> string list" where
  "get_all_required_keys st =
     fold (\<lambda>ce acc. fold set_add (ce_action_keys ce) (fold set_add (ce_condition_keys ce) acc))
       (map snd (cs_by_id st)) []"

section \<open>Refreshing the index\<close>

text \<open>
  The cache object: the snapshot in use, whether a refresh loop is running (\<open>refreshPromise\<close>)
  and whether another turn was asked for (\<open>refreshQueued\<close>).
\<close>
record event_cache =
  ec_snapshot :: compiled_snapshot
  ec_refreshing :: bool
  ec_queued :: bool

datatype refresh_input =
    RefreshCall
  | FetchOk "event_definition list"
  | FetchError string

definition new_event_cache :: event_cache where
  "new_event_cache = \<lparr>ec_snapshot = empty_snapshot, ec_refreshing = False, ec_queued = False\<rparr>"

text \<open>
  A call while a loop runs asks for another turn; a fetch that ends swaps the snapshot and runs
  again if asked to; a failed fetch ends the loop and leaves the flag to the next loop, which
  resets it.  A fetch can only end while one runs.
\<close>
definition refresh_step :: "event_cache \<Rightarrow> refresh_input \<Rightarrow> event_cache option" where
  "refresh_step c inp = (case inp of
       RefreshCall \<Rightarrow>
         Some (if ec_refreshing c then c\<lparr>ec_queued := True\<rparr>
               else c\<lparr>ec_refreshing := True, ec_queued := False\<rparr>)
     | FetchOk evs \<Rightarrow>
         if \<not> ec_refreshing c then None
         else Some (if ec_queued c then c\<lparr>ec_snapshot := compile_station_events evs, ec_queued := False\<rparr>
                    else c\<lparr>ec_snapshot := compile_station_events evs, ec_refreshing := False\<rparr>)
     | FetchError err \<Rightarrow>
         if \<not> ec_refreshing c then None else Some (c\<lparr>ec_refreshing := False\<rparr>))"

fun refresh_run :: "event_cache \<Rightarrow> refresh_input list \<Rightarrow> event_cache option" where
  "refresh_run c [] = Some c"
| "refresh_run c (i # is) = Option.bind (refresh_step c i) (\<lambda>c1. refresh_run c1 is)"

definition load_initial_snapshot :: "event_cache \<Rightarrow> string + event_definition list \<Rightarrow> string + event_cache" where
  "load_initial_snapshot c resp = (case resp of
       Inl err \<Rightarrow> Inl (''failed to load station event cache snapshot: '' @ err)
     | Inr evs \<Rightarrow> Inr (c\<lparr>ec_snapshot := compile_station_events evs\<rparr>))"

section \<open>The processor\<close>

record trigger_payload =
  tp_source_event :: string
  tp_topic :: string
  tp_received_at :: string
  tp_parsed_at :: string
  tp_metadata :: "topic_metadata option"
  tp_station :: string
  tp_event :: string
  tp_matched :: "string list"
  tp_matched_at :: string
  tp_points :: "point_reading list"
  tp_tag_values :: "(string, tag_snapshot) jsmap"
  tp_replayed :: bool

definition build_trigger_payload ::
  "parsed_event \<Rightarrow> compiled_event \<Rightarrow> string list \<Rightarrow> snapshot_lookup \<Rightarrow> string list \<Rightarrow> string \<Rightarrow> trigger_payload" where
  "build_trigger_payload e ce matched look keys now =
     \<lparr>tp_source_event = pe_id e, tp_topic = pe_topic e,
      tp_received_at = to_iso_string (pe_received_at e), tp_parsed_at = to_iso_string (pe_parsed_at e),
      tp_metadata = pe_metadata e, tp_station = ce_station ce, tp_event = ce_id ce, tp_matched = matched,
      tp_matched_at = now,
      tp_points = map (\<lambda>r. r\<lparr>pr_previous := nullish (pr_previous r) (Some JNull)\<rparr>) (extract_point_readings e),
      tp_tag_values = fold (\<lambda>k acc. case look k of None \<Rightarrow> acc | Some s \<Rightarrow> jm_set k s acc) keys [],
      tp_replayed = (case pe_payload e of JObj p \<Rightarrow> jo_get p ''replayed'' = Some (JBool True) | _ \<Rightarrow> False)\<rparr>"

text \<open>Snapshots attached to the event come before those of the live cache.\<close>
definition lookup_snapshot :: "parsed_event \<Rightarrow> tag_cache \<Rightarrow> snapshot_lookup" where
  "lookup_snapshot e c k =
     (case Option.bind (pe_tag_snapshots e) (\<lambda>m. jm_get m k) of Some s \<Rightarrow> Some s | None \<Rightarrow> get_snapshot c k)"

text \<open>The candidate events, in order, and the set of the keys they need.\<close>
definition candidate_events :: "compiled_snapshot \<Rightarrow> string list \<Rightarrow> compiled_event list" where
  "candidate_events st ids = List.map_filter (get_compiled_event st) ids"

definition required_keys :: "compiled_event list \<Rightarrow> string list" where
  "required_keys ces =
     fold (\<lambda>ce acc. fold set_add (ce_action_keys ce) (fold set_add (ce_condition_keys ce) acc)) ces []"

text \<open>The calls to the service, in order, up to the first that fails (Some error).\<close>
type_synonym trigger_rpc = "trigger_payload \<Rightarrow> string option"

fun trigger_candidates ::
  "trigger_rpc \<Rightarrow> string \<Rightarrow> parsed_event \<Rightarrow> snapshot_lookup \<Rightarrow> compiled_event list \<Rightarrow> trigger_payload list \<times> string option" where
  "trigger_candidates rpc now e look [] = ([], None)"
| "trigger_candidates rpc now e look (ce # ces) =
     (case evaluate_trigger look (ce_trigger ce) of (matched, ids) \<Rightarrow>
        if \<not> matched then trigger_candidates rpc now e look ces
        else (let p = build_trigger_payload e ce ids look (event_keys ce) now
              in case rpc p of
                   Some err \<Rightarrow> ([p], Some err)
                 | None \<Rightarrow> (case trigger_candidates rpc now e look ces of (ps, err) \<Rightarrow> (p # ps, err))))"

text \<open>The batches of the processor; the number of loaded snapshots is not kept.\<close>
definition hydrate_for_event ::
  "nat \<Rightarrow> fetch_snapshots \<Rightarrow> string \<Rightarrow> string list \<Rightarrow> tag_cache \<Rightarrow> (tag_cache \<times> string option) option" where
  "hydrate_for_event b fetch now keys c =
     (if keys = [] then Some (c, None)
      else map_option (\<lambda>(c1, r). (c1, case r of Inl err \<Rightarrow> Some err | Inr _ \<Rightarrow> None))
             (hydrate_batches b fetch now keys 0 c))"

definition matches_station_events :: "parsed_event \<Rightarrow> bool" where
  "matches_station_events e = is_points_event e"

text \<open>
  \<open>process\<close>: the new cache, the calls made, and the error with which it ends.  None: it does
  not return (a batch size of zero).
\<close>
definition process_station_events ::
  "nat \<Rightarrow> fetch_snapshots \<Rightarrow> trigger_rpc \<Rightarrow> string \<Rightarrow> compiled_snapshot \<Rightarrow> parsed_event \<Rightarrow> tag_cache
     \<Rightarrow> (tag_cache \<times> trigger_payload list \<times> string option) option" where
  "process_station_events b fetch rpc now st e c =
     (let readings = extract_point_readings e;
          keys = fold set_add (concat (map reading_keys readings)) [];
          ids = get_candidate_event_ids st keys;
          ces = candidate_events st ids;
          missing = filter (\<lambda>k. lookup_snapshot e c k = None) (required_keys ces)
      in if readings = [] \<or> ids = [] then Some (c, [], None)
         else map_option (\<lambda>(c1, err). case err of
                  Some er \<Rightarrow> (c1, [], Some er)
                | None \<Rightarrow> (case trigger_candidates rpc now e (lookup_snapshot e c1) ces of
                     (ps, er) \<Rightarrow> (c1, ps, er)))
              (hydrate_for_event b fetch now missing c))"

section \<open>The meaning of a trigger\<close>

definition condition_holds :: "snapshot_lookup \<Rightarrow> trigger_condition \<Rightarrow> bool" where
  "condition_holds look c = (case look (tg_tag c) of None \<Rightarrow> False
     | Some s \<Rightarrow> evaluate_condition_op (tg_condition c) (ts_value s) (ts_previous s) (tg_value c))"

fun clause_holds :: "snapshot_lookup \<Rightarrow> clause \<Rightarrow> bool" where
  "clause_holds look (Condition c) = condition_holds look c"
| "clause_holds look (Group i opr cs) =
     (cs \<noteq> [] \<and> (if opr = OpAll then list_all (clause_holds look) cs else list_ex (clause_holds look) cs))"

definition operator_holds :: "snapshot_lookup \<Rightarrow> group_operator \<Rightarrow> clause list \<Rightarrow> bool" where
  "operator_holds look opr cs \<longleftrightarrow>
     cs \<noteq> [] \<and> (if opr = OpAll then list_all (clause_holds look) cs else list_ex (clause_holds look) cs)"

fun clause_conditions :: "clause \<Rightarrow> trigger_condition list" where
  "clause_conditions (Condition c) = [c]"
| "clause_conditions (Group i opr cs) = concat (map clause_conditions cs)"

definition trigger_conditions :: "trigger \<Rightarrow> trigger_condition list" where
  "trigger_conditions t = concat (map clause_conditions (tr_clauses t))"

definition trigger_tags :: "trigger \<Rightarrow> string set" where
  "trigger_tags t = tg_tag ` set (trigger_conditions t)"

text \<open>The result m of an evaluation that adds the ids of some conditions of cs.\<close>
definition matched_among :: "snapshot_lookup \<Rightarrow> bool \<Rightarrow> trigger_condition list \<Rightarrow> string list \<Rightarrow> bool \<times> string list \<Rightarrow> bool" where
  "matched_among look m conds ids res \<longleftrightarrow> fst res = m \<and>
     (\<exists>ms. snd res = ids @ map tg_id ms \<and> subseq ms conds \<and> (\<forall>c \<in> set ms. condition_holds look c) \<and> (m \<longrightarrow> ms \<noteq> []))"

lemma matched_among_step:
  assumes "matched_among look m1 cs1 ids r1" "matched_among look m2 cs2 (snd r1) r2"
  shows "matched_among look m2 (cs1 @ cs2) ids r2"
proof -
  from assms obtain a b where
    "snd r1 = ids @ map tg_id a" "subseq a cs1" "\<forall>c \<in> set a. condition_holds look c"
    "fst r2 = m2" "snd r2 = snd r1 @ map tg_id b" "subseq b cs2" "\<forall>c \<in> set b. condition_holds look c" "m2 \<longrightarrow> b \<noteq> []"
    unfolding matched_among_def by blast
  then show ?thesis
    unfolding matched_among_def by (intro conjI exI[of _ "a @ b"]) (auto simp: list_emb_append_mono)
qed

lemma matched_among_first:
  "matched_among look m cs1 ids r \<Longrightarrow> matched_among look m (cs1 @ cs2) ids r"
  unfolding matched_among_def by (auto intro: list_emb_prefix)

lemma matched_among_not: "matched_among look m cs ids r \<Longrightarrow> matched_among look False cs ids (False, snd r)"
  unfolding matched_among_def by auto

lemma evaluation_meaning:
  "matched_among look (clause_holds look c) (clause_conditions c) ids (evaluate_clause look c ids)"
  "matched_among look (operator_holds look opr cs) (concat (map clause_conditions cs)) ids (apply_operator look opr cs ids)"
  "(fst (apply_all look cs ids) = list_all (clause_holds look) cs) \<and>
     (cs \<noteq> [] \<longrightarrow> matched_among look (list_all (clause_holds look) cs) (concat (map clause_conditions cs)) ids (apply_all look cs ids))"
  "matched_among look (list_ex (clause_holds look) cs) (concat (map clause_conditions cs)) ids (apply_any look cs ids)"
proof (induction look c ids and look opr cs ids and look cs ids and look cs ids
    rule: evaluate_clause_apply_operator_apply_all_apply_any.induct)
  case (1 look c ids)
  show ?case
  proof (cases "condition_holds look c")
    case True
    then have "evaluate_condition look c ids = (True, ids @ map tg_id [c])"
      by (auto simp: evaluate_condition_def condition_holds_def split: option.splits)
    with True show ?thesis
      by (simp add: matched_among_def) (rule exI[of _ "[c]"], simp)
  next
    case False
    then have "evaluate_condition look c ids = (False, ids)"
      by (auto simp: evaluate_condition_def condition_holds_def split: option.splits)
    with False show ?thesis by (simp add: matched_among_def)
  qed
next
  case (6 look c cs ids)
  obtain m ids1 where e: "evaluate_clause look c ids = (m, ids1)" by fastforce
  with 6(1) have m: "m = clause_holds look c" by (simp add: matched_among_def)
  show ?case
  proof (cases m)
    case False
    then have "matched_among look False (clause_conditions c @ concat (map clause_conditions cs)) ids (False, ids1)"
      using 6(1) e m by (intro matched_among_first) simp
    with False e m show ?thesis by simp
  next
    case True
    with 6(2)[OF e[symmetric] True] have
      r: "fst (apply_all look cs ids1) = list_all (clause_holds look) cs"
        "cs \<noteq> [] \<longrightarrow> matched_among look (list_all (clause_holds look) cs) (concat (map clause_conditions cs)) ids1 (apply_all look cs ids1)"
      by simp_all
    show ?thesis
    proof (cases "cs = []")
      case True
      with 6(1) e m \<open>m\<close> show ?thesis by simp
    next
      case False
      with r(2) 6(1) e matched_among_step[of look m "clause_conditions c" ids "(m, ids1)"] m
      have "matched_among look (list_all (clause_holds look) cs) (clause_conditions c @ concat (map clause_conditions cs)) ids (apply_all look cs ids1)"
        by simp
      with r(1) e m \<open>m\<close> show ?thesis by simp
    qed
  qed
next
  case (8 look c cs ids)
  obtain m ids1 where e: "evaluate_clause look c ids = (m, ids1)" by fastforce
  with 8(1) have m: "m = clause_holds look c" by (simp add: matched_among_def)
  show ?case
  proof (cases m)
    case True
    with 8(1) e m show ?thesis using matched_among_first by fastforce
  next
    case False
    with 8(2)[OF e[symmetric] False] 8(1) e m matched_among_step[of look m "clause_conditions c" ids "(m, ids1)"]
    show ?thesis by simp
  qed
next
  case (4 look opr c cs ids)
  then show ?case by (auto simp: operator_holds_def simp del: apply_all.simps apply_any.simps)
qed (auto simp: matched_among_def operator_holds_def)

text \<open>
  C12: the evaluation of a trigger decides its meaning.  It matches iff the list of clauses is
  not empty and all (or some) of them hold, where a condition holds iff its tag has a snapshot
  that satisfies the operator and a group is read like the trigger; the short-circuiting
  evaluation reports the ids of conditions of the trigger that hold, in their order, and at
  least one when it matches.
\<close>
theorem evaluate_trigger_meaning:
  "fst (evaluate_trigger look t) = operator_holds look (tr_operator t) (tr_clauses t)
   \<and> (\<exists>ms. snd (evaluate_trigger look t) = map tg_id ms \<and> subseq ms (trigger_conditions t)
        \<and> (\<forall>c \<in> set ms. condition_holds look c) \<and> (fst (evaluate_trigger look t) \<longrightarrow> ms \<noteq> []))"
  using evaluation_meaning(2)[of look "tr_operator t" "tr_clauses t" "[]"]
  by (auto simp: matched_among_def evaluate_trigger_def trigger_conditions_def)

definition sample_condition :: trigger_condition where
  "sample_condition = \<lparr>tg_id = ''c'', tg_tag = ''k'', tg_device = None, tg_condition = GoesAbove, tg_value = JNum 5\<rparr>"

definition sample_trigger :: trigger where
  "sample_trigger = \<lparr>tr_operator = OpAny, tr_clauses = [Condition sample_condition]\<rparr>"

definition sample_snapshot :: tag_snapshot where
  "sample_snapshot = \<lparr>ts_key = ''k'', ts_point = ''k'', ts_value = JNum 6, ts_previous = JNum 4, ts_quality = None,
     ts_timestamp = None, ts_gateway_timestamp = None, ts_processor_timestamp = None,
     ts_observed_at = [], ts_source = FromStream\<rparr>"

theorem evaluate_trigger_meaning_witness:
  "evaluate_trigger (\<lambda>_. Some sample_snapshot) sample_trigger = (True, [''c''])"
proof -
  have h: "operator_holds (\<lambda>_. Some sample_snapshot) (tr_operator sample_trigger) (tr_clauses sample_trigger)"
    by (simp add: operator_holds_def sample_trigger_def condition_holds_def sample_condition_def
        sample_snapshot_def evaluate_condition_op_def to_number_def)
  obtain ms where ms: "snd (evaluate_trigger (\<lambda>_. Some sample_snapshot) sample_trigger) = map tg_id ms"
      "subseq ms [sample_condition]" "ms \<noteq> []"
    using evaluate_trigger_meaning[of "\<lambda>_. Some sample_snapshot" sample_trigger] h
    by (auto simp: trigger_conditions_def sample_trigger_def)
  then have "ms = [sample_condition]" by (auto elim: list_emb.cases)
  with ms h evaluate_trigger_meaning[of "\<lambda>_. Some sample_snapshot" sample_trigger] show ?thesis
    by (auto simp: prod_eq_iff sample_condition_def)
qed

text \<open>
  conditions are edge-triggered on the readings of the stream.  When two numeric readings a,
  then b (that carry no previous value themselves) have been stored for a tag, goes-above fires
  iff a is at most the threshold and b exceeds it, goes-below symmetrically, increments-up iff
  b > a, increments-down iff b < a, any-change iff they differ; a repeated value never fires them.
\<close>
theorem stream_edges:
  assumes "snapshot_wf c" "si_key i1 = si_key i2" "si_previous i2 = None"
    and "si_value i1 = JNum a" "si_value i2 = JNum b"
  shows "\<exists>s. get_snapshot (set_snapshot now2 i2 (set_snapshot now1 i1 c)) (si_key i2) = Some s
    \<and> evaluate_condition_op GoesAbove (ts_value s) (ts_previous s) (JNum t) = (a \<le> t \<and> t < b)
    \<and> evaluate_condition_op GoesBelow (ts_value s) (ts_previous s) (JNum t) = (b < t \<and> t \<le> a)
    \<and> evaluate_condition_op IncrementsUp (ts_value s) (ts_previous s) (JNum t) = (a < b)
    \<and> evaluate_condition_op IncrementsDown (ts_value s) (ts_previous s) (JNum t) = (b < a)
    \<and> evaluate_condition_op AnyChange (ts_value s) (ts_previous s) (JNum t) = (a \<noteq> b)"
proof -
  let ?c1 = "set_snapshot now1 i1 c"
  have ok1: "jm_ok (sc_map c)" using assms(1) by (simp add: snapshot_wf_def)
  have ok2: "jm_ok (sc_map ?c1)" using snap.put_wf[OF assms(1)] by (simp add: snapshot_wf_def)
  obtain s1 where s1: "get_snapshot ?c1 (si_key i2) = Some s1" "ts_value s1 = JNum a"
    using set_snapshot_get[OF ok1, of now1 i1 "si_key i1"] assms by (simp add: snapshot_with_fallback_def)
  have "get_snapshot (set_snapshot now2 i2 ?c1) (si_key i2) = Some (snapshot_with_fallback now2 i2 (Some s1))"
    using set_snapshot_get[OF ok2, of now2 i2 "si_key i2"] s1 by simp
  then show ?thesis
    using s1 assms
    by (auto simp: snapshot_with_fallback_def snapshot_previous_def evaluate_condition_op_def to_number_def)
qed

theorem stream_edges_witness:
  "\<exists>s. get_snapshot (set_snapshot ''t2'' (sample_input\<lparr>si_value := JNum 7\<rparr>)
         (set_snapshot ''t1'' sample_input (snapshot_cache_new None))) ''k'' = Some s
     \<and> evaluate_condition_op GoesAbove (ts_value s) (ts_previous s) (JNum 5)"
  using stream_edges[of "snapshot_cache_new None" sample_input "sample_input\<lparr>si_value := JNum 7\<rparr>" 1 7 "''t2''" "''t1''" 5]
  by (auto simp: sample_input_def snapshot_wf_def snapshot_cache_new_def)


section \<open>The index\<close>

lemma set_set_add [simp]: "set (set_add x xs) = insert x (set xs)"
  by (auto simp: set_add_def)

lemma set_fold_set_add [simp]: "set (fold set_add xs ys) = set xs \<union> set ys"
  by (induction xs arbitrary: ys) auto

definition indexed :: "(string, string list) jsmap \<Rightarrow> string \<Rightarrow> string \<Rightarrow> bool" where
  "indexed idx k eid \<longleftrightarrow> (case jm_get idx k of None \<Rightarrow> False | Some s \<Rightarrow> eid \<in> set s)"

lemma indexed_add: "indexed (index_add k e idx) k' e' \<longleftrightarrow> indexed idx k' e' \<or> (k' = k \<and> e' = e)"
  by (auto simp: indexed_def index_add_def jm_get_set split: option.splits)

lemma indexed_empty: "indexed (cs_candidates empty_snapshot) k e \<longleftrightarrow> False"
  by (simp add: indexed_def empty_snapshot_def)

lemma collect_keys_clause:
  "set (fst (collect_condition_keys eid c st)) = set (fst st) \<union> tg_tag ` set (clause_conditions c)
   \<and> (\<forall>k e. indexed (snd (collect_condition_keys eid c st)) k e \<longleftrightarrow>
        indexed (snd st) k e \<or> (e = eid \<and> k \<in> tg_tag ` set (clause_conditions c)))"
proof (induction eid c st rule: collect_condition_keys.induct)
  case (1 eid c ks idx)
  show ?case by (auto simp: indexed_add)
next
  case (2 eid i opr cs st)
  then show ?case
  proof (induction cs arbitrary: st)
    case (Cons c cs)
    have hd: "set (fst (collect_condition_keys eid c st)) = set (fst st) \<union> tg_tag ` set (clause_conditions c)
        \<and> (\<forall>k e. indexed (snd (collect_condition_keys eid c st)) k e \<longleftrightarrow>
          indexed (snd st) k e \<or> (e = eid \<and> k \<in> tg_tag ` set (clause_conditions c)))"
      using Cons.prems by simp
    have tl: "set (fst (fold (collect_condition_keys eid) cs st')) = set (fst st') \<union> tg_tag ` set (clause_conditions (Group i opr cs))
        \<and> (\<forall>k e. indexed (snd (fold (collect_condition_keys eid) cs st')) k e \<longleftrightarrow>
          indexed (snd st') k e \<or> (e = eid \<and> k \<in> tg_tag ` set (clause_conditions (Group i opr cs))))" for st'
      using Cons.IH[of st'] Cons.prems by simp
    show ?case using hd tl[of "collect_condition_keys eid c st"] by (auto simp: image_Un)
  qed simp
qed

lemma collect_keys_clauses:
  "set (fst (fold (collect_condition_keys eid) cs st)) = set (fst st) \<union> tg_tag ` set (concat (map clause_conditions cs))
   \<and> (\<forall>k e. indexed (snd (fold (collect_condition_keys eid) cs st)) k e \<longleftrightarrow>
        indexed (snd st) k e \<or> (e = eid \<and> k \<in> tg_tag ` set (concat (map clause_conditions cs))))"
  using collect_keys_clause[of eid "Group [] OpAll cs" st] by simp

lemma compile_event_index:
  "indexed (cs_candidates (compile_event ev st)) k e \<longleftrightarrow>
     indexed (cs_candidates st) k e \<or> (e = ed_id ev \<and> k \<in> trigger_tags (ed_trigger ev))"
  using collect_keys_clauses[of "ed_id ev" "tr_clauses (ed_trigger ev)" "([], cs_candidates st)"]
  by (simp add: compile_event_def Let_def split_beta trigger_tags_def trigger_conditions_def)

text \<open>What is compiled for an event.\<close>
definition compiled_as :: "event_definition \<Rightarrow> compiled_event \<Rightarrow> bool" where
  "compiled_as ev ce \<longleftrightarrow> ce_id ce = ed_id ev \<and> ce_station ce = ed_station ev \<and> ce_trigger ce = ed_trigger ev
     \<and> ce_actions ce = ed_actions ev \<and> set (ce_condition_keys ce) = trigger_tags (ed_trigger ev)
     \<and> ce_action_keys ce = collect_action_keys (ed_actions ev)"

lemma compile_event_get:
  "\<exists>ce. compiled_as ev ce \<and> (\<forall>k. get_compiled_event (compile_event ev st) k =
     (if k = ed_id ev then Some ce else get_compiled_event st k))"
  using collect_keys_clauses[of "ed_id ev" "tr_clauses (ed_trigger ev)" "([], cs_candidates st)"]
  by (simp add: compile_event_def Let_def split_beta get_compiled_event_def jm_get_set compiled_as_def
      trigger_tags_def trigger_conditions_def)

lemma compile_fold:
  "indexed (cs_candidates (fold compile_event evs st)) k e \<longleftrightarrow>
     indexed (cs_candidates st) k e \<or> (\<exists>ev \<in> set evs. e = ed_id ev \<and> k \<in> trigger_tags (ed_trigger ev))"
  by (induction evs arbitrary: st) (auto simp: compile_event_index)

lemma compile_fold_get:
  "get_compiled_event (fold compile_event evs st) k = Some ce \<Longrightarrow>
     get_compiled_event st k = Some ce \<or> (\<exists>ev \<in> set evs. compiled_as ev ce \<and> ed_id ev = k)"
proof (induction evs arbitrary: st)
  case (Cons ev evs)
  obtain ce1 where ce1: "compiled_as ev ce1"
      "\<And>k. get_compiled_event (compile_event ev st) k = (if k = ed_id ev then Some ce1 else get_compiled_event st k)"
    using compile_event_get[of ev st] by blast
  from Cons.prems have "get_compiled_event (fold compile_event evs (compile_event ev st)) k = Some ce" by simp
  from Cons.IH[OF this] show ?case
  proof
    assume "get_compiled_event (compile_event ev st) k = Some ce"
    with ce1 show ?thesis by (cases "k = ed_id ev") auto
  qed auto
qed simp

lemma compile_events_get:
  assumes "get_compiled_event (compile_station_events evs) i = Some ce"
  shows "\<exists>ev \<in> set evs. compiled_as ev ce \<and> ed_id ev = i"
proof -
  have "get_compiled_event empty_snapshot i = None" by (simp add: get_compiled_event_def empty_snapshot_def)
  with assms compile_fold_get[of evs empty_snapshot i ce] show ?thesis by (simp add: compile_station_events_def)
qed

lemma compile_fold_keep: "k \<notin> ed_id ` set evs \<Longrightarrow> get_compiled_event (fold compile_event evs st) k = get_compiled_event st k"
proof (induction evs arbitrary: st)
  case (Cons ev evs)
  with compile_event_get[of ev st] show ?case by auto
qed simp

lemma compile_get:
  assumes "distinct (map ed_id evs)" "ev \<in> set evs"
  shows "\<exists>ce. get_compiled_event (fold compile_event evs st) (ed_id ev) = Some ce \<and> compiled_as ev ce"
  using assms
proof (induction evs arbitrary: st)
  case (Cons x evs)
  show ?case
  proof (cases "ev \<in> set evs")
    case True
    with Cons show ?thesis by simp
  next
    case False
    with Cons.prems have x: "x = ev" by simp
    obtain ce where ce: "compiled_as ev ce" "get_compiled_event (compile_event ev st) (ed_id ev) = Some ce"
      using compile_event_get[of ev st] by auto
    have "ed_id ev \<notin> ed_id ` set evs" using Cons.prems x by auto
    from compile_fold_keep[OF this, of "compile_event ev st"] ce show ?thesis by (auto simp: x)
  qed
qed simp

lemma set_candidates: "e \<in> set (get_candidate_event_ids st keys) \<longleftrightarrow> (\<exists>k \<in> set keys. indexed (cs_candidates st) k e)"
proof -
  have "set (fold (\<lambda>k acc. case jm_get (cs_candidates st) k of None \<Rightarrow> acc | Some ids \<Rightarrow> fold set_add ids acc) keys acc)
      = {e. \<exists>k \<in> set keys. indexed (cs_candidates st) k e} \<union> set acc" for acc
    by (induction keys arbitrary: acc) (auto simp: indexed_def split: option.splits)
  then show ?thesis by (simp add: get_candidate_event_ids_def)
qed

lemma set_map_filter: "set (List.map_filter f xs) = {y. \<exists>x \<in> set xs. f x = Some y}"
  by (induction xs) (auto simp: List.map_filter_def)

text \<open>
  the compiled index loses no event and adds none.  For event definitions with distinct
  ids, the candidates that a set of changed tags selects are exactly the events whose trigger
  has a condition, however deeply nested, on one of these tags, each with its own station,
  trigger and actions and with exactly the tags of its conditions as its condition keys.
\<close>
theorem candidates_complete:
  assumes "distinct (map ed_id evs)" "ev \<in> set evs"
  defines "st \<equiv> compile_station_events evs"
  shows "(\<exists>ce \<in> set (candidate_events st (get_candidate_event_ids st keys)). compiled_as ev ce) \<longleftrightarrow>
    (\<exists>k \<in> set keys. k \<in> trigger_tags (ed_trigger ev))"
proof -
  obtain ce where ce: "get_compiled_event st (ed_id ev) = Some ce" "compiled_as ev ce"
    using compile_get[OF assms(1,2)] by (auto simp: st_def compile_station_events_def)
  have only: "get_compiled_event st i = Some ce' \<Longrightarrow> compiled_as ev ce' \<Longrightarrow> i = ed_id ev" for i ce'
    using compile_events_get[of evs i ce'] unfolding st_def compiled_as_def by metis
  have inj: "ev' = ev" if "ev' \<in> set evs" "ed_id ev' = ed_id ev" for ev'
    using that assms(1,2) by (metis distinct_map inj_onD)
  have idx: "ed_id ev \<in> set (get_candidate_event_ids st keys) \<longleftrightarrow> (\<exists>k \<in> set keys. k \<in> trigger_tags (ed_trigger ev))"
    unfolding set_candidates st_def compile_station_events_def compile_fold indexed_empty
    using inj assms(2) by metis
  show ?thesis
    unfolding candidate_events_def set_map_filter idx[symmetric] using ce only by blast
qed

definition sample_definition :: event_definition where
  "sample_definition = \<lparr>ed_id = ''e'', ed_station = ''s'', ed_enabled = True, ed_trigger = sample_trigger, ed_actions = []\<rparr>"

theorem candidates_complete_witness:
  "\<exists>ce \<in> set (candidate_events (compile_station_events [sample_definition])
        (get_candidate_event_ids (compile_station_events [sample_definition]) [''k''])). compiled_as sample_definition ce"
  using candidates_complete[of "[sample_definition]" sample_definition "[''k'']"]
  by (simp add: sample_definition_def sample_trigger_def sample_condition_def trigger_tags_def trigger_conditions_def)

section \<open>Refresh\<close>

definition is_ok_fetch :: "refresh_input \<Rightarrow> bool" where
  "is_ok_fetch i = (case i of FetchOk _ \<Rightarrow> True | _ \<Rightarrow> False)"

definition is_failed_fetch :: "refresh_input \<Rightarrow> bool" where
  "is_failed_fetch i = (case i of FetchError _ \<Rightarrow> True | _ \<Rightarrow> False)"

lemma refresh_run_append:
  "refresh_run c (xs @ ys) = Option.bind (refresh_run c xs) (\<lambda>c1. refresh_run c1 ys)"
  by (induction xs arbitrary: c) (auto split: bind_splits)

lemma refresh_run_fetches:
  "refresh_run c is = Some c' \<Longrightarrow> \<forall>i \<in> set is. \<not> is_failed_fetch i \<Longrightarrow> ec_refreshing c \<Longrightarrow> \<not> ec_refreshing c' \<Longrightarrow>
     Suc (of_bool (ec_queued c)) \<le> length (filter is_ok_fetch is)"
proof (induction "is" arbitrary: c)
  case (Cons i "is")
  from Cons.prems obtain c1 where c1: "refresh_step c i = Some c1" "refresh_run c1 is = Some c'"
    by (auto split: bind_splits)
  show ?case
  proof (cases i)
    case RefreshCall
    with c1 Cons.prems have "c1 = c\<lparr>ec_queued := True\<rparr>" by (simp add: refresh_step_def)
    with Cons.IH[OF c1(2)] Cons.prems RefreshCall show ?thesis by (simp add: is_ok_fetch_def)
  next
    case (FetchOk evs)
    show ?thesis
    proof (cases "ec_queued c")
      case True
      with c1 Cons.prems FetchOk have "ec_refreshing c1 \<and> \<not> ec_queued c1" by (auto simp: refresh_step_def)
      with Cons.IH[OF c1(2)] Cons.prems FetchOk True show ?thesis by (simp add: is_ok_fetch_def)
    next
      case False
      with FetchOk show ?thesis by (simp add: is_ok_fetch_def)
    qed
  next
    case (FetchError err)
    with Cons.prems show ?thesis by (simp add: is_failed_fetch_def)
  qed
qed simp

text \<open>
  no refresh request is lost.  If refresh is called at some point of a run and, with no
  failed fetch after it, the cache is idle again later, then after the call at least one fetch
  has completed, and at least two when a fetch was already under way at the call: so one of
  them was started after the call and has seen what the call was about.
\<close>
theorem refresh_not_lost:
  assumes "refresh_run new_event_cache before = Some c"
    and "refresh_run c (RefreshCall # after) = Some c'"
    and "\<forall>i \<in> set after. \<not> is_failed_fetch i" "\<not> ec_refreshing c'"
  shows "length (filter is_ok_fetch after) \<ge> (if ec_refreshing c then 2 else 1)"
proof -
  let ?c1 = "if ec_refreshing c then c\<lparr>ec_queued := True\<rparr> else c\<lparr>ec_refreshing := True, ec_queued := False\<rparr>"
  have "refresh_run ?c1 after = Some c'" using assms(2) by (simp add: refresh_step_def split: if_splits)
  from refresh_run_fetches[OF this assms(3) _ assms(4)] show ?thesis by (auto split: if_splits)
qed

theorem refresh_not_lost_witness:
  "length (filter is_ok_fetch [FetchOk [], FetchOk [sample_definition]]) \<ge> 2"
  using refresh_not_lost[of "[RefreshCall]" "new_event_cache\<lparr>ec_refreshing := True\<rparr>"
      "[FetchOk [], FetchOk [sample_definition]]"
      "new_event_cache\<lparr>ec_snapshot := compile_station_events [sample_definition]\<rparr>"]
  by (simp add: refresh_step_def new_event_cache_def is_failed_fetch_def)

section \<open>Independence from the live cache\<close>

lemma evaluation_cong:
  "(\<forall>t \<in> tg_tag ` set (clause_conditions c). look t = look' t) \<Longrightarrow> evaluate_clause look c ids = evaluate_clause look' c ids"
  "(\<forall>t \<in> tg_tag ` set (concat (map clause_conditions cs)). look t = look' t) \<Longrightarrow> apply_operator look opr cs ids = apply_operator look' opr cs ids"
  "(\<forall>t \<in> tg_tag ` set (concat (map clause_conditions cs)). look t = look' t) \<Longrightarrow> apply_all look cs ids = apply_all look' cs ids"
  "(\<forall>t \<in> tg_tag ` set (concat (map clause_conditions cs)). look t = look' t) \<Longrightarrow> apply_any look cs ids = apply_any look' cs ids"
  by (induction look c ids and look opr cs ids and look cs ids and look cs ids
      rule: evaluate_clause_apply_operator_apply_all_apply_any.induct)
     (auto simp: evaluate_condition_def split: prod.splits)

lemma evaluate_trigger_cong:
  "(\<And>t. t \<in> trigger_tags tr \<Longrightarrow> look t = look' t) \<Longrightarrow> evaluate_trigger look tr = evaluate_trigger look' tr"
  unfolding evaluate_trigger_def
  by (rule evaluation_cong(2)) (simp add: trigger_tags_def trigger_conditions_def)

lemma payload_cong:
  assumes "\<And>k. k \<in> set keys \<Longrightarrow> look k = look' k"
  shows "build_trigger_payload e ce ids look keys now = build_trigger_payload e ce ids look' keys now"
  using assms unfolding build_trigger_payload_def
  by (auto intro!: fold_cong)

lemma set_event_keys: "set (event_keys ce) = set (ce_condition_keys ce) \<union> set (ce_action_keys ce)"
  by (auto simp: event_keys_def)

lemma set_required_keys: "set (required_keys ces) = (\<Union>ce \<in> set ces. set (event_keys ce))"
proof -
  have "set (fold (\<lambda>ce acc. fold set_add (ce_action_keys ce) (fold set_add (ce_condition_keys ce) acc)) ces acc)
      = (\<Union>ce \<in> set ces. set (event_keys ce)) \<union> set acc" for acc
    by (induction ces arbitrary: acc) (auto simp: set_event_keys)
  then show ?thesis by (simp add: required_keys_def)
qed

lemma trigger_candidates_cong:
  assumes "\<And>ce. ce \<in> set ces \<Longrightarrow> trigger_tags (ce_trigger ce) \<subseteq> set (ce_condition_keys ce)"
    and "\<And>k. k \<in> set (required_keys ces) \<Longrightarrow> look k = look' k"
  shows "trigger_candidates rpc now e look ces = trigger_candidates rpc now e look' ces"
  using assms
proof (induction ces)
  case (Cons ce ces)
  have agree: "look k = look' k" if "k \<in> set (event_keys ce)" for k
    using Cons.prems(2)[of k] that by (simp add: set_required_keys)
  have "evaluate_trigger look (ce_trigger ce) = evaluate_trigger look' (ce_trigger ce)"
    by (rule evaluate_trigger_cong) (use Cons.prems(1)[of ce] agree in \<open>auto simp: set_event_keys\<close>)
  moreover have "build_trigger_payload e ce ids look (event_keys ce) now
      = build_trigger_payload e ce ids look' (event_keys ce) now" for ids
    by (rule payload_cong) (rule agree)
  moreover have "trigger_candidates rpc now e look ces = trigger_candidates rpc now e look' ces"
    using Cons by (simp add: set_required_keys)
  ultimately show ?case
    by (cases "evaluate_trigger look' (ce_trigger ce)") (simp add: Let_def split: option.split)
qed simp

definition event_candidates :: "compiled_snapshot \<Rightarrow> parsed_event \<Rightarrow> compiled_event list" where
  "event_candidates st e =
     candidate_events st (get_candidate_event_ids st
       (fold set_add (concat (map reading_keys (extract_point_readings e))) []))"

text \<open>
  A message whose snapshots were captured for every tag its candidates need is evaluated
  on them alone.  Processing it returns, makes no hydration call, leaves the live cache alone,
  and makes the same calls with the same payloads whatever the live cache holds by then, so
  newer messages that have overwritten the cache cannot change the outcome.
\<close>
theorem attached_snapshots_decide:
  assumes st: "st = compile_station_events evs"
    and attached: "\<forall>k \<in> set (required_keys (event_candidates st e)).
        \<exists>s. Option.bind (pe_tag_snapshots e) (\<lambda>m. jm_get m k) = Some s"
  shows "\<exists>calls err. \<forall>c b fetch. process_station_events b fetch rpc now st e c = Some (c, calls, err)"
proof -
  let ?ces = "event_candidates st e"
  have tags: "trigger_tags (ce_trigger ce) \<subseteq> set (ce_condition_keys ce)" if "ce \<in> set ?ces" for ce
  proof -
    from that obtain i where "get_compiled_event st i = Some ce"
      by (auto simp: event_candidates_def candidate_events_def set_map_filter)
    then obtain ev where "compiled_as ev ce" using compile_events_get unfolding st by blast
    then show ?thesis by (simp add: compiled_as_def)
  qed
  have same: "lookup_snapshot e c k = lookup_snapshot e c' k" if "k \<in> set (required_keys ?ces)" for c c' k
    using attached that by (fastforce simp: lookup_snapshot_def)
  have "filter (\<lambda>k. lookup_snapshot e c k = None) (required_keys ?ces) = []" for c
    using attached by (fastforce simp: filter_empty_conv lookup_snapshot_def)
  then have run: "process_station_events b fetch rpc now st e c =
      (if extract_point_readings e = [] \<or> get_candidate_event_ids st (fold set_add (concat (map reading_keys (extract_point_readings e))) []) = []
       then Some (c, [], None)
       else (case trigger_candidates rpc now e (lookup_snapshot e c) ?ces of (ps, er) \<Rightarrow> Some (c, ps, er)))" for c b fetch
    by (simp add: process_station_events_def Let_def event_candidates_def[symmetric] hydrate_for_event_def split: prod.split)
  define res where "res = trigger_candidates rpc now e (lookup_snapshot e (snapshot_cache_new None)) ?ces"
  have res: "trigger_candidates rpc now e (lookup_snapshot e c) ?ces = res" for c
    unfolding res_def by (rule trigger_candidates_cong[OF tags same])
  show ?thesis unfolding run res by (cases res) auto
qed

definition sample_captured :: parsed_event where
  "sample_captured = sample_event\<lparr>pe_payload := JObj [(''point'', JObj [(''id'', JStr ''k''), (''value'', JNum 6)])],
     pe_tag_snapshots := Some [(''k'', sample_snapshot)]\<rparr>"

theorem attached_snapshots_decide_witness:
  "\<exists>calls err. \<forall>c b fetch. process_station_events b fetch (\<lambda>_. None) ''now''
     (compile_station_events [sample_definition]) sample_captured c = Some (c, calls, err)"
proof (rule attached_snapshots_decide[OF refl], intro ballI)
  fix k
  let ?st = "compile_station_events [sample_definition]"
  assume "k \<in> set (required_keys (event_candidates ?st sample_captured))"
  then obtain ce i where ce: "get_compiled_event ?st i = Some ce" "k \<in> set (event_keys ce)"
    by (auto simp: set_required_keys event_candidates_def candidate_events_def set_map_filter)
  have "compiled_as sample_definition ce"
    using compile_events_get[OF ce(1)] by simp
  with ce(2) have "k = ''k''"
    by (auto simp: set_event_keys compiled_as_def sample_definition_def sample_trigger_def sample_condition_def
        trigger_tags_def trigger_conditions_def collect_action_keys_def)
  then show "\<exists>s. Option.bind (pe_tag_snapshots sample_captured) (\<lambda>m. jm_get m k) = Some s"
    by (simp add: sample_captured_def)
qed

end
