(* ===== verification/Shifts.thy ===== *)
theory Shifts
  imports JsDate
begin

text \<open>
  Shifts: the resolution of shifts and of hour buckets (\<open>metrics/shift.ts\<close>, the first part of
  \<open>metrics/bucket.ts\<close>, \<open>facility/shift/current.ts\<close>) and the materialization of shift
  instances from rotation patterns (\<open>facility/shift/materialize.ts\<close>), all under
  \<open>packages/services/src\<close>.  The offset of a time zone at an instant, which the code asks the
  Intl library for, is a parameter; the process-level caches of lookups are left out.
\<close>

section \<open>Hour buckets of a shift\<close>

record shift_window =
  sw_name :: string
  sw_start :: ms
  sw_duration :: rat
  sw_instance :: uuid

text \<open>Durations are in seconds.\<close>
record hour_bucket =
  hb_start :: ms
  hb_duration :: rat

text \<open>The loop over the full hours of the grid: the buckets and the cursor where it stops.\<close>
function grid_hours :: "rat \<Rightarrow> ms \<Rightarrow> hour_bucket list \<times> ms" where
  "grid_hours end_ms cursor =
     (if of_int (cursor + hour_ms) \<le> end_ms then
        (case grid_hours end_ms (cursor + hour_ms) of
           (bs, c) \<Rightarrow> (\<lparr>hb_start = cursor, hb_duration = 3600\<rparr> # bs, c))
      else ([], cursor))"
  by pat_completeness auto
termination
proof (relation "measure (\<lambda>(e, c). nat (\<lfloor>e\<rfloor> - c))", goal_cases)
  case (2 e c)
  then have "c + hour_ms \<le> \<lfloor>e\<rfloor>" by (simp only: le_floor_iff)
  moreover have "0 < hour_ms" by (simp add: hour_ms_def)
  ultimately show ?case by simp
qed simp

declare grid_hours.simps [simp del]

definition hour_buckets_for_shift :: "shift_window \<Rightarrow> ms \<Rightarrow> hour_bucket list" where
  "hour_buckets_for_shift shift anchor =
     (let start = sw_start shift;
          end_ms = of_int start + sw_duration shift * 1000;
          full_hours = (start - anchor) div hour_ms;
          cursor0 = anchor + full_hours * hour_ms;
          cursor = (if cursor0 < start then cursor0 + hour_ms else cursor0);
          rest = (case grid_hours end_ms cursor of (bs, c) \<Rightarrow>
                    bs @ (if of_int c < end_ms
                          then [\<lparr>hb_start = c, hb_duration = (end_ms - of_int c) / 1000\<rparr>] else []))
      in if start < cursor \<and> of_int cursor \<le> end_ms then
           \<lparr>hb_start = start, hb_duration = of_int (cursor - start) / 1000\<rparr> # rest
         else if of_int cursor > end_ms then
           [\<lparr>hb_start = start, hb_duration = sw_duration shift\<rparr>]
         else rest)"

definition bucket_covers :: "hour_bucket \<Rightarrow> ms \<Rightarrow> bool" where
  "bucket_covers b ts \<longleftrightarrow> hb_start b \<le> ts \<and> of_int ts < of_int (hb_start b) + hb_duration b * 1000"

text \<open>Inl is the error that the code throws when no bucket covers the instant.\<close>
definition find_hour_bucket :: "shift_window \<Rightarrow> ms \<Rightarrow> ms \<Rightarrow> string + hour_bucket" where
  "find_hour_bucket shift anchor ts =
     (case find (\<lambda>b. bucket_covers b ts) (hour_buckets_for_shift shift anchor) of
        Some b \<Rightarrow> Inr b
      | None \<Rightarrow> Inl (''No hour bucket found for '' @ to_iso_string ts @ '' in shift '' @ sw_name shift))"

section \<open>Clock hours\<close>

text \<open>The offset of the site's time zone (local time minus UTC) at an instant.\<close>
type_synonym tz_offset = "ms \<Rightarrow> int"

definition local_midnight_utc :: "tz_offset \<Rightarrow> ms \<Rightarrow> ms" where
  "local_midnight_utc tz ts =
     (let floored = ts div 1000 * 1000; off = tz floored
      in (floored + off) div day_ms * day_ms - off)"

definition local_calendar_date :: "tz_offset \<Rightarrow> ms \<Rightarrow> ms" where
  "local_calendar_date tz ts = (ts + tz ts) div day_ms * day_ms"

definition clock_hour_buckets :: "tz_offset \<Rightarrow> ms \<Rightarrow> hour_bucket list" where
  "clock_hour_buckets tz ts =
     map (\<lambda>i. \<lparr>hb_start = local_midnight_utc tz ts + int i * hour_ms, hb_duration = 3600\<rparr>) [0 ..< 24]"

definition resolve_clock_hour :: "tz_offset \<Rightarrow> ms \<Rightarrow> hour_bucket" where
  "resolve_clock_hour tz ts =
     (let m = local_midnight_utc tz ts
      in \<lparr>hb_start = m + (ts - m) div hour_ms * hour_ms, hb_duration = 3600\<rparr>)"

section \<open>Tables\<close>

record shift_definition =
  df_id :: uuid
  df_rotation_day :: int
  df_sort_order :: int
  df_day_offset :: int
  df_start_time :: string
  df_duration_hrs :: rat
  df_name :: string

record shift_pattern =
  pt_total_days :: int
  pt_use_end_date :: bool
  pt_shifts :: "shift_definition list"

text \<open>An assignment with its pattern; the start definition as (day of rotation, sort order).\<close>
record shift_assignment =
  sa_id :: uuid
  sa_site :: uuid
  sa_work_center :: "uuid option"
  sa_start :: ms
  sa_end :: "ms option"
  sa_start_definition :: "(int \<times> int) option"
  sa_pattern :: shift_pattern

record instance_row =
  ir_assignment :: uuid
  ir_definition :: uuid
  ir_site :: uuid
  ir_work_center :: "uuid option"
  ir_name :: string
  ir_business_date :: ms
  ir_start :: ms
  ir_end :: ms

record shift_instance = instance_row +
  in_id :: uuid

section \<open>Shift resolution\<close>

datatype entity_type = Station | Workcenter | Site | JobEntity

text \<open>The tables the lookups read: instances, assignments, and the work center of every station.\<close>
record shift_db =
  sd_instances :: "shift_instance list"
  sd_assignments :: "shift_assignment list"
  sd_stations :: "(uuid \<times> uuid option) list"

definition joined :: "shift_db \<Rightarrow> (shift_instance \<times> shift_assignment) list" where
  "joined db = concat (map (\<lambda>i. map (Pair i) (filter (\<lambda>a. sa_id a = ir_assignment i) (sd_assignments db))) (sd_instances db))"

definition resolve_workcenter :: "shift_db \<Rightarrow> entity_type \<Rightarrow> uuid \<Rightarrow> uuid option" where
  "resolve_workcenter db et eid = (case et of
       Workcenter \<Rightarrow> Some eid
     | Station \<Rightarrow> (case map_of (sd_stations db) eid of Some w \<Rightarrow> w | None \<Rightarrow> None)
     | _ \<Rightarrow> None)"

definition window_of :: "shift_instance \<Rightarrow> shift_window" where
  "window_of i = \<lparr>sw_name = ir_name i, sw_start = ir_start i,
     sw_duration = of_int (ir_end i - ir_start i) / 1000, sw_instance = in_id i\<rparr>"

text \<open>The newest assignment's instance among those that satisfy the condition.\<close>
definition newest_instance :: "(shift_instance \<Rightarrow> bool) \<Rightarrow> shift_db \<Rightarrow> shift_instance option" where
  "newest_instance p db =
     map_option fst (first_desc (\<lambda>x. sa_start (snd x)) (filter (\<lambda>x. p (fst x)) (joined db)))"

definition active_at :: "ms \<Rightarrow> shift_instance \<Rightarrow> bool" where
  "active_at ts i \<longleftrightarrow> ir_start i \<le> ts \<and> ir_end i > ts"

definition query_shift_for_entity :: "shift_db \<Rightarrow> entity_type \<Rightarrow> uuid \<Rightarrow> uuid \<Rightarrow> ms \<Rightarrow> shift_window option" where
  "query_shift_for_entity db et eid site ts =
     (let wc = (case et of Station \<Rightarrow> resolve_workcenter db et eid | Workcenter \<Rightarrow> Some eid | _ \<Rightarrow> None);
          by_wc = Option.bind wc (\<lambda>w. newest_instance (\<lambda>i. ir_work_center i = Some w \<and> active_at ts i) db);
          by_site = newest_instance (\<lambda>i. ir_site i = site \<and> ir_work_center i = None \<and> active_at ts i) db
      in case by_wc of
           Some i \<Rightarrow> Some (window_of i)
         | None \<Rightarrow> map_option window_of by_site)"

text \<open>\<open>SELECT DISTINCT ON (startTime) ... ORDER BY startTime, rotationStartDate DESC\<close>.\<close>
definition distinct_on_start :: "(shift_instance \<times> shift_assignment) list \<Rightarrow> shift_instance list" where
  "distinct_on_start rows =
     List.map_filter (\<lambda>s. map_option fst (first_desc (\<lambda>x. sa_start (snd x)) (filter (\<lambda>x. ir_start (fst x) = s) rows)))
       (sort (remdups (map (\<lambda>x. ir_start (fst x)) rows)))"

definition shift_instances_for_range :: "shift_db \<Rightarrow> uuid \<Rightarrow> uuid option \<Rightarrow> ms \<Rightarrow> ms \<Rightarrow> shift_window list" where
  "shift_instances_for_range db site wc from_ms to_ms =
     (let sel = (\<lambda>p. distinct_on_start (filter (\<lambda>x. p (fst x) \<and> ir_start (fst x) < to_ms \<and> ir_end (fst x) > from_ms) (joined db)));
          by_wc = (case wc of None \<Rightarrow> [] | Some w \<Rightarrow> sel (\<lambda>i. ir_work_center i = Some w))
      in map window_of (if by_wc \<noteq> [] then by_wc else sel (\<lambda>i. ir_site i = site \<and> ir_work_center i = None)))"

text \<open>
  The start of the first shift of the business day of the given shift, at the level of the work
  center or else of the site; the shift's own start when there is none.
\<close>
definition anchor_time :: "shift_db \<Rightarrow> shift_window \<Rightarrow> uuid \<Rightarrow> uuid option \<Rightarrow> ms" where
  "anchor_time db shift site wc =
     (let at_wc = (\<lambda>i w. ir_site i = site \<and> ir_work_center i = Some w);
          at_site = (\<lambda>i. ir_site i = site \<and> ir_work_center i = None);
          cur = (case Option.bind wc (\<lambda>w. newest_instance (\<lambda>i. at_wc i w \<and> ir_start i = sw_start shift) db) of
                   Some i \<Rightarrow> Some i
                 | None \<Rightarrow> newest_instance (\<lambda>i. at_site i \<and> ir_start i = sw_start shift) db)
      in case cur of
           None \<Rightarrow> sw_start shift
         | Some c \<Rightarrow>
             (let firsts = (\<lambda>p. map_option (\<lambda>x. ir_start (fst x)) (first_asc (\<lambda>x. ir_start (fst x))
                              (filter (\<lambda>x. p (fst x) \<and> ir_business_date (fst x) = ir_business_date c) (joined db))))
              in case Option.bind wc (\<lambda>w. firsts (\<lambda>i. at_wc i w)) of
                   Some t \<Rightarrow> t
                 | None \<Rightarrow> (case firsts at_site of Some t \<Rightarrow> t | None \<Rightarrow> sw_start shift)))"

definition hour_buckets_for_entity ::
  "shift_db \<Rightarrow> tz_offset \<Rightarrow> entity_type \<Rightarrow> uuid \<Rightarrow> uuid \<Rightarrow> ms \<Rightarrow> hour_bucket list" where
  "hour_buckets_for_entity db tz et eid site ts =
     (case query_shift_for_entity db et eid site ts of
        Some shift \<Rightarrow> hour_buckets_for_shift shift (anchor_time db shift site (resolve_workcenter db et eid))
      | None \<Rightarrow> clock_hour_buckets tz ts)"

definition resolve_hour_bucket ::
  "shift_db \<Rightarrow> tz_offset \<Rightarrow> entity_type \<Rightarrow> uuid \<Rightarrow> uuid \<Rightarrow> ms \<Rightarrow> string + hour_bucket" where
  "resolve_hour_bucket db tz et eid site ts =
     (case query_shift_for_entity db et eid site ts of
        Some shift \<Rightarrow> find_hour_bucket shift (anchor_time db shift site (resolve_workcenter db et eid)) ts
      | None \<Rightarrow> Inr (resolve_clock_hour tz ts))"

datatype granularity = Minute | Hour | ShiftGranularity | Day

text \<open>\<open>setSeconds(0, 0)\<close>: offsets of time zones are whole minutes, so it floors in UTC too.\<close>
definition minute_floor :: "ms \<Rightarrow> ms" where
  "minute_floor t = t div minute_ms * minute_ms"

definition day_floor :: "ms \<Rightarrow> ms" where
  "day_floor t = t div day_ms * day_ms"

definition resolve_bucket ::
  "shift_db \<Rightarrow> tz_offset \<Rightarrow> granularity \<Rightarrow> ms \<Rightarrow> entity_type \<Rightarrow> uuid \<Rightarrow> uuid \<Rightarrow> string + hour_bucket" where
  "resolve_bucket db tz g ts et eid site = (case g of
       Minute \<Rightarrow> Inr \<lparr>hb_start = minute_floor ts, hb_duration = 60\<rparr>
     | Hour \<Rightarrow> resolve_hour_bucket db tz et eid site ts
     | ShiftGranularity \<Rightarrow> (case query_shift_for_entity db et eid site ts of
          None \<Rightarrow> Inr \<lparr>hb_start = local_midnight_utc tz ts, hb_duration = 86400\<rparr>
        | Some s \<Rightarrow> Inr \<lparr>hb_start = sw_start s, hb_duration = sw_duration s\<rparr>)
     | Day \<Rightarrow> Inr \<lparr>hb_start = day_floor ts, hb_duration = 86400\<rparr>)"

definition resolve_business_date :: "shift_db \<Rightarrow> tz_offset \<Rightarrow> ms \<Rightarrow> uuid option \<Rightarrow> ms" where
  "resolve_business_date db tz start inst =
     (case Option.bind inst (\<lambda>i. find (\<lambda>r. in_id r = i) (sd_instances db)) of
        Some r \<Rightarrow> ir_business_date r
      | None \<Rightarrow> local_calendar_date tz start)"

record current_shift =
  cu_business_date :: string
  cu_shift :: "(uuid \<times> string \<times> string \<times> string) option"
  cu_timezone :: string

datatype current_shift_error = SiteNotFound

definition format_date :: "ms \<Rightarrow> string" where
  "format_date t = take 10 (to_iso_string t)"

definition get_current_shift ::
  "shift_db \<Rightarrow> (uuid \<Rightarrow> string option) \<Rightarrow> (string \<Rightarrow> tz_offset) \<Rightarrow> ms \<Rightarrow> uuid \<Rightarrow> uuid option \<Rightarrow> current_shift_error + current_shift" where
  "get_current_shift db sites tzs now site wc =
     (case sites site of
        None \<Rightarrow> Inl SiteNotFound
      | Some tzname \<Rightarrow>
          (let res = (\<lambda>i. Inr \<lparr>cu_business_date = format_date (ir_business_date i),
                 cu_shift = Some (in_id i, ir_name i, to_iso_string (ir_start i), to_iso_string (ir_end i)),
                 cu_timezone = tzname\<rparr>)
           in case Option.bind wc (\<lambda>w. newest_instance (\<lambda>i. ir_work_center i = Some w \<and> active_at now i) db) of
                Some i \<Rightarrow> res i
              | None \<Rightarrow> (case newest_instance (\<lambda>i. ir_site i = site \<and> ir_work_center i = None \<and> active_at now i) db of
                    Some i \<Rightarrow> res i
                  | None \<Rightarrow> Inr \<lparr>cu_business_date = format_date (local_calendar_date (tzs tzname) now),
                                cu_shift = None, cu_timezone = tzname\<rparr>)))"

section \<open>Materialization\<close>

record reserved_window =
  rw_start :: ms
  rw_end :: ms

definition floor_to_day :: "ms \<Rightarrow> ms" where
  "floor_to_day t = t div day_ms * day_ms"

definition overlaps_any :: "rat \<Rightarrow> rat \<Rightarrow> reserved_window list \<Rightarrow> bool" where
  "overlaps_any start_ms end_ms ws \<longleftrightarrow> (\<exists>w \<in> set ws. start_ms < of_int (rw_end w) \<and> end_ms > of_int (rw_start w))"

fun split_colon :: "string \<Rightarrow> string list" where
  "split_colon [] = [[]]"
| "split_colon (c # cs) =
     (if c = CHR '':'' then [] # split_colon cs
      else (case split_colon cs of [] \<Rightarrow> [[c]] | s # ss \<Rightarrow> (c # s) # ss))"

definition finite_number :: "string \<Rightarrow> rat option" where
  "finite_number s = (case string_to_number s of Some (Fin r) \<Rightarrow> Some r | _ \<Rightarrow> None)"

text \<open>Milliseconds since midnight; None is not a number.\<close>
definition parse_local_time :: "string \<Rightarrow> rat option" where
  "parse_local_time s = (case split_colon s of
       h # m # _ \<Rightarrow> (case (finite_number h, finite_number m) of
           (Some hr, Some mi) \<Rightarrow> Some (hr * of_int hour_ms + mi * of_int minute_ms)
         | _ \<Rightarrow> None)
     | _ \<Rightarrow> None)"

definition shift_utc_times :: "ms \<Rightarrow> int \<Rightarrow> string \<Rightarrow> rat \<Rightarrow> (rat \<times> rat) option" where
  "shift_utc_times target offset time hrs =
     map_option (\<lambda>t. let s = of_int (target + offset * day_ms) + t in (s, s + hrs * of_int hour_ms))
       (parse_local_time time)"

text \<open>The integer part with which \<open>new Date\<close> keeps a number of milliseconds.\<close>
definition date_trunc :: "rat \<Rightarrow> ms" where
  "date_trunc v = (if v < 0 then \<lceil>v\<rceil> else \<lfloor>v\<rfloor>)"

definition business_date :: "ms \<Rightarrow> rat list \<Rightarrow> bool \<Rightarrow> tz_offset \<Rightarrow> ms" where
  "business_date target ends use_end tz =
     (if \<not> use_end then local_calendar_date tz target
      else local_calendar_date tz (date_trunc (Max (set ends))))"

definition days_since_start :: "shift_assignment \<Rightarrow> ms \<Rightarrow> int" where
  "days_since_start a target = (target - floor_to_day (sa_start a)) div day_ms"

text \<open>The remainder operator of the language, which has the sign of the dividend.\<close>
definition js_rem :: "int \<Rightarrow> int \<Rightarrow> int" where
  "js_rem a b = (if a < 0 then - ((- a) mod \<bar>b\<bar>) else a mod \<bar>b\<bar>)"

text \<open>None: the remainder by zero is not a number and equals no day of rotation.\<close>
definition rotation_day :: "shift_assignment \<Rightarrow> ms \<Rightarrow> int option" where
  "rotation_day a target =
     (let start_day = (case sa_start_definition a of Some (d, _) \<Rightarrow> d | None \<Rightarrow> 1);
          total = pt_total_days (sa_pattern a)
      in if total = 0 then None else Some (js_rem (days_since_start a target + start_day - 1) total + 1))"

definition effective_on :: "shift_assignment \<Rightarrow> ms \<Rightarrow> bool" where
  "effective_on a target \<longleftrightarrow> \<not> target < floor_to_day (sa_start a)
     \<and> (case sa_end a of None \<Rightarrow> True | Some e \<Rightarrow> \<not> target > floor_to_day e)"

definition definitions_for_day :: "shift_assignment \<Rightarrow> ms \<Rightarrow> shift_definition list" where
  "definitions_for_day a target =
     (let defs = filter (\<lambda>d. rotation_day a target = Some (df_rotation_day d)) (pt_shifts (sa_pattern a))
      in case sa_start_definition a of
           Some (_, ord) \<Rightarrow> if days_since_start a target = 0 then filter (\<lambda>d. df_sort_order d \<ge> ord) defs else defs
         | None \<Rightarrow> defs)"

text \<open>None: a start time does not parse, the dates are invalid and the insertion throws.\<close>
fun shifts_for_day ::
  "reserved_window list \<Rightarrow> ms \<Rightarrow> shift_definition list \<Rightarrow> (shift_definition \<times> rat \<times> rat) list option" where
  "shifts_for_day ws target [] = Some []"
| "shifts_for_day ws target (d # ds) =
     (case (shift_utc_times target (df_day_offset d) (df_start_time d) (df_duration_hrs d), shifts_for_day ws target ds) of
        (Some (s, e), Some rest) \<Rightarrow> Some (if ws \<noteq> [] \<and> overlaps_any s e ws then rest else (d, s, e) # rest)
      | _ \<Rightarrow> None)"

definition instance_row_of :: "shift_assignment \<Rightarrow> ms \<Rightarrow> shift_definition \<times> rat \<times> rat \<Rightarrow> instance_row" where
  "instance_row_of a bdate x = (case x of (d, s, e) \<Rightarrow>
     \<lparr>ir_assignment = sa_id a, ir_definition = df_id d, ir_site = sa_site a, ir_work_center = sa_work_center a,
      ir_name = df_name d, ir_business_date = bdate, ir_start = date_trunc s, ir_end = date_trunc e\<rparr>)"

definition rows_for_day ::
  "shift_assignment \<Rightarrow> reserved_window list \<Rightarrow> tz_offset \<Rightarrow> ms \<Rightarrow> instance_row list option" where
  "rows_for_day a ws tz target =
     (if \<not> effective_on a target then Some []
      else map_option (\<lambda>xs. map (instance_row_of a (business_date target (map (\<lambda>x. snd (snd x)) xs)
                                    (pt_use_end_date (sa_pattern a)) tz)) xs)
             (shifts_for_day ws target (definitions_for_day a target)))"

fun concat_options :: "'a list option list \<Rightarrow> 'a list option" where
  "concat_options [] = Some []"
| "concat_options (x # xs) = (case (x, concat_options xs) of (Some a, Some b) \<Rightarrow> Some (a @ b) | _ \<Rightarrow> None)"

definition build_instance_rows ::
  "shift_assignment \<Rightarrow> ms \<Rightarrow> nat \<Rightarrow> reserved_window list \<Rightarrow> tz_offset \<Rightarrow> instance_row list option" where
  "build_instance_rows a from_day lookahead ws tz =
     concat_options (map (\<lambda>k. rows_for_day a ws tz (from_day + int k * day_ms)) [0 ..< Suc lookahead])"

text \<open>
  \<open>createMany\<close> with \<open>skipDuplicates\<close> under the unique key (assignment, start time); the
  ids come from a supply indexed by the position of the row.
\<close>
fun insert_instances :: "(nat \<Rightarrow> uuid) \<Rightarrow> nat \<Rightarrow> instance_row list \<Rightarrow> shift_instance list \<Rightarrow> shift_instance list \<times> nat" where
  "insert_instances fresh n [] table = (table, 0)"
| "insert_instances fresh n (r # rs) table =
     (if \<exists>i \<in> set table. ir_assignment i = ir_assignment r \<and> ir_start i = ir_start r
      then insert_instances fresh (Suc n) rs table
      else (case insert_instances fresh (Suc n) rs (table @ [instance_row.extend r \<lparr>in_id = fresh n\<rparr>]) of
              (t, c) \<Rightarrow> (t, Suc c)))"

definition default_lookahead_days :: nat where "default_lookahead_days = 7"

record boundary_candidate =
  bc_site :: uuid
  bc_work_center :: "uuid option"
  bc_start :: ms
  bc_end :: ms

definition active_assignments :: "ms \<Rightarrow> shift_db \<Rightarrow> shift_assignment list" where
  "active_assignments today db =
     filter (\<lambda>a. case sa_end a of None \<Rightarrow> True | Some e \<Rightarrow> e \<ge> today) (sd_assignments db)"

text \<open>\<open>materializeShiftInstances\<close>; None when a start time does not parse.\<close>
definition materialize ::
  "(nat \<Rightarrow> uuid) \<Rightarrow> (uuid \<Rightarrow> tz_offset) \<Rightarrow> ms \<Rightarrow> nat option \<Rightarrow> shift_db \<Rightarrow> (shift_db \<times> nat \<times> boundary_candidate list) option" where
  "materialize fresh site_tz now lookahead db =
     (let days = (case lookahead of Some n \<Rightarrow> n | None \<Rightarrow> default_lookahead_days);
          today = now div day_ms * day_ms
      in map_option (\<lambda>rows. case insert_instances fresh 0 rows (sd_instances db) of
             (t, c) \<Rightarrow> (db\<lparr>sd_instances := t\<rparr>, c,
                map (\<lambda>r. \<lparr>bc_site = ir_site r, bc_work_center = ir_work_center r, bc_start = ir_start r, bc_end = ir_end r\<rparr>) rows))
           (concat_options (map (\<lambda>a. build_instance_rows a (today - day_ms) (days + 1) [] (site_tz (sa_site a)))
              (active_assignments today db))))"

record reconcile_result =
  rr_created :: nat
  rr_deleted :: nat
  rr_preserved :: nat

definition old_assignment :: "shift_assignment \<Rightarrow> shift_assignment \<Rightarrow> bool" where
  "old_assignment new a \<longleftrightarrow> sa_id a \<noteq> sa_id new \<and> sa_site a = sa_site new \<and> sa_work_center a = sa_work_center new
     \<and> (case sa_end a of None \<Rightarrow> True | Some e \<Rightarrow> e \<ge> sa_start new)"

definition end_old_assignments :: "shift_assignment \<Rightarrow> shift_db \<Rightarrow> shift_db" where
  "end_old_assignments new db =
     db\<lparr>sd_assignments := update_where
        (\<lambda>a. old_assignment new a \<and> (case sa_end a of None \<Rightarrow> True | Some e \<Rightarrow> e > sa_start new))
        (\<lambda>a. a\<lparr>sa_end := Some (sa_start new)\<rparr>) (sd_assignments db)\<rparr>"

text \<open>The instances of the old assignments that reach into the new assignment's period.\<close>
definition old_instances :: "shift_assignment \<Rightarrow> shift_db \<Rightarrow> shift_instance list" where
  "old_instances new db =
     filter (\<lambda>i. (\<exists>a \<in> set (sd_assignments db). old_assignment new a \<and> sa_id a = ir_assignment i)
              \<and> ir_end i > sa_start new) (sd_instances db)"

text \<open>
  \<open>reconcileShiftInstances\<close>; \<open>in_use\<close> are the ids that MetricBucket or ItemDispositionLog
  rows refer to.
\<close>
definition reconcile ::
  "(nat \<Rightarrow> uuid) \<Rightarrow> (uuid \<Rightarrow> tz_offset) \<Rightarrow> uuid set \<Rightarrow> ms \<Rightarrow> uuid \<Rightarrow> shift_db \<Rightarrow> (shift_db \<times> reconcile_result) option" where
  "reconcile fresh site_tz in_use now aid db =
     (case find (\<lambda>a. sa_id a = aid) (sd_assignments db) of
        None \<Rightarrow> Some (db, \<lparr>rr_created = 0, rr_deleted = 0, rr_preserved = 0\<rparr>)
      | Some new \<Rightarrow>
          (let olds = old_instances new db;
               kept = filter (\<lambda>i. in_id i \<in> in_use) olds;
               dels = filter (\<lambda>i. in_id i \<notin> in_use) olds;
               reserved = map (\<lambda>i. \<lparr>rw_start = ir_start i, rw_end = ir_end i\<rparr>) kept;
               db1 = end_old_assignments new db;
               remaining = filter (\<lambda>i. in_id i \<notin> in_id ` set dels) (sd_instances db1);
               today = now div day_ms * day_ms
           in map_option (\<lambda>rows. case insert_instances fresh 0 rows remaining of
                  (t, c) \<Rightarrow> (db1\<lparr>sd_instances := t\<rparr>,
                     \<lparr>rr_created = c, rr_deleted = length (sd_instances db1) - length remaining, rr_preserved = length kept\<rparr>))
                (build_instance_rows new (today - day_ms) (default_lookahead_days + 1) reserved (site_tz (sa_site new)))))"

section \<open>Hour buckets tile the shift\<close>

text \<open>The buckets follow one another without gap or overlap from a to b, none above an hour.\<close>
fun tiles :: "rat \<Rightarrow> rat \<Rightarrow> hour_bucket list \<Rightarrow> bool" where
  "tiles a b [] \<longleftrightarrow> a = b"
| "tiles a b (h # hs) \<longleftrightarrow> of_int (hb_start h) = a \<and> 0 < hb_duration h \<and> hb_duration h \<le> 3600
     \<and> tiles (a + hb_duration h * 1000) b hs"

lemma tiles_append: "tiles a b xs \<Longrightarrow> tiles b c ys \<Longrightarrow> tiles a c (xs @ ys)"
  by (induction xs arbitrary: a) auto

lemma tiles_le: "tiles a b hs \<Longrightarrow> a \<le> b"
  by (induction hs arbitrary: a) fastforce+

lemma tiles_covers:
  "tiles a b hs \<Longrightarrow> a \<le> of_int ts \<Longrightarrow> of_int ts < b \<Longrightarrow> \<exists>h \<in> set hs. bucket_covers h ts"
proof (induction hs arbitrary: a)
  case (Cons h hs)
  have start: "of_int (hb_start h) = a" and rest: "tiles (a + hb_duration h * 1000) b hs"
    using Cons.prems(1) by auto
  show ?case
  proof (cases "of_int ts < a + hb_duration h * 1000")
    case True
    have "hb_start h \<le> ts" using start Cons.prems(2) by (simp only: of_int_le_iff[where ?'a = rat, symmetric])
    with True start have "bucket_covers h ts" by (simp add: bucket_covers_def)
    then show ?thesis by simp
  next
    case False
    with Cons.IH[OF rest] Cons.prems(3) show ?thesis by auto
  qed
qed simp

lemma hour_ms_pos: "0 < hour_ms"
  by (simp add: hour_ms_def)

lemma grid_hours_spec:
  "of_int cursor \<le> e \<Longrightarrow> grid_hours e cursor = (bs, c) \<Longrightarrow>
     tiles (of_int cursor) (of_int c) bs \<and> of_int c \<le> e \<and> e < of_int c + 3600000
     \<and> hour_ms dvd c - cursor \<and> (\<forall>b \<in> set bs. hour_ms dvd hb_start b - cursor)"
proof (induction e cursor arbitrary: bs c rule: grid_hours.induct)
  case (1 e cursor)
  show ?case
  proof (cases "of_int (cursor + hour_ms) \<le> e")
    case True
    obtain bs1 c1 where g: "grid_hours e (cursor + hour_ms) = (bs1, c1)" by fastforce
    with 1(3) True have bs: "bs = \<lparr>hb_start = cursor, hb_duration = 3600\<rparr> # bs1" "c = c1"
      by (subst (asm) grid_hours.simps, simp)+
    from 1(1)[OF True True g] have
      ih: "tiles (of_int (cursor + hour_ms)) (of_int c1) bs1" "of_int c1 \<le> e" "e < of_int c1 + 3600000"
        "hour_ms dvd c1 - (cursor + hour_ms)" "\<forall>b \<in> set bs1. hour_ms dvd hb_start b - (cursor + hour_ms)"
      by auto
    have up: "hour_ms dvd x - (cursor + hour_ms) \<Longrightarrow> hour_ms dvd x - cursor" for x
      by (metis add_diff_cancel_right' diff_diff_eq dvd_add dvd_refl diff_add_cancel)
    show ?thesis using ih up by (auto simp: bs hour_ms_def)
  next
    case False
    then have "grid_hours e cursor = ([], cursor)" by (subst grid_hours.simps) simp
    with 1(2,3) False show ?thesis by (auto simp: hour_ms_def)
  qed
qed

text \<open>The first grid point at or after the start of a shift.\<close>
lemma first_grid_point:
  fixes start anchor :: int
  defines "c0 \<equiv> anchor + (start - anchor) div hour_ms * hour_ms"
  shows "start \<le> (if c0 < start then c0 + hour_ms else c0)
    \<and> (if c0 < start then c0 + hour_ms else c0) - start < hour_ms
    \<and> hour_ms dvd (if c0 < start then c0 + hour_ms else c0) - anchor"
proof -
  define cur where "cur = (if c0 < start then c0 + hour_ms else c0)"
  have c0: "c0 = start - (start - anchor) mod hour_ms"
    unfolding c0_def using minus_mod_eq_div_mult[of "start - anchor" hour_ms] by (simp add: algebra_simps)
  have m: "0 \<le> (start - anchor) mod hour_ms" "(start - anchor) mod hour_ms < hour_ms"
    by (simp_all add: hour_ms_def)
  have "start \<le> cur \<and> cur - start < hour_ms"
  proof (cases "c0 < start")
    case True
    with m c0 show ?thesis by (simp add: cur_def)
  next
    case False
    then have "cur = c0" by (simp add: cur_def)
    with False m c0 hour_ms_pos show ?thesis by linarith
  qed
  moreover have "cur - anchor = ((start - anchor) div hour_ms + (if c0 < start then 1 else 0)) * hour_ms"
    by (simp add: cur_def c0_def algebra_simps)
  ultimately show ?thesis by (simp add: cur_def)
qed

text \<open>The whole hours from a grid point, with the part of an hour that is left, reach the end.\<close>
lemma grid_rest:
  assumes "of_int cur \<le> e" "grid_hours e cur = (bs, c)" "hour_ms dvd cur - anchor"
  defines "rest \<equiv> bs @ (if of_int c < e then [\<lparr>hb_start = c, hb_duration = (e - of_int c) / 1000\<rparr>] else [])"
  shows "tiles (of_int cur) e rest \<and> (\<forall>b \<in> set rest. hour_ms dvd hb_start b - anchor)"
proof -
  from grid_hours_spec[OF assms(1,2)] have
    t: "tiles (of_int cur) (of_int c) bs" "of_int c \<le> e" "e < of_int c + 3600000" "hour_ms dvd c - cur"
      "\<forall>b \<in> set bs. hour_ms dvd hb_start b - cur" by auto
  have "tiles (of_int c) e (if of_int c < e then [\<lparr>hb_start = c, hb_duration = (e - of_int c) / 1000\<rparr>] else [])"
    using t(2,3) by (auto simp: diff_divide_distrib)
  then have "tiles (of_int cur) e rest" unfolding rest_def by (rule tiles_append[OF t(1)])
  moreover have "hour_ms dvd x - cur \<Longrightarrow> hour_ms dvd x - anchor" for x
    using dvd_add[of hour_ms "x - cur" "cur - anchor"] assms(3) by simp
  then have "\<forall>b \<in> set rest. hour_ms dvd hb_start b - anchor"
    using t(4,5) by (auto simp: rest_def split: if_splits)
  ultimately show ?thesis by simp
qed

lemma hour_buckets_tile:
  assumes "0 < sw_duration shift"
  shows "tiles (of_int (sw_start shift)) (of_int (sw_start shift) + sw_duration shift * 1000)
           (hour_buckets_for_shift shift anchor)
    \<and> (\<forall>b \<in> set (hour_buckets_for_shift shift anchor). hb_start b = sw_start shift \<or> hour_ms dvd hb_start b - anchor)"
proof -
  define start where "start = sw_start shift"
  define e where "e = of_int start + sw_duration shift * 1000"
  define c0 where "c0 = anchor + (start - anchor) div hour_ms * hour_ms"
  define cur where "cur = (if c0 < start then c0 + hour_ms else c0)"
  obtain bs c where g: "grid_hours e cur = (bs, c)" by fastforce
  define rest where "rest = bs @ (if of_int c < e then [\<lparr>hb_start = c, hb_duration = (e - of_int c) / 1000\<rparr>] else [])"
  have H: "hour_buckets_for_shift shift anchor =
      (if start < cur \<and> of_int cur \<le> e then \<lparr>hb_start = start, hb_duration = of_int (cur - start) / 1000\<rparr> # rest
       else if of_int cur > e then [\<lparr>hb_start = start, hb_duration = sw_duration shift\<rparr>] else rest)"
    unfolding hour_buckets_for_shift_def Let_def start_def[symmetric] e_def[symmetric]
      c0_def[symmetric] cur_def[symmetric] g prod.case rest_def[symmetric] by (rule refl)
  have es: "of_int start < e" using assms by (simp add: e_def)
  have cur: "start \<le> cur" "cur - start < hour_ms" "hour_ms dvd cur - anchor"
    using first_grid_point[of start anchor] by (simp_all only: cur_def c0_def)
  have R: "tiles (of_int cur) e rest" "\<forall>b \<in> set rest. hour_ms dvd hb_start b - anchor" if "of_int cur \<le> e"
    using grid_rest[OF that g cur(3)] unfolding rest_def by blast+
  have len: "of_int (cur - start) \<le> (3600000 :: rat)" using cur(2) by (simp add: hour_ms_def)
  show ?thesis
  proof (cases "of_int cur \<le> e")
    case True
    show ?thesis
    proof (cases "start < cur")
      case True': True
      have "tiles (of_int start) e (\<lparr>hb_start = start, hb_duration = of_int (cur - start) / 1000\<rparr> # rest)"
        using R(1)[OF True] True' len by (simp add: diff_divide_distrib)
      with True True' R(2)[OF True] show ?thesis unfolding H start_def[symmetric] e_def[symmetric] by auto
    next
      case False
      with cur(1) have "cur = start" by simp
      with True R[OF True] show ?thesis unfolding H start_def[symmetric] e_def[symmetric] by auto
    qed
  next
    case False
    have "sw_duration shift * 1000 < of_int (cur - start)" using False by (simp add: e_def)
    then have "sw_duration shift \<le> 3600" using len by simp
    with False assms show ?thesis unfolding H start_def[symmetric] e_def[symmetric]
      by (auto simp: e_def)
  qed
qed

text \<open>
  C35: the hour buckets of a shift partition it.  For a shift of positive length they start at
  the shift's start, follow one another without gap or overlap, end at its end, none is empty or
  longer than an hour, and every one after the first starts on the hourly grid of the business
  day's anchor, wherever the anchor lies.
\<close>
theorem hour_buckets_partition:
  assumes "0 < sw_duration shift"
  shows "tiles (of_int (sw_start shift)) (of_int (sw_start shift) + sw_duration shift * 1000)
           (hour_buckets_for_shift shift anchor)
    \<and> (\<forall>b \<in> set (hour_buckets_for_shift shift anchor). hb_start b = sw_start shift \<or> hour_ms dvd hb_start b - anchor)"
  using assms by (rule hour_buckets_tile)

definition sample_shift :: shift_window where
  "sample_shift = \<lparr>sw_name = ''Shift 2'', sw_start = 5400000, sw_duration = 6000, sw_instance = ''i''\<rparr>"

theorem hour_buckets_partition_witness:
  "tiles 5400000 11400000 (hour_buckets_for_shift sample_shift 0)"
  using hour_buckets_partition[of sample_shift 0] by (simp add: sample_shift_def)

lemma find_hour_bucket_total:
  assumes "sw_start shift \<le> ts" "of_int ts < of_int (sw_start shift) + sw_duration shift * 1000"
  shows "\<exists>b. find_hour_bucket shift anchor ts = Inr b \<and> bucket_covers b ts \<and> b \<in> set (hour_buckets_for_shift shift anchor)"
proof -
  have "of_int (sw_start shift) \<le> (of_int ts :: rat)" using assms(1) by simp
  moreover from this assms(2) have "0 < sw_duration shift * 1000" by linarith
  ultimately obtain h where "h \<in> set (hour_buckets_for_shift shift anchor)" "bucket_covers h ts"
    using tiles_covers[of "of_int (sw_start shift)" _ "hour_buckets_for_shift shift anchor" ts]
      hour_buckets_tile[of shift anchor] assms(2) by auto
  then obtain b where "find (\<lambda>b. bucket_covers b ts) (hour_buckets_for_shift shift anchor) = Some b"
    by (metis (mono_tags, lifting) find_None_iff not_None_eq)
  then have "bucket_covers b ts \<and> b \<in> set (hour_buckets_for_shift shift anchor)"
      "find_hour_bucket shift anchor ts = Inr b"
    by (auto simp: find_hour_bucket_def) (auto simp: find_Some_iff)
  then show ?thesis by blast
qed

lemma newest_instance_holds: "newest_instance p db = Some i \<Longrightarrow> p i"
  by (auto simp: newest_instance_def dest: first_desc_filter)

lemma query_shift_active:
  assumes "query_shift_for_entity db et eid site ts = Some shift"
  shows "sw_start shift \<le> ts \<and> of_int ts < of_int (sw_start shift) + sw_duration shift * 1000"
proof -
  from assms obtain i where i: "shift = window_of i" "active_at ts i"
    by (auto simp: query_shift_for_entity_def Let_def split: option.splits bind_splits dest!: newest_instance_holds)
  then have "ts < ir_end i" by (simp add: active_at_def)
  then have "(of_int ts :: rat) < of_int (ir_end i)" by simp
  with i show ?thesis by (simp add: window_of_def active_at_def diff_divide_distrib)
qed

lemma div_mult_bounds: "0 < h \<Longrightarrow> (d::int) div h * h \<le> d \<and> d < d div h * h + h"
  using minus_mod_eq_div_mult[of d h] pos_mod_sign[of h d] pos_mod_bound[of h d] by linarith

lemma clock_hour_listed:
  assumes "1000 dvd tz (ts div 1000 * 1000)"
  shows "resolve_clock_hour tz ts \<in> set (clock_hour_buckets tz ts)"
proof -
  define f where "f = ts div 1000 * 1000"
  define off where "off = tz f"
  have m: "local_midnight_utc tz ts = f - (f + off) mod day_ms"
    unfolding local_midnight_utc_def Let_def f_def[symmetric] off_def[symmetric]
    using minus_mod_eq_div_mult[of "f + off" day_ms] by linarith
  have "(1000::int) dvd day_ms" by (simp add: day_ms_def)
  moreover have "1000 dvd f + off" using assms by (simp add: f_def off_def)
  ultimately have "1000 dvd (f + off) mod day_ms" by (simp add: dvd_mod)
  moreover have "0 \<le> (f + off) mod day_ms" "(f + off) mod day_ms < day_ms" by (simp_all add: day_ms_def)
  ultimately have "(f + off) mod day_ms \<le> day_ms - 1000" by (auto simp: day_ms_def dvd_def)
  moreover have "f \<le> ts" "ts < f + 1000" using div_mult_bounds[of 1000 ts] unfolding f_def by linarith+
  ultimately have d: "0 \<le> ts - local_midnight_utc tz ts" "ts - local_midnight_utc tz ts < day_ms"
    using \<open>0 \<le> (f + off) mod day_ms\<close> by (simp_all add: m)
  define k where "k = (ts - local_midnight_utc tz ts) div hour_ms"
  have "k * hour_ms \<le> ts - local_midnight_utc tz ts"
    using div_mult_bounds[OF hour_ms_pos] by (simp add: k_def)
  with d(2) have "k < 24" by (simp add: hour_ms_def day_ms_def)
  moreover have "0 \<le> k" using d(1) hour_ms_pos by (simp add: k_def pos_imp_zdiv_nonneg_iff)
  ultimately have "0 \<le> k" "k < 24" by simp_all
  then have "resolve_clock_hour tz ts = \<lparr>hb_start = local_midnight_utc tz ts + int (nat k) * hour_ms, hb_duration = 3600\<rparr>"
    by (simp add: resolve_clock_hour_def Let_def k_def)
  moreover have "nat k \<in> set [0 ..< 24]" using \<open>0 \<le> k\<close> \<open>k < 24\<close> by auto
  ultimately show ?thesis unfolding clock_hour_buckets_def set_map by (rule image_eqI)
qed

lemma clock_hour_covers: "bucket_covers (resolve_clock_hour tz ts) ts"
proof -
  let ?d = "ts - local_midnight_utc tz ts"
  have "?d div hour_ms * hour_ms \<le> ?d" "?d < ?d div hour_ms * hour_ms + hour_ms"
    using div_mult_bounds[OF hour_ms_pos, of ?d] by blast+
  then have "ts < local_midnight_utc tz ts + ?d div hour_ms * hour_ms + 3600000" by (simp add: hour_ms_def)
  then have "(of_int ts :: rat) < of_int (local_midnight_utc tz ts + ?d div hour_ms * hour_ms + 3600000)"
    by (simp only: of_int_less_iff)
  with \<open>?d div hour_ms * hour_ms \<le> ?d\<close> show ?thesis
    by (simp add: bucket_covers_def resolve_clock_hour_def Let_def)
qed

text \<open>
  every instant has its hour bucket.  Whatever the shift tables hold, the resolution of the
  hour bucket of an entity at an instant never ends in the error of the lookup: it returns a
  bucket that covers the instant, and this bucket is one of those generated for the entity (for
  time zone offsets of whole seconds, the precision with which the code reads them).
\<close>
theorem hour_bucket_resolves:
  assumes "\<forall>t. 1000 dvd t \<longrightarrow> 1000 dvd tz t"
  shows "\<exists>b. resolve_hour_bucket db tz et eid site ts = Inr b \<and> bucket_covers b ts
    \<and> b \<in> set (hour_buckets_for_entity db tz et eid site ts)"
proof (cases "query_shift_for_entity db et eid site ts")
  case None
  then show ?thesis
    using clock_hour_listed[of tz ts] clock_hour_covers[of tz ts] assms
    by (simp add: resolve_hour_bucket_def hour_buckets_for_entity_def)
next
  case (Some shift)
  with find_hour_bucket_total query_shift_active[OF Some] show ?thesis
    by (simp add: resolve_hour_bucket_def hour_buckets_for_entity_def)
qed

definition sample_db :: shift_db where
  "sample_db = \<lparr>sd_instances = [], sd_assignments = [], sd_stations = []\<rparr>"

theorem hour_bucket_resolves_witness:
  "\<exists>b. resolve_hour_bucket sample_db (\<lambda>_. 7200000) Site ''s'' ''s'' 5000 = Inr b \<and> bucket_covers b 5000"
  using hour_bucket_resolves[of "\<lambda>_. 7200000" sample_db Site "''s''" "''s''" 5000] by auto

section \<open>What is materialized\<close>

text \<open>The plan: definition d has an instance from s to e on the given day.\<close>
definition planned :: "shift_assignment \<Rightarrow> reserved_window list \<Rightarrow> ms \<Rightarrow> shift_definition \<Rightarrow> rat \<Rightarrow> rat \<Rightarrow> bool" where
  "planned a ws target d s e \<longleftrightarrow>
     effective_on a target \<and> d \<in> set (pt_shifts (sa_pattern a))
     \<and> df_rotation_day d = (days_since_start a target
          + (case sa_start_definition a of Some (k, _) \<Rightarrow> k | None \<Rightarrow> 1) - 1) mod pt_total_days (sa_pattern a) + 1
     \<and> (case sa_start_definition a of Some (_, ord) \<Rightarrow> days_since_start a target = 0 \<longrightarrow> df_sort_order d \<ge> ord | None \<Rightarrow> True)
     \<and> shift_utc_times target (df_day_offset d) (df_start_time d) (df_duration_hrs d) = Some (s, e)
     \<and> \<not> overlaps_any s e ws"

lemma overlaps_any_Nil [simp]: "overlaps_any s e [] = False"
  by (simp add: overlaps_any_def)

lemma shifts_for_day_set:
  "shifts_for_day ws target ds = Some xs \<Longrightarrow>
     set xs = {(d, s, e). d \<in> set ds \<and> shift_utc_times target (df_day_offset d) (df_start_time d) (df_duration_hrs d) = Some (s, e)
                 \<and> \<not> overlaps_any s e ws}"
  by (induction ds arbitrary: xs) (auto split: option.splits if_splits)

lemma effective_nonneg: "effective_on a target \<Longrightarrow> 0 \<le> days_since_start a target"
  by (simp add: effective_on_def days_since_start_def day_ms_def pos_imp_zdiv_nonneg_iff)

lemma set_definitions_for_day:
  "d \<in> set (definitions_for_day a target) \<longleftrightarrow> d \<in> set (pt_shifts (sa_pattern a))
     \<and> rotation_day a target = Some (df_rotation_day d)
     \<and> (case sa_start_definition a of Some (_, ord) \<Rightarrow> days_since_start a target = 0 \<longrightarrow> df_sort_order d \<ge> ord | None \<Rightarrow> True)"
  by (auto simp: definitions_for_day_def Let_def split: option.splits)

lemma rotation_day_mod:
  assumes "effective_on a target" "0 < pt_total_days (sa_pattern a)"
    and "case sa_start_definition a of Some (k, _) \<Rightarrow> 1 \<le> k | None \<Rightarrow> True"
  shows "rotation_day a target = Some ((days_since_start a target
          + (case sa_start_definition a of Some (k, _) \<Rightarrow> k | None \<Rightarrow> 1) - 1) mod pt_total_days (sa_pattern a) + 1)"
  using effective_nonneg[OF assms(1)] assms(2,3)
  by (auto simp: rotation_day_def js_rem_def Let_def split: option.splits)

abbreviation row_window :: "instance_row \<Rightarrow> uuid \<times> ms \<times> ms" where
  "row_window r \<equiv> (ir_definition r, ir_start r, ir_end r)"

lemma image_triple: "(\<lambda>(d, s, e). f d s e) ` {(d, s, e). P d s e} = {f d s e |d s e. P d s e}"
  by force

lemma rows_for_day_windows:
  assumes "rows_for_day a ws tz target = Some rows" "0 < pt_total_days (sa_pattern a)"
    and "case sa_start_definition a of Some (k, _) \<Rightarrow> 1 \<le> k | None \<Rightarrow> True"
  shows "row_window ` set rows = {(df_id d, date_trunc s, date_trunc e) |d s e. planned a ws target d s e}"
proof (cases "effective_on a target")
  case False
  with assms(1) show ?thesis by (auto simp: rows_for_day_def planned_def)
next
  case True
  with assms(1) obtain xs where xs: "shifts_for_day ws target (definitions_for_day a target) = Some xs"
    "rows = map (instance_row_of a (business_date target (map (\<lambda>x. snd (snd x)) xs) (pt_use_end_date (sa_pattern a)) tz)) xs"
    by (auto simp: rows_for_day_def)
  have "row_window ` set rows = (\<lambda>(d, s, e). (df_id d, date_trunc s, date_trunc e)) ` set xs"
    unfolding xs(2) by (force simp: instance_row_of_def)
  also have "set xs = {(d, s, e). planned a ws target d s e}"
    unfolding shifts_for_day_set[OF xs(1)] planned_def set_definitions_for_day rotation_day_mod[OF True assms(2,3)]
    using True by auto
  finally show ?thesis unfolding image_triple .
qed

lemma rows_for_day_owner:
  "rows_for_day a ws tz target = Some rows \<Longrightarrow> r \<in> set rows \<Longrightarrow>
     ir_assignment r = sa_id a \<and> ir_site r = sa_site a \<and> ir_work_center r = sa_work_center a"
  by (auto simp: rows_for_day_def instance_row_of_def split: if_splits)

lemma concat_options_Some:
  "concat_options xs = Some ys \<Longrightarrow> \<exists>yss. xs = map Some yss \<and> ys = concat yss"
proof (induction xs arbitrary: ys)
  case (Cons x xs)
  from Cons.prems obtain a b where "x = Some a" "concat_options xs = Some b" "ys = a @ b"
    by (auto split: option.splits)
  with Cons.IH[of b] show ?case by (metis concat.simps(2) list.simps(9))
qed simp

lemma build_rows_days:
  assumes "build_instance_rows a from_day n ws tz = Some rows"
  shows "r \<in> set rows \<longleftrightarrow> (\<exists>k \<le> n. \<exists>rs. rows_for_day a ws tz (from_day + int k * day_ms) = Some rs \<and> r \<in> set rs)"
proof -
  let ?f = "\<lambda>k. rows_for_day a ws tz (from_day + int k * day_ms)"
  obtain yss where y: "map ?f [0 ..< Suc n] = map Some yss" "rows = concat yss"
    using concat_options_Some assms unfolding build_instance_rows_def by blast
  have "Some ` set yss = ?f ` set [0 ..< Suc n]" using arg_cong[OF y(1), of set] by simp
  then have *: "(\<exists>rs \<in> set yss. r \<in> set rs) \<longleftrightarrow> (\<exists>k \<in> set [0 ..< Suc n]. \<exists>rs. ?f k = Some rs \<and> r \<in> set rs)"
    by (metis (no_types, lifting) image_iff option.inject)
  have "set [0 ..< Suc n] = {..n}" by (auto simp: less_Suc_eq_le)
  with * show ?thesis unfolding y(2) set_concat UN_iff by auto
qed

lemma build_rows_defined:
  "build_instance_rows a from_day n ws tz = Some rows \<Longrightarrow> k \<le> n \<Longrightarrow> \<exists>rs. rows_for_day a ws tz (from_day + int k * day_ms) = Some rs"
proof -
  assume b: "build_instance_rows a from_day n ws tz = Some rows" and "k \<le> n"
  obtain yss where y: "map (\<lambda>k. rows_for_day a ws tz (from_day + int k * day_ms)) [0 ..< Suc n] = map Some yss"
    using concat_options_Some b unfolding build_instance_rows_def by blast
  have k: "k < length [0 ..< Suc n]" using \<open>k \<le> n\<close> by simp
  have "length yss = Suc n" using arg_cong[OF y, of length] by simp
  with k have "k < length yss" by simp
  with arg_cong[OF y, of "\<lambda>l. l ! k"] k show ?thesis by (simp only: nth_map) (metis add_0 diff_zero length_upt nth_upt)
qed

text \<open>
  the materialized rows are exactly the planned shifts.  For a rotation of positive length,
  the rows built for a range of days are those of the definitions whose day of rotation is the
  day's position in the rotation (counted from the start definition's day), on the days within
  the assignment's effective dates, from the start definition's sort order on the first day, and
  whose window overlaps no reserved one; all belong to the assignment, its site and work center.
\<close>
theorem build_rows_planned:
  assumes rows: "build_instance_rows a from_day n ws tz = Some rows"
    and total: "0 < pt_total_days (sa_pattern a)"
    and start: "case sa_start_definition a of Some (k, _) \<Rightarrow> 1 \<le> k | None \<Rightarrow> True"
  shows "(\<lambda>r. (ir_definition r, ir_start r, ir_end r)) ` set rows =
      {(df_id d, date_trunc s, date_trunc e) |k d s e. k \<le> n \<and> planned a ws (from_day + int k * day_ms) d s e}
    \<and> (\<forall>r \<in> set rows. ir_assignment r = sa_id a \<and> ir_site r = sa_site a \<and> ir_work_center r = sa_work_center a)"
proof
  have "set rows = (\<Union>k \<in> {k. k \<le> n}. set (the (rows_for_day a ws tz (from_day + int k * day_ms))))"
    using build_rows_days[OF rows] build_rows_defined[OF rows] by fastforce
  then have "row_window ` set rows = (\<Union>k \<in> {k. k \<le> n}. row_window ` set (the (rows_for_day a ws tz (from_day + int k * day_ms))))"
    by (simp add: image_UN)
  also have "\<dots> = (\<Union>k \<in> {k. k \<le> n}. {(df_id d, date_trunc s, date_trunc e) |d s e. planned a ws (from_day + int k * day_ms) d s e})"
  proof (rule SUP_cong[OF refl])
    fix k assume "k \<in> {k. k \<le> n}"
    then obtain rs where "rows_for_day a ws tz (from_day + int k * day_ms) = Some rs"
      using build_rows_defined[OF rows] by blast
    with rows_for_day_windows[OF this total start] show
      "row_window ` set (the (rows_for_day a ws tz (from_day + int k * day_ms))) =
       {(df_id d, date_trunc s, date_trunc e) |d s e. planned a ws (from_day + int k * day_ms) d s e}" by simp
  qed
  also have "\<dots> = {(df_id d, date_trunc s, date_trunc e) |k d s e. k \<le> n \<and> planned a ws (from_day + int k * day_ms) d s e}"
    by blast
  finally show "row_window ` set rows = {(df_id d, date_trunc s, date_trunc e) |k d s e. k \<le> n \<and> planned a ws (from_day + int k * day_ms) d s e}" .
  show "\<forall>r \<in> set rows. ir_assignment r = sa_id a \<and> ir_site r = sa_site a \<and> ir_work_center r = sa_work_center a"
    using build_rows_days[OF rows] rows_for_day_owner by blast
qed

definition sample_definition_row :: shift_definition where
  "sample_definition_row = \<lparr>df_id = ''d'', df_rotation_day = 1, df_sort_order = 0, df_day_offset = 0,
     df_start_time = ''06:00'', df_duration_hrs = 8, df_name = ''Day''\<rparr>"

definition sample_pattern :: shift_pattern where
  "sample_pattern = \<lparr>pt_total_days = 100, pt_use_end_date = False, pt_shifts = [sample_definition_row]\<rparr>"

definition new_assignment :: shift_assignment where
  "new_assignment = \<lparr>sa_id = ''new'', sa_site = ''s'', sa_work_center = None, sa_start = 864000000, sa_end = None,
     sa_start_definition = None, sa_pattern = sample_pattern\<rparr>"

definition new_row :: instance_row where
  "new_row = \<lparr>ir_assignment = ''new'', ir_definition = ''d'', ir_site = ''s'', ir_work_center = None, ir_name = ''Day'',
     ir_business_date = 864000000, ir_start = 885600000, ir_end = 914400000\<rparr>"

lemma sample_time: "parse_local_time ''06:00'' = Some 21600000"
  by (simp add: parse_local_time_def finite_number_def string_to_number_def js_trim_def is_blank_def char_code_def
      unsigned_literal_def decimal_literal_def is_digit_def nat_of_digits_def hex_val_def pow10_def Let_def
      hour_ms_def minute_ms_def)

lemma sample_days:
  "rows_for_day new_assignment ws (\<lambda>_. 0) (777600000 + int k * day_ms) =
     (if k = 1 \<and> \<not> overlaps_any 885600000 914400000 ws then Some [new_row] else Some [])" if "k \<le> 8" for k ws
proof -
  have k: "k \<in> {0, 1, 2, 3, 4, 5, 6, 7, 8}" using that by auto
  note defs = rows_for_day_def effective_on_def new_assignment_def floor_to_day_def day_ms_def definitions_for_day_def
    rotation_day_def days_since_start_def sample_pattern_def sample_definition_row_def js_rem_def
  show ?thesis
  proof (cases "k = 1")
    case True
    then show ?thesis
      by (auto simp: defs Let_def shift_utc_times_def sample_time hour_ms_def instance_row_of_def business_date_def
          local_calendar_date_def date_trunc_def new_row_def overlaps_any_def)
  next
    case False
    with k show ?thesis by (elim insertE) (simp_all add: defs Let_def)
  qed
qed

lemma upt_9: "[0 ..< Suc 8] = [0, 1, 2, 3, 4, 5, 6, 7, 8]"
  by (simp add: upt_rec)

lemma sample_rows: "build_instance_rows new_assignment 777600000 8 ws (\<lambda>_. 0) =
    (if overlaps_any 885600000 914400000 ws then Some [] else Some [new_row])"
proof -
  have "map (\<lambda>k. rows_for_day new_assignment ws (\<lambda>_. 0) (777600000 + int k * day_ms)) [0 ..< Suc 8]
      = map (\<lambda>k. if k = 1 \<and> \<not> overlaps_any 885600000 914400000 ws then Some [new_row] else Some []) [0 ..< Suc 8]"
    by (rule map_cong) (auto simp: sample_days)
  then show ?thesis unfolding build_instance_rows_def upt_9 by simp
qed

theorem build_rows_planned_witness:
  "\<exists>k d s e. k \<le> 8 \<and> planned new_assignment [] (777600000 + int k * day_ms) d s e \<and> date_trunc s = 885600000"
proof -
  have r: "build_instance_rows new_assignment 777600000 8 [] (\<lambda>_. 0) = Some [new_row]" by (simp add: sample_rows)
  have t: "0 < pt_total_days (sa_pattern new_assignment)"
    and d: "case sa_start_definition new_assignment of Some (k, _) \<Rightarrow> 1 \<le> k | None \<Rightarrow> True"
    by (simp_all add: new_assignment_def sample_pattern_def)
  have "(''d'', 885600000, 914400000) \<in> (\<lambda>r. (ir_definition r, ir_start r, ir_end r)) ` set [new_row]"
    by (simp add: new_row_def)
  with build_rows_planned[OF r t d] show ?thesis by auto
qed

section \<open>Insertion and idempotence\<close>

abbreviation same_key :: "instance_row \<Rightarrow> ('a) shift_instance_scheme \<Rightarrow> bool" where
  "same_key r i \<equiv> ir_assignment i = ir_assignment r \<and> ir_start i = ir_start r"

lemma extend_key [simp]:
  "ir_assignment (instance_row.extend r x) = ir_assignment r" "ir_start (instance_row.extend r x) = ir_start r"
  "ir_end (instance_row.extend r x) = ir_end r"
  by (simp_all add: instance_row.extend_def)

lemma insert_keeps: "insert_instances fresh n rows t = (t', c) \<Longrightarrow> set t \<subseteq> set t'"
  by (induction fresh n rows t arbitrary: t' c rule: insert_instances.induct) (fastforce split: if_splits prod.splits)+

lemma insert_has_keys:
  "insert_instances fresh n rows t = (t', c) \<Longrightarrow> r \<in> set rows \<Longrightarrow> \<exists>i \<in> set t'. same_key r i"
proof (induction fresh n rows t arbitrary: t' c rule: insert_instances.induct)
  case (2 fresh n r0 rs t)
  show ?case
  proof (cases "\<exists>i \<in> set t. same_key r0 i")
    case True
    with 2(3) have ins: "insert_instances fresh (Suc n) rs t = (t', c)" by simp
    show ?thesis
    proof (cases "r = r0")
      case True': True
      with True insert_keeps[OF ins] show ?thesis by blast
    qed (use 2(1)[OF True ins] 2(4) in auto)
  next
    case False
    let ?t = "t @ [instance_row.extend r0 \<lparr>in_id = fresh n\<rparr>]"
    obtain t1 c1 where ins: "insert_instances fresh (Suc n) rs ?t = (t1, c1)" by fastforce
    with 2(3) False have "t' = t1" by simp
    show ?thesis
    proof (cases "r = r0")
      case True
      with insert_keeps[OF ins] \<open>t' = t1\<close> show ?thesis
        by (intro bexI[of _ "instance_row.extend r0 \<lparr>in_id = fresh n\<rparr>"]) auto
    qed (use 2(2)[OF False ins] 2(4) \<open>t' = t1\<close> in auto)
  qed
qed simp

lemma insert_present: "\<forall>r \<in> set rows. \<exists>i \<in> set t. same_key r i \<Longrightarrow> insert_instances fresh n rows t = (t, 0)"
  by (induction fresh n rows t rule: insert_instances.induct) auto

lemma insert_new:
  "insert_instances fresh n rows t = (t', c) \<Longrightarrow> i \<in> set t' \<Longrightarrow> i \<in> set t \<or> (\<exists>r \<in> set rows. \<exists>k. i = instance_row.extend r \<lparr>in_id = fresh k\<rparr>)"
  by (induction fresh n rows t arbitrary: t' c rule: insert_instances.induct) (fastforce split: if_splits prod.splits)+

definition instance_plan :: "(uuid \<Rightarrow> tz_offset) \<Rightarrow> ms \<Rightarrow> nat option \<Rightarrow> shift_db \<Rightarrow> instance_row list option" where
  "instance_plan site_tz now la db =
     concat_options (map (\<lambda>a. build_instance_rows a (now div day_ms * day_ms - day_ms)
              ((case la of Some n \<Rightarrow> n | None \<Rightarrow> default_lookahead_days) + 1) [] (site_tz (sa_site a)))
              (active_assignments (now div day_ms * day_ms) db))"

definition candidates_of :: "instance_row list \<Rightarrow> boundary_candidate list" where
  "candidates_of rows =
     map (\<lambda>r. \<lparr>bc_site = ir_site r, bc_work_center = ir_work_center r, bc_start = ir_start r, bc_end = ir_end r\<rparr>) rows"

lemma materialize_Some:
  "materialize fresh site_tz now la db = Some (db1, c, cands) \<longleftrightarrow>
     (\<exists>rows t. instance_plan site_tz now la db = Some rows \<and> insert_instances fresh 0 rows (sd_instances db) = (t, c)
        \<and> db1 = db\<lparr>sd_instances := t\<rparr> \<and> cands = candidates_of rows)"
proof -
  have "materialize fresh site_tz now la db = map_option (\<lambda>rows. case insert_instances fresh 0 rows (sd_instances db) of
             (t, c) \<Rightarrow> (db\<lparr>sd_instances := t\<rparr>, c, candidates_of rows)) (instance_plan site_tz now la db)"
    by (simp add: materialize_def Let_def instance_plan_def candidates_of_def)
  then show ?thesis
    by (cases "instance_plan site_tz now la db") (auto split: prod.splits)
qed

text \<open>
  C38: materialization is idempotent.  A second run at the same time with the same lookahead,
  whatever ids it would draw, creates nothing, changes nothing and reports the same candidates.
\<close>
theorem materialize_idempotent:
  assumes "materialize fresh site_tz now la db = Some (db1, c, cands)"
  shows "materialize fresh2 site_tz now la db1 = Some (db1, 0, cands)"
proof -
  from assms obtain rows t where
    r: "instance_plan site_tz now la db = Some rows" "insert_instances fresh 0 rows (sd_instances db) = (t, c)"
       "db1 = db\<lparr>sd_instances := t\<rparr>" "cands = candidates_of rows"
    unfolding materialize_Some by blast
  have "instance_plan site_tz now la db1 = Some rows" using r(1,3) by (simp add: instance_plan_def active_assignments_def)
  moreover have "insert_instances fresh2 0 rows t = (t, 0)"
    using insert_has_keys[OF r(2)] by (intro insert_present) blast
  ultimately show ?thesis using r(3,4) unfolding materialize_Some by simp
qed

definition base_db :: shift_db where
  "base_db = \<lparr>sd_instances = [], sd_assignments = [new_assignment], sd_stations = []\<rparr>"

lemma base_materialize:
  "materialize (\<lambda>_. ''i'') (\<lambda>_ _. 0) 864000000 None base_db =
     Some (base_db\<lparr>sd_instances := [instance_row.extend new_row \<lparr>in_id = ''i''\<rparr>]\<rparr>, 1,
       [\<lparr>bc_site = ''s'', bc_work_center = None, bc_start = 885600000, bc_end = 914400000\<rparr>])"
proof -
  have a: "active_assignments 864000000 base_db = [new_assignment]"
    by (simp add: active_assignments_def base_db_def new_assignment_def)
  have t: "(864000000::int) div day_ms * day_ms = 864000000" "(864000000::int) - day_ms = 777600000"
    by (simp_all add: day_ms_def)
  show ?thesis
    unfolding materialize_def Let_def t a
    by (simp add: default_lookahead_days_def sample_rows base_db_def new_row_def)
qed

theorem materialize_idempotent_witness:
  "\<exists>db1 cands. materialize (\<lambda>_. ''i'') (\<lambda>_ _. 0) 864000000 None base_db = Some (db1, 1, cands)
     \<and> materialize (\<lambda>_. ''j'') (\<lambda>_ _. 0) 864000000 None db1 = Some (db1, 0, cands)"
  using materialize_idempotent[OF base_materialize, of "\<lambda>_. ''j''"] base_materialize by blast

section \<open>Reconciliation\<close>

lemma date_trunc_ge: "of_int n \<le> s \<Longrightarrow> n \<le> date_trunc s"
  unfolding date_trunc_def by (auto simp: le_floor_iff le_ceiling_iff)

lemma date_trunc_le: "s \<le> of_int n \<Longrightarrow> date_trunc s \<le> n"
  unfolding date_trunc_def by (auto simp: floor_le_iff ceiling_le_iff)

lemma build_rows_clear:
  assumes "build_instance_rows a from_day n ws tz = Some rows" "r \<in> set rows" "w \<in> set ws"
  shows "\<not> (ir_start r < rw_end w \<and> ir_end r > rw_start w)"
proof -
  from build_rows_days[OF assms(1)] assms(2) obtain k rs where
    rs: "rows_for_day a ws tz (from_day + int k * day_ms) = Some rs" "r \<in> set rs" by blast
  then obtain xs bd x where "shifts_for_day ws (from_day + int k * day_ms) (definitions_for_day a (from_day + int k * day_ms)) = Some xs"
      "x \<in> set xs" "r = instance_row_of a bd x"
    by (auto simp: rows_for_day_def split: if_splits)
  then obtain d s e where "\<not> overlaps_any s e ws" "ir_start r = date_trunc s" "ir_end r = date_trunc e"
    using shifts_for_day_set by (cases x) (fastforce simp: instance_row_of_def)
  then have "of_int (rw_end w) \<le> s \<or> e \<le> of_int (rw_start w)" "ir_start r = date_trunc s" "ir_end r = date_trunc e"
    using assms(3) by (fastforce simp: overlaps_any_def)+
  then show ?thesis using date_trunc_ge[of "rw_end w" s] date_trunc_le[of e "rw_start w"] by auto
qed

text \<open>
  C13: reconciliation protects recorded data.  After a successful run for a new assignment every
  old instance in use is still there, and no instance that the run added overlaps any of them.
\<close>
theorem reconcile_preserves:
  assumes run: "reconcile fresh site_tz in_use now aid db = Some (db', res)"
    and new: "find (\<lambda>a. sa_id a = aid) (sd_assignments db) = Some new"
    and j: "j \<in> set (old_instances new db)" "in_id j \<in> in_use"
  shows "j \<in> set (sd_instances db')
    \<and> (\<forall>i \<in> set (sd_instances db'). i \<notin> set (sd_instances db) \<longrightarrow> \<not> (ir_start i < ir_end j \<and> ir_end i > ir_start j))"
proof -
  define reserved where "reserved = map (\<lambda>i. \<lparr>rw_start = ir_start i, rw_end = ir_end i\<rparr>) (filter (\<lambda>i. in_id i \<in> in_use) (old_instances new db))"
  define remaining where "remaining = filter (\<lambda>i. in_id i \<notin> in_id ` set (filter (\<lambda>i. in_id i \<notin> in_use) (old_instances new db))) (sd_instances db)"
  let ?build = "build_instance_rows new (now div day_ms * day_ms - day_ms) (default_lookahead_days + 1) reserved (site_tz (sa_site new))"
  have insts: "sd_instances (end_old_assignments new db) = sd_instances db" by (simp add: end_old_assignments_def)
  have "reconcile fresh site_tz in_use now aid db =
      map_option (\<lambda>rows. case insert_instances fresh 0 rows remaining of (t, c) \<Rightarrow>
         ((end_old_assignments new db)\<lparr>sd_instances := t\<rparr>,
          \<lparr>rr_created = c, rr_deleted = length (sd_instances db) - length remaining,
            rr_preserved = length (filter (\<lambda>i. in_id i \<in> in_use) (old_instances new db))\<rparr>)) ?build"
    by (simp add: reconcile_def Let_def new insts reserved_def remaining_def)
  with run obtain rows where rows: "?build = Some rows" and c: "(case insert_instances fresh 0 rows remaining of (t, c) \<Rightarrow>
         ((end_old_assignments new db)\<lparr>sd_instances := t\<rparr>,
          \<lparr>rr_created = c, rr_deleted = length (sd_instances db) - length remaining,
            rr_preserved = length (filter (\<lambda>i. in_id i \<in> in_use) (old_instances new db))\<rparr>)) = (db', res)"
    by (cases ?build) simp_all
  obtain t n where ins: "insert_instances fresh 0 rows remaining = (t, n)" by fastforce
  with c have db': "sd_instances db' = t" by auto
  have "j \<in> set remaining" using j by (auto simp: remaining_def old_instances_def)
  then have "j \<in> set t" using insert_keeps[OF ins] by blast
  moreover have "\<not> (ir_start i < ir_end j \<and> ir_end i > ir_start j)"
    if i: "i \<in> set t" "i \<notin> set (sd_instances db)" for i
  proof -
    have "i \<notin> set remaining" using i by (auto simp: remaining_def)
    with insert_new[OF ins i(1)] obtain r k where "r \<in> set rows" "i = instance_row.extend r \<lparr>in_id = fresh k\<rparr>" by blast
    moreover have "\<lparr>rw_start = ir_start j, rw_end = ir_end j\<rparr> \<in> set reserved" using j by (auto simp: reserved_def)
    ultimately show ?thesis using build_rows_clear[OF rows, of r "\<lparr>rw_start = ir_start j, rw_end = ir_end j\<rparr>"] by simp
  qed
  ultimately show ?thesis by (simp add: db')
qed

definition old_assignment_row :: shift_assignment where
  "old_assignment_row = new_assignment\<lparr>sa_id := ''old'', sa_start := 0\<rparr>"

definition used_instance :: shift_instance where
  "used_instance = \<lparr>ir_assignment = ''old'', ir_definition = ''d'', ir_site = ''s'', ir_work_center = None,
     ir_name = ''Day'', ir_business_date = 864000000, ir_start = 880000000, ir_end = 900000000, in_id = ''u''\<rparr>"

definition conflict_db :: shift_db where
  "conflict_db = \<lparr>sd_instances = [used_instance], sd_assignments = [new_assignment, old_assignment_row], sd_stations = []\<rparr>"

lemma conflict_old: "old_instances new_assignment conflict_db = [used_instance]"
  by (simp add: old_instances_def conflict_db_def old_assignment_row_def new_assignment_def used_instance_def old_assignment_def)

lemma conflict_reconcile:
  "\<exists>res. reconcile (\<lambda>_. ''i'') (\<lambda>_ _. 0) {''u''} 864000000 ''new'' conflict_db =
     Some (end_old_assignments new_assignment conflict_db, res)"
proof -
  have f: "find (\<lambda>a. sa_id a = ''new'') (sd_assignments conflict_db) = Some new_assignment"
    by (simp add: conflict_db_def new_assignment_def)
  have t: "(864000000::int) div day_ms * day_ms - day_ms = 777600000" by (simp add: day_ms_def)
  have n: "default_lookahead_days + 1 = 8" by (simp add: default_lookahead_days_def)
  show ?thesis
    unfolding reconcile_def f option.case Let_def t n conflict_old
    by (simp add: sample_rows overlaps_any_def)
       (simp add: end_old_assignments_def conflict_db_def used_instance_def)
qed

theorem reconcile_preserves_witness:
  "\<exists>db' res. reconcile (\<lambda>_. ''i'') (\<lambda>_ _. 0) {''u''} 864000000 ''new'' conflict_db = Some (db', res)
     \<and> used_instance \<in> set (sd_instances db')"
proof -
  obtain res where r: "reconcile (\<lambda>_. ''i'') (\<lambda>_ _. 0) {''u''} 864000000 ''new'' conflict_db =
     Some (end_old_assignments new_assignment conflict_db, res)" using conflict_reconcile by blast
  have f: "find (\<lambda>a. sa_id a = ''new'') (sd_assignments conflict_db) = Some new_assignment"
    by (simp add: conflict_db_def new_assignment_def)
  have "used_instance \<in> set (old_instances new_assignment conflict_db)" "in_id used_instance \<in> {''u''}"
    by (simp_all add: conflict_old used_instance_def)
  from reconcile_preserves[OF r f this] r show ?thesis by blast
qed

text \<open>
  the periodic materialization undoes that protection.  It builds rows without reserved
  windows, so every planned shift of an active assignment has an instance after it has run,
  the ones included that reconciliation left out because they overlap an old instance in use.
\<close>
theorem materialize_ignores_reserved:
  assumes "materialize fresh site_tz now None db = Some (db', c, cands)"
    and "a \<in> set (sd_assignments db)" "sa_end a = None"
    and "build_instance_rows a (now div day_ms * day_ms - day_ms) (default_lookahead_days + 1) [] (site_tz (sa_site a)) = Some rows"
    and "r \<in> set rows"
  shows "\<exists>i \<in> set (sd_instances db'). ir_assignment i = ir_assignment r \<and> ir_start i = ir_start r"
proof -
  from assms(1) obtain all t where
    all: "instance_plan site_tz now None db = Some all"
    and ins: "insert_instances fresh 0 all (sd_instances db) = (t, c)" and db': "sd_instances db' = t"
    unfolding materialize_Some by auto
  obtain yss where y: "map (\<lambda>a. build_instance_rows a (now div day_ms * day_ms - day_ms) (default_lookahead_days + 1) [] (site_tz (sa_site a)))
              (active_assignments (now div day_ms * day_ms) db) = map Some yss" "all = concat yss"
    using concat_options_Some[OF all[unfolded instance_plan_def]] by auto
  have "a \<in> set (active_assignments (now div day_ms * day_ms) db)" using assms(2,3) by (simp add: active_assignments_def)
  then have "Some rows \<in> set (map Some yss)" unfolding y(1)[symmetric] using assms(4) by force
  then have "r \<in> set all" using assms(5) y(2) by auto
  from insert_has_keys[OF ins this] show ?thesis by (simp add: db')
qed

theorem materialize_ignores_reserved_witness:
  "\<exists>db' c cands. materialize (\<lambda>_. ''i'') (\<lambda>_ _. 0) 864000000 None base_db = Some (db', c, cands)
     \<and> (\<exists>i \<in> set (sd_instances db'). ir_assignment i = ''new'' \<and> ir_start i = 885600000)"
proof -
  have a: "new_assignment \<in> set (sd_assignments base_db)" "sa_end new_assignment = None"
    by (simp_all add: base_db_def new_assignment_def)
  have t: "(864000000::int) div day_ms * day_ms - day_ms = 777600000" "default_lookahead_days + 1 = 8"
    by (simp_all add: day_ms_def default_lookahead_days_def)
  have r: "build_instance_rows new_assignment ((864000000::int) div day_ms * day_ms - day_ms) (default_lookahead_days + 1) [] ((\<lambda>_ _. 0) (sa_site new_assignment)) = Some [new_row]"
    unfolding t by (simp add: sample_rows)
  from materialize_ignores_reserved[OF base_materialize a r, of new_row] base_materialize show ?thesis
    by (simp add: new_row_def)
qed

end
