(* ===== verification/Orders.thy ===== *)
theory Orders
  imports JsValue "HOL-Library.Product_Lexorder" "HOL-Library.Sublist"
begin

text \<open>
  Customer orders: numbering, creation, editing, status transitions and line items
  (\<open>packages/services/src/order/order.ts\<close>), and the allocation of produced inventory and the
  deduction of scrap (\<open>packages/services/src/order/allocation.ts\<close>).  The tables are lists of
  rows; the unique keys and foreign keys of the schema are explicit failures of the writes.
\<close>

section \<open>Tables\<close>

datatype order_status = Draft | Open | InProgress | OnHold | Completed | Cancelled
datatype line_status = Pending | LineInProgress | LineCompleted

record order =
  or_id :: uuid
  or_site :: uuid
  or_number :: string
  or_status :: order_status
  or_previous :: "order_status option"
  or_sequence :: "int option"
  or_customer :: "uuid option"
  or_po :: "string option"
  or_start :: "ms option"
  or_due :: "ms option"
  or_priority :: int
  or_default_target :: int
  or_notes :: "string option"
  or_created :: ms
  or_deleted :: "ms option"

record line_item =
  li_id :: uuid
  li_order :: uuid
  li_product :: uuid
  li_target :: int
  li_completed :: int
  li_scrap :: int
  li_status :: line_status
  li_created :: ms

record allocation =
  al_id :: uuid
  al_item :: "uuid option"
  al_line :: uuid
  al_quantity :: int

text \<open>A site with the boolean attribute \<open>orderAutoComplete\<close> (false when absent).\<close>
record order_site =
  os_id :: uuid
  os_auto_complete :: bool

record customer =
  cu_id :: uuid
  cu_name :: string
  cu_deleted :: "ms option"

record order_db =
  od_sites :: "order_site list"
  od_customers :: "customer list"
  od_products :: "uuid list"
  od_orders :: "order list"
  od_lines :: "line_item list"
  od_allocations :: "allocation list"

datatype order_error =
    OrderSiteNotFound
  | DuplicateOrderNumber bool
  | CustomerNotFound
  | DuplicateProduct
  | OrderNotFound
  | NotEditable
  | NotDeletable
  | InvalidTransition order_status order_status
  | HasAllocations
  | LineItemNotFound
  | UniqueViolation
  | ForeignKeyViolation
  | RecordNotFound

definition find_order :: "uuid \<Rightarrow> order_db \<Rightarrow> order option" where
  "find_order i db = find (\<lambda>r. or_id r = i) (od_orders db)"

definition find_line :: "uuid \<Rightarrow> order_db \<Rightarrow> line_item option" where
  "find_line i db = find (\<lambda>l. li_id l = i) (od_lines db)"

definition update_order_row :: "uuid \<Rightarrow> (order \<Rightarrow> order) \<Rightarrow> order_db \<Rightarrow> order_db" where
  "update_order_row i f db = db\<lparr>od_orders := update_where (\<lambda>r. or_id r = i) f (od_orders db)\<rparr>"

definition update_line_row :: "uuid \<Rightarrow> (line_item \<Rightarrow> line_item) \<Rightarrow> order_db \<Rightarrow> order_db" where
  "update_line_row i f db = db\<lparr>od_lines := update_where (\<lambda>l. li_id l = i) f (od_lines db)\<rparr>"

section \<open>Order numbers\<close>

definition line_feed_char :: "char \<Rightarrow> bool" where
  "line_feed_char c = (char_code c = 10 \<or> char_code c = 13)"

text \<open>\<open>/^(.*?)(\d+)$/\<close>: the shortest prefix without line breaks before the trailing digits.\<close>
definition parse_order_number :: "string \<Rightarrow> (string \<times> nat \<times> nat) option" where
  "parse_order_number s =
     (let ds = rev (takeWhile is_digit (rev s)); pre = rev (dropWhile is_digit (rev s))
      in if ds = [] \<or> list_ex line_feed_char pre then None
         else Some (pre, nat_of_digits 10 ds, length ds))"

definition pad_start :: "nat \<Rightarrow> string \<Rightarrow> string" where
  "pad_start w s = replicate (w - length s) (CHR ''0'') @ s"

text \<open>The greatest number under the prefix, with the width in which it was written.\<close>
fun max_number :: "string \<Rightarrow> string list \<Rightarrow> nat \<times> nat \<Rightarrow> nat \<times> nat" where
  "max_number pre [] acc = acc"
| "max_number pre (s # ss) (m, w) =
     (case parse_order_number s of
        None \<Rightarrow> max_number pre ss (m, w)
      | Some (p, n, l) \<Rightarrow> if p = pre \<and> n > m then max_number pre ss (n, l) else max_number pre ss (m, w))"

definition newest_prefix :: "order list \<Rightarrow> string" where
  "newest_prefix rows =
     (case List.map_filter (\<lambda>r. parse_order_number (or_number r)) (filter (\<lambda>r. or_deleted r = None) rows) of
        [] \<Rightarrow> ''SO-'' | (p, _, _) # _ \<Rightarrow> p)"

definition next_order_number :: "uuid \<Rightarrow> order_db \<Rightarrow> string" where
  "next_order_number site db =
     (let rows = sort_key (\<lambda>r. - or_created r) (filter (\<lambda>r. or_site r = site) (od_orders db));
          pre = newest_prefix rows;
          (m, w) = max_number pre (map or_number rows) (0, 3)
      in pre @ pad_start w (nat_digits (m + 1)))"

section \<open>Creation, listing, editing\<close>

record create_order_input =
  ci_site :: uuid
  ci_number :: string
  ci_open :: bool
  ci_customer :: "uuid option"
  ci_po :: "string option"
  ci_start :: "ms option"
  ci_due :: "ms option"
  ci_priority :: "int option"
  ci_default_target :: "int option"
  ci_notes :: "string option"
  ci_lines :: "(uuid \<times> int) list"

definition site_number :: "uuid \<Rightarrow> string \<Rightarrow> order_db \<Rightarrow> order option" where
  "site_number site num db = find (\<lambda>r. or_site r = site \<and> or_number r = num) (od_orders db)"

text \<open>\<open>(max(sequence) ?? 0) + 1\<close> over the live orders of the site.\<close>
definition next_sequence :: "uuid \<Rightarrow> order_db \<Rightarrow> int" where
  "next_sequence site db =
     (let seqs = List.map_filter or_sequence (filter (\<lambda>r. or_site r = site \<and> or_deleted r = None) (od_orders db))
      in (if seqs = [] then 0 else Max (set seqs)) + 1)"

definition live_customer :: "uuid \<Rightarrow> order_db \<Rightarrow> bool" where
  "live_customer c db \<longleftrightarrow> (\<exists>x \<in> set (od_customers db). cu_id x = c \<and> cu_deleted x = None)"

definition dflt :: "'a \<Rightarrow> 'a option \<Rightarrow> 'a" where
  "dflt d x = (case x of None \<Rightarrow> d | Some v \<Rightarrow> v)"

text \<open>
  \<open>create\<close>; \<open>oid\<close> is the id of the new row, \<open>lids\<close> the supply for its lines.  A line
  for an unknown product fails on the foreign key.
\<close>
definition create_order ::
  "uuid \<Rightarrow> (nat \<Rightarrow> uuid) \<Rightarrow> ms \<Rightarrow> create_order_input \<Rightarrow> order_db \<Rightarrow> order_error + order_db" where
  "create_order oid lids now inp db =
     (if \<not> (\<exists>s \<in> set (od_sites db). os_id s = ci_site inp) then Inl OrderSiteNotFound
      else (case site_number (ci_site inp) (ci_number inp) db of
          Some ex \<Rightarrow> Inl (DuplicateOrderNumber (or_deleted ex \<noteq> None))
        | None \<Rightarrow>
            if (case ci_customer inp of None \<Rightarrow> False | Some c \<Rightarrow> \<not> live_customer c db) then Inl CustomerNotFound
            else if \<not> distinct (map fst (ci_lines inp)) then Inl DuplicateProduct
            else if \<not> set (map fst (ci_lines inp)) \<subseteq> set (od_products db) then Inl ForeignKeyViolation
            else (let row = \<lparr>or_id = oid, or_site = ci_site inp, or_number = ci_number inp,
                      or_status = (if ci_open inp then Open else Draft), or_previous = None,
                      or_sequence = (if ci_open inp then Some (next_sequence (ci_site inp) db) else None),
                      or_customer = ci_customer inp, or_po = ci_po inp, or_start = ci_start inp,
                      or_due = ci_due inp, or_priority = dflt 0 (ci_priority inp),
                      or_default_target = dflt 1 (ci_default_target inp), or_notes = ci_notes inp,
                      or_created = now, or_deleted = None\<rparr>;
                    lines = map (\<lambda>(k, p, q). \<lparr>li_id = lids k, li_order = oid, li_product = p, li_target = q,
                      li_completed = 0, li_scrap = 0, li_status = Pending, li_created = now\<rparr>)
                      (enumerate 0 (ci_lines inp))
              in Inr (db\<lparr>od_orders := od_orders db @ [row], od_lines := od_lines db @ lines\<rparr>))))"

record list_filter =
  lf_site :: "uuid option"
  lf_status :: "order_status list option"
  lf_customer :: "uuid option"
  lf_search :: string
  lf_limit :: int
  lf_offset :: nat

definition contains_ci :: "string \<Rightarrow> string \<Rightarrow> bool" where
  "contains_ci s pat = sublist (map to_lower pat) (map to_lower s)"

definition list_where :: "list_filter \<Rightarrow> order_db \<Rightarrow> order \<Rightarrow> bool" where
  "list_where f db r \<longleftrightarrow> or_deleted r = None
     \<and> (case lf_site f of None \<Rightarrow> True | Some s \<Rightarrow> or_site r = s)
     \<and> (case lf_status f of None \<Rightarrow> True | Some ss \<Rightarrow> or_status r \<in> set ss)
     \<and> (case lf_customer f of None \<Rightarrow> True | Some c \<Rightarrow> or_customer r = Some c)
     \<and> (lf_search f = [] \<or> contains_ci (or_number r) (lf_search f)
        \<or> (\<exists>c \<in> set (od_customers db). or_customer r = Some (cu_id c) \<and> contains_ci (cu_name c) (lf_search f))
        \<or> (case or_po r of None \<Rightarrow> False | Some p \<Rightarrow> contains_ci p (lf_search f)))"

text \<open>The page (ordered by sequence, nulls last, then newest first) and the total.\<close>
definition list_orders :: "list_filter \<Rightarrow> order_db \<Rightarrow> order list \<times> nat" where
  "list_orders f db =
     (let rows = filter (list_where f db) (od_orders db);
          sorted_rows = sort_key (\<lambda>r. (or_sequence r = None, dflt 0 (or_sequence r), - or_created r)) rows;
          page = drop (lf_offset f) sorted_rows
      in (if lf_limit f > 0 then take (nat (lf_limit f)) page else page, length rows))"

definition get_order :: "uuid \<Rightarrow> order_db \<Rightarrow> order_error + order" where
  "get_order i db = (case find_order i db of
       None \<Rightarrow> Inl OrderNotFound
     | Some r \<Rightarrow> if or_deleted r \<noteq> None then Inl OrderNotFound else Inr r)"

text \<open>The fields of an update; None is undefined (left alone), Some None is null.\<close>
record update_order_input =
  ui_number :: "string option"
  ui_customer :: "uuid option option"
  ui_po :: "string option option"
  ui_start :: "ms option option"
  ui_due :: "ms option option"
  ui_priority :: "int option"
  ui_default_target :: "int option"
  ui_notes :: "string option option"

definition notes_only :: "update_order_input \<Rightarrow> update_order_input" where
  "notes_only inp = \<lparr>ui_number = None, ui_customer = None, ui_po = None, ui_start = None, ui_due = None,
     ui_priority = None, ui_default_target = None, ui_notes = ui_notes inp\<rparr>"

definition apply_update :: "update_order_input \<Rightarrow> order \<Rightarrow> order" where
  "apply_update inp r = r\<lparr>
     or_number := dflt (or_number r) (ui_number inp), or_customer := dflt (or_customer r) (ui_customer inp),
     or_po := dflt (or_po r) (ui_po inp), or_start := dflt (or_start r) (ui_start inp),
     or_due := dflt (or_due r) (ui_due inp), or_priority := dflt (or_priority r) (ui_priority inp),
     or_default_target := dflt (or_default_target r) (ui_default_target inp),
     or_notes := dflt (or_notes r) (ui_notes inp)\<rparr>"

definition has_allocations :: "uuid \<Rightarrow> order_db \<Rightarrow> bool" where
  "has_allocations oid db \<longleftrightarrow>
     (\<exists>a \<in> set (od_allocations db). \<exists>l \<in> set (od_lines db). li_id l = al_line a \<and> li_order l = oid)"

text \<open>
  The write of an update fails on the unique key of (site, number) and on the customer's key.
\<close>
definition write_update :: "order \<Rightarrow> update_order_input \<Rightarrow> order_db \<Rightarrow> order_error + order_db" where
  "write_update r inp db =
     (if (case ui_number inp of None \<Rightarrow> False | Some n \<Rightarrow>
            \<exists>x \<in> set (od_orders db). or_id x \<noteq> or_id r \<and> or_site x = or_site r \<and> or_number x = n)
      then Inl UniqueViolation
      else if (case ui_customer inp of Some (Some c) \<Rightarrow> \<not> (\<exists>x \<in> set (od_customers db). cu_id x = c) | _ \<Rightarrow> False)
      then Inl ForeignKeyViolation
      else Inr (update_order_row (or_id r) (apply_update inp) db))"

definition update_order :: "uuid \<Rightarrow> update_order_input \<Rightarrow> order_db \<Rightarrow> order_error + order_db" where
  "update_order i inp db =
     (case find_order i db of
        None \<Rightarrow> Inl OrderNotFound
      | Some r \<Rightarrow>
          if or_deleted r \<noteq> None then Inl OrderNotFound
          else if or_status r = Completed \<or> or_status r = Cancelled then Inl NotEditable
          else (let alloc = has_allocations i db; inp1 = (if alloc then notes_only inp else inp)
            in if \<not> alloc \<and> or_status r \<noteq> Draft \<and> or_status r \<noteq> Open then Inl NotEditable
               else (case ui_number inp1 of
                   None \<Rightarrow> write_update r inp1 db
                 | Some n \<Rightarrow>
                     (case (if n = [] then None else site_number (or_site r) n db) of
                        Some ex \<Rightarrow> if or_deleted ex = None \<and> or_id ex \<noteq> i then Inl (DuplicateOrderNumber False)
                                   else write_update r inp1 db
                      | None \<Rightarrow> write_update r inp1 db))))"

definition remove_order :: "ms \<Rightarrow> uuid \<Rightarrow> order_db \<Rightarrow> order_error + order_db" where
  "remove_order now i db =
     (case find_order i db of
        None \<Rightarrow> Inl OrderNotFound
      | Some r \<Rightarrow>
          if or_deleted r \<noteq> None then Inl OrderNotFound
          else if or_status r \<noteq> Draft \<and> or_status r \<noteq> Cancelled then Inl NotDeletable
          else Inr (update_order_row i (\<lambda>r. r\<lparr>or_deleted := Some now\<rparr>) db))"

section \<open>Status transitions\<close>

fun status_transitions :: "order_status \<Rightarrow> order_status list" where
  "status_transitions Draft = [Open, Cancelled]"
| "status_transitions Open = [Completed, OnHold, Cancelled]"
| "status_transitions InProgress = [OnHold, Completed, Cancelled]"
| "status_transitions OnHold = [Open, InProgress, Cancelled]"
| "status_transitions Completed = []"
| "status_transitions Cancelled = []"

definition transition_status :: "uuid \<Rightarrow> order_status \<Rightarrow> order_db \<Rightarrow> order_error + order_db" where
  "transition_status i target db =
     (case find_order i db of
        None \<Rightarrow> Inl OrderNotFound
      | Some r \<Rightarrow>
          if or_deleted r \<noteq> None then Inl OrderNotFound
          else if target \<notin> set (status_transitions (or_status r)) then Inl (InvalidTransition (or_status r) target)
          else (let previous = (if target = OnHold then Some (or_status r)
                                else if or_status r = OnHold \<and> (target = Open \<or> target = InProgress) then None
                                else or_previous r);
                    seq = (if target = Open \<and> or_sequence r = None then Some (next_sequence (or_site r) db)
                           else or_sequence r)
            in Inr (update_order_row i (\<lambda>x. x\<lparr>or_status := target, or_previous := previous, or_sequence := seq\<rparr>) db)))"

section \<open>Line items\<close>

definition add_line_item :: "uuid \<Rightarrow> ms \<Rightarrow> uuid \<Rightarrow> uuid \<Rightarrow> int \<Rightarrow> order_db \<Rightarrow> order_error + order_db" where
  "add_line_item lid now oid product target db =
     (case get_order oid db of
        Inl _ \<Rightarrow> Inl OrderNotFound
      | Inr _ \<Rightarrow>
          if has_allocations oid db then Inl HasAllocations
          else if \<exists>l \<in> set (od_lines db). li_order l = oid \<and> li_product l = product then Inl DuplicateProduct
          else if product \<notin> set (od_products db) then Inl ForeignKeyViolation
          else Inr (db\<lparr>od_lines := od_lines db @ [\<lparr>li_id = lid, li_order = oid, li_product = product,
                 li_target = target, li_completed = 0, li_scrap = 0, li_status = Pending, li_created = now\<rparr>]\<rparr>))"

definition update_line_item :: "uuid \<Rightarrow> int option \<Rightarrow> order_db \<Rightarrow> order_error + order_db" where
  "update_line_item lid target db =
     (case find_line lid db of
        None \<Rightarrow> Inl LineItemNotFound
      | Some l \<Rightarrow>
          if has_allocations (li_order l) db then Inl HasAllocations
          else Inr (update_line_row lid (\<lambda>x. x\<lparr>li_target := dflt (li_target x) target\<rparr>) db))"

definition remove_line_item :: "uuid \<Rightarrow> order_db \<Rightarrow> order_error + order_db" where
  "remove_line_item lid db =
     (case find_line lid db of
        None \<Rightarrow> Inl LineItemNotFound
      | Some l \<Rightarrow>
          if has_allocations (li_order l) db then Inl HasAllocations
          else Inr (db\<lparr>od_lines := filter (\<lambda>x. li_id x \<noteq> lid) (od_lines db),
                      od_allocations := filter (\<lambda>a. al_line a \<noteq> lid) (od_allocations db)\<rparr>))"

text \<open>The transaction of \<open>reorder\<close> fails as a whole when an id does not exist.\<close>
definition reorder_orders :: "uuid list \<Rightarrow> order_db \<Rightarrow> order_error + order_db" where
  "reorder_orders ids db =
     (if \<not> set ids \<subseteq> or_id ` set (od_orders db) then Inl RecordNotFound
      else Inr (fold (\<lambda>(k, i). update_order_row i (\<lambda>r. r\<lparr>or_sequence := Some (int k + 1)\<rparr>)) (enumerate 0 ids) db))"

section \<open>Allocation\<close>

definition good_count :: "line_item \<Rightarrow> int" where
  "good_count l = li_completed l - li_scrap l"

definition auto_complete :: "uuid \<Rightarrow> order_db \<Rightarrow> bool" where
  "auto_complete site db = (case find (\<lambda>s. os_id s = site) (od_sites db) of None \<Rightarrow> False | Some s \<Rightarrow> os_auto_complete s)"

text \<open>The first statement: stale line statuses follow their quantities.\<close>
definition heal_lines :: "uuid \<Rightarrow> order_db \<Rightarrow> order_db" where
  "heal_lines site db =
     db\<lparr>od_lines := update_where
        (\<lambda>l. li_status l \<noteq> LineCompleted \<and> li_completed l > 0 \<and> good_count l \<ge> li_target l
           \<and> (\<exists>r \<in> set (od_orders db). or_id r = li_order l \<and> or_site r = site))
        (\<lambda>l. l\<lparr>li_status := LineCompleted\<rparr>) (od_lines db)\<rparr>"

text \<open>The second: with auto-completion, active orders whose lines are all fulfilled are completed.\<close>
definition heal_orders :: "uuid \<Rightarrow> order_db \<Rightarrow> order_db" where
  "heal_orders site db =
     db\<lparr>od_orders := update_where
        (\<lambda>r. or_site r = site \<and> (or_status r = Open \<or> or_status r = InProgress) \<and> or_deleted r = None
           \<and> auto_complete site db
           \<and> (\<exists>l \<in> set (od_lines db). li_order l = or_id r)
           \<and> \<not> (\<exists>l \<in> set (od_lines db). li_order l = or_id r \<and> good_count l < li_target l))
        (\<lambda>r. r\<lparr>or_status := Completed\<rparr>) (od_orders db)\<rparr>"

text \<open>The order and line of the product that comes first by sequence, nulls last.\<close>
definition eligible_line :: "uuid \<Rightarrow> uuid \<Rightarrow> order_db \<Rightarrow> (order \<times> line_item) option" where
  "eligible_line site product db =
     first_asc (\<lambda>x. (or_sequence (fst x) = None, dflt 0 (or_sequence (fst x))))
       (filter (\<lambda>(r, l). or_site r = site \<and> (or_status r = Open \<or> or_status r = InProgress) \<and> or_deleted r = None
            \<and> (\<exists>s \<in> set (od_sites db). os_id s = site)
            \<and> \<not> (auto_complete site db \<and> good_count l \<ge> li_target l))
         (concat (map (\<lambda>r. map (Pair r) (filter (\<lambda>l. li_order l = or_id r \<and> li_product l = product) (od_lines db)))
           (od_orders db))))"

definition demote_orders :: "uuid \<Rightarrow> uuid \<Rightarrow> uuid \<Rightarrow> int \<Rightarrow> order_db \<Rightarrow> order_db" where
  "demote_orders site product oid seq db =
     db\<lparr>od_orders := update_where
        (\<lambda>r. or_site r = site \<and> or_status r = InProgress \<and> or_deleted r = None
           \<and> (case or_sequence r of None \<Rightarrow> False | Some s \<Rightarrow> s > seq) \<and> or_id r \<noteq> oid
           \<and> (\<exists>l \<in> set (od_lines db). li_order l = or_id r \<and> li_product l = product))
        (\<lambda>r. r\<lparr>or_status := Open, or_previous := Some InProgress\<rparr>) (od_orders db)\<rparr>"

definition record_allocation :: "uuid \<Rightarrow> uuid \<Rightarrow> line_item \<Rightarrow> order_db \<Rightarrow> order_db" where
  "record_allocation aid item l db =
     (let st = (if li_completed l + 1 - li_scrap l \<ge> li_target l then LineCompleted else LineInProgress)
      in update_line_row (li_id l) (\<lambda>x. x\<lparr>li_completed := li_completed x + 1, li_status := st\<rparr>)
           (db\<lparr>od_allocations := od_allocations db @
              [\<lparr>al_id = aid, al_item = Some item, al_line = li_id l, al_quantity = 1\<rparr>]\<rparr>))"

definition complete_if_fulfilled :: "uuid \<Rightarrow> order_db \<Rightarrow> order_db" where
  "complete_if_fulfilled oid db =
     (if \<exists>l \<in> set (od_lines db). li_order l = oid \<and> good_count l < li_target l then db
      else update_order_row oid (\<lambda>r. r\<lparr>or_status := Completed\<rparr>) db)"

definition allocate_inventory :: "uuid \<Rightarrow> uuid \<Rightarrow> uuid \<Rightarrow> uuid \<Rightarrow> order_db \<Rightarrow> order_db" where
  "allocate_inventory aid site product item db =
     (let db1 = heal_orders site (heal_lines site db)
      in case eligible_line site product db1 of
           None \<Rightarrow> db1
         | Some (r, l) \<Rightarrow>
             (let db2 = record_allocation aid item l db1;
                  db3 = (if or_status r = Open
                         then update_order_row (or_id r) (\<lambda>x. x\<lparr>or_status := InProgress, or_previous := Some Open\<rparr>) db2
                         else db2);
                  db4 = (case or_sequence r of None \<Rightarrow> db3 | Some s \<Rightarrow> demote_orders site product (or_id r) s db3)
              in if auto_complete site db then complete_if_fulfilled (or_id r) db4 else db4))"

text \<open>The first in-progress order with a produced line of the product, by sequence.\<close>
definition scrap_order :: "uuid \<Rightarrow> uuid \<Rightarrow> order_db \<Rightarrow> order option" where
  "scrap_order site product db =
     first_asc (\<lambda>r. (or_sequence r = None, dflt 0 (or_sequence r)))
       (filter (\<lambda>r. or_site r = site \<and> or_status r = InProgress \<and> or_deleted r = None
            \<and> (\<exists>l \<in> set (od_lines db). li_order l = or_id r \<and> li_product l = product \<and> li_completed l > 0))
         (od_orders db))"

definition deduct_scrap :: "uuid \<Rightarrow> uuid \<Rightarrow> uuid \<Rightarrow> int \<Rightarrow> order_db \<Rightarrow> order_db" where
  "deduct_scrap aid site product quantity db =
     (case scrap_order site product db of
        None \<Rightarrow> db
      | Some r \<Rightarrow>
          (case filter (\<lambda>l. li_order l = or_id r \<and> li_product l = product) (od_lines db) of
             [] \<Rightarrow> db
           | l # _ \<Rightarrow>
               (let good = li_completed l - (li_scrap l + quantity);
                    st = (if li_completed l = 0 then Pending
                          else if good \<ge> li_target l then LineCompleted else LineInProgress);
                    db1 = db\<lparr>od_allocations := od_allocations db @
                             [\<lparr>al_id = aid, al_item = None, al_line = li_id l, al_quantity = - quantity\<rparr>]\<rparr>;
                    db2 = update_line_row (li_id l) (\<lambda>x. x\<lparr>li_scrap := li_scrap x + quantity, li_status := st\<rparr>) db1
                in if auto_complete site db \<and> or_status r = Completed
                      \<and> (\<exists>x \<in> set (od_lines db2). li_order x = or_id r \<and> good_count x < li_target x)
                   then update_order_row (or_id r) (\<lambda>x. x\<lparr>or_status := InProgress\<rparr>) db2
                   else db2)))"


section \<open>Order numbers are fresh\<close>

text \<open>A prefix as the parser returns it: no line break, not ending in a digit.\<close>
definition prefix_ok :: "string \<Rightarrow> bool" where
  "prefix_ok p \<longleftrightarrow> \<not> list_ex line_feed_char p \<and> takeWhile is_digit (rev p) = []"

lemma parse_prefix_ok: "parse_order_number s = Some (p, n, l) \<Longrightarrow> prefix_ok p"
proof -
  assume "parse_order_number s = Some (p, n, l)"
  then have p: "p = rev (dropWhile is_digit (rev s))" "\<not> list_ex line_feed_char p"
    by (auto simp: parse_order_number_def Let_def split: if_splits)
  have "takeWhile is_digit (dropWhile is_digit xs) = []" for xs
    by (induction xs) auto
  with p show ?thesis by (simp add: prefix_ok_def)
qed

lemma newest_prefix_ok: "prefix_ok (newest_prefix rows)"
proof -
  let ?xs = "List.map_filter (\<lambda>r. parse_order_number (or_number r)) (filter (\<lambda>r. or_deleted r = None) rows)"
  show ?thesis
  proof (cases ?xs)
    case Nil
    then show ?thesis
      by (simp add: newest_prefix_def prefix_ok_def line_feed_char_def is_digit_def char_code_def)
  next
    case (Cons x xs)
    then have "x \<in> set ?xs" by simp
    then have "\<exists>r :: order. parse_order_number (or_number r) = Some x"
      by (auto simp: List.map_filter_def)
    with Cons parse_prefix_ok show ?thesis by (cases x) (auto simp: newest_prefix_def)
  qed
qed

lemma zero_code: "char_code (CHR ''0'') = 48"
  by (simp add: char_code_def)

lemma digits_pad: "set (pad_start w s) \<subseteq> insert (CHR ''0'') (set s)"
  by (auto simp: pad_start_def)

lemma value_pad: "nat_of_digits 10 (pad_start w s) = nat_of_digits 10 s"
proof -
  have "foldl (\<lambda>a c. 10 * a + hex_val c) 0 (replicate k (CHR ''0'')) = 0" for k
    by (induction k) (auto simp: hex_val_def char_code_def)
  then show ?thesis by (simp add: nat_of_digits_def pad_start_def)
qed

lemma parse_printed:
  assumes "prefix_ok p"
  shows "\<exists>l. parse_order_number (p @ pad_start w (nat_digits n)) = Some (p, n, l)"
proof -
  let ?d = "pad_start w (nat_digits n)"
  have all: "\<forall>c \<in> set (rev ?d). is_digit c"
    using digits_pad[of w "nat_digits n"] nat_digits_chars by (auto simp: is_digit_def zero_code)
  have p: "takeWhile is_digit (rev p) = []" using assms by (simp add: prefix_ok_def)
  then have drop_p: "dropWhile is_digit (rev p) = rev p"
    by (metis append_self_conv2 takeWhile_dropWhile_id)
  have "takeWhile is_digit (rev ?d @ rev p) = rev ?d" "dropWhile is_digit (rev ?d @ rev p) = rev p"
    using takeWhile_append2[of "rev ?d" is_digit "rev p"] dropWhile_append2[of "rev ?d" is_digit "rev p"] all p drop_p
    by simp_all
  moreover have "?d \<noteq> []" using nat_digits_ne by (simp add: pad_start_def)
  moreover have "\<not> list_ex line_feed_char p" using assms by (simp add: prefix_ok_def)
  ultimately show ?thesis
    by (simp add: parse_order_number_def Let_def value_pad nat_of_nat_digits)
qed

lemma max_number_ge:
  "max_number p ss (m0, w0) = (m, w) \<Longrightarrow> m0 \<le> m \<and> (\<forall>s \<in> set ss. \<forall>n l. parse_order_number s = Some (p, n, l) \<longrightarrow> n \<le> m)"
proof (induction ss arbitrary: m0 w0)
  case (Cons s ss)
  then show ?case
    by (fastforce split: option.splits if_splits prod.splits)
qed simp

text \<open>
  the proposed order number is unused.  \<open>getNextOrderNumber\<close> never returns a number that
  any order of the site already has, deleted ones included, whatever prefixes, widths and
  leading zeros the existing numbers have.
\<close>
theorem next_order_number_fresh:
  "next_order_number site db \<notin> or_number ` set (filter (\<lambda>r. or_site r = site) (od_orders db))"
proof
  let ?rows = "sort_key (\<lambda>r. - or_created r) (filter (\<lambda>r. or_site r = site) (od_orders db))"
  let ?p = "newest_prefix ?rows"
  obtain m w where mw: "max_number ?p (map or_number ?rows) (0, 3) = (m, w)" by fastforce
  assume "next_order_number site db \<in> or_number ` set (filter (\<lambda>r. or_site r = site) (od_orders db))"
  moreover have "next_order_number site db = ?p @ pad_start w (nat_digits (m + 1))"
    unfolding next_order_number_def Let_def mw by simp
  ultimately have "?p @ pad_start w (nat_digits (m + 1)) \<in> set (map or_number ?rows)" by simp
  moreover obtain l where "parse_order_number (?p @ pad_start w (nat_digits (m + 1))) = Some (?p, m + 1, l)"
    using parse_printed[OF newest_prefix_ok] by blast
  ultimately have "m + 1 \<le> m" using max_number_ge[OF mw] by blast
  then show False by simp
qed

section \<open>Runs of operations\<close>

inductive order_step :: "order_db \<Rightarrow> order_db \<Rightarrow> bool" where
  create: "create_order oid lids now inp db = Inr db' \<Longrightarrow> oid \<notin> or_id ` set (od_orders db) \<Longrightarrow> inj lids \<Longrightarrow>
    range lids \<inter> (li_id ` set (od_lines db) \<union> al_line ` set (od_allocations db)) = {} \<Longrightarrow> order_step db db'"
| update: "update_order i uinp db = Inr db' \<Longrightarrow> order_step db db'"
| remove: "remove_order now i db = Inr db' \<Longrightarrow> order_step db db'"
| transition: "transition_status i target db = Inr db' \<Longrightarrow> order_step db db'"
| add_line: "add_line_item lid now oid product q db = Inr db' \<Longrightarrow>
    lid \<notin> li_id ` set (od_lines db) \<union> al_line ` set (od_allocations db) \<Longrightarrow> order_step db db'"
| update_line: "update_line_item lid tq db = Inr db' \<Longrightarrow> order_step db db'"
| remove_line: "remove_line_item lid db = Inr db' \<Longrightarrow> order_step db db'"
| reorder: "reorder_orders ids db = Inr db' \<Longrightarrow> order_step db db'"
| allocate: "order_step db (allocate_inventory aid site product item db)"
| deduct: "order_step db (deduct_scrap aid site product n db)"

text \<open>Where a user may move an order, and where an allocation may.\<close>
definition manual_edges :: "(order_status \<times> order_status) set" where
  "manual_edges =
     {(Draft, Open), (Draft, Cancelled), (Open, Completed), (Open, OnHold), (Open, Cancelled),
      (InProgress, OnHold), (InProgress, Completed), (InProgress, Cancelled),
      (OnHold, Open), (OnHold, InProgress), (OnHold, Cancelled)}"

definition allocation_edges :: "(order_status \<times> order_status) set" where
  "allocation_edges = {(Open, InProgress), (Open, Completed), (InProgress, Open), (InProgress, Completed)}"

text \<open>Every order of the first list is in the second, moved along the relation.\<close>
definition orders_follow :: "(order_status \<Rightarrow> order_status \<Rightarrow> bool) \<Rightarrow> order list \<Rightarrow> order list \<Rightarrow> bool" where
  "orders_follow R xs ys \<longleftrightarrow> (\<forall>r \<in> set xs. \<exists>r' \<in> set ys. or_id r' = or_id r \<and> R (or_status r) (or_status r'))"

lemma follow_refl: "(\<And>s. R s s) \<Longrightarrow> orders_follow R xs xs"
  unfolding orders_follow_def by blast

lemma follow_update_where:
  "(\<And>r. p r \<Longrightarrow> r \<in> set xs \<Longrightarrow> or_id (f r) = or_id r \<and> R (or_status r) (or_status (f r))) \<Longrightarrow> (\<And>s. R s s) \<Longrightarrow>
     orders_follow R xs (update_where p f xs)"
  unfolding orders_follow_def set_update_where by (metis (mono_tags, lifting) UnI1 UnI2 imageI mem_Collect_eq)

lemma follow_trans:
  "orders_follow R xs ys \<Longrightarrow> orders_follow S ys zs \<Longrightarrow> (\<And>a b c. R a b \<Longrightarrow> S b c \<Longrightarrow> T a c) \<Longrightarrow> orders_follow T xs zs"
  unfolding orders_follow_def by fastforce

lemma update_order_ids:
  "(\<And>r. or_id (f r) = or_id r) \<Longrightarrow> map or_id (od_orders (update_order_row i f db)) = map or_id (od_orders db)"
  by (simp add: update_order_row_def map_update_where)

lemma find_order_unique:
  "distinct (map or_id (od_orders db)) \<Longrightarrow> find_order i db = Some r \<Longrightarrow> x \<in> set (od_orders db) \<Longrightarrow> or_id x = i \<Longrightarrow> x = r"
  unfolding find_order_def by (auto simp: find_Some_iff distinct_conv_nth in_set_conv_nth)

lemma row_update:
  assumes "distinct (map or_id (od_orders db))" "find_order i db = Some r"
    and "\<And>x. or_id (f x) = or_id x" "R (or_status r) (or_status (f r))" "\<And>s. R s s"
  shows "orders_follow R (od_orders db) (od_orders (update_order_row i f db))
    \<and> map or_id (od_orders (update_order_row i f db)) = map or_id (od_orders db)"
proof -
  have "x = r" if "or_id x = i" "x \<in> set (od_orders db)" for x
    using find_order_unique[OF assms(1,2) that(2,1)] .
  then have "orders_follow R (od_orders db) (od_orders (update_order_row i f db))"
    using assms(3-5) by (auto simp: update_order_row_def intro!: follow_update_where)
  then show ?thesis using update_order_ids[of f, OF assms(3)] by blast
qed

lemma write_update_row: "write_update r inp db = Inr db' \<Longrightarrow> db' = update_order_row (or_id r) (apply_update inp) db"
  by (simp add: write_update_def split: if_splits option.splits)

lemma find_order_id: "find_order i db = Some r \<Longrightarrow> or_id r = i"
  by (auto simp: find_order_def find_Some_iff)

text \<open>The relation along which allocation moves orders; it composes.\<close>
definition active_moves :: "order_status \<Rightarrow> order_status \<Rightarrow> bool" where
  "active_moves s t \<longleftrightarrow> s = t \<or> (s \<in> {Open, InProgress} \<and> t \<in> {Open, InProgress, Completed})"

lemma active_refl [simp]: "active_moves s s"
  by (simp add: active_moves_def)

lemma active_trans: "active_moves a b \<Longrightarrow> active_moves b c \<Longrightarrow> active_moves a c"
  by (auto simp: active_moves_def)

lemma active_edges: "active_moves s t \<longleftrightarrow> t = s \<or> (s, t) \<in> allocation_edges"
  by (auto simp: active_moves_def allocation_edges_def)

lemma manual_table: "t \<in> set (status_transitions s) \<longleftrightarrow> (s, t) \<in> manual_edges"
  by (cases s) (auto simp: manual_edges_def)

lemma follow_active_trans:
  "orders_follow active_moves xs ys \<Longrightarrow> orders_follow active_moves ys zs \<Longrightarrow> orders_follow active_moves xs zs"
  using follow_trans active_trans by metis

text \<open>Every row with the id is active: the order that allocation works on.\<close>
definition id_active :: "uuid \<Rightarrow> order list \<Rightarrow> bool" where
  "id_active i xs \<longleftrightarrow> (\<forall>r \<in> set xs. or_id r = i \<longrightarrow> or_status r \<in> {Open, InProgress})"

lemma id_active_update:
  "id_active i xs \<Longrightarrow> (\<And>r. p r \<Longrightarrow> or_id (f r) = or_id r \<and> or_status (f r) \<in> {Open, InProgress}) \<Longrightarrow> id_active i (update_where p f xs)"
  by (auto simp: id_active_def set_update_where)

lemma heal_orders_follow:
  "orders_follow active_moves (od_orders db) (od_orders (heal_orders site db))
   \<and> map or_id (od_orders (heal_orders site db)) = map or_id (od_orders db)"
  by (auto simp: heal_orders_def active_moves_def map_update_where intro!: follow_update_where)

lemma heal_lines_orders [simp]: "od_orders (heal_lines site db) = od_orders db"
  by (simp add: heal_lines_def)

lemma record_allocation_orders [simp]: "od_orders (record_allocation aid item l db) = od_orders db"
  by (simp add: record_allocation_def update_line_row_def Let_def)

lemma update_line_orders [simp]: "od_orders (update_line_row i f db) = od_orders db"
  by (simp add: update_line_row_def)

lemma eligible_line_holds:
  "eligible_line site product db = Some (r, l) \<Longrightarrow>
     r \<in> set (od_orders db) \<and> l \<in> set (od_lines db) \<and> li_order l = or_id r \<and> li_product l = product
     \<and> or_site r = site \<and> (or_status r = Open \<or> or_status r = InProgress) \<and> or_deleted r = None
     \<and> \<not> (auto_complete site db \<and> good_count l \<ge> li_target l)"
  unfolding eligible_line_def by (drule first_asc_filter) auto

lemma demote_follow:
  "orders_follow active_moves (od_orders db) (od_orders (demote_orders site product oid seq db))
   \<and> map or_id (od_orders (demote_orders site product oid seq db)) = map or_id (od_orders db)
   \<and> (id_active i (od_orders db) \<longrightarrow> id_active i (od_orders (demote_orders site product oid seq db)))"
  by (auto simp: demote_orders_def active_moves_def map_update_where intro!: follow_update_where id_active_update)

lemma complete_follow:
  "id_active i (od_orders db) \<Longrightarrow>
     orders_follow active_moves (od_orders db) (od_orders (complete_if_fulfilled i db))
     \<and> map or_id (od_orders (complete_if_fulfilled i db)) = map or_id (od_orders db)"
  by (auto simp: complete_if_fulfilled_def update_order_row_def map_update_where id_active_def active_moves_def
      intro!: follow_update_where follow_refl)

lemma promote_follow:
  "id_active i (od_orders db) \<Longrightarrow>
     orders_follow active_moves (od_orders db) (od_orders (update_order_row i (\<lambda>x. x\<lparr>or_status := InProgress, or_previous := p\<rparr>) db))
     \<and> map or_id (od_orders (update_order_row i (\<lambda>x. x\<lparr>or_status := InProgress, or_previous := p\<rparr>) db)) = map or_id (od_orders db)
     \<and> id_active i (od_orders (update_order_row i (\<lambda>x. x\<lparr>or_status := InProgress, or_previous := p\<rparr>) db))"
proof (intro conjI)
  let ?f = "\<lambda>x. x\<lparr>or_status := InProgress, or_previous := p\<rparr>"
  assume act: "id_active i (od_orders db)"
  show "orders_follow active_moves (od_orders db) (od_orders (update_order_row i ?f db))"
    unfolding update_order_row_def using act
    by (simp, intro follow_update_where) (auto simp: id_active_def active_moves_def)
  show "map or_id (od_orders (update_order_row i ?f db)) = map or_id (od_orders db)"
    by (rule update_order_ids) simp
  show "id_active i (od_orders (update_order_row i ?f db))"
    unfolding update_order_row_def using act by (simp add: id_active_update)
qed

lemma allocate_follow:
  assumes "distinct (map or_id (od_orders db))"
  shows "orders_follow active_moves (od_orders db) (od_orders (allocate_inventory aid site product item db))
   \<and> map or_id (od_orders (allocate_inventory aid site product item db)) = map or_id (od_orders db)"
proof -
  define db1 where "db1 = heal_orders site (heal_lines site db)"
  have h: "orders_follow active_moves (od_orders db) (od_orders db1)" "map or_id (od_orders db1) = map or_id (od_orders db)"
    using heal_orders_follow[of "heal_lines site db" site] by (simp_all add: db1_def)
  show ?thesis
  proof (cases "eligible_line site product db1")
    case None
    with h show ?thesis by (simp add: allocate_inventory_def db1_def[symmetric] Let_def)
  next
    case (Some x)
    obtain r l where x: "x = (r, l)" by (cases x)
    note el = eligible_line_holds[OF Some[unfolded x]]
    define db2 where "db2 = record_allocation aid item l db1"
    define db3 where "db3 = (if or_status r = Open
        then update_order_row (or_id r) (\<lambda>x. x\<lparr>or_status := InProgress, or_previous := Some Open\<rparr>) db2 else db2)"
    define db4 where "db4 = (case or_sequence r of None \<Rightarrow> db3 | Some s \<Rightarrow> demote_orders site product (or_id r) s db3)"
    have a: "allocate_inventory aid site product item db =
        (if auto_complete site db then complete_if_fulfilled (or_id r) db4 else db4)"
      unfolding allocate_inventory_def Let_def db1_def[symmetric] Some x option.case prod.case
        db2_def[symmetric] db3_def[symmetric] db4_def[symmetric] by (rule refl)
    have d1: "distinct (map or_id (od_orders db1))" using assms h(2) by simp
    have "y = r" if "y \<in> set (od_orders db1)" "or_id y = or_id r" for y
      using d1 el that by (metis distinct_map inj_onD)
    then have act1: "id_active (or_id r) (od_orders db2)" using el by (auto simp: id_active_def db2_def)
    have f2: "orders_follow active_moves (od_orders db) (od_orders db2)" "map or_id (od_orders db2) = map or_id (od_orders db)"
      using h by (simp_all add: db2_def)
    have f3: "orders_follow active_moves (od_orders db) (od_orders db3) \<and> map or_id (od_orders db3) = map or_id (od_orders db)
        \<and> id_active (or_id r) (od_orders db3)"
      using promote_follow[OF act1, of "Some Open"] f2 act1 follow_active_trans[OF f2(1)] by (auto simp: db3_def)
    have f4: "orders_follow active_moves (od_orders db) (od_orders db4) \<and> map or_id (od_orders db4) = map or_id (od_orders db)
        \<and> id_active (or_id r) (od_orders db4)"
    proof (cases "or_sequence r")
      case None
      with f3 show ?thesis by (simp add: db4_def)
    next
      case (Some s)
      from demote_follow[of db3 site product "or_id r" s "or_id r"] f3 Some show ?thesis
        using follow_active_trans by (auto simp: db4_def)
    qed
    with complete_follow[of "or_id r" db4] show ?thesis
      unfolding a using follow_active_trans by auto
  qed
qed

lemma deduct_orders: "od_orders (deduct_scrap aid site product n db) = od_orders db"
proof (cases "scrap_order site product db")
  case (Some r)
  then have "or_status r = InProgress" by (auto simp: scrap_order_def dest: first_asc_filter)
  with Some show ?thesis by (simp add: deduct_scrap_def Let_def split: list.split)
qed (simp add: deduct_scrap_def)

lemma reorder_follow:
  "orders_follow (=) (od_orders db) (od_orders (fold (\<lambda>(k, i). update_order_row i (\<lambda>r. r\<lparr>or_sequence := Some (int k + 1)\<rparr>)) xs db))
   \<and> map or_id (od_orders (fold (\<lambda>(k, i). update_order_row i (\<lambda>r. r\<lparr>or_sequence := Some (int k + 1)\<rparr>)) xs db)) = map or_id (od_orders db)"
proof (induction xs arbitrary: db)
  case Nil
  show ?case by (simp add: follow_refl)
next
  case (Cons x xs)
  obtain k i where x: "x = (k, i)" by (cases x)
  let ?db = "update_order_row i (\<lambda>r. r\<lparr>or_sequence := Some (int k + 1)\<rparr>) db"
  have "orders_follow (=) (od_orders db) (od_orders ?db)" "map or_id (od_orders ?db) = map or_id (od_orders db)"
    by (auto simp: update_order_row_def map_update_where intro!: follow_update_where)
  with Cons.IH[of ?db] show ?case
    using follow_trans[of "(=)" "od_orders db" "od_orders ?db" "(=)" _ "(=)"] by (auto simp: x)
qed

lemma transition_row:
  assumes "transition_status i t db = Inr db'" "distinct (map or_id (od_orders db))"
  shows "map or_id (od_orders db') = map or_id (od_orders db)"
    "x \<in> set (od_orders db) \<Longrightarrow> \<exists>x' \<in> set (od_orders db'). or_id x' = or_id x
      \<and> (or_status x' = or_status x \<or> i = or_id x \<and> or_status x' = t \<and> (or_status x, t) \<in> manual_edges)"
proof -
  from assms(1) obtain r p s where r: "find_order i db = Some r" "t \<in> set (status_transitions (or_status r))"
      "db' = update_order_row i (\<lambda>x. x\<lparr>or_status := t, or_previous := p, or_sequence := s\<rparr>) db"
    by (auto simp: transition_status_def Let_def split: option.splits if_splits)
  show "map or_id (od_orders db') = map or_id (od_orders db)" by (simp add: r(3) update_order_ids)
  show "\<exists>x' \<in> set (od_orders db'). or_id x' = or_id x
      \<and> (or_status x' = or_status x \<or> i = or_id x \<and> or_status x' = t \<and> (or_status x, t) \<in> manual_edges)"
    if x: "x \<in> set (od_orders db)"
  proof (cases "or_id x = i")
    case True
    with find_order_unique[OF assms(2) r(1) x] have "x = r" by simp
    with True x r(2) show ?thesis
      by (intro bexI[of _ "x\<lparr>or_status := t, or_previous := p, or_sequence := s\<rparr>"])
        (auto simp: r(3) update_order_row_def set_update_where manual_table)
  next
    case False
    with x show ?thesis by (auto simp: r(3) update_order_row_def set_update_where)
  qed
qed

text \<open>Any other step but an allocation leaves every status as it is.\<close>
lemma step_follow:
  assumes "order_step db db'" "distinct (map or_id (od_orders db))"
    and "\<And>i t. transition_status i t db \<noteq> Inr db'" "\<And>aid site product item. db' \<noteq> allocate_inventory aid site product item db"
  shows "orders_follow (=) (od_orders db) (od_orders db') \<and> distinct (map or_id (od_orders db'))"
  using assms(1)
proof cases
  case (create oid lids now inp)
  then obtain row where "od_orders db' = od_orders db @ [row]" "or_id row = oid"
    by (auto simp: create_order_def Let_def split: if_splits option.splits)
  with create(2) assms(2) show ?thesis by (auto simp: orders_follow_def)
next
  case (update i uinp)
  then obtain r inp where r: "find_order i db = Some r" "write_update r inp db = Inr db'"
    by (auto simp: update_order_def Let_def split: option.splits if_splits)
  with row_update[OF assms(2) r(1), of "apply_update inp" "(=)"] write_update_row[OF r(2)] find_order_id[OF r(1)] assms(2)
  show ?thesis by (simp add: apply_update_def)
next
  case (remove now i)
  then obtain r where r: "find_order i db = Some r" "db' = update_order_row i (\<lambda>r. r\<lparr>or_deleted := Some now\<rparr>) db"
    by (auto simp: remove_order_def split: option.splits if_splits)
  with row_update[OF assms(2) r(1), of "\<lambda>r. r\<lparr>or_deleted := Some now\<rparr>" "(=)"] assms(2) show ?thesis by simp
next
  case (reorder ids)
  with reorder_follow[of db "enumerate 0 ids"] assms(2)
  show ?thesis by (auto simp: reorder_orders_def split: if_splits)
next
  case (deduct aid site product n)
  with assms(2) show ?thesis by (simp add: deduct_orders follow_refl)
qed (use assms(2-) in \<open>auto simp: add_line_item_def update_line_item_def remove_line_item_def get_order_def
      split: sum.splits option.splits if_splits intro!: follow_refl\<close>)

text \<open>How one step may move the status of an order.\<close>
definition step_moves :: "order_db \<Rightarrow> order_db \<Rightarrow> order \<Rightarrow> order \<Rightarrow> bool" where
  "step_moves db db' r r' \<longleftrightarrow>
     or_id r' = or_id r
     \<and> (or_status r' = or_status r
        \<or> (or_status r, or_status r') \<in> manual_edges \<and> transition_status (or_id r) (or_status r') db = Inr db'
        \<or> (or_status r, or_status r') \<in> allocation_edges \<and> (\<exists>aid site product item. db' = allocate_inventory aid site product item db))"

lemma order_step_moves:
  assumes "order_step db db'" "distinct (map or_id (od_orders db))"
  shows "distinct (map or_id (od_orders db')) \<and> (\<forall>r \<in> set (od_orders db). \<exists>r' \<in> set (od_orders db'). step_moves db db' r r')"
proof (cases "\<exists>i t. transition_status i t db = Inr db'")
  case True
  then obtain i t where t: "transition_status i t db = Inr db'" by blast
  have "\<exists>r' \<in> set (od_orders db'). step_moves db db' r r'" if "r \<in> set (od_orders db)" for r
    using transition_row(2)[OF t assms(2) that] t by (auto simp: step_moves_def)
  with transition_row(1)[OF t assms(2)] assms(2) show ?thesis by auto
next
  case no_transition: False
  show ?thesis
  proof (cases "\<exists>aid site product item. db' = allocate_inventory aid site product item db")
    case True
    then obtain aid site product item where "db' = allocate_inventory aid site product item db" by blast
    with allocate_follow[OF assms(2), of aid site product item] True assms(2) show ?thesis
      by (auto simp: orders_follow_def step_moves_def active_edges)
  next
    case False
    with no_transition step_follow[OF assms] show ?thesis by (fastforce simp: orders_follow_def step_moves_def)
  qed
qed

lemma edges_not_terminal: "(s, t) \<in> manual_edges \<union> allocation_edges \<Longrightarrow> s \<notin> {Completed, Cancelled}"
  by (auto simp: manual_edges_def allocation_edges_def)

definition terminal_kept :: "order list \<Rightarrow> order list \<Rightarrow> bool" where
  "terminal_kept xs ys \<longleftrightarrow> orders_follow (\<lambda>s t. s \<in> {Completed, Cancelled} \<longrightarrow> t = s) xs ys"

lemma terminal_trans: "terminal_kept xs ys \<Longrightarrow> terminal_kept ys zs \<Longrightarrow> terminal_kept xs zs"
  unfolding terminal_kept_def by (erule follow_trans, assumption) auto

lemma order_run_keeps:
  assumes "order_step\<^sup>*\<^sup>* db db'" "distinct (map or_id (od_orders db))"
  shows "distinct (map or_id (od_orders db')) \<and> terminal_kept (od_orders db) (od_orders db')"
  using assms(1)
proof (induction rule: rtranclp_induct)
  case base
  show ?case using assms(2) by (simp add: terminal_kept_def follow_refl)
next
  case (step y z)
  then have y: "distinct (map or_id (od_orders z))" "\<forall>r \<in> set (od_orders y). \<exists>r' \<in> set (od_orders z). step_moves y z r r'"
    using order_step_moves by blast+
  have "terminal_kept (od_orders y) (od_orders z)"
    unfolding terminal_kept_def orders_follow_def using y(2) edges_not_terminal by (fastforce simp: step_moves_def)
  with step.IH y(1) show ?case using terminal_trans by blast
qed

text \<open>
  C37: the life cycle of orders.  In every run of the operations (creation, update, deletion,
  transitions, line edits, reordering, allocation, scrap), each step leaves every order in the
  table and its status as it is, unless the step is a transition of that order along an edge of
  \<open>manual_edges\<close>, or an allocation, which moves only along \<open>allocation_edges\<close>, between open and in
  progress and to completed.  An order that is completed or cancelled keeps that status for ever.
\<close>
theorem order_life_cycle:
  assumes "order_step\<^sup>*\<^sup>* db db1" "order_step db1 db2" "distinct (map or_id (od_orders db))"
  shows "distinct (map or_id (od_orders db2))
    \<and> (\<forall>r1 \<in> set (od_orders db1). \<exists>r2 \<in> set (od_orders db2). step_moves db1 db2 r1 r2)
    \<and> (\<forall>r \<in> set (od_orders db). or_status r \<in> {Completed, Cancelled} \<longrightarrow>
        (\<exists>r2 \<in> set (od_orders db2). or_id r2 = or_id r \<and> or_status r2 = or_status r))"
proof -
  have "distinct (map or_id (od_orders db1))" using order_run_keeps[OF assms(1,3)] by blast
  note step = order_step_moves[OF assms(2) this]
  have "terminal_kept (od_orders db) (od_orders db2)"
    using order_run_keeps[OF rtranclp.rtrancl_into_rtrancl[OF assms(1,2)] assms(3)] by blast
  with step show ?thesis by (auto simp: terminal_kept_def orders_follow_def)
qed

definition sample_order :: order where
  "sample_order = \<lparr>or_id = ''o'', or_site = ''s'', or_number = ''SO-001'', or_status = Open, or_previous = None,
     or_sequence = Some 1, or_customer = None, or_po = None, or_start = None, or_due = None, or_priority = 0,
     or_default_target = 1, or_notes = None, or_created = 0, or_deleted = None\<rparr>"

definition sample_line :: line_item where
  "sample_line = \<lparr>li_id = ''l'', li_order = ''o'', li_product = ''p'', li_target = 1, li_completed = 0, li_scrap = 0,
     li_status = Pending, li_created = 0\<rparr>"

definition sample_orders :: order_db where
  "sample_orders = \<lparr>od_sites = [\<lparr>os_id = ''s'', os_auto_complete = True\<rparr>], od_customers = [], od_products = [''p''],
     od_orders = [sample_order], od_lines = [sample_line], od_allocations = []\<rparr>"

text \<open>The only order of the sample is completed by the allocation of the only item that it asks for.\<close>
theorem order_life_cycle_witness:
  "\<exists>r2 \<in> set (od_orders (allocate_inventory ''a'' ''s'' ''p'' ''i'' sample_orders)). or_id r2 = ''o'' \<and> or_status r2 = Completed
     \<and> step_moves sample_orders (allocate_inventory ''a'' ''s'' ''p'' ''i'' sample_orders) sample_order r2"
proof -
  have "distinct (map or_id (od_orders sample_orders))" "sample_order \<in> set (od_orders sample_orders)"
    by (simp_all add: sample_orders_def)
  with order_life_cycle[OF rtranclp.rtrancl_refl order_step.allocate]
  obtain r2 where r2: "r2 \<in> set (od_orders (allocate_inventory ''a'' ''s'' ''p'' ''i'' sample_orders))"
      "step_moves sample_orders (allocate_inventory ''a'' ''s'' ''p'' ''i'' sample_orders) sample_order r2" by blast
  have "map or_status (od_orders (allocate_inventory ''a'' ''s'' ''p'' ''i'' sample_orders)) = [Completed]" by code_simp
  with r2 show ?thesis by (intro bexI[of _ r2] conjI) (auto simp: step_moves_def sample_order_def)
qed

section \<open>The allocation ledger\<close>

definition alloc_sum :: "uuid \<Rightarrow> allocation list \<Rightarrow> int" where
  "alloc_sum i as = sum_list (map al_quantity (filter (\<lambda>a. al_line a = i) as))"

text \<open>Line ids are unique, allocations refer to lines, and every good count is the sum of its allocations.\<close>
definition ledger_ok :: "order_db \<Rightarrow> bool" where
  "ledger_ok db \<longleftrightarrow> distinct (map li_id (od_lines db))
     \<and> (\<forall>a \<in> set (od_allocations db). al_line a \<in> li_id ` set (od_lines db))
     \<and> (\<forall>l \<in> set (od_lines db). li_completed l - li_scrap l = alloc_sum (li_id l) (od_allocations db))"

lemma alloc_sum_append [simp]: "alloc_sum i (as @ bs) = alloc_sum i as + alloc_sum i bs"
  by (simp add: alloc_sum_def)

lemma alloc_sum_one [simp]: "alloc_sum i [a] = (if al_line a = i then al_quantity a else 0)"
  by (simp add: alloc_sum_def)

lemma alloc_sum_none: "i \<notin> al_line ` set as \<Longrightarrow> alloc_sum i as = 0"
  by (induction as) (auto simp: alloc_sum_def)

lemma ledger_add_lines:
  assumes "ledger_ok db" "distinct (map li_id new)" "\<forall>l \<in> set new. li_completed l = 0 \<and> li_scrap l = 0"
    and "li_id ` set new \<inter> (li_id ` set (od_lines db) \<union> al_line ` set (od_allocations db)) = {}"
  shows "ledger_ok (db\<lparr>od_orders := os, od_lines := od_lines db @ new\<rparr>)"
proof -
  have "alloc_sum (li_id l) (od_allocations db) = 0" if "l \<in> set new" for l
    using that assms(4) by (intro alloc_sum_none) auto
  with assms show ?thesis by (auto simp: ledger_ok_def)
qed

lemma ledger_same_orders [simp]: "db\<lparr>od_orders := od_orders db, od_lines := ls\<rparr> = db\<lparr>od_lines := ls\<rparr>"
  by simp

text \<open>A change of one line's quantities together with the matching allocation keeps the ledger.\<close>
lemma ledger_book:
  assumes "ledger_ok db" "l \<in> set (od_lines db)" "al_line a = li_id l"
    and "\<And>x. li_id (f x) = li_id x \<and> li_completed (f x) - li_scrap (f x) = li_completed x - li_scrap x + al_quantity a"
  shows "ledger_ok (update_line_row (li_id l) f (db\<lparr>od_allocations := od_allocations db @ [a]\<rparr>))"
proof -
  have ids: "map li_id (update_where (\<lambda>x. li_id x = li_id l) f (od_lines db)) = map li_id (od_lines db)"
    using assms(4) by (simp add: map_update_where)
  then have "li_id ` set (update_where (\<lambda>x. li_id x = li_id l) f (od_lines db)) = li_id ` set (od_lines db)"
    by (metis set_map)
  moreover have "li_completed y - li_scrap y = alloc_sum (li_id y) (od_allocations db) + (if al_line a = li_id y then al_quantity a else 0)"
    if "y \<in> set (update_where (\<lambda>x. li_id x = li_id l) f (od_lines db))" for y
  proof -
    from that consider x where "x \<in> set (od_lines db)" "li_id x = li_id l" "y = f x"
      | "y \<in> set (od_lines db)" "li_id y \<noteq> li_id l" by (auto simp: set_update_where)
    then show ?thesis
    proof cases
      case 1
      then have "li_completed x - li_scrap x = alloc_sum (li_id x) (od_allocations db)" using assms(1) by (simp add: ledger_ok_def)
      with 1 assms(3) assms(4)[of x] show ?thesis by simp
    next
      case 2
      with assms(1,3) show ?thesis by (simp add: ledger_ok_def)
    qed
  qed
  ultimately show ?thesis
    using ids assms(1-3) by (simp add: ledger_ok_def update_line_row_def)
qed

lemma ledger_orders [simp]: "ledger_ok (db\<lparr>od_orders := os\<rparr>) = ledger_ok db"
  by (simp add: ledger_ok_def)

lemma ledger_update_order [simp]: "ledger_ok (update_order_row i f db) = ledger_ok db"
  by (simp add: update_order_row_def)

text \<open>Changes of a line that leave its id and quantities alone keep the ledger.\<close>
lemma ledger_same:
  assumes "ledger_ok db" "\<And>x. li_id (f x) = li_id x \<and> li_completed (f x) = li_completed x \<and> li_scrap (f x) = li_scrap x"
  shows "ledger_ok (db\<lparr>od_lines := update_where p f (od_lines db)\<rparr>)"
proof -
  have ids: "map li_id (update_where p f (od_lines db)) = map li_id (od_lines db)"
    using assms(2) by (simp add: map_update_where)
  then have "li_id ` set (update_where p f (od_lines db)) = li_id ` set (od_lines db)" by (metis set_map)
  with ids assms show ?thesis by (auto simp: ledger_ok_def set_update_where)
qed

lemma ledger_heal: "ledger_ok db \<Longrightarrow> ledger_ok (heal_orders site (heal_lines site db))"
  using ledger_same[of db "\<lambda>l. l\<lparr>li_status := LineCompleted\<rparr>"] by (simp add: heal_orders_def heal_lines_def)

lemma ledger_allocate: "ledger_ok db \<Longrightarrow> ledger_ok (allocate_inventory aid site product item db)"
proof -
  assume ok: "ledger_ok db"
  define db1 where "db1 = heal_orders site (heal_lines site db)"
  have ok1: "ledger_ok db1" using ledger_heal[OF ok] by (simp add: db1_def)
  show ?thesis
  proof (cases "eligible_line site product db1")
    case None
    with ok1 show ?thesis by (simp add: allocate_inventory_def db1_def[symmetric] Let_def)
  next
    case (Some x)
    obtain r l where x: "x = (r, l)" by (cases x)
    have "ledger_ok (record_allocation aid item l db1)"
      unfolding record_allocation_def Let_def
      using ok1 eligible_line_holds[OF Some[unfolded x]] by (intro ledger_book) auto
    then show ?thesis
      by (simp add: allocate_inventory_def db1_def[symmetric] Let_def Some x demote_orders_def
          complete_if_fulfilled_def split: option.split)
  qed
qed

lemma ledger_deduct: "ledger_ok db \<Longrightarrow> ledger_ok (deduct_scrap aid site product n db)"
proof -
  assume ok: "ledger_ok db"
  show ?thesis
  proof (cases "scrap_order site product db")
    case (Some r)
    show ?thesis
    proof (cases "filter (\<lambda>l. li_order l = or_id r \<and> li_product l = product) (od_lines db)")
      case (Cons l ls)
      then have "l \<in> set (filter (\<lambda>l. li_order l = or_id r \<and> li_product l = product) (od_lines db))" by simp
      then have l: "l \<in> set (od_lines db)" by simp
      have "ledger_ok (update_line_row (li_id l) (\<lambda>x. x\<lparr>li_scrap := li_scrap x + n, li_status := st\<rparr>)
          (db\<lparr>od_allocations := od_allocations db @ [\<lparr>al_id = aid, al_item = None, al_line = li_id l, al_quantity = - n\<rparr>]\<rparr>))" for st
        using ok l by (intro ledger_book) auto
      with Some Cons show ?thesis by (simp add: deduct_scrap_def Let_def)
    qed (use Some ok in \<open>simp add: deduct_scrap_def\<close>)
  qed (use ok in \<open>simp add: deduct_scrap_def\<close>)
qed

lemma ledger_remove:
  assumes "ledger_ok db"
  shows "ledger_ok (db\<lparr>od_lines := filter (\<lambda>x. li_id x \<noteq> i) (od_lines db),
    od_allocations := filter (\<lambda>a. al_line a \<noteq> i) (od_allocations db)\<rparr>)"
proof -
  have "alloc_sum j (filter (\<lambda>a. al_line a \<noteq> i) as) = alloc_sum j as" if "j \<noteq> i" for j as
    using that by (induction as) (auto simp: alloc_sum_def)
  with assms show ?thesis by (auto simp: ledger_ok_def distinct_map_filter)
qed

lemma ledger_reorder:
  "ledger_ok db \<Longrightarrow> ledger_ok (fold (\<lambda>(k, i). update_order_row i (\<lambda>r. r\<lparr>or_sequence := Some (int k + 1)\<rparr>)) xs db)"
  by (induction xs arbitrary: db) auto

lemma create_order_rows:
  assumes "create_order oid lids now inp db = Inr db'"
  shows "\<exists>row. db' = db\<lparr>od_orders := od_orders db @ [row],
    od_lines := od_lines db @ map (\<lambda>(k, p, q). \<lparr>li_id = lids k, li_order = oid, li_product = p, li_target = q,
                      li_completed = 0, li_scrap = 0, li_status = Pending, li_created = now\<rparr>)
                      (enumerate 0 (ci_lines inp))\<rparr>"
  using assms by (simp add: create_order_def Let_def split: if_split_asm option.split_asm) blast+

lemma ledger_step: "order_step db db' \<Longrightarrow> ledger_ok db \<Longrightarrow> ledger_ok db'"
proof (induction rule: order_step.induct)
  case (create oid lids now inp db db')
  let ?new = "map (\<lambda>(k, p, q). \<lparr>li_id = lids k, li_order = oid, li_product = p, li_target = q,
                      li_completed = 0, li_scrap = 0, li_status = Pending, li_created = now\<rparr>) (enumerate 0 (ci_lines inp))"
  from create_order_rows[OF create(1)] obtain row where
    db': "db' = db\<lparr>od_orders := od_orders db @ [row], od_lines := od_lines db @ ?new\<rparr>" by blast
  have "map li_id ?new = map lids (map fst (enumerate 0 (ci_lines inp)))"
    unfolding map_map by (rule map_cong) auto
  then have d: "distinct (map li_id ?new)" and "li_id ` set ?new \<subseteq> range lids"
    using create(3) by (auto simp: distinct_map inj_on_def inj_def case_prod_beta)
  have "li_id ` set ?new \<subseteq> range lids" by auto
  with create(4) have "li_id ` set ?new \<inter> (li_id ` set (od_lines db) \<union> al_line ` set (od_allocations db)) = {}" by blast
  then show ?case unfolding db' by (intro ledger_add_lines[OF create(5) d]) auto
next
  case (add_line lid now oid product q db db')
  then have "db' = db\<lparr>od_lines := od_lines db @ [\<lparr>li_id = lid, li_order = oid, li_product = product,
                 li_target = q, li_completed = 0, li_scrap = 0, li_status = Pending, li_created = now\<rparr>]\<rparr>"
    by (auto simp: add_line_item_def split: sum.splits if_splits)
  moreover have "ledger_ok (db\<lparr>od_lines := od_lines db @ [\<lparr>li_id = lid, li_order = oid, li_product = product,
                 li_target = q, li_completed = 0, li_scrap = 0, li_status = Pending, li_created = now\<rparr>]\<rparr>)"
    using add_line(2) by (intro ledger_add_lines[OF add_line(3), of _ "od_orders db", simplified]) auto
  ultimately show ?case by simp
next
  case (update i uinp db db')
  then show ?case by (auto simp: update_order_def Let_def dest!: write_update_row split: option.splits if_splits)
next
  case (remove now i db db')
  then show ?case by (auto simp: remove_order_def split: option.splits if_splits)
next
  case (transition i target db db')
  then show ?case by (auto simp: transition_status_def Let_def split: option.splits if_splits)
next
  case (update_line lid tq db db')
  then have "db' = db\<lparr>od_lines := update_where (\<lambda>l. li_id l = lid) (\<lambda>x. x\<lparr>li_target := dflt (li_target x) tq\<rparr>) (od_lines db)\<rparr>"
    by (auto simp: update_line_item_def update_line_row_def split: option.splits if_splits)
  with ledger_same[OF update_line(2)] show ?case by simp
next
  case (remove_line lid db db')
  with ledger_remove show ?case by (auto simp: remove_line_item_def split: option.splits if_splits)
next
  case (reorder ids db db')
  with ledger_reorder show ?case by (auto simp: reorder_orders_def split: if_splits)
qed (simp_all add: ledger_allocate ledger_deduct)

text \<open>
  C2: quantities never drift from their audit trail.  In every run, for every line item the
  good count (completed minus scrapped) stays equal to the sum of the quantities of its
  allocation records, the negative records of scrap included.
\<close>
theorem allocation_ledger:
  assumes "order_step\<^sup>*\<^sup>* db db'" "ledger_ok db"
  shows "\<forall>l \<in> set (od_lines db'). good_count l = sum_list (map al_quantity (filter (\<lambda>a. al_line a = li_id l) (od_allocations db')))"
proof -
  have "ledger_ok db'" using assms by (induction rule: rtranclp_induct) (auto intro: ledger_step)
  then show ?thesis by (simp add: ledger_ok_def good_count_def alloc_sum_def)
qed

theorem allocation_ledger_witness:
  "list_all (\<lambda>l. good_count l = sum_list (map al_quantity (filter (\<lambda>a. al_line a = li_id l)
       (od_allocations (deduct_scrap ''b'' ''s'' ''p'' 1 (allocate_inventory ''a'' ''s'' ''p'' ''i'' sample_orders))))))
     (od_lines (deduct_scrap ''b'' ''s'' ''p'' 1 (allocate_inventory ''a'' ''s'' ''p'' ''i'' sample_orders)))"
  unfolding list_all_iff
proof (rule allocation_ledger)
  show "order_step\<^sup>*\<^sup>* sample_orders (deduct_scrap ''b'' ''s'' ''p'' 1 (allocate_inventory ''a'' ''s'' ''p'' ''i'' sample_orders))"
    by (rule rtranclp_trans[OF r_into_rtranclp r_into_rtranclp]) (rule order_step.allocate, rule order_step.deduct)
  show "ledger_ok sample_orders"
    by (simp add: ledger_ok_def sample_orders_def sample_line_def alloc_sum_def)
qed

section \<open>Priority\<close>

lemma demoted:
  assumes "x \<in> set (od_orders (demote_orders site product oid seq db))" "or_site x = site" "or_deleted x = None"
    and "or_sequence x = Some s" "s > seq" "or_id x \<noteq> oid" "\<exists>l \<in> set (od_lines db). li_order l = or_id x \<and> li_product l = product"
  shows "or_status x \<noteq> InProgress"
proof
  assume st: "or_status x = InProgress"
  let ?p = "\<lambda>r. or_site r = site \<and> or_status r = InProgress \<and> or_deleted r = None
           \<and> (case or_sequence r of None \<Rightarrow> False | Some s \<Rightarrow> s > seq) \<and> or_id r \<noteq> oid
           \<and> (\<exists>l \<in> set (od_lines db). li_order l = or_id r \<and> li_product l = product)"
  have "x \<in> set (update_where ?p (\<lambda>r. r\<lparr>or_status := Open, or_previous := Some InProgress\<rparr>) (od_orders db))"
    using assms(1) by (simp add: demote_orders_def)
  then have "x \<in> (\<lambda>r. r\<lparr>or_status := Open, or_previous := Some InProgress\<rparr>) ` {r \<in> set (od_orders db). ?p r} \<union> {r \<in> set (od_orders db). \<not> ?p r}"
    unfolding set_update_where .
  then show False
  proof
    assume "x \<in> {r \<in> set (od_orders db). \<not> ?p r}"
    moreover have "?p x" using st assms(2-7) by simp
    ultimately show False by blast
  qed (use st in auto)
qed

text \<open>
  production goes to the order that comes first.  When a line is eligible, allocation adds
  exactly one record, of quantity one, for the eligible line with the lowest sequence; with
  auto-completion that line was not yet fulfilled; and afterwards no other live order of the site
  with a line for the product and a higher sequence is still in progress.
\<close>
theorem allocation_priority:
  assumes "eligible_line site product (heal_orders site (heal_lines site db)) = Some (r, l)" "or_sequence r = Some s"
    and res: "db' = allocate_inventory aid site product item db"
  shows "od_allocations db' = od_allocations db @ [\<lparr>al_id = aid, al_item = Some item, al_line = li_id l, al_quantity = 1\<rparr>]
    \<and> (auto_complete site db \<longrightarrow> good_count l < li_target l)
    \<and> (\<forall>x \<in> set (od_orders db'). \<forall>s'. or_site x = site \<and> or_deleted x = None \<and> or_sequence x = Some s' \<and> s' > s \<and> or_id x \<noteq> or_id r
         \<and> (\<exists>y \<in> set (od_lines db'). li_order y = or_id x \<and> li_product y = product) \<longrightarrow> or_status x \<noteq> InProgress)"
proof -
  define db1 where "db1 = heal_orders site (heal_lines site db)"
  define db2 where "db2 = record_allocation aid item l db1"
  define db3 where "db3 = (if or_status r = Open
      then update_order_row (or_id r) (\<lambda>x. x\<lparr>or_status := InProgress, or_previous := Some Open\<rparr>) db2 else db2)"
  define db4 where "db4 = demote_orders site product (or_id r) s db3"
  have a: "db' = (if auto_complete site db then complete_if_fulfilled (or_id r) db4 else db4)"
    unfolding res allocate_inventory_def Let_def db1_def[symmetric] assms(1)[folded db1_def] option.case prod.case
      db2_def[symmetric] db3_def[symmetric] assms(2) db4_def[symmetric] by (rule refl)
  have sites: "od_sites db1 = od_sites db" by (simp add: db1_def heal_orders_def heal_lines_def)
  have al: "od_allocations db' = od_allocations db2" "od_lines db' = od_lines db4" "od_lines db4 = od_lines db3"
    unfolding a db4_def db3_def
    by (simp_all add: complete_if_fulfilled_def update_order_row_def demote_orders_def)
  have "od_allocations db2 = od_allocations db @ [\<lparr>al_id = aid, al_item = Some item, al_line = li_id l, al_quantity = 1\<rparr>]"
    by (simp add: db2_def record_allocation_def Let_def update_line_row_def db1_def heal_orders_def heal_lines_def)
  moreover have "auto_complete site db \<longrightarrow> good_count l < li_target l"
    using eligible_line_holds[OF assms(1)] sites by (auto simp: auto_complete_def db1_def)
  moreover have no4: "or_status x \<noteq> InProgress"
    if "x \<in> set (od_orders db4)" "or_site x = site" "or_deleted x = None" "or_sequence x = Some s'" "s' > s" "or_id x \<noteq> or_id r"
       "\<exists>y \<in> set (od_lines db3). li_order y = or_id x \<and> li_product y = product" for x s'
    using demoted[OF that(1)[unfolded db4_def] that(2,3,4,5,6,7)] .
  have "or_status x \<noteq> InProgress"
    if "x \<in> set (od_orders db')" "or_site x = site" "or_deleted x = None" "or_sequence x = Some s'" "s' > s" "or_id x \<noteq> or_id r"
       "\<exists>y \<in> set (od_lines db'). li_order y = or_id x \<and> li_product y = product" for x s'
  proof -
    have "x \<in> set (od_orders db4)"
      using that(1,6) unfolding a by (auto simp: complete_if_fulfilled_def update_order_row_def set_update_where split: if_splits)
    with that no4 al show ?thesis by auto
  qed
  ultimately show ?thesis using al by auto
qed

theorem allocation_priority_witness:
  "\<exists>a. od_allocations (allocate_inventory ''a'' ''s'' ''p'' ''i'' sample_orders) = [a] \<and> al_line a = ''l''"
proof -
  have "eligible_line ''s'' ''p'' (heal_orders ''s'' (heal_lines ''s'' sample_orders)) = Some (sample_order, sample_line)"
    by (simp add: eligible_line_def heal_orders_def heal_lines_def sample_orders_def sample_order_def sample_line_def
        auto_complete_def good_count_def)
  from allocation_priority[OF this, of 1 _ "''a''" "''i''"] show ?thesis
    by (simp add: sample_order_def sample_orders_def sample_line_def)
qed

text \<open>
  Deducting scrap never changes an order.  The branch that would reopen an auto-completed
  order that falls below its target is never taken, because only orders in progress are looked
  up: whatever the tables hold, the orders after a deduction are the orders before it.
\<close>
theorem deduct_scrap_keeps_orders:
  "od_orders (deduct_scrap aid site product quantity db) = od_orders db"
  by (rule deduct_orders)

end
