(* ===== verification/StateLog.thy ===== *)
theory StateLog
  imports JsValue "HOL-Library.Monad_Syntax"
begin

text \<open>
  The state log of stations (\<open>packages/services/src/facility/station/state.ts\<close>): the
  transitions UP, SLOW and DOWN, splitting a downtime, assigning a downtime reason, listing,
  and the live metric events they publish; and the planning of the detection timers
  (\<open>state-detection.ts\<close>, \<open>queues/station-detection.ts\<close>).  An operation runs in one
  transaction under the advisory lock of the station, so it is one function on the tables; an
  error rolls it back.  The partial unique index on open entries and the foreign key to the
  station are explicit failures of the insert.  Row ids, block ids and the clock are arguments.
\<close>

section \<open>Tables\<close>

datatype station_state = Up | Down
datatype station_status = StFast | StSlow | StUp | StDown

record state_log =
  sl_id :: uuid
  sl_station :: uuid
  sl_start :: ms
  sl_end :: "ms option"
  sl_state :: station_state
  sl_status :: "station_status option"
  sl_block :: uuid
  sl_reason :: "uuid option"
  sl_blob :: "uuid option"
  sl_updated :: ms
  sl_deleted :: "ms option"

record station_row =
  sr_id :: uuid
  sr_site :: uuid
  sr_name :: string
  sr_workcenter :: "uuid option"

record workcenter_row =
  wr_id :: uuid
  wr_parent :: "uuid option"

record job_log =
  jl_station :: uuid
  jl_start :: ms
  jl_end :: "ms option"
  jl_blob :: "uuid option"

record state_db =
  sd_logs :: "state_log list"
  sd_stations :: "station_row list"
  sd_workcenters :: "workcenter_row list"
  sd_job_logs :: "job_log list"
  sd_reasons :: "uuid list"

datatype state_error =
    OpenEntryExists
  | StationMissing
  | LogNotFound
  | LogNotDown
  | SplitTooCloseToStart
  | SplitTooCloseToEnd
  | ReasonNotFound

text \<open>Calls made after the commit: live metric publications and the metric recalculation.\<close>
datatype state_effect =
    PublishStatus uuid station_status ms
  | PublishReason uuid "uuid option" ms
  | Recalc uuid uuid ms ms

section \<open>Queries and writes\<close>

definition live_log :: "uuid \<Rightarrow> state_log \<Rightarrow> bool" where
  "live_log st r = (sl_station r = st \<and> sl_deleted r = None)"

definition open_log :: "uuid \<Rightarrow> state_log \<Rightarrow> bool" where
  "open_log st r = (sl_station r = st \<and> sl_end r = None \<and> sl_deleted r = None)"

definition find_open :: "uuid \<Rightarrow> state_db \<Rightarrow> state_log option" where
  "find_open st db = first_desc sl_start (filter (open_log st) (sd_logs db))"

definition update_logs :: "(state_log \<Rightarrow> bool) \<Rightarrow> (state_log \<Rightarrow> state_log) \<Rightarrow> ms \<Rightarrow> state_db \<Rightarrow> state_db" where
  "update_logs p f now db = db\<lparr>sd_logs := update_where p (\<lambda>r. (f r)\<lparr>sl_updated := now\<rparr>) (sd_logs db)\<rparr>"

definition close_open :: "uuid \<Rightarrow> ms \<Rightarrow> ms \<Rightarrow> state_db \<Rightarrow> state_db" where
  "close_open st t now db = update_logs (open_log st) (\<lambda>r. r\<lparr>sl_end := Some t\<rparr>) now db"

definition new_entry ::
  "uuid \<Rightarrow> uuid \<Rightarrow> ms \<Rightarrow> station_state \<Rightarrow> station_status \<Rightarrow> uuid \<Rightarrow> uuid option \<Rightarrow> ms \<Rightarrow> state_log" where
  "new_entry i st t state status b blob now =
     \<lparr>sl_id = i, sl_station = st, sl_start = t, sl_end = None, sl_state = state,
      sl_status = Some status, sl_block = b, sl_reason = None, sl_blob = blob, sl_updated = now,
      sl_deleted = None\<rparr>"

text \<open>An insert checks the foreign key and the partial unique index on open entries.\<close>
definition insert_log :: "state_log \<Rightarrow> state_db \<Rightarrow> state_error + state_db" where
  "insert_log r db =
     (if sl_station r \<notin> sr_id ` set (sd_stations db) then Inl StationMissing
      else if sl_end r = None \<and> sl_deleted r = None \<and> list_ex (open_log (sl_station r)) (sd_logs db)
      then Inl OpenEntryExists
      else Inr (db\<lparr>sd_logs := sd_logs db @ [r]\<rparr>))"

definition station_site :: "uuid \<Rightarrow> state_db \<Rightarrow> uuid option" where
  "station_site st db = map_option sr_site (find (\<lambda>s. sr_id s = st) (sd_stations db))"

definition entry_status :: "state_log \<Rightarrow> station_status" where
  "entry_status r =
     (case sl_status r of Some s \<Rightarrow> s | None \<Rightarrow> (case sl_state r of Up \<Rightarrow> StUp | Down \<Rightarrow> StDown))"

section \<open>Transitions\<close>

record up_options =
  uo_cycle :: "rat option"
  uo_slow :: "rat option"
  uo_blob :: "uuid option"

record closed_entry =
  ce_start :: ms
  ce_end :: ms
  ce_state :: station_state

definition exceeds_slow :: "up_options \<Rightarrow> bool" where
  "exceeds_slow opts =
     (case (uo_cycle opts, uo_slow opts) of
        (Some c, Some s) \<Rightarrow> c > 0 \<and> s > 0 \<and> c > s
      | _ \<Rightarrow> False)"

text \<open>The arguments \<open>i\<close> and \<open>b\<close> are the fresh row id and the fresh block id.\<close>
definition transition_to_up ::
  "uuid \<Rightarrow> ms \<Rightarrow> up_options \<Rightarrow> uuid \<Rightarrow> uuid \<Rightarrow> ms \<Rightarrow> state_db
     \<Rightarrow> state_error + (state_log \<times> closed_entry option \<times> state_db)" where
  "transition_to_up st t opts i b now db =
     (let cur = find_open st db;
          db1 = (case cur of None \<Rightarrow> db | Some _ \<Rightarrow> close_open st t now db);
          closed = map_option (\<lambda>c. \<lparr>ce_start = sl_start c, ce_end = t, ce_state = sl_state c\<rparr>) cur;
          block = (case cur of Some c \<Rightarrow> if sl_state c = Up then sl_block c else b | None \<Rightarrow> b);
          entry = new_entry i st t Up StUp block (uo_blob opts) now
      in case insert_log entry db1 of
           Inl e \<Rightarrow> Inl e
         | Inr db2 \<Rightarrow>
             if exceeds_slow opts
             then Inr (entry\<lparr>sl_status := Some StSlow\<rparr>, closed,
                       update_logs (\<lambda>r. sl_id r = i) (\<lambda>r. r\<lparr>sl_status := Some StSlow\<rparr>) now db2)
             else Inr (entry, closed, db2))"

definition slow_in_place :: "ms \<Rightarrow> state_log \<Rightarrow> state_log" where
  "slow_in_place now r = r\<lparr>sl_status := Some StSlow, sl_updated := now\<rparr>"

definition transition_to_slow ::
  "uuid \<Rightarrow> ms \<Rightarrow> uuid \<Rightarrow> uuid \<Rightarrow> ms \<Rightarrow> state_db
     \<Rightarrow> state_error + (state_log \<times> state_effect list \<times> state_db)" where
  "transition_to_slow st t i b now db =
     map_sum id (\<lambda>(entry, db'). (entry, [PublishStatus st (entry_status entry) (sl_updated entry)], db'))
       (case find_open st db of
          None \<Rightarrow> map_sum id (Pair (new_entry i st t Up StSlow b None now))
                    (insert_log (new_entry i st t Up StSlow b None now) db)
        | Some c \<Rightarrow>
            if sl_state c = Down then Inr (c, db)
            else if sl_status c = Some StSlow then Inr (c, db)
            else Inr (slow_in_place now c,
                      update_logs (\<lambda>r. sl_id r = sl_id c) (\<lambda>r. r\<lparr>sl_status := Some StSlow\<rparr>) now db))"

text \<open>The blob of the open job log entry of the station that started last.\<close>
definition active_job_blob :: "uuid \<Rightarrow> state_db \<Rightarrow> uuid option" where
  "active_job_blob st db =
     Option.bind (first_desc jl_start (filter (\<lambda>j. jl_station j = st \<and> jl_end j = None) (sd_job_logs db))) jl_blob"

definition down_in_place :: "uuid \<Rightarrow> uuid option \<Rightarrow> state_log \<Rightarrow> state_log" where
  "down_in_place b blob r =
     r\<lparr>sl_state := Down, sl_status := Some StDown, sl_block := b, sl_blob := blob\<rparr>"

text \<open>The transaction: the entry, the range converted from UP to DOWN, and the tables.\<close>
definition down_transaction ::
  "uuid \<Rightarrow> ms \<Rightarrow> uuid \<Rightarrow> uuid \<Rightarrow> ms \<Rightarrow> state_db
     \<Rightarrow> state_error + (state_log \<times> (ms \<times> ms) option \<times> state_db)" where
  "down_transaction st t i b now db =
     (let blob = active_job_blob st db
      in case find_open st db of
           None \<Rightarrow> map_sum id (\<lambda>db'. (new_entry i st t Down StDown b blob now, None, db'))
                     (insert_log (new_entry i st t Down StDown b blob now) db)
         | Some c \<Rightarrow>
             if sl_state c = Down then Inr (c, None, db)
             else (let db1 = update_logs (\<lambda>r. open_log st r \<and> sl_id r \<noteq> sl_id c)
                               (\<lambda>r. r\<lparr>sl_end := Some t\<rparr>) now db
                   in Inr ((down_in_place b blob c)\<lparr>sl_updated := now\<rparr>, Some (sl_start c, t),
                           update_logs (\<lambda>r. sl_id r = sl_id c) (down_in_place b blob) now db1)))"

definition transition_to_down ::
  "uuid \<Rightarrow> ms \<Rightarrow> uuid \<Rightarrow> uuid \<Rightarrow> ms \<Rightarrow> state_db
     \<Rightarrow> state_error + (state_log \<times> state_effect list \<times> state_db)" where
  "transition_to_down st t i b now db =
     map_sum id (\<lambda>(entry, range, db').
         (entry,
          (case (range, station_site st db') of
             (Some (from, to), Some site) \<Rightarrow> [Recalc st site from to]
           | _ \<Rightarrow> [])
          @ [PublishStatus st (entry_status entry) (sl_updated entry),
             PublishReason st (sl_reason entry) (sl_updated entry)],
          db'))
       (down_transaction st t i b now db)"

section \<open>Splitting a downtime\<close>

definition split_margin :: ms where
  "split_margin = 5 * 60000"

definition find_log :: "uuid \<Rightarrow> state_db \<Rightarrow> state_log option" where
  "find_log i db = find (\<lambda>r. sl_id r = i \<and> sl_deleted r = None) (sd_logs db)"

text \<open>
  The read of the entry comes before the lock is taken; the checks use that reading.  The two
  halves are separate so that another transition can come between them.
\<close>
definition split_read :: "uuid \<Rightarrow> state_db \<Rightarrow> state_error + state_log" where
  "split_read i db =
     (case find_log i db of
        None \<Rightarrow> Inl LogNotFound
      | Some e \<Rightarrow> if sl_state e \<noteq> Down then Inl LogNotDown else Inr e)"

definition split_tail :: "state_log \<Rightarrow> ms \<Rightarrow> uuid \<Rightarrow> ms \<Rightarrow> state_log" where
  "split_tail e tm i now =
     \<lparr>sl_id = i, sl_station = sl_station e, sl_start = tm, sl_end = sl_end e, sl_state = sl_state e,
      sl_status = sl_status e, sl_block = sl_block e, sl_reason = sl_reason e, sl_blob = sl_blob e,
      sl_updated = now, sl_deleted = None\<rparr>"

definition split_head :: "state_log \<Rightarrow> ms \<Rightarrow> ms \<Rightarrow> state_log" where
  "split_head e tm now = e\<lparr>sl_end := Some tm, sl_updated := now\<rparr>"

definition split_locked ::
  "state_log \<Rightarrow> ms \<Rightarrow> uuid \<Rightarrow> ms \<Rightarrow> state_db \<Rightarrow> state_error + (state_log \<times> state_log \<times> state_db)" where
  "split_locked e tm i now db =
     (let effective_end = (case sl_end e of Some t \<Rightarrow> t | None \<Rightarrow> now)
      in if tm < sl_start e + split_margin then Inl SplitTooCloseToStart
         else if tm > effective_end - split_margin then Inl SplitTooCloseToEnd
         else map_sum id (\<lambda>db'. (split_head e tm now, split_tail e tm i now, db'))
                (insert_log (split_tail e tm i now)
                  (update_logs (\<lambda>r. sl_id r = sl_id e) (\<lambda>r. r\<lparr>sl_end := Some tm\<rparr>) now db)))"

definition split_down_entry ::
  "uuid \<Rightarrow> ms \<Rightarrow> uuid \<Rightarrow> ms \<Rightarrow> state_db \<Rightarrow> state_error + (state_log \<times> state_log \<times> state_db)" where
  "split_down_entry i tm j now db =
     (case split_read i db of Inl x \<Rightarrow> Inl x | Inr e \<Rightarrow> split_locked e tm j now db)"

section \<open>Assigning a downtime reason\<close>

definition reason_target :: "bool \<Rightarrow> state_log \<Rightarrow> state_log \<Rightarrow> bool" where
  "reason_target to_block e r =
     (if to_block then sl_block r = sl_block e \<and> sl_state r = Down \<and> sl_deleted r = None
      else sl_id r = sl_id e \<and> sl_deleted r = None)"

text \<open>The affected range: the entry, or the span of its block by start time.\<close>
definition reason_range :: "bool \<Rightarrow> state_log \<Rightarrow> ms \<Rightarrow> state_db \<Rightarrow> ms \<times> ms" where
  "reason_range to_block e now db =
     (let end_of = (\<lambda>r. case sl_end r of Some t \<Rightarrow> t | None \<Rightarrow> now);
          rows = sort_key sl_start (filter (reason_target True e) (sd_logs db))
      in if to_block \<and> rows \<noteq> [] then (sl_start (hd rows), end_of (last rows))
         else (sl_start e, end_of e))"

definition assign_downtime_reason ::
  "uuid \<Rightarrow> uuid option \<Rightarrow> bool \<Rightarrow> ms \<Rightarrow> state_db \<Rightarrow> state_error + (nat \<times> state_effect list \<times> state_db)" where
  "assign_downtime_reason i reason to_block now db =
     (case find_log i db of
        None \<Rightarrow> Inl LogNotFound
      | Some e \<Rightarrow>
          if sl_state e \<noteq> Down then Inl LogNotDown
          else if (case reason of None \<Rightarrow> False | Some x \<Rightarrow> x \<notin> set (sd_reasons db)) then Inl ReasonNotFound
          else (let st = sl_station e;
                    db' = update_logs (reason_target to_block e) (\<lambda>r. r\<lparr>sl_reason := reason\<rparr>) now db;
                    (from, to) = reason_range to_block e now db';
                    open_affected =
                      (if to_block then count_where (\<lambda>r. open_log st r \<and> sl_block r = sl_block e) (sd_logs db') > 0
                       else sl_end e = None)
                in Inr (count_where (reason_target to_block e) (sd_logs db),
                        (case station_site st db of None \<Rightarrow> [] | Some site \<Rightarrow> [Recalc st site from to])
                        @ (if open_affected then [PublishReason st reason now] else []),
                        db')))"

section \<open>Listing\<close>

record log_filter =
  lf_station :: uuid
  lf_from :: "ms option"
  lf_to :: "ms option"
  lf_state :: "station_state option"
  lf_limit :: int
  lf_offset :: nat

definition default_limit :: int where
  "default_limit = 100"

definition log_matches :: "log_filter \<Rightarrow> state_log \<Rightarrow> bool" where
  "log_matches f r =
     (live_log (lf_station f) r
      \<and> (case lf_state f of None \<Rightarrow> True | Some s \<Rightarrow> sl_state r = s)
      \<and> (case lf_from f of None \<Rightarrow> True | Some a \<Rightarrow> (case sl_end r of None \<Rightarrow> True | Some e \<Rightarrow> a \<le> e))
      \<and> (case lf_to f of None \<Rightarrow> True | Some z \<Rightarrow> sl_start r \<le> z))"

text \<open>The page and the total.\<close>
definition list_state_logs :: "log_filter \<Rightarrow> state_db \<Rightarrow> state_log list \<times> nat" where
  "list_state_logs f db =
     (let rows = drop (lf_offset f) (sort_key (\<lambda>r. - sl_start r) (filter (log_matches f) (sd_logs db)))
      in (if lf_limit f > 0 then take (nat (lf_limit f)) rows else rows,
          count_where (log_matches f) (sd_logs db)))"

section \<open>Live metric events\<close>

record metric_context =
  mc_station :: uuid
  mc_site :: uuid
  mc_name :: string
  mc_path :: string

record live_event =
  le_site :: uuid
  le_entity :: uuid
  le_key :: string
  le_value :: json
  le_at :: ms
  le_name :: string
  le_path :: string

text \<open>The recursive query over the workcenters; on a cyclic hierarchy it does not end (None).\<close>
partial_function (option) wc_chain :: "workcenter_row list \<Rightarrow> uuid option \<Rightarrow> uuid list option" where
  "wc_chain wcs w =
     (case w of
        None \<Rightarrow> Some []
      | Some i \<Rightarrow>
          (case find (\<lambda>x. wr_id x = i) wcs of
             None \<Rightarrow> Some []
           | Some x \<Rightarrow> do { up \<leftarrow> wc_chain wcs (wr_parent x); Some (up @ [i]) }))"

fun join_dot :: "string list \<Rightarrow> string" where
  "join_dot [] = ''''"
| "join_dot [s] = s"
| "join_dot (s # t # ss) = s @ ''.'' @ join_dot (t # ss)"

definition station_path :: "station_row \<Rightarrow> uuid list option \<Rightarrow> string" where
  "station_path s chain =
     (case chain of
        None \<Rightarrow> ''site.'' @ sr_site s @ ''.station.'' @ sr_id s
      | Some ws \<Rightarrow> ''site.'' @ sr_site s @ ''.'' @ join_dot (map (\<lambda>w. ''workcenter.'' @ w) ws)
                    @ ''.station.'' @ sr_id s)"

text \<open>The outer option is None when the query does not end, the inner one for a missing station.\<close>
definition load_metric_context :: "state_db \<Rightarrow> uuid \<Rightarrow> metric_context option option" where
  "load_metric_context db st =
     (case find (\<lambda>s. sr_id s = st) (sd_stations db) of
        None \<Rightarrow> Some None
      | Some s \<Rightarrow>
          do { chain \<leftarrow> (case sr_workcenter s of
                           None \<Rightarrow> Some None
                         | Some w \<Rightarrow> map_option Some (wc_chain (sd_workcenters db) (Some w)));
               Some (Some \<lparr>mc_station = st, mc_site = sr_site s, mc_name = sr_name s,
                           mc_path = station_path s chain\<rparr>) })"

definition live_metric :: "metric_context \<Rightarrow> string \<Rightarrow> json \<Rightarrow> ms \<Rightarrow> live_event" where
  "live_metric ctx key v tm =
     \<lparr>le_site = mc_site ctx, le_entity = mc_station ctx, le_key = key, le_value = v, le_at = tm,
      le_name = mc_name ctx, le_path = mc_path ctx\<rparr>"

definition status_name :: "station_status \<Rightarrow> string" where
  "status_name s = (case s of StFast \<Rightarrow> ''FAST'' | StSlow \<Rightarrow> ''SLOW'' | StUp \<Rightarrow> ''UP'' | StDown \<Rightarrow> ''DOWN'')"

definition json_string :: "string option \<Rightarrow> json" where
  "json_string s = (case s of None \<Rightarrow> JNull | Some x \<Rightarrow> JStr x)"

definition status_event :: "metric_context \<Rightarrow> station_status \<Rightarrow> ms \<Rightarrow> live_event" where
  "status_event ctx s tm = live_metric ctx ''status'' (JStr (status_name s)) tm"

definition reason_event :: "metric_context \<Rightarrow> uuid option \<Rightarrow> ms \<Rightarrow> live_event" where
  "reason_event ctx r tm = live_metric ctx ''statusReason'' (json_string r) tm"

definition current_job_event :: "metric_context \<Rightarrow> string option \<Rightarrow> ms \<Rightarrow> live_event" where
  "current_job_event ctx j tm = live_metric ctx ''currentJob'' (json_string j) tm"

definition round_to_tenth :: "rat \<Rightarrow> rat" where
  "round_to_tenth x = of_int (js_round (x * 10)) / 10"

definition json_tenth :: "rat option \<Rightarrow> json" where
  "json_tenth x = (case x of None \<Rightarrow> JNull | Some v \<Rightarrow> JNum (round_to_tenth v))"

definition last_cycle_event :: "metric_context \<Rightarrow> rat option \<Rightarrow> ms \<Rightarrow> live_event" where
  "last_cycle_event ctx c tm = live_metric ctx ''lastCycleSeconds'' (json_tenth c) tm"

definition standard_cycle_event :: "metric_context \<Rightarrow> rat option \<Rightarrow> ms \<Rightarrow> live_event" where
  "standard_cycle_event ctx c tm = live_metric ctx ''standardCycleSeconds'' (json_tenth c) tm"

definition current_shift_events ::
  "metric_context \<Rightarrow> string option \<Rightarrow> uuid option \<Rightarrow> ms \<Rightarrow> live_event list" where
  "current_shift_events ctx name inst tm =
     [live_metric ctx ''currentShift'' (json_string name) tm,
      live_metric ctx ''currentShiftInstanceId'' (json_string inst) tm]"

text \<open>The publish calls of the transitions, with the context loaded for the station.\<close>
definition publish_effect :: "state_db \<Rightarrow> state_effect \<Rightarrow> live_event list option" where
  "publish_effect db eff =
     (case eff of
        PublishStatus st s tm \<Rightarrow>
          do { c \<leftarrow> load_metric_context db st;
               Some (case c of None \<Rightarrow> [] | Some ctx \<Rightarrow> [status_event ctx s tm]) }
      | PublishReason st r tm \<Rightarrow>
          do { c \<leftarrow> load_metric_context db st;
               Some (case c of None \<Rightarrow> [] | Some ctx \<Rightarrow> [reason_event ctx r tm]) }
      | Recalc _ _ _ _ \<Rightarrow> Some [])"

section \<open>Detection timers\<close>

record detect_config =
  dc_slow :: "rat option"
  dc_down :: "rat option"

datatype detection =
    CancelDetection uuid
  | PlanDetection uuid "ms option" "ms option"

text \<open>\<open>new Date(x)\<close> drops the fraction of a positive instant.\<close>
definition prepare_detection ::
  "uuid \<Rightarrow> detect_config option \<Rightarrow> rat option \<Rightarrow> ms \<Rightarrow> detection" where
  "prepare_detection st blob cycle now =
     (case (blob, cycle) of
        (Some c, Some s) \<Rightarrow>
          if s \<le> 0 then CancelDetection st
          else PlanDetection st
            (case dc_slow c of
               None \<Rightarrow> None
             | Some f \<Rightarrow> if f > 0 then Some \<lfloor>of_int now + s * (1 + f) * 1000\<rfloor> else None)
            (case dc_down c of
               None \<Rightarrow> None
             | Some d \<Rightarrow> if d > 0 then Some \<lfloor>of_int now + (s + d) * 1000\<rfloor> else None)
      | _ \<Rightarrow> CancelDetection st)"

text \<open>The calls on the two delayed job queues, in their order, once the queues are ready.\<close>
datatype queue_call =
    RemoveSlow uuid
  | RemoveDown uuid
  | AddSlow uuid ms
  | AddDown uuid ms

definition schedule_detection ::
  "bool \<Rightarrow> uuid \<Rightarrow> ms option \<Rightarrow> ms option \<Rightarrow> ms \<Rightarrow> queue_call list" where
  "schedule_detection ready st slow down now =
     (if \<not> ready then [] else
        [RemoveSlow st, RemoveDown st]
        @ (case slow of None \<Rightarrow> [] | Some t \<Rightarrow> [AddSlow st (max 0 (t - now))])
        @ (case down of None \<Rightarrow> [] | Some t \<Rightarrow> [AddDown st (max 0 (t - now))]))"

definition cancel_detection :: "bool \<Rightarrow> uuid \<Rightarrow> queue_call list" where
  "cancel_detection ready st = (if \<not> ready then [] else [RemoveSlow st, RemoveDown st])"

definition enqueue_detection :: "bool \<Rightarrow> detection \<Rightarrow> ms \<Rightarrow> queue_call list" where
  "enqueue_detection ready d now =
     (case d of
        CancelDetection st \<Rightarrow> cancel_detection ready st
      | PlanDetection st slow down \<Rightarrow> schedule_detection ready st slow down now)"

section \<open>The timeline invariant\<close>

definition covers_instant :: "ms \<Rightarrow> state_log \<Rightarrow> bool" where
  "covers_instant t r = (sl_start r \<le> t \<and> (case sl_end r of None \<Rightarrow> True | Some e \<Rightarrow> t < e))"

text \<open>From its first entry on, a station has one open entry and one entry at every instant.\<close>
definition timeline_from :: "ms \<Rightarrow> uuid \<Rightarrow> state_log list \<Rightarrow> bool" where
  "timeline_from t0 st rows =
     (count_where (open_log st) rows = 1
      \<and> (\<forall>t. count_where (\<lambda>r. live_log st r \<and> covers_instant t r) rows = of_bool (t0 \<le> t)))"

text \<open>A block is a period of one state of one station.\<close>
definition blocks_ok :: "state_log list \<Rightarrow> bool" where
  "blocks_ok rows =
     (\<forall>r \<in> set rows. \<forall>q \<in> set rows. sl_block r = sl_block q \<longrightarrow> sl_station r = sl_station q \<and> sl_state r = sl_state q)"

definition logs_ok :: "state_log list \<Rightarrow> bool" where
  "logs_ok rows =
     (distinct (map sl_id rows) \<and> blocks_ok rows
      \<and> (\<forall>st. (\<forall>r \<in> set rows. \<not> live_log st r) \<or> (\<exists>t0. timeline_from t0 st rows)))"

lemma count_where_mset: "mset xs = mset ys \<Longrightarrow> count_where p xs = count_where p ys"
  unfolding count_where_def by (metis mset_filter size_mset)

lemma count_where_one_split:
  "count_where p rows = 1 \<Longrightarrow> \<exists>xs r ys. rows = xs @ r # ys \<and> p r \<and> (\<forall>q \<in> set xs \<union> set ys. \<not> p q)"
proof (induction rows)
  case (Cons r rows)
  show ?case
  proof (cases "p r")
    case True
    with Cons.prems have "count_where p rows = 0" by simp
    with True show ?thesis using count_where_zero[of p rows] by (metis Un_iff append_Nil empty_iff empty_set)
  next
    case False
    with Cons obtain xs q ys where "rows = xs @ q # ys" "p q" "\<forall>x \<in> set xs \<union> set ys. \<not> p x" by auto
    with False have "r # rows = (r # xs) @ q # ys" "\<forall>x \<in> set (r # xs) \<union> set ys. \<not> p x" by auto
    with \<open>p q\<close> show ?thesis by blast
  qed
qed simp

lemma count_where_false [simp]: "(\<And>r. r \<in> set rows \<Longrightarrow> \<not> p r) \<Longrightarrow> count_where p rows = 0"
  by (simp add: count_where_zero)

lemma open_is_live: "open_log st r \<Longrightarrow> live_log st r"
  by (simp add: open_log_def live_log_def)

text \<open>With distinct ids, an update by id touches the one row.\<close>
lemma update_by_id:
  "distinct (map sl_id (xs @ r # ys)) \<Longrightarrow>
     update_where (\<lambda>q. sl_id q = sl_id r) f (xs @ r # ys) = xs @ f r # ys"
  by (auto simp: update_where_def intro!: map_idI) (metis image_eqI)+

lemma update_one:
  "p r \<Longrightarrow> (\<forall>q \<in> set xs \<union> set ys. \<not> p q) \<Longrightarrow> update_where p f (xs @ r # ys) = xs @ f r # ys"
  by (auto simp: update_where_def intro!: map_idI)

text \<open>Replacing a live row by rows of its station that cover the same instants once.\<close>
lemma logs_ok_replace:
  assumes ok: "logs_ok (xs @ r # ys)" and live: "live_log (sl_station r) r"
    and new: "mset rows = mset (xs @ ys @ ns)"
    and ids: "distinct (map sl_id (xs @ ys @ ns))"
    and ns_live: "\<forall>n \<in> set ns. live_log (sl_station r) n"
    and opens: "count_where (open_log (sl_station r)) ns = count_where (open_log (sl_station r)) [r]"
    and cov: "\<And>t. count_where (covers_instant t) ns = of_bool (covers_instant t r)"
    and blocks: "\<forall>n \<in> set ns. sl_block n = sl_block r \<and> sl_state n = sl_state r
        \<or> sl_block n \<notin> sl_block ` set (xs @ r # ys) \<and> (\<forall>m \<in> set ns. sl_block m = sl_block n \<longrightarrow> sl_state m = sl_state n)"
  shows "logs_ok rows"
proof -
  have perm: "set rows = set (xs @ ys @ ns)" using new mset_eq_setD by blast
  have "distinct (map sl_id rows)"
    using ids new by (metis mset_eq_imp_distinct_iff mset_map)
  moreover have "blocks_ok rows"
  proof -
    have old: "sl_station a = sl_station b \<and> sl_state a = sl_state b"
      if "a \<in> set (xs @ r # ys)" "b \<in> set (xs @ r # ys)" "sl_block a = sl_block b" for a b
      using ok that unfolding logs_ok_def blocks_ok_def by blast
    have fresh: "sl_station n = sl_station b \<and> sl_state n = sl_state b"
      if n: "n \<in> set ns" and b: "b \<in> set (xs @ ys @ ns)" and eq: "sl_block n = sl_block b" for n b
    proof (cases "b \<in> set ns")
      case True
      with n eq blocks ns_live show ?thesis by (metis live_log_def list.set_intros(1) in_set_conv_decomp image_eqI)
    next
      case False
      with b have b': "b \<in> set (xs @ r # ys)" by auto
      with eq have "sl_block n \<in> sl_block ` set (xs @ r # ys)" by (metis image_eqI)
      with blocks n have "sl_block n = sl_block r \<and> sl_state n = sl_state r" by blast
      with old[of r b] b' eq n ns_live show ?thesis by (simp add: live_log_def)
    qed
    show ?thesis unfolding blocks_ok_def perm
    proof (intro ballI impI)
      fix a b assume a: "a \<in> set (xs @ ys @ ns)" and b: "b \<in> set (xs @ ys @ ns)" and eq: "sl_block a = sl_block b"
      show "sl_station a = sl_station b \<and> sl_state a = sl_state b"
      proof (cases "a \<in> set ns")
        case True
        from fresh[OF True b eq] show ?thesis .
      next
        case na: False
        show ?thesis
        proof (cases "b \<in> set ns")
          case True
          from fresh[OF True a eq[symmetric]] show ?thesis by simp
        next
          case False
          from old[OF _ _ eq] na False a b show ?thesis by simp
        qed
      qed
    qed
  qed
  moreover have "(\<forall>r \<in> set rows. \<not> live_log st r) \<or> (\<exists>t0. timeline_from t0 st rows)" for st
  proof (cases "st = sl_station r")
    case True
    from ok live True obtain t0 where t0: "timeline_from t0 st (xs @ r # ys)"
      unfolding logs_ok_def by fastforce
    have cn: "count_where (\<lambda>q. live_log st q \<and> covers_instant t q) ns = count_where (covers_instant t) ns" for t
      using ns_live True by (auto simp: count_where_def intro!: arg_cong[where f = length] filter_cong)
    have "count_where (open_log st) rows = count_where (open_log st) (xs @ r # ys)"
      using opens True count_where_mset[OF new] by simp
    moreover have "count_where (\<lambda>q. live_log st q \<and> covers_instant t q) rows
         = count_where (\<lambda>q. live_log st q \<and> covers_instant t q) (xs @ r # ys)" for t
      using cn[of t] cov[of t] live True count_where_mset[OF new] by simp
    ultimately have "timeline_from t0 st rows" using t0 by (simp add: timeline_from_def)
    then show ?thesis by blast
  next
    case False
    have nl: "\<not> live_log st n \<and> \<not> open_log st n" if "n \<in> insert r (set ns)" for n
      using that ns_live live False by (auto simp: live_log_def open_log_def)
    have "count_where (open_log st) rows = count_where (open_log st) (xs @ r # ys)"
      "count_where (\<lambda>q. live_log st q \<and> covers_instant t q) rows
         = count_where (\<lambda>q. live_log st q \<and> covers_instant t q) (xs @ r # ys)" for t
      using count_where_mset[OF new] nl by simp_all
    then have "timeline_from t0 st rows = timeline_from t0 st (xs @ r # ys)" for t0
      by (simp add: timeline_from_def)
    moreover have "(\<forall>q \<in> set rows. \<not> live_log st q) = (\<forall>q \<in> set (xs @ r # ys). \<not> live_log st q)"
      using nl by (auto simp: perm)
    ultimately show ?thesis using ok unfolding logs_ok_def by metis
  qed
  ultimately show ?thesis by (simp add: logs_ok_def)
qed

text \<open>The first entry of a station.\<close>
lemma logs_ok_first:
  assumes ok: "logs_ok rows" and none: "\<forall>q \<in> set rows. \<not> live_log (sl_station r) q"
    and r: "open_log (sl_station r) r" "sl_id r \<notin> sl_id ` set rows" "sl_block r \<notin> sl_block ` set rows"
  shows "logs_ok (rows @ [r])"
proof -
  have "timeline_from (sl_start r) (sl_station r) (rows @ [r])"
    using none r(1) open_is_live
    by (auto simp: timeline_from_def covers_instant_def open_log_def live_log_def)
  moreover have timeline_keep: "timeline_from t0 st rows \<Longrightarrow> timeline_from t0 st (rows @ [r])" if "st \<noteq> sl_station r" for st t0
    using that by (auto simp: timeline_from_def open_log_def live_log_def)
  moreover have nolive: "\<not> live_log st r" if "st \<noteq> sl_station r" for st
    using that by (simp add: live_log_def)
  ultimately have "(\<forall>q \<in> set (rows @ [r]). \<not> live_log st q) \<or> (\<exists>t0. timeline_from t0 st (rows @ [r]))" for st
  proof (cases "st = sl_station r")
    case True
    with \<open>timeline_from (sl_start r) (sl_station r) (rows @ [r])\<close> show ?thesis by blast
  next
    case False
    with ok timeline_keep nolive show ?thesis unfolding logs_ok_def by fastforce
  qed
  moreover have "blocks_ok (rows @ [r])"
  proof -
    have old: "blocks_ok rows" using ok by (simp add: logs_ok_def)
    have new: "sl_block q \<noteq> sl_block r" if "q \<in> set rows" for q using r(3) that by (metis image_eqI)
    have "sl_station a = sl_station b \<and> sl_state a = sl_state b"
      if "a \<in> set (rows @ [r])" "b \<in> set (rows @ [r])" "sl_block a = sl_block b" for a b
    proof (cases "a \<in> set rows \<and> b \<in> set rows")
      case True
      with old that(3) show ?thesis unfolding blocks_ok_def by blast
    next
      case False
      with that new[of a] new[of b] have "a = r" "b = r" by auto
      then show ?thesis by simp
    qed
    then show ?thesis unfolding blocks_ok_def by blast
  qed
  ultimately show ?thesis using ok r(2) by (auto simp: logs_ok_def)
qed

section \<open>The operations on the rows\<close>

lemma find_open_None:
  assumes "logs_ok (sd_logs db)" "find_open st db = None"
  shows "\<forall>r \<in> set (sd_logs db). \<not> live_log st r \<and> \<not> open_log st r"
proof -
  from assms(2) have no: "\<forall>r \<in> set (sd_logs db). \<not> open_log st r"
    by (simp add: find_open_def filter_empty_conv)
  then have "count_where (open_log st) (sd_logs db) = 0" by simp
  with assms(1) no show ?thesis unfolding logs_ok_def timeline_from_def by (metis zero_neq_one)
qed

lemma open_unique:
  assumes "logs_ok rows" "r \<in> set rows" "open_log st r"
  shows "\<exists>xs ys. rows = xs @ r # ys \<and> (\<forall>q \<in> set xs \<union> set ys. \<not> open_log st q)"
proof -
  from assms obtain t0 where "timeline_from t0 st rows"
    unfolding logs_ok_def using open_is_live by blast
  then obtain xs q ys where q: "rows = xs @ q # ys" "open_log st q" "\<forall>x \<in> set xs \<union> set ys. \<not> open_log st x"
    unfolding timeline_from_def using count_where_one_split by blast
  with assms have "q = r" by auto
  with q show ?thesis by blast
qed

lemma find_open_Some:
  assumes "logs_ok (sd_logs db)" "find_open st db = Some c"
  shows "open_log st c \<and> (\<exists>xs ys. sd_logs db = xs @ c # ys \<and> (\<forall>q \<in> set xs \<union> set ys. \<not> open_log st q))"
proof -
  from assms(2) have "c \<in> set (sd_logs db)" "open_log st c"
    unfolding find_open_def by (auto dest: first_desc_filter)
  with open_unique[OF assms(1)] show ?thesis by blast
qed

lemma sd_logs_update [simp]:
  "sd_logs (update_logs p f now db) = update_where p (\<lambda>r. (f r)\<lparr>sl_updated := now\<rparr>) (sd_logs db)"
  "sd_stations (update_logs p f now db) = sd_stations db"
  by (simp_all add: update_logs_def)

lemma insert_log_closed:
  assumes "sl_station r \<in> sr_id ` set (sd_stations db)"
    "sl_end r = None \<Longrightarrow> \<forall>q \<in> set (sd_logs db). \<not> open_log (sl_station r) q"
  shows "insert_log r db = Inr (db\<lparr>sd_logs := sd_logs db @ [r]\<rparr>)"
  using assms by (auto simp: insert_log_def list_ex_iff)

lemma insert_log_result:
  "insert_log r db = Inr db' \<Longrightarrow> db' = db\<lparr>sd_logs := sd_logs db @ [r]\<rparr> \<and> sl_station r \<in> sr_id ` set (sd_stations db)"
  by (auto simp: insert_log_def split: if_splits)

text \<open>The entry that a transition to UP leaves.\<close>
definition up_entry :: "uuid \<Rightarrow> uuid \<Rightarrow> ms \<Rightarrow> up_options \<Rightarrow> uuid \<Rightarrow> ms \<Rightarrow> state_log" where
  "up_entry i st t opts b now =
     new_entry i st t Up (if exceeds_slow opts then StSlow else StUp) b (uo_blob opts) now"

lemma new_entry_simps [simp]:
  "sl_id (new_entry i st t s u b blob now) = i" "sl_station (new_entry i st t s u b blob now) = st"
  "sl_start (new_entry i st t s u b blob now) = t" "sl_end (new_entry i st t s u b blob now) = None"
  "sl_state (new_entry i st t s u b blob now) = s" "sl_status (new_entry i st t s u b blob now) = Some u"
  "sl_block (new_entry i st t s u b blob now) = b" "sl_deleted (new_entry i st t s u b blob now) = None"
  "sl_blob (new_entry i st t s u b blob now) = blob" "sl_reason (new_entry i st t s u b blob now) = None"
  "open_log st (new_entry i st t s u b blob now)" "live_log st (new_entry i st t s u b blob now)"
  by (simp_all add: new_entry_def open_log_def live_log_def)

lemma update_absent: "i \<notin> sl_id ` set rows \<Longrightarrow> update_where (\<lambda>r. sl_id r = i) f rows = rows"
  by (auto simp: update_where_def intro!: map_idI)

text \<open>The rows around the only open entry of a station.\<close>
definition open_at :: "uuid \<Rightarrow> state_db \<Rightarrow> state_log list \<Rightarrow> state_log \<Rightarrow> state_log list \<Rightarrow> bool" where
  "open_at st db xs c ys =
     (sd_logs db = xs @ c # ys \<and> open_log st c \<and> (\<forall>q \<in> set xs \<union> set ys. \<not> open_log st q))"

lemma open_at_find: "open_at st db xs c ys \<Longrightarrow> find_open st db = Some c"
  by (simp add: open_at_def find_open_def filter_empty_conv)

text \<open>A transition to UP of a station with an open entry closes it and appends the new one.\<close>
lemma transition_to_up_some:
  assumes c: "open_at st db xs c ys"
    and fresh: "i \<notin> sl_id ` set (sd_logs db)" and st: "st \<in> sr_id ` set (sd_stations db)"
  shows "transition_to_up st t opts i b now db
    = Inr (up_entry i st t opts (if sl_state c = Up then sl_block c else b) now,
           Some \<lparr>ce_start = sl_start c, ce_end = t, ce_state = sl_state c\<rparr>,
           db\<lparr>sd_logs := xs @ c\<lparr>sl_end := Some t, sl_updated := now\<rparr> # ys
             @ [up_entry i st t opts (if sl_state c = Up then sl_block c else b) now]\<rparr>)"
proof -
  let ?c = "c\<lparr>sl_end := Some t, sl_updated := now\<rparr>"
  let ?b = "if sl_state c = Up then sl_block c else b"
  let ?n = "new_entry i st t Up StUp ?b (uo_blob opts) now"
  have cl: "close_open st t now db = db\<lparr>sd_logs := xs @ ?c # ys\<rparr>"
    using c update_one[of "open_log st" c xs ys] by (simp add: close_open_def update_logs_def open_at_def)
  have "\<not> open_log st ?c" by (simp add: open_log_def)
  then have ins: "insert_log ?n (db\<lparr>sd_logs := xs @ ?c # ys\<rparr>) = Inr (db\<lparr>sd_logs := xs @ ?c # ys @ [?n]\<rparr>)"
    using insert_log_closed[of ?n "db\<lparr>sd_logs := xs @ ?c # ys\<rparr>"] c st by (auto simp: open_at_def)
  have "i \<notin> sl_id ` set xs" "i \<notin> sl_id ` set ys" "sl_id c \<noteq> i" using fresh c by (auto simp: open_at_def)
  note sa = update_absent[OF this(1)] update_absent[OF this(2)] this(3)
  show ?thesis
    unfolding transition_to_up_def Let_def open_at_find[OF c] option.case cl ins sum.case up_entry_def
    by (simp add: sa update_logs_def new_entry_def)
qed

lemma transition_to_up_none:
  assumes ok: "logs_ok (sd_logs db)" and c: "find_open st db = None"
    and fresh: "i \<notin> sl_id ` set (sd_logs db)" and st: "st \<in> sr_id ` set (sd_stations db)"
  shows "transition_to_up st t opts i b now db
    = Inr (up_entry i st t opts b now, None, db\<lparr>sd_logs := sd_logs db @ [up_entry i st t opts b now]\<rparr>)"
proof -
  let ?n = "new_entry i st t Up StUp b (uo_blob opts) now"
  have ins: "insert_log ?n db = Inr (db\<lparr>sd_logs := sd_logs db @ [?n]\<rparr>)"
    using insert_log_closed[of ?n db] find_open_None[OF ok c] st by simp
  show ?thesis
    unfolding transition_to_up_def Let_def c option.case ins sum.case up_entry_def
    by (simp add: update_absent[OF fresh] update_logs_def new_entry_def)
qed

lemma find_open_at:
  "logs_ok (sd_logs db) \<Longrightarrow> find_open st db = Some c \<Longrightarrow> \<exists>xs ys. open_at st db xs c ys"
  using find_open_Some unfolding open_at_def by blast

lemma covers_closed:
  "covers_instant u (r\<lparr>sl_end := e, sl_updated := n\<rparr>) = (sl_start r \<le> u \<and> (case e of None \<Rightarrow> True | Some x \<Rightarrow> u < x))"
  by (simp add: covers_instant_def)

lemma keeps_up:
  assumes ok: "logs_ok (sd_logs db)" and res: "transition_to_up st t opts i b now db = Inr (e, cl, db')"
    and fresh: "i \<notin> sl_id ` set (sd_logs db)" "b \<notin> sl_block ` set (sd_logs db)"
    and late: "\<forall>r \<in> set (sd_logs db). open_log st r \<longrightarrow> sl_start r \<le> t"
  shows "logs_ok (sd_logs db')"
proof -
  have st: "st \<in> sr_id ` set (sd_stations db)"
    using res unfolding transition_to_up_def Let_def close_open_def
    by (auto dest!: insert_log_result split: sum.splits option.splits)
  show ?thesis
  proof (cases "find_open st db")
    case None
    from res transition_to_up_none[OF ok None fresh(1) st, of t opts b now]
    have "sd_logs db' = sd_logs db @ [up_entry i st t opts b now]" by auto
    with logs_ok_first[OF ok, of "up_entry i st t opts b now"] find_open_None[OF ok None] fresh
    show ?thesis by (simp add: up_entry_def)
  next
    case (Some c)
    then obtain xs ys where c: "open_at st db xs c ys" using find_open_at[OF ok] by blast
    let ?c = "c\<lparr>sl_end := Some t, sl_updated := now\<rparr>"
    let ?n = "up_entry i st t opts (if sl_state c = Up then sl_block c else b) now"
    from res transition_to_up_some[OF c fresh(1) st, of t opts b now]
    have rows: "sd_logs db' = xs @ ?c # ys @ [?n]" by auto
    from c have sc: "sl_station c = st" "sl_end c = None" "sl_deleted c = None" and o: "sd_logs db = xs @ c # ys"
      by (auto simp: open_at_def open_log_def)
    have n: "sl_id ?n = i" "live_log st ?n" "open_log st ?n" "sl_start ?n = t" "sl_end ?n = None" "sl_state ?n = Up"
      "sl_block ?n = (if sl_state c = Up then sl_block c else b)"
      by (simp_all add: up_entry_def)
    show ?thesis unfolding rows
    proof (rule logs_ok_replace[OF ok[unfolded o], where ns = "[?c, ?n]"])
      show "distinct (map sl_id (xs @ ys @ [?c, ?n]))" using ok fresh(1) n(1) unfolding o logs_ok_def by auto
      show "count_where (covers_instant u) [?c, ?n] = of_bool (covers_instant u c)" for u
        using late o c n sc by (auto simp: covers_instant_def open_at_def)
      show "\<forall>x \<in> set [?c, ?n]. sl_block x = sl_block c \<and> sl_state x = sl_state c \<or>
          sl_block x \<notin> sl_block ` set (xs @ c # ys) \<and> (\<forall>m \<in> set [?c, ?n]. sl_block m = sl_block x \<longrightarrow> sl_state m = sl_state x)"
        using fresh(2) n unfolding o by (cases "sl_state c") auto
    qed (use n sc in \<open>auto simp: live_log_def open_log_def\<close>)
  qed
qed

text \<open>An update in place of the open entry, by its id.\<close>
lemma keeps_in_place:
  assumes ok: "logs_ok (sd_logs db)" and c: "open_at st db xs c ys"
    and f: "sl_id (f c) = sl_id c" "open_log st (f c)" "sl_start (f c) = sl_start c"
    and block: "sl_block (f c) = sl_block c \<and> sl_state (f c) = sl_state c \<or> sl_block (f c) \<notin> sl_block ` set (sd_logs db)"
  shows "logs_ok (xs @ f c # ys)"
proof -
  from c have o: "sd_logs db = xs @ c # ys" and oc: "open_log st c" by (auto simp: open_at_def)
  have sf: "sl_station (f c) = st" "sl_end (f c) = None" "sl_deleted (f c) = None"
    "sl_station c = st" "sl_end c = None" "sl_deleted c = None" using f(2) oc by (auto simp: open_log_def)
  show ?thesis
    by (rule logs_ok_replace[OF ok[unfolded o], where ns = "[f c]"])
      (use ok f block sf in \<open>auto simp: live_log_def open_log_def covers_instant_def logs_ok_def o\<close>)
qed

lemma keeps_slow:
  assumes ok: "logs_ok (sd_logs db)" and res: "transition_to_slow st t i b now db = Inr (e, effs, db')"
    and fresh: "i \<notin> sl_id ` set (sd_logs db)" "b \<notin> sl_block ` set (sd_logs db)"
  shows "logs_ok (sd_logs db')"
proof (cases "find_open st db")
  case None
  with res have "sd_logs db' = sd_logs db @ [new_entry i st t Up StSlow b None now]"
    by (auto simp: transition_to_slow_def dest!: insert_log_result split: sum.splits)
      (cases "insert_log (new_entry i st t Up StSlow b None now) db"; auto dest: insert_log_result)
  with logs_ok_first[OF ok, of "new_entry i st t Up StSlow b None now"] find_open_None[OF ok None] fresh
  show ?thesis by simp
next
  case (Some c)
  then obtain xs ys where c: "open_at st db xs c ys" using find_open_at[OF ok] by blast
  let ?f = "\<lambda>r. r\<lparr>sl_status := Some StSlow, sl_updated := now\<rparr>"
  have d: "distinct (map sl_id (xs @ c # ys))" using ok c by (simp add: logs_ok_def open_at_def)
  have "sd_logs db' = sd_logs db \<or> sd_logs db' = xs @ ?f c # ys"
    using res Some c update_by_id[OF d, of ?f] by (auto simp: transition_to_slow_def open_at_def split: if_splits)
  moreover have "logs_ok (xs @ ?f c # ys)"
    by (rule keeps_in_place[OF ok c, of ?f]) (use c in \<open>auto simp: open_at_def open_log_def\<close>)
  ultimately show ?thesis using ok by auto
qed

lemma down_transaction_some:
  assumes ok: "logs_ok (sd_logs db)" and c: "open_at st db xs c ys" and up: "sl_state c = Up"
  shows "down_transaction st t i b now db
    = Inr ((down_in_place b (active_job_blob st db) c)\<lparr>sl_updated := now\<rparr>, Some (sl_start c, t),
           db\<lparr>sd_logs := xs @ (down_in_place b (active_job_blob st db) c)\<lparr>sl_updated := now\<rparr> # ys\<rparr>)"
proof -
  let ?g = "\<lambda>r. (down_in_place b (active_job_blob st db) r)\<lparr>sl_updated := now\<rparr>"
  have d: "distinct (map sl_id (xs @ c # ys))" using ok c by (simp add: logs_ok_def open_at_def)
  have "update_where (\<lambda>r. open_log st r \<and> sl_id r \<noteq> sl_id c) f (sd_logs db) = sd_logs db" for f
    unfolding update_where_def using c by (intro map_idI) (auto simp: open_at_def)
  then have "update_logs (\<lambda>r. open_log st r \<and> sl_id r \<noteq> sl_id c) (\<lambda>r. r\<lparr>sl_end := Some t\<rparr>) now db = db"
    by (simp add: update_logs_def)
  moreover have "update_logs (\<lambda>r. sl_id r = sl_id c) (down_in_place b (active_job_blob st db)) now db
      = db\<lparr>sd_logs := xs @ ?g c # ys\<rparr>"
    using update_by_id[OF d, of ?g] c by (simp add: update_logs_def open_at_def)
  ultimately show ?thesis
    using up open_at_find[OF c] by (simp add: down_transaction_def Let_def)
qed

lemma keeps_down:
  assumes ok: "logs_ok (sd_logs db)" and res: "down_transaction st t i b now db = Inr (e, rg, db')"
    and fresh: "i \<notin> sl_id ` set (sd_logs db)" "b \<notin> sl_block ` set (sd_logs db)"
  shows "logs_ok (sd_logs db')"
proof (cases "find_open st db")
  case None
  let ?n = "new_entry i st t Down StDown b (active_job_blob st db) now"
  from None res have "sd_logs db' = sd_logs db @ [?n]"
    by (cases "insert_log ?n db") (auto simp: down_transaction_def dest: insert_log_result)
  with logs_ok_first[OF ok, of ?n] find_open_None[OF ok None] fresh show ?thesis by simp
next
  case (Some c)
  then obtain xs ys where c: "open_at st db xs c ys" using find_open_at[OF ok] by blast
  let ?g = "\<lambda>r. (down_in_place b (active_job_blob st db) r)\<lparr>sl_updated := now\<rparr>"
  show ?thesis
  proof (cases "sl_state c")
    case Up
    from down_transaction_some[OF ok c Up, of t i b now] res have "sd_logs db' = xs @ ?g c # ys" by simp
    then show ?thesis
      by simp (rule keeps_in_place[OF ok c, of ?g], use c fresh in \<open>auto simp: open_at_def open_log_def down_in_place_def\<close>)
  next
    case Down
    with res Some ok show ?thesis by (simp add: down_transaction_def)
  qed
qed

lemma find_log_rows:
  assumes "logs_ok (sd_logs db)" "find_log i db = Some e"
  shows "sl_id e = i \<and> sl_deleted e = None \<and> (\<exists>xs ys. sd_logs db = xs @ e # ys)"
proof -
  from assms(2) have "e \<in> set (sd_logs db)" "sl_id e = i" "sl_deleted e = None"
    unfolding find_log_def by (auto simp: find_Some_iff)
  then show ?thesis by (simp add: in_set_conv_decomp)
qed

lemma split_locked_rows:
  assumes ok: "logs_ok (sd_logs db)" and o: "sd_logs db = xs @ e # ys"
    and res: "split_locked e p i now db = Inr (h, q, db')"
  shows "h = split_head e p now \<and> q = split_tail e p i now
    \<and> sd_logs db' = xs @ split_head e p now # ys @ [split_tail e p i now]
    \<and> sl_start e + split_margin \<le> p \<and> p \<le> (case sl_end e of Some t \<Rightarrow> t | None \<Rightarrow> now) - split_margin"
proof -
  let ?f = "\<lambda>r. r\<lparr>sl_end := Some p, sl_updated := now\<rparr>"
  have d: "distinct (map sl_id (xs @ e # ys))" using ok o by (simp add: logs_ok_def)
  let ?db1 = "update_logs (\<lambda>r. sl_id r = sl_id e) (\<lambda>r. r\<lparr>sl_end := Some p\<rparr>) now db"
  have u: "sd_logs ?db1 = xs @ split_head e p now # ys"
    using update_by_id[OF d, of ?f] by (simp add: o split_head_def)
  show ?thesis
    using res u unfolding split_locked_def Let_def
    by (cases "insert_log (split_tail e p i now) ?db1")
      (auto split: if_splits dest: insert_log_result)
qed

lemma keeps_split:
  assumes ok: "logs_ok (sd_logs db)" and res: "split_down_entry j p i now db = Inr (h, q, db')"
    and fresh: "i \<notin> sl_id ` set (sd_logs db)"
  shows "logs_ok (sd_logs db')"
proof -
  from res obtain e where e: "find_log j db = Some e" "split_locked e p i now db = Inr (h, q, db')"
    by (auto simp: split_down_entry_def split_read_def split: option.splits sum.splits if_splits)
  from find_log_rows[OF ok e(1)] obtain xs ys where o: "sd_logs db = xs @ e # ys" and live: "sl_deleted e = None"
    by blast
  let ?h = "split_head e p now" and ?t = "split_tail e p i now"
  from split_locked_rows[OF ok o e(2)] have rows: "sd_logs db' = xs @ ?h # ys @ [?t]"
    and m: "sl_start e + split_margin \<le> p" "p \<le> (case sl_end e of Some t \<Rightarrow> t | None \<Rightarrow> now) - split_margin"
    by auto
  show ?thesis unfolding rows
  proof (rule logs_ok_replace[OF ok[unfolded o], where ns = "[?h, ?t]"])
    show "distinct (map sl_id (xs @ ys @ [?h, ?t]))"
      using ok fresh unfolding o logs_ok_def by (auto simp: split_head_def split_tail_def)
    show "count_where (covers_instant u) [?h, ?t] = of_bool (covers_instant u e)" for u
      using m by (auto simp: covers_instant_def split_head_def split_tail_def split_margin_def split: option.splits)
  qed (use live in \<open>auto simp: split_head_def split_tail_def live_log_def open_log_def\<close>)
qed

text \<open>Changing columns other than the key ones.\<close>
lemma keeps_columns:
  assumes ok: "logs_ok rows"
    and f: "\<And>r. sl_id (f r) = sl_id r \<and> sl_station (f r) = sl_station r \<and> sl_start (f r) = sl_start r
      \<and> sl_end (f r) = sl_end r \<and> sl_state (f r) = sl_state r \<and> sl_block (f r) = sl_block r \<and> sl_deleted (f r) = sl_deleted r"
  shows "logs_ok (update_where p f rows)"
proof -
  have c: "count_where (open_log st) (update_where p f rows) = count_where (open_log st) rows"
    "count_where (\<lambda>r. live_log st r \<and> covers_instant t r) (update_where p f rows)
       = count_where (\<lambda>r. live_log st r \<and> covers_instant t r) rows" for st t
    using f by (auto intro!: count_update_where_same simp: open_log_def live_log_def covers_instant_def)
  have "timeline_from t0 st (update_where p f rows) = timeline_from t0 st rows" for t0 st
    by (simp add: timeline_from_def c)
  moreover have "(\<forall>r \<in> set (update_where p f rows). \<not> live_log st r) = (\<forall>r \<in> set rows. \<not> live_log st r)" for st
    using f by (induction rows) (simp_all add: live_log_def)
  moreover have "map sl_id (update_where p f rows) = map sl_id rows"
    using f by (intro map_update_where) simp
  moreover have "blocks_ok (update_where p f rows)"
  proof -
    define g where "g = (\<lambda>r. if p r then f r else r)"
    have g: "sl_block (g r) = sl_block r" "sl_station (g r) = sl_station r" "sl_state (g r) = sl_state r" for r
      using f by (simp_all add: g_def)
    have "blocks_ok rows" using ok by (simp add: logs_ok_def)
    then have "blocks_ok (map g rows)" unfolding blocks_ok_def set_map ball_simps g .
    then show ?thesis by (simp add: update_where_def g_def)
  qed
  ultimately show ?thesis using ok by (simp add: logs_ok_def)
qed

lemma keeps_reason:
  assumes "logs_ok (sd_logs db)" "assign_downtime_reason i reason blk now db = Inr (n, effs, db')"
  shows "logs_ok (sd_logs db')"
  using assms keeps_columns[OF assms(1)]
  by (auto simp: assign_downtime_reason_def Let_def split: option.splits if_splits prod.splits)

section \<open>Runs of operations\<close>

text \<open>
  The contract of a writer of the log: an operation that is allowed in the present tables and
  commits keeps the log well formed.  The client is a run of such operations, in which those
  that fail are rolled back.
\<close>
fun run_ops :: "('c \<Rightarrow> state_db \<Rightarrow> state_error + state_db) \<Rightarrow> 'c list \<Rightarrow> state_db \<Rightarrow> state_db" where
  "run_ops op [] db = db"
| "run_ops op (c # cs) db = run_ops op cs (case op c db of Inl _ \<Rightarrow> db | Inr db' \<Rightarrow> db')"

fun all_allowed ::
  "('c \<Rightarrow> state_db \<Rightarrow> state_error + state_db) \<Rightarrow> ('c \<Rightarrow> state_log list \<Rightarrow> bool) \<Rightarrow> 'c list \<Rightarrow> state_db \<Rightarrow> bool" where
  "all_allowed op ok [] db = True"
| "all_allowed op ok (c # cs) db =
     (ok c (sd_logs db) \<and> all_allowed op ok cs (case op c db of Inl _ \<Rightarrow> db | Inr db' \<Rightarrow> db'))"

locale log_writer =
  fixes op :: "'c \<Rightarrow> state_db \<Rightarrow> state_error + state_db"
    and allowed :: "'c \<Rightarrow> state_log list \<Rightarrow> bool"
  assumes keeps: "logs_ok (sd_logs db) \<Longrightarrow> allowed c (sd_logs db) \<Longrightarrow> op c db = Inr db' \<Longrightarrow> logs_ok (sd_logs db')"
begin

lemma run_keeps:
  "logs_ok (sd_logs db) \<Longrightarrow> all_allowed op allowed cs db \<Longrightarrow> logs_ok (sd_logs (run_ops op cs db))"
proof (induction cs arbitrary: db)
  case (Cons c cs)
  then show ?case using keeps by (auto split: sum.splits)
qed simp

lemma run_empty:
  "sd_logs db = [] \<Longrightarrow> all_allowed op allowed cs db \<Longrightarrow> logs_ok (sd_logs (run_ops op cs db))"
  by (rule run_keeps) (simp_all add: logs_ok_def blocks_ok_def)

end

text \<open>The operations, with their fresh row and block ids and the clock.\<close>
datatype state_cmd =
    CycleUp uuid ms up_options uuid uuid ms
  | SlowTimer uuid ms uuid uuid ms
  | DownTimer uuid ms uuid uuid ms
  | SplitDown uuid ms uuid ms
  | AssignReason uuid "uuid option" bool ms

definition new_db :: "state_error + ('a \<times> 'b \<times> state_db) \<Rightarrow> state_error + state_db" where
  "new_db = map_sum id (\<lambda>(_, _, db). db)"

fun exec_state :: "state_cmd \<Rightarrow> state_db \<Rightarrow> state_error + state_db" where
  "exec_state (CycleUp st t opts i b now) db = new_db (transition_to_up st t opts i b now db)"
| "exec_state (SlowTimer st t i b now) db = new_db (transition_to_slow st t i b now db)"
| "exec_state (DownTimer st t i b now) db = new_db (transition_to_down st t i b now db)"
| "exec_state (SplitDown e p i now) db = new_db (split_down_entry e p i now db)"
| "exec_state (AssignReason e r blk now) db = new_db (assign_downtime_reason e r blk now db)"

text \<open>
  Generated ids are fresh, and a cycle does not complete before the open entry of its station
  began; the timers and the splits need no such condition.
\<close>
fun state_allowed :: "state_cmd \<Rightarrow> state_log list \<Rightarrow> bool" where
  "state_allowed (CycleUp st t opts i b now) rows =
     (i \<notin> sl_id ` set rows \<and> b \<notin> sl_block ` set rows \<and> (\<forall>r \<in> set rows. open_log st r \<longrightarrow> sl_start r \<le> t))"
| "state_allowed (SlowTimer st t i b now) rows = (i \<notin> sl_id ` set rows \<and> b \<notin> sl_block ` set rows)"
| "state_allowed (DownTimer st t i b now) rows = (i \<notin> sl_id ` set rows \<and> b \<notin> sl_block ` set rows)"
| "state_allowed (SplitDown e p i now) rows = (i \<notin> sl_id ` set rows)"
| "state_allowed (AssignReason e r blk now) rows = True"

lemma new_db_Inr: "new_db x = Inr db' \<longleftrightarrow> (\<exists>a b. x = Inr (a, b, db'))"
  by (cases x) (auto simp: new_db_def)

lemma transition_to_down_Inr:
  "transition_to_down st t i b now db = Inr (e, effs, db') \<Longrightarrow>
     \<exists>range. down_transaction st t i b now db = Inr (e, range, db')"
  by (cases "down_transaction st t i b now db") (auto simp: transition_to_down_def)

lemma exec_state_keeps:
  assumes "logs_ok (sd_logs db)" "state_allowed c (sd_logs db)" "exec_state c db = Inr db'"
  shows "logs_ok (sd_logs db')"
  using assms
  by (cases c)
    (auto simp: new_db_Inr dest!: transition_to_down_Inr intro: keeps_up keeps_slow keeps_down keeps_split keeps_reason)

interpretation sl: log_writer exec_state state_allowed
  by unfold_locales (rule exec_state_keeps)

text \<open>
  C1: whatever cycles, timers, splits and reason assignments are run on an empty log, in any
  order and for any stations, every station with an entry has exactly one open entry, and from
  its first instant on exactly one of its entries covers each instant: the log has no gap and
  no overlap.  Entries of the same block are of the same station and the same state.  New ids are
  fresh, and no cycle is reported for an instant before the start of the open entry of its station.
\<close>
theorem state_timeline:
  assumes "sd_logs db = []" "all_allowed exec_state state_allowed cs db"
  defines "rows \<equiv> sd_logs (run_ops exec_state cs db)"
  shows "((\<forall>r \<in> set rows. \<not> live_log st r)
      \<or> (\<exists>t0. count_where (open_log st) rows = 1
          \<and> (\<forall>t. count_where (\<lambda>r. live_log st r \<and> covers_instant t r) rows = of_bool (t0 \<le> t))))
    \<and> (\<forall>r \<in> set rows. \<forall>q \<in> set rows. sl_block r = sl_block q \<longrightarrow> sl_station r = sl_station q \<and> sl_state r = sl_state q)"
  using sl.run_empty[OF assms(1,2)] unfolding rows_def logs_ok_def blocks_ok_def timeline_from_def by blast

definition sample_state_db :: state_db where
  "sample_state_db =
     \<lparr>sd_logs = [], sd_stations = [\<lparr>sr_id = ''s'', sr_site = ''site'', sr_name = ''Press'', sr_workcenter = None\<rparr>],
      sd_workcenters = [], sd_job_logs = [], sd_reasons = [''r'']\<rparr>"

definition sample_options :: up_options where
  "sample_options = \<lparr>uo_cycle = Some 70, uo_slow = Some 60, uo_blob = Some ''j''\<rparr>"

definition sample_cmds :: "state_cmd list" where
  "sample_cmds = [CycleUp ''s'' 0 sample_options ''1'' ''a'' 0, DownTimer ''s'' 100000 ''2'' ''b'' 100000,
     SplitDown ''1'' 400000 ''3'' 900000, CycleUp ''s'' 950000 sample_options ''4'' ''c'' 950000]"

lemmas state_eval =
  sample_state_db_def sample_options_def new_db_def transition_to_up_def transition_to_down_def
  down_transaction_def split_down_entry_def split_read_def split_locked_def split_head_def split_tail_def
  split_margin_def find_log_def find_open_def update_logs_def close_open_def new_entry_def insert_log_def
  down_in_place_def active_job_blob_def open_log_def live_log_def exceeds_slow_def covers_instant_def
  station_site_def Let_def

theorem state_timeline_witness:
  "count_where (open_log ''s'') (sd_logs (run_ops exec_state sample_cmds sample_state_db)) = 1
   \<and> length (sd_logs (run_ops exec_state sample_cmds sample_state_db)) = 3"
proof -
  have a: "all_allowed exec_state state_allowed sample_cmds sample_state_db"
    unfolding sample_cmds_def by (simp add: state_eval)
  have l: "length (sd_logs (run_ops exec_state sample_cmds sample_state_db)) = 3"
    "\<exists>r \<in> set (sd_logs (run_ops exec_state sample_cmds sample_state_db)). live_log ''s'' r"
    unfolding sample_cmds_def by (simp_all add: state_eval)
  from state_timeline[OF _ a, of "''s''"] l show ?thesis by (auto simp: sample_state_db_def)
qed

section \<open>Splits, downtimes and reasons\<close>

text \<open>
  a successful split replaces one DOWN entry by two that meet at the split point, each at
  least five minutes long (up to now when the entry is open), with the entry's station, state,
  status, block, reason and job; the end of the entry, or its being open, moves to the second.
  No other row changes.
\<close>
theorem split_down_entry_effect:
  assumes "logs_ok (sd_logs db)" "split_down_entry j p i now db = Inr (h, q, db')"
  shows "\<exists>e. find_log j db = Some e \<and> sl_state e = Down
    \<and> h = e\<lparr>sl_end := Some p, sl_updated := now\<rparr>
    \<and> q = e\<lparr>sl_id := i, sl_start := p, sl_updated := now\<rparr>
    \<and> sl_start e + 300000 \<le> p \<and> p + 300000 \<le> (case sl_end e of Some t \<Rightarrow> t | None \<Rightarrow> now)
    \<and> mset (sd_logs db') = mset (sd_logs db) - {#e#} + {#h, q#}"
proof -
  from assms(2) obtain e where e: "find_log j db = Some e" "sl_state e = Down"
    "split_locked e p i now db = Inr (h, q, db')"
    by (auto simp: split_down_entry_def split_read_def split: option.splits sum.splits if_splits)
  from find_log_rows[OF assms(1) e(1)] obtain xs ys where o: "sd_logs db = xs @ e # ys" and live: "sl_deleted e = None"
    by blast
  from split_locked_rows[OF assms(1) o e(3)] e(1,2) live show ?thesis
    by (intro exI[of _ e]) (simp add: o split_head_def split_tail_def split_margin_def)
qed

theorem split_down_entry_effect_witness:
  "\<exists>h q db'. split_down_entry ''1'' 400000 ''3'' 900000
      (run_ops exec_state (take 2 sample_cmds) sample_state_db) = Inr (h, q, db')
    \<and> sl_end h = Some 400000 \<and> sl_start q = 400000 \<and> sl_block h = sl_block q"
proof -
  let ?db = "run_ops exec_state (take 2 sample_cmds) sample_state_db"
  have "all_allowed exec_state state_allowed (take 2 sample_cmds) sample_state_db"
    unfolding sample_cmds_def by (simp add: state_eval)
  then have ok: "logs_ok (sd_logs ?db)" by (intro sl.run_empty) (simp_all add: sample_state_db_def)
  obtain h q db' where r: "split_down_entry ''1'' 400000 ''3'' 900000 ?db = Inr (h, q, db')"
    unfolding sample_cmds_def by (simp add: state_eval)
  from split_down_entry_effect[OF ok r] r show ?thesis by auto
qed

text \<open>
  a split races safely with a cycle.  The entry is read before the lock is taken; if the
  entry was open and a cycle of the station completes between the reading and the lock, a split
  that passes the checks on the stale reading runs into the unique index on open entries and is
  rolled back, so the closed downtime is not opened again.
\<close>
theorem stale_split_rolls_back:
  assumes "logs_ok (sd_logs db)" and read: "split_read j db = Inr e" "sl_end e = None"
    and cycle: "transition_to_up (sl_station e) t opts i b now db = Inr (n, cl, db1)"
    and allowed: "state_allowed (CycleUp (sl_station e) t opts i b now) (sd_logs db)"
    and margins: "sl_start e + split_margin \<le> p" "p \<le> later - split_margin"
  shows "split_locked e p k later db1 = Inl OpenEntryExists"
proof -
  have e: "find_log j db = Some e" using read(1) by (auto simp: split_read_def split: option.splits if_splits)
  have st: "sl_station e \<in> sr_id ` set (sd_stations db)"
    using cycle unfolding transition_to_up_def Let_def close_open_def
    by (auto dest!: insert_log_result split: sum.splits option.splits)
  from find_log_rows[OF assms(1) e] read(2) have eo: "e \<in> set (sd_logs db)" "open_log (sl_station e) e"
    by (auto simp: open_log_def)
  then obtain xs ys where c: "open_at (sl_station e) db xs e ys"
    using open_unique[OF assms(1)] unfolding open_at_def by blast
  have fresh: "i \<notin> sl_id ` set (sd_logs db)" using allowed by simp
  from cycle transition_to_up_some[OF c fresh st, of t opts b now]
  have n: "n \<in> set (sd_logs db1)" "open_log (sl_station e) n" "sl_id n = i" "sd_stations db1 = sd_stations db"
    by (auto simp: up_entry_def)
  have "sl_id n \<noteq> sl_id e" using fresh eo(1) n(3) by auto
  with n(1) have "n \<in> set (sd_logs (update_logs (\<lambda>r. sl_id r = sl_id e) (\<lambda>r. r\<lparr>sl_end := Some p\<rparr>) later db1))"
    by (force simp: set_update_where)
  with n(2) have "list_ex (open_log (sl_station e))
      (sd_logs (update_logs (\<lambda>r. sl_id r = sl_id e) (\<lambda>r. r\<lparr>sl_end := Some p\<rparr>) later db1))"
    unfolding list_ex_iff by blast
  with read(2) margins st n(4) show ?thesis
    by (simp add: split_locked_def insert_log_def split_tail_def)
qed

definition stale_db :: state_db where
  "stale_db = run_ops exec_state (take 2 sample_cmds) sample_state_db"

theorem stale_split_rolls_back_witness:
  "\<exists>e n cl db1. split_read ''1'' stale_db = Inr e
     \<and> transition_to_up ''s'' 900000 sample_options ''4'' ''c'' 900000 stale_db = Inr (n, cl, db1)
     \<and> split_locked e 400000 ''3'' 900000 db1 = Inl OpenEntryExists"
proof -
  have "all_allowed exec_state state_allowed (take 2 sample_cmds) sample_state_db"
    unfolding sample_cmds_def by (simp add: state_eval)
  then have ok: "logs_ok (sd_logs stale_db)"
    unfolding stale_db_def by (intro sl.run_empty) (simp_all add: sample_state_db_def)
  obtain e where e: "split_read ''1'' stale_db = Inr e" "sl_end e = None" "sl_station e = ''s''" "sl_start e = 0"
    unfolding stale_db_def sample_cmds_def by (simp add: state_eval)
  obtain n cl db1 where u: "transition_to_up ''s'' 900000 sample_options ''4'' ''c'' 900000 stale_db = Inr (n, cl, db1)"
    unfolding stale_db_def sample_cmds_def by (simp add: state_eval)
  have a: "state_allowed (CycleUp (sl_station e) 900000 sample_options ''4'' ''c'' 900000) (sd_logs stale_db)"
    unfolding stale_db_def sample_cmds_def e(3) by (simp add: state_eval)
  show ?thesis
    using stale_split_rolls_back[OF ok e(1,2) u[folded e(3)] a, of 400000 900000 "''3''"] e u
    by (simp add: split_margin_def)
qed

text \<open>
  a downtime detected by the timer is dated back to the last cycle.  The entry that the
  cycle opened becomes the DOWN entry, with its id and its start and a new block; no entry is
  closed or created, no other row changes, and the recalculation that is requested covers the
  time from that cycle to the timer.
\<close>
theorem downtime_from_last_cycle:
  assumes ok: "logs_ok (sd_logs db)"
    and up: "transition_to_up st t opts i b now db = Inr (e, cl, db1)"
    and up_allowed: "state_allowed (CycleUp st t opts i b now) (sd_logs db)"
    and down: "transition_to_down st t2 i2 b2 now2 db1 = Inr (d, effs, db2)"
    and site: "station_site st db1 = Some site"
  shows "\<exists>xs. sd_logs db1 = xs @ [e] \<and> sd_logs db2 = xs @ [d]
    \<and> sl_id d = sl_id e \<and> sl_start d = t \<and> sl_end d = None \<and> sl_state d = Down \<and> sl_block d = b2
    \<and> Recalc st site t t2 \<in> set effs"
proof -
  have st: "st \<in> sr_id ` set (sd_stations db)"
    using up unfolding transition_to_up_def Let_def close_open_def
    by (auto dest!: insert_log_result split: sum.splits option.splits)
  have fresh: "i \<notin> sl_id ` set (sd_logs db)" using up_allowed by simp
  have ok1: "logs_ok (sd_logs db1)" using keeps_up[OF ok up] up_allowed by simp
  have "\<exists>xs b'. sd_logs db1 = xs @ [e] \<and> e = up_entry i st t opts b' now"
  proof (cases "find_open st db")
    case None
    with up transition_to_up_none[OF ok None fresh st, of t opts b now] show ?thesis by auto
  next
    case (Some c)
    then obtain xs ys where c: "open_at st db xs c ys" using find_open_at[OF ok] by blast
    from up transition_to_up_some[OF c fresh st, of t opts b now] show ?thesis by fastforce
  qed
  then obtain xs b' where e: "sd_logs db1 = xs @ [e]" "e = up_entry i st t opts b' now" by blast
  then have eo: "open_log st e" "sl_state e = Up" "sl_start e = t" by (simp_all add: up_entry_def)
  with open_unique[OF ok1, of e st] e(1) obtain xs' ys' where
    o: "sd_logs db1 = xs' @ e # ys'" "\<forall>q \<in> set xs' \<union> set ys'. \<not> open_log st q" by auto
  have "ys' = []"
  proof (rule ccontr)
    assume "ys' \<noteq> []"
    with o(1) e(1) have "last ys' = e" by (metis append_is_Nil_conv last_appendR last_snoc list.distinct(1) last_ConsR)
    with o(2) eo(1) \<open>ys' \<noteq> []\<close> show False by (metis UnI2 last_in_set)
  qed
  with o e(1) eo have at: "open_at st db1 xs e []" by (simp add: open_at_def)
  have "station_site st db2 = station_site st db1"
    if "sd_stations db2 = sd_stations db1" using that by (simp add: station_site_def)
  then show ?thesis
    using down down_transaction_some[OF ok1 at eo(2), of t2 i2 b2 now2] e(1) eo site
    by (auto simp: transition_to_down_def down_in_place_def open_log_def station_site_def)
qed

theorem downtime_from_last_cycle_witness:
  "\<exists>e cl db1 d effs db2.
     transition_to_up ''s'' 0 sample_options ''1'' ''a'' 0 sample_state_db = Inr (e, cl, db1)
     \<and> transition_to_down ''s'' 100000 ''2'' ''b'' 100000 db1 = Inr (d, effs, db2)
     \<and> sl_start d = 0 \<and> sl_state d = Down \<and> Recalc ''s'' ''site'' 0 100000 \<in> set effs"
proof -
  have ok: "logs_ok (sd_logs sample_state_db)"
    by (simp add: logs_ok_def blocks_ok_def sample_state_db_def)
  obtain e cl db1 where u: "transition_to_up ''s'' 0 sample_options ''1'' ''a'' 0 sample_state_db = Inr (e, cl, db1)"
    and s: "station_site ''s'' db1 = Some ''site''"
    by (simp add: state_eval)
  from u have db1: "db1 = (case transition_to_up ''s'' 0 sample_options ''1'' ''a'' 0 sample_state_db of Inr (_, _, x) \<Rightarrow> x | _ \<Rightarrow> db1)"
    by simp
  obtain d effs db2 where w: "transition_to_down ''s'' 100000 ''2'' ''b'' 100000 db1 = Inr (d, effs, db2)"
    using db1 by (simp add: state_eval)
  have a: "state_allowed (CycleUp ''s'' 0 sample_options ''1'' ''a'' 0) (sd_logs sample_state_db)"
    by (simp add: sample_state_db_def)
  from downtime_from_last_cycle[OF ok u a w s] u w show ?thesis by blast
qed

text \<open>
  assigning a reason to a block.  In a well formed log every entry of the block that is
  not deleted gets the reason, whichever of its entries was named (also those made by splits),
  no other row changes, the reported count is the number of those entries, and the live reason
  of the station is published exactly when its open entry belongs to the block.
\<close>
theorem assign_reason_to_block:
  assumes ok: "logs_ok (sd_logs db)" and e: "find_log j db = Some e"
    and res: "assign_downtime_reason j reason True now db = Inr (n, effs, db')"
  shows "sd_logs db' = map (\<lambda>r. if sl_block r = sl_block e \<and> sl_deleted r = None
        then r\<lparr>sl_reason := reason, sl_updated := now\<rparr> else r) (sd_logs db)
    \<and> n = length (filter (\<lambda>r. sl_block r = sl_block e \<and> sl_deleted r = None) (sd_logs db))
    \<and> (PublishReason (sl_station e) reason now \<in> set effs \<longleftrightarrow>
        (\<exists>r \<in> set (sd_logs db). open_log (sl_station e) r \<and> sl_block r = sl_block e))"
proof -
  from e have em: "e \<in> set (sd_logs db)" by (auto simp: find_log_def find_Some_iff)
  have down: "sl_state e = Down" using res e by (auto simp: assign_downtime_reason_def split: if_splits)
  have same: "reason_target True e r = (sl_block r = sl_block e \<and> sl_deleted r = None)" if "r \<in> set (sd_logs db)" for r
    using ok em down that unfolding logs_ok_def blocks_ok_def reason_target_def by metis
  let ?f = "\<lambda>r. r\<lparr>sl_reason := reason, sl_updated := now\<rparr>"
  have rows: "update_where (reason_target True e) ?f (sd_logs db)
      = map (\<lambda>r. if sl_block r = sl_block e \<and> sl_deleted r = None then ?f r else r) (sd_logs db)"
    unfolding update_where_def using same by (auto intro!: map_cong)
  have n: "count_where (reason_target True e) (sd_logs db)
      = length (filter (\<lambda>r. sl_block r = sl_block e \<and> sl_deleted r = None) (sd_logs db))"
    unfolding count_where_def using same by (simp cong: filter_cong)
  have open_count: "count_where (\<lambda>r. open_log (sl_station e) r \<and> sl_block r = sl_block e)
        (update_where (reason_target True e) ?f (sd_logs db))
      = count_where (\<lambda>r. open_log (sl_station e) r \<and> sl_block r = sl_block e) (sd_logs db)"
    by (rule count_update_where_same) (simp add: open_log_def)
  have zero: "count_where (\<lambda>r. open_log (sl_station e) r \<and> sl_block r = sl_block e) (sd_logs db) = 0
      \<longleftrightarrow> \<not> (\<exists>r \<in> set (sd_logs db). open_log (sl_station e) r \<and> sl_block r = sl_block e)"
    by (simp only: count_where_zero) blast
  show ?thesis
    using res e down rows n open_count zero
    by (auto simp: assign_downtime_reason_def Let_def split: if_splits prod.splits option.splits)
qed

theorem assign_reason_to_block_witness:
  "\<exists>n effs db'. assign_downtime_reason ''1'' (Some ''r'') True 7 stale_db = Inr (n, effs, db') \<and> n = 1"
proof -
  have "all_allowed exec_state state_allowed (take 2 sample_cmds) sample_state_db"
    unfolding sample_cmds_def by (simp add: state_eval)
  then have ok: "logs_ok (sd_logs stale_db)"
    unfolding stale_db_def by (intro sl.run_empty) (simp_all add: sample_state_db_def)
  have l: "length (sd_logs stale_db) = 1" unfolding stale_db_def sample_cmds_def by (simp add: state_eval)
  obtain e where e: "find_log ''1'' stale_db = Some e" "sl_state e = Down"
    unfolding stale_db_def sample_cmds_def by (simp add: state_eval)
  have "''r'' \<in> set (sd_reasons stale_db)" unfolding stale_db_def sample_cmds_def by (simp add: state_eval)
  with e obtain n effs db' where a: "assign_downtime_reason ''1'' (Some ''r'') True 7 stale_db = Inr (n, effs, db')"
    by (simp add: assign_downtime_reason_def Let_def case_prod_beta)
  from find_log_rows[OF ok e(1)] have "e \<in> set (sd_logs stale_db)" "sl_deleted e = None" by auto
  with l have "sd_logs stale_db = [e]" by (cases "sd_logs stale_db") auto
  with assign_reason_to_block[OF ok e(1) a] a \<open>sl_deleted e = None\<close> show ?thesis by simp
qed

section \<open>Listing\<close>

lemma log_matches_overlap:
  assumes "\<forall>t. sl_end r = Some t \<longrightarrow> sl_start r \<le> t" "a \<le> z"
    "lf_from f = Some a" "lf_to f = Some z" "lf_state f = None"
  shows "log_matches f r = (live_log (lf_station f) r
    \<and> (\<exists>u. a \<le> u \<and> u \<le> z \<and> sl_start r \<le> u \<and> (\<forall>t. sl_end r = Some t \<longrightarrow> u \<le> t)))"
proof (cases "sl_end r")
  case None
  have "(sl_start r \<le> z) = (\<exists>u. a \<le> u \<and> u \<le> z \<and> sl_start r \<le> u)" using assms(2) by auto
  with None assms show ?thesis by (auto simp: log_matches_def)
next
  case (Some t)
  with assms(1) have "(a \<le> t \<and> sl_start r \<le> z) = (\<exists>u. a \<le> u \<and> u \<le> z \<and> sl_start r \<le> u \<and> u \<le> t)"
    using assms(2) by (auto intro: exI[of _ "max a (sl_start r)"])
  with Some assms show ?thesis by (auto simp: log_matches_def)
qed

text \<open>The rows of consecutive pages.\<close>
lemma take_drop_pages:
  "concat (map (\<lambda>k. take n (drop (k * n) xs)) [0..<m]) = take (m * n) xs"
proof (induction m)
  case (Suc m)
  have "take (Suc m * n) xs = take (m * n) xs @ take n (drop (m * n) xs)"
    using take_add[of "m * n" n xs] by (simp add: add.commute)
  with Suc show ?case by simp
qed simp

text \<open>
  Listing with a range.  For rows whose end is not before their start, the total counts the
  entries of the station that share an instant with the closed range, open ones taken as ongoing,
  and the pages of any positive size, one after another, are the first of these rows, newest
  first, none twice and none left out.
\<close>
theorem list_state_logs_pages:
  assumes wf: "\<forall>r \<in> set (sd_logs db). \<forall>t. sl_end r = Some t \<longrightarrow> sl_start r \<le> t"
    and f: "f = \<lparr>lf_station = st, lf_from = Some a, lf_to = Some z, lf_state = None, lf_limit = int n, lf_offset = 0\<rparr>"
    and range: "a \<le> z" "0 < n"
  defines "hits \<equiv> filter (\<lambda>r. live_log st r \<and> (\<exists>u. a \<le> u \<and> u \<le> z \<and> sl_start r \<le> u \<and> (\<forall>t. sl_end r = Some t \<longrightarrow> u \<le> t)))
      (sd_logs db)"
  shows "snd (list_state_logs f db) = length hits
    \<and> concat (map (\<lambda>k. fst (list_state_logs (f\<lparr>lf_offset := k * n\<rparr>) db)) [0..<m])
       = take (m * n) (sort_key (\<lambda>r. - sl_start r) hits)"
proof -
  have g: "log_matches (f\<lparr>lf_offset := k\<rparr>) = log_matches f" for k
    by (simp add: fun_eq_iff log_matches_def)
  have h: "filter (log_matches f) (sd_logs db) = hits"
    unfolding hits_def
    by (rule filter_cong[OF refl]) (use log_matches_overlap[of _ a z f] wf f range in simp)
  have "fst (list_state_logs (f\<lparr>lf_offset := k\<rparr>) db) = take n (drop k (sort_key (\<lambda>r. - sl_start r) hits))" for k
    using range(2) by (simp add: list_state_logs_def Let_def g h) (simp add: f)
  then show ?thesis by (simp add: take_drop_pages) (simp add: list_state_logs_def Let_def count_where_def h)
qed

theorem list_state_logs_pages_witness:
  "snd (list_state_logs \<lparr>lf_station = ''s'', lf_from = Some 7, lf_to = Some 9, lf_state = None, lf_limit = int 1, lf_offset = 0\<rparr>
     stale_db) = 1"
proof -
  have rows: "\<exists>r. sd_logs stale_db = [r] \<and> live_log ''s'' r \<and> sl_start r = 0 \<and> sl_end r = None"
    unfolding stale_db_def sample_cmds_def by (simp add: state_eval)
  then have wf: "\<forall>r \<in> set (sd_logs stale_db). \<forall>t. sl_end r = Some t \<longrightarrow> sl_start r \<le> t" by auto
  from list_state_logs_pages[OF wf refl, of 7 9 1 "''s''" 1] rows show ?thesis by auto (rule exI[of _ "7 :: int"], simp)
qed

end
