(* ===== verification/Metrics.thy ===== *)
theory Metrics
  imports StateLog Shifts
begin

text \<open>
  The metric buckets: the computation of all values of one base bucket from cycles, state log
  and dispositions (\<open>packages/services/src/metrics/compute.ts\<close>), their summation, and the OEE
  ratios (\<open>packages/metrics/src/index.ts\<close>).  Durations are exact rationals of seconds; the
  clock is an argument.  The lemmas show how the clipped times of the log entries add up.
\<close>

section \<open>Values of a bucket\<close>

record bucket_kpis =
  bk_total_cycles :: int
  bk_bad_cycles :: int
  bk_total_items :: int
  bk_bad_items :: int
  bk_expected_cycles :: int
  bk_expected_items :: int
  bk_run :: int
  bk_down :: int
  bk_planned_down :: int
  bk_unplanned_down :: int
  bk_ideal_cycle :: int
  bk_total_cycle :: int
  bk_elapsed_cycles :: int
  bk_elapsed_items :: int
  bk_elapsed_planned :: int
  bk_standard_cycle :: "rat option"

definition zero_kpis :: bucket_kpis where
  "zero_kpis =
     \<lparr>bk_total_cycles = 0, bk_bad_cycles = 0, bk_total_items = 0, bk_bad_items = 0, bk_expected_cycles = 0,
      bk_expected_items = 0, bk_run = 0, bk_down = 0, bk_planned_down = 0, bk_unplanned_down = 0,
      bk_ideal_cycle = 0, bk_total_cycle = 0, bk_elapsed_cycles = 0, bk_elapsed_items = 0,
      bk_elapsed_planned = 0, bk_standard_cycle = None\<rparr>"

text \<open>The additive values are added; the standard cycle of the sum stays that of the zero set.\<close>
definition add_kpis :: "bucket_kpis \<Rightarrow> bucket_kpis \<Rightarrow> bucket_kpis" where
  "add_kpis a b =
     a\<lparr>bk_total_cycles := bk_total_cycles a + bk_total_cycles b,
       bk_bad_cycles := bk_bad_cycles a + bk_bad_cycles b,
       bk_total_items := bk_total_items a + bk_total_items b,
       bk_bad_items := bk_bad_items a + bk_bad_items b,
       bk_expected_cycles := bk_expected_cycles a + bk_expected_cycles b,
       bk_expected_items := bk_expected_items a + bk_expected_items b,
       bk_run := bk_run a + bk_run b,
       bk_down := bk_down a + bk_down b,
       bk_planned_down := bk_planned_down a + bk_planned_down b,
       bk_unplanned_down := bk_unplanned_down a + bk_unplanned_down b,
       bk_ideal_cycle := bk_ideal_cycle a + bk_ideal_cycle b,
       bk_total_cycle := bk_total_cycle a + bk_total_cycle b,
       bk_elapsed_cycles := bk_elapsed_cycles a + bk_elapsed_cycles b,
       bk_elapsed_items := bk_elapsed_items a + bk_elapsed_items b,
       bk_elapsed_planned := bk_elapsed_planned a + bk_elapsed_planned b\<rparr>"

definition sum_kpis :: "bucket_kpis list \<Rightarrow> bucket_kpis" where
  "sum_kpis bs = foldl add_kpis zero_kpis bs"

section \<open>Ratios\<close>

definition availability :: "bucket_kpis \<Rightarrow> rat option" where
  "availability k =
     (if bk_elapsed_planned k \<le> 0 then None
      else Some (of_int (bk_run k) / of_int (bk_elapsed_planned k)))"

definition performance :: "bucket_kpis \<Rightarrow> rat option" where
  "performance k =
     (if bk_elapsed_planned k \<le> 0 then None
      else if bk_run k \<le> 0 then Some 0
      else Some (of_int (bk_ideal_cycle k) / of_int (bk_run k)))"

definition quality :: "bucket_kpis \<Rightarrow> rat option" where
  "quality k =
     (if bk_elapsed_planned k \<le> 0 then None
      else if bk_total_items k \<le> 0 then Some 0
      else Some (of_int (bk_total_items k - bk_bad_items k) / of_int (bk_total_items k)))"

definition oee :: "bucket_kpis \<Rightarrow> rat option" where
  "oee k =
     (if bk_elapsed_planned k \<le> 0 then None
      else if bk_total_items k \<le> 0 then Some 0
      else Some (of_int (bk_ideal_cycle k * (bk_total_items k - bk_bad_items k))
                 / of_int (bk_elapsed_planned k * bk_total_items k)))"

record computed_kpis =
  ck_availability :: "rat option"
  ck_performance :: "rat option"
  ck_quality :: "rat option"
  ck_oee :: "rat option"

definition compute_all_kpis :: "bucket_kpis \<Rightarrow> computed_kpis" where
  "compute_all_kpis k =
     \<lparr>ck_availability = availability k, ck_performance = performance k, ck_quality = quality k, ck_oee = oee k\<rparr>"

section \<open>The events of a bucket\<close>

record cycle_row =
  cy_id :: uuid
  cy_station :: uuid
  cy_start :: ms
  cy_end :: "ms option"
  cy_blob :: uuid
  cy_deleted :: "ms option"

record job_blob =
  jb_id :: uuid
  jb_job :: uuid
  jb_cycle :: "rat option"

record disposition_row =
  dr_station :: uuid
  dr_created :: ms
  dr_quantity :: int
  dr_cycle :: "uuid option"
  dr_product_blob :: "uuid option"
  dr_deleted :: "ms option"

text \<open>
  The tables the computation reads: inventory items by their cycle, job product blobs with
  their job, and status reasons with their planned flag.
\<close>
record metric_db =
  md_cycles :: "cycle_row list"
  md_blobs :: "job_blob list"
  md_items :: "uuid option list"
  md_dispositions :: "disposition_row list"
  md_product_jobs :: "(uuid \<times> uuid) list"
  md_planned :: "(uuid \<times> bool) list"
  md_logs :: "state_log list"

record job_filter =
  jf_job :: uuid
  jf_blob :: uuid
  jf_start :: ms
  jf_end :: "ms option"
  jf_cycle :: "rat option"
  jf_items :: int

definition blob_of :: "metric_db \<Rightarrow> uuid \<Rightarrow> job_blob option" where
  "blob_of db b = find (\<lambda>x. jb_id x = b) (md_blobs db)"

text \<open>The cycles that end in the window, with the standard cycle of their blob.\<close>
definition window_cycles ::
  "metric_db \<Rightarrow> uuid \<Rightarrow> ms \<Rightarrow> ms \<Rightarrow> job_filter option \<Rightarrow> (cycle_row \<times> rat option) list" where
  "window_cycles db st from to jf =
     map (\<lambda>c. (c, Option.bind (blob_of db (cy_blob c)) jb_cycle))
       (filter (\<lambda>c. cy_station c = st \<and> cy_deleted c = None
            \<and> (case cy_end c of None \<Rightarrow> False | Some e \<Rightarrow> from \<le> e \<and> e < to)
            \<and> (case jf of None \<Rightarrow> True
               | Some f \<Rightarrow> (case blob_of db (cy_blob c) of None \<Rightarrow> False | Some b \<Rightarrow> jb_job b = jf_job f)))
         (md_cycles db))"

record cycle_tally =
  ct_cycles :: int
  ct_items :: int
  ct_ideal :: rat
  ct_ms :: rat

definition zero_tally :: cycle_tally where
  "zero_tally = \<lparr>ct_cycles = 0, ct_items = 0, ct_ideal = 0, ct_ms = 0\<rparr>"

text \<open>The length of the part of an interval that lies in a window.\<close>
definition clip_ms :: "rat \<Rightarrow> rat \<Rightarrow> rat \<Rightarrow> rat \<Rightarrow> rat" where
  "clip_ms s e a b = max 0 (min e b - max s a)"

definition tally_cycle ::
  "metric_db \<Rightarrow> rat \<Rightarrow> rat \<Rightarrow> job_filter option \<Rightarrow> cycle_tally \<Rightarrow> cycle_row \<times> rat option \<Rightarrow> cycle_tally" where
  "tally_cycle db a b jf t cs =
     (let c = fst cs;
          ideal = (case Option.bind jf jf_cycle of
                     Some s \<Rightarrow> s
                   | None \<Rightarrow> (case snd cs of Some s \<Rightarrow> s | None \<Rightarrow> 0));
          dur = (case cy_end c of None \<Rightarrow> 0 | Some e \<Rightarrow> clip_ms (of_int (cy_start c)) (of_int e) a b)
      in t\<lparr>ct_cycles := ct_cycles t + 1,
           ct_items := ct_items t + int (count_where (\<lambda>i. i = Some (cy_id c)) (md_items db)),
           ct_ideal := ct_ideal t + ideal,
           ct_ms := ct_ms t + dur\<rparr>)"

definition tally_cycles ::
  "metric_db \<Rightarrow> uuid \<Rightarrow> ms \<Rightarrow> rat \<Rightarrow> job_filter option \<Rightarrow> cycle_tally" where
  "tally_cycles db st a b jf =
     foldl (tally_cycle db (of_int a) b jf) zero_tally (window_cycles db st a \<lfloor>b\<rfloor> jf)"

text \<open>The job of a disposition: that of its cycle, else that of its product blob.\<close>
definition disposition_job :: "metric_db \<Rightarrow> disposition_row \<Rightarrow> uuid option" where
  "disposition_job db d =
     (case Option.bind (dr_cycle d) (\<lambda>i. Option.bind (find (\<lambda>c. cy_id c = i) (md_cycles db)) (\<lambda>c. blob_of db (cy_blob c))) of
        Some b \<Rightarrow> Some (jb_job b)
      | None \<Rightarrow> Option.bind (dr_product_blob d) (map_of (md_product_jobs db)))"

definition disposition_bad_items :: "metric_db \<Rightarrow> uuid \<Rightarrow> ms \<Rightarrow> ms \<Rightarrow> job_filter option \<Rightarrow> int" where
  "disposition_bad_items db st from to jf =
     sum_list (map dr_quantity
       (filter (\<lambda>d. dr_station d = st \<and> from \<le> dr_created d \<and> dr_created d < to \<and> dr_deleted d = None
            \<and> (case jf of None \<Rightarrow> True | Some f \<Rightarrow> disposition_job db d = Some (jf_job f)))
         (md_dispositions db)))"

section \<open>Times by state\<close>

text \<open>The window in which a job was active within a bucket.\<close>
record job_clip =
  jc_start :: rat
  jc_end :: rat
  jc_duration :: rat
  jc_elapsed :: rat

definition resolve_job_clip :: "job_filter \<Rightarrow> rat \<Rightarrow> rat \<Rightarrow> ms \<Rightarrow> job_clip option" where
  "resolve_job_clip f a b now =
     (let je = (case jf_end f of Some e \<Rightarrow> of_int e | None \<Rightarrow> min (of_int now) b);
          s = max (of_int (jf_start f)) a;
          e = min je b
      in if s \<ge> e then None
         else Some \<lparr>jc_start = s, jc_end = e, jc_duration = (e - s) / 1000,
                    jc_elapsed = max 0 ((min e (of_int now) - s) / 1000)\<rparr>)"

definition window_logs :: "metric_db \<Rightarrow> uuid \<Rightarrow> ms \<Rightarrow> ms \<Rightarrow> state_log list" where
  "window_logs db st from to =
     filter (\<lambda>r. live_log st r \<and> sl_start r < to
         \<and> (case sl_end r of None \<Rightarrow> True | Some e \<Rightarrow> e > from))
       (md_logs db)"

definition planned_reason :: "metric_db \<Rightarrow> state_log \<Rightarrow> bool" where
  "planned_reason db r = (Option.bind (sl_reason r) (map_of (md_planned db)) = Some True)"

text \<open>The milliseconds of an entry in the clip window; an open entry runs until now.\<close>
definition entry_ms :: "rat \<Rightarrow> rat \<Rightarrow> ms \<Rightarrow> state_log \<Rightarrow> rat" where
  "entry_ms a b now r =
     clip_ms (of_int (sl_start r)) (case sl_end r of Some e \<Rightarrow> of_int e | None \<Rightarrow> of_int now) a b"

record state_times =
  sm_run :: rat
  sm_down :: rat
  sm_planned :: rat
  sm_unplanned :: rat

definition zero_times :: state_times where
  "zero_times = \<lparr>sm_run = 0, sm_down = 0, sm_planned = 0, sm_unplanned = 0\<rparr>"

definition tally_log :: "metric_db \<Rightarrow> rat \<Rightarrow> rat \<Rightarrow> ms \<Rightarrow> state_times \<Rightarrow> state_log \<Rightarrow> state_times" where
  "tally_log db a b now t r =
     (let m = entry_ms a b now r
      in if m = 0 then t
         else if sl_state r = Up then t\<lparr>sm_run := sm_run t + m\<rparr>
         else if planned_reason db r
         then t\<lparr>sm_down := sm_down t + m, sm_planned := sm_planned t + m\<rparr>
         else t\<lparr>sm_down := sm_down t + m, sm_unplanned := sm_unplanned t + m\<rparr>)"

definition tally_state_logs ::
  "metric_db \<Rightarrow> uuid \<Rightarrow> ms \<Rightarrow> rat \<Rightarrow> ms \<Rightarrow> job_clip option \<Rightarrow> state_times" where
  "tally_state_logs db st a b now jc =
     (let (cs, ce) = (case jc of Some c \<Rightarrow> (jc_start c, jc_end c) | None \<Rightarrow> (of_int a, b))
      in foldl (tally_log db cs ce now) zero_times (window_logs db st a \<lfloor>b\<rfloor>))"

definition round_seconds :: "rat \<Rightarrow> int" where
  "round_seconds m = js_round (m / 1000)"

section \<open>A bucket\<close>

definition resolve_standard_cycle :: "job_filter option \<Rightarrow> cycle_tally \<Rightarrow> rat option" where
  "resolve_standard_cycle jf t =
     (case Option.bind jf jf_cycle of
        Some s \<Rightarrow> if s > 0 then Some s
                   else if ct_cycles t > 0 \<and> ct_ideal t > 0 then Some (ct_ideal t / of_int (ct_cycles t)) else None
      | None \<Rightarrow> if ct_cycles t > 0 \<and> ct_ideal t > 0 then Some (ct_ideal t / of_int (ct_cycles t)) else None)"

definition resolve_items_per_cycle :: "cycle_tally \<Rightarrow> int" where
  "resolve_items_per_cycle t =
     (if ct_cycles t > 0 \<and> ct_items t > 0 then js_round (of_int (ct_items t) / of_int (ct_cycles t)) else 1)"

definition expected_count :: "rat \<Rightarrow> rat option \<Rightarrow> int" where
  "expected_count secs cycle = (case cycle of None \<Rightarrow> 0 | Some s \<Rightarrow> if s > 0 then \<lfloor>secs / s\<rfloor> else 0)"

definition compute_bucket_from_events ::
  "metric_db \<Rightarrow> uuid \<Rightarrow> ms \<Rightarrow> rat \<Rightarrow> job_filter option \<Rightarrow> ms \<Rightarrow> bucket_kpis" where
  "compute_bucket_from_events db st a dur jf now =
     (let b = of_int a + dur * 1000;
          jc = Option.bind jf (\<lambda>f. resolve_job_clip f (of_int a) b now)
      in if jf \<noteq> None \<and> jc = None then zero_kpis
         else
           (let ct = tally_cycles db st a b jf;
                bad = disposition_bad_items db st a \<lfloor>b\<rfloor> jf;
                tm = tally_state_logs db st a b now jc;
                run = round_seconds (sm_run tm);
                planned = round_seconds (sm_planned tm);
                unplanned = round_seconds (sm_unplanned tm);
                effective = (case jc of Some c \<Rightarrow> jc_duration c | None \<Rightarrow> dur);
                elapsed = run + unplanned;
                std = resolve_standard_cycle jf ct;
                ipc = (case jf of Some f \<Rightarrow> jf_items f | None \<Rightarrow> resolve_items_per_cycle ct);
                expected = expected_count (effective - of_int planned) std;
                elapsed_expected = expected_count (of_int elapsed) std
            in \<lparr>bk_total_cycles = ct_cycles ct, bk_bad_cycles = 0, bk_total_items = ct_items ct,
                bk_bad_items = bad, bk_expected_cycles = expected, bk_expected_items = expected * ipc,
                bk_run = run, bk_down = round_seconds (sm_down tm), bk_planned_down = planned,
                bk_unplanned_down = unplanned, bk_ideal_cycle = js_round (ct_ideal ct),
                bk_total_cycle = round_seconds (ct_ms ct), bk_elapsed_cycles = elapsed_expected,
                bk_elapsed_items = elapsed_expected * ipc, bk_elapsed_planned = elapsed,
                bk_standard_cycle = std\<rparr>))"

text \<open>The duration values alone; the count values of the result are not used by the caller.\<close>
definition compute_durations_for_bucket ::
  "metric_db \<Rightarrow> uuid \<Rightarrow> ms \<Rightarrow> rat \<Rightarrow> rat option \<Rightarrow> int \<Rightarrow> ms \<Rightarrow> bucket_kpis" where
  "compute_durations_for_bucket db st a dur std ipc now =
     (let b = of_int a + dur * 1000;
          tm = tally_state_logs db st a b now None;
          run = round_seconds (sm_run tm);
          planned = round_seconds (sm_planned tm);
          unplanned = round_seconds (sm_unplanned tm);
          elapsed = run + unplanned;
          expected = expected_count (dur - of_int planned) std;
          elapsed_expected = expected_count (of_int elapsed) std
      in zero_kpis\<lparr>bk_run := run, bk_down := round_seconds (sm_down tm), bk_planned_down := planned,
           bk_unplanned_down := unplanned, bk_elapsed_planned := elapsed,
           bk_elapsed_cycles := elapsed_expected, bk_elapsed_items := elapsed_expected * ipc,
           bk_expected_cycles := expected, bk_expected_items := expected * ipc,
           bk_standard_cycle := std\<rparr>)"

section \<open>How the times add up\<close>

text \<open>The milliseconds that the live entries with a property spend in a window.\<close>
definition spent_ms ::
  "(state_log \<Rightarrow> bool) \<Rightarrow> metric_db \<Rightarrow> uuid \<Rightarrow> ms \<Rightarrow> rat \<Rightarrow> rat \<Rightarrow> rat" where
  "spent_ms p db st now a b =
     sum_list (map (\<lambda>r. if p r then entry_ms a b now r else 0) (filter (live_log st) (md_logs db)))"

lemma clip_ms_nonneg [simp]: "0 \<le> clip_ms s e a b"
  by (simp add: clip_ms_def)

lemma clip_ms_split: "a \<le> m \<Longrightarrow> m \<le> b \<Longrightarrow> clip_ms s e a m + clip_ms s e m b = clip_ms s e a b"
  by (auto simp: clip_ms_def max_def min_def)

lemma clip_ms_outside: "b \<le> s \<or> e \<le> a \<Longrightarrow> clip_ms s e a b = 0"
  by (auto simp: clip_ms_def max_def min_def)

lemma clip_ms_empty: "clip_ms s e a a = 0"
  by (auto simp: clip_ms_def max_def min_def)

lemma spent_ms_nonneg: "0 \<le> spent_ms p db st now a b"
  unfolding spent_ms_def entry_ms_def by (intro sum_list_nonneg) auto

lemma spent_ms_split:
  "a \<le> m \<Longrightarrow> m \<le> b \<Longrightarrow> spent_ms p db st now a m + spent_ms p db st now m b = spent_ms p db st now a b"
  unfolding spent_ms_def sum_list_addf[symmetric]
  by (intro arg_cong[where f = sum_list] map_cong) (auto simp: entry_ms_def clip_ms_split)

lemma spent_ms_empty: "spent_ms p db st now a a = 0"
  by (simp add: spent_ms_def entry_ms_def clip_ms_empty cong: if_cong)

text \<open>The entries that the query leaves out have no time in the window.\<close>
lemma window_spent:
  "sum_list (map (\<lambda>r. if p r then entry_ms (of_int a) (of_int b) now r else 0) (window_logs db st a b))
    = spent_ms p db st now (of_int a) (of_int b)"
proof -
  have "sum_list (map (\<lambda>r. if p r then entry_ms (of_int a) (of_int b) now r else 0) (filter q xs))
      = sum_list (map (\<lambda>r. if p r then entry_ms (of_int a) (of_int b) now r else 0) xs)"
    if "\<forall>r \<in> set xs. \<not> q r \<longrightarrow> entry_ms (of_int a) (of_int b) now r = 0" for q and xs :: "state_log list"
    using that by (induction xs) auto
  note drop = this
  have w: "window_logs db st a b = filter (\<lambda>r. sl_start r < b \<and> (case sl_end r of None \<Rightarrow> True | Some e \<Rightarrow> e > a))
      (filter (live_log st) (md_logs db))"
    unfolding window_logs_def filter_filter by (intro filter_cong) auto
  show ?thesis
    unfolding w spent_ms_def
    by (rule drop) (auto simp: entry_ms_def intro!: clip_ms_outside split: option.splits)
qed

lemma tally_fold:
  "sm_run (foldl (tally_log db a b now) t rs) = sm_run t + sum_list (map (\<lambda>r. if sl_state r = Up then entry_ms a b now r else 0) rs)"
  "sm_down (foldl (tally_log db a b now) t rs) = sm_down t + sum_list (map (\<lambda>r. if sl_state r \<noteq> Up then entry_ms a b now r else 0) rs)"
  "sm_planned (foldl (tally_log db a b now) t rs)
     = sm_planned t + sum_list (map (\<lambda>r. if sl_state r \<noteq> Up \<and> planned_reason db r then entry_ms a b now r else 0) rs)"
  "sm_unplanned (foldl (tally_log db a b now) t rs)
     = sm_unplanned t + sum_list (map (\<lambda>r. if sl_state r \<noteq> Up \<and> \<not> planned_reason db r then entry_ms a b now r else 0) rs)"
  by (induction rs arbitrary: t) (auto simp: tally_log_def Let_def)

lemma tally_spent:
  "tally_state_logs db st a (of_int b) now None =
     \<lparr>sm_run = spent_ms (\<lambda>r. sl_state r = Up) db st now (of_int a) (of_int b),
      sm_down = spent_ms (\<lambda>r. sl_state r \<noteq> Up) db st now (of_int a) (of_int b),
      sm_planned = spent_ms (\<lambda>r. sl_state r \<noteq> Up \<and> planned_reason db r) db st now (of_int a) (of_int b),
      sm_unplanned = spent_ms (\<lambda>r. sl_state r \<noteq> Up \<and> \<not> planned_reason db r) db st now (of_int a) (of_int b)\<rparr>"
  by (rule state_times.equality) (simp_all add: tally_state_logs_def tally_fold zero_times_def window_spent)


section \<open>Every millisecond is accounted for\<close>





lemma round_seconds_near: "\<bar>of_int (round_seconds m) - m / 1000\<bar> \<le> 1 / 2"
  unfolding round_seconds_def by (rule js_round_near)



lemma bucket_end:
  "of_int a + of_int (b - a) / 1000 * 1000 = (of_int b :: rat)"
  by (simp add: field_simps)

lemma bucket_durations:
  "bk_run (compute_bucket_from_events db st a (of_int (b - a) / 1000) None now)
     = round_seconds (spent_ms (\<lambda>r. sl_state r = Up) db st now (of_int a) (of_int b))"
  "bk_down (compute_bucket_from_events db st a (of_int (b - a) / 1000) None now)
     = round_seconds (spent_ms (\<lambda>r. sl_state r \<noteq> Up) db st now (of_int a) (of_int b))"
  "bk_planned_down (compute_bucket_from_events db st a (of_int (b - a) / 1000) None now)
     = round_seconds (spent_ms (\<lambda>r. sl_state r \<noteq> Up \<and> planned_reason db r) db st now (of_int a) (of_int b))"
  "bk_unplanned_down (compute_bucket_from_events db st a (of_int (b - a) / 1000) None now)
     = round_seconds (spent_ms (\<lambda>r. sl_state r \<noteq> Up \<and> \<not> planned_reason db r) db st now (of_int a) (of_int b))"
  unfolding compute_bucket_from_events_def Let_def bucket_end
  by (simp_all add: tally_spent)


definition sample_metric_db :: metric_db where
  "sample_metric_db =
     \<lparr>md_cycles = [\<lparr>cy_id = ''c'', cy_station = ''s'', cy_start = 0, cy_end = Some 60000, cy_blob = ''j'', cy_deleted = None\<rparr>],
      md_blobs = [\<lparr>jb_id = ''j'', jb_job = ''job'', jb_cycle = Some 50\<rparr>], md_items = [Some ''c'', Some ''c''],
      md_dispositions = [\<lparr>dr_station = ''s'', dr_created = 50000, dr_quantity = 1, dr_cycle = Some ''c'', dr_product_blob = None, dr_deleted = None\<rparr>],
      md_product_jobs = [], md_planned = [], md_logs = sd_logs (run_ops exec_state (take 1 sample_cmds) sample_state_db)\<rparr>"


section \<open>Sums and ratios\<close>

lemma sum_kpis_Nil: "sum_kpis [] = zero_kpis"
  by (simp add: sum_kpis_def)

lemma foldl_add_kpis:
  "bk_run (foldl add_kpis k bs) = bk_run k + sum_list (map bk_run bs)"
  "bk_down (foldl add_kpis k bs) = bk_down k + sum_list (map bk_down bs)"
  "bk_planned_down (foldl add_kpis k bs) = bk_planned_down k + sum_list (map bk_planned_down bs)"
  "bk_unplanned_down (foldl add_kpis k bs) = bk_unplanned_down k + sum_list (map bk_unplanned_down bs)"
  "bk_elapsed_planned (foldl add_kpis k bs) = bk_elapsed_planned k + sum_list (map bk_elapsed_planned bs)"
  by (induction bs arbitrary: k) (simp_all add: add_kpis_def)

text \<open>A list of buckets that follow one another from one instant to another.\<close>
fun consecutive :: "ms \<Rightarrow> ms \<Rightarrow> (ms \<times> ms) list \<Rightarrow> bool" where
  "consecutive a b [] = (a = b)"
| "consecutive a b ((s, e) # ws) = (s = a \<and> s \<le> e \<and> consecutive e b ws)"

lemma consecutive_le: "consecutive a b ws \<Longrightarrow> a \<le> b"
  by (induction a b ws rule: consecutive.induct) auto

lemma spent_consecutive:
  "consecutive a b ws \<Longrightarrow>
     sum_list (map (\<lambda>(s, e). spent_ms p db st now (of_int s) (of_int e)) ws) = spent_ms p db st now (of_int a) (of_int b)"
proof (induction ws arbitrary: a)
  case Nil
  then show ?case by (simp add: spent_ms_empty)
next
  case (Cons w ws)
  obtain s e where w: "w = (s, e)" by (cases w)
  with Cons.prems have "s = a" "a \<le> e" "consecutive e b ws" by auto
  then have "e \<le> b" by (simp add: consecutive_le)
  with Cons.IH[OF \<open>consecutive e b ws\<close>] \<open>s = a\<close> \<open>a \<le> e\<close> show ?case
    using spent_ms_split[of "of_int a" "of_int e" "of_int b" p db st now] by (simp add: w)
qed

lemma tiles_consecutive:
  "tiles (of_int a) (of_int b) hs \<Longrightarrow>
     \<exists>ws. consecutive a b ws \<and> map (\<lambda>h. (hb_start h, hb_duration h)) hs = map (\<lambda>(s, e). (s, of_int (e - s) / 1000)) ws"
proof (induction hs arbitrary: a)
  case Nil
  then show ?case by (intro exI[of _ "[]"]) simp
next
  case (Cons h hs)
  from Cons.prems have h: "hb_start h = a" "0 < hb_duration h" and t: "tiles (of_int a + hb_duration h * 1000) (of_int b) hs"
    by auto
  have "\<exists>m. of_int a + hb_duration h * 1000 = of_int m"
    using t by (cases hs) (auto simp: eq_commute)
  then obtain m where m: "of_int a + hb_duration h * 1000 = of_int m" by blast
  from Cons.IH[OF t[unfolded m]] obtain ws where ws: "consecutive m b ws"
    "map (\<lambda>h. (hb_start h, hb_duration h)) hs = map (\<lambda>(s, e). (s, of_int (e - s) / 1000)) ws" by blast
  have "hb_duration h = of_int (m - a) / 1000" using m by (simp add: field_simps)
  moreover from m h(2) have "a \<le> m" by (metis add_increasing2 less_imp_le mult_nonneg_nonneg of_int_le_iff order_refl zero_le_numeral)
  ultimately show ?case using h(1) ws by (intro exI[of _ "(a, m) # ws"]) simp
qed

lemma sum_rounded:
  "\<bar>of_int (sum_list (map (\<lambda>x. round_seconds (f x)) xs)) - sum_list (map f xs) / 1000\<bar> \<le> of_nat (length xs) / 2"
proof (induction xs)
  case (Cons x xs)
  have "of_int (sum_list (map (\<lambda>x. round_seconds (f x)) (x # xs))) - sum_list (map f (x # xs)) / 1000
      = (of_int (round_seconds (f x)) - f x / 1000)
        + (of_int (sum_list (map (\<lambda>x. round_seconds (f x)) xs)) - sum_list (map f xs) / 1000)"
    by (simp add: add_divide_distrib)
  moreover have "(of_nat (length (x # xs)) / 2 :: rat) = 1 / 2 + of_nat (length xs) / 2" by (simp add: add_divide_distrib)
  ultimately show ?case using Cons round_seconds_near[of "f x"] by linarith
qed simp

lemma tile_sums:
  assumes hs: "tiles (of_int a) (of_int b) hs"
    and g: "\<And>a b. g (compute_bucket_from_events db st a (of_int (b - a) / 1000) None now)
        = round_seconds (spent_ms p db st now (of_int a) (of_int b))"
  shows "\<bar>of_int (sum_list (map (\<lambda>h. g (compute_bucket_from_events db st (hb_start h) (hb_duration h) None now)) hs))
      - of_int (g (compute_bucket_from_events db st a (of_int (b - a) / 1000) None now))\<bar> \<le> (of_nat (length hs + 1) / 2 :: rat)"
proof -
  from tiles_consecutive[OF hs] obtain ws where ws: "consecutive a b ws"
    "map (\<lambda>h. (hb_start h, hb_duration h)) hs = map (\<lambda>(s, e). (s, of_int (e - s) / 1000)) ws" by blast
  let ?f = "\<lambda>(s, e). spent_ms p db st now (of_int s) (of_int e)"
  have "map (\<lambda>h. g (compute_bucket_from_events db st (hb_start h) (hb_duration h) None now)) hs
      = map (\<lambda>(s, d). g (compute_bucket_from_events db st s d None now)) (map (\<lambda>h. (hb_start h, hb_duration h)) hs)"
    by simp
  also have "\<dots> = map (\<lambda>x. round_seconds (?f x)) ws"
    unfolding ws(2) by (simp add: g[symmetric] case_prod_beta)
  finally have m: "map (\<lambda>h. g (compute_bucket_from_events db st (hb_start h) (hb_duration h) None now)) hs
      = map (\<lambda>x. round_seconds (?f x)) ws" .
  have len: "length hs = length ws" using ws(2) map_eq_imp_length_eq by blast
  have "\<bar>of_int (sum_list (map (\<lambda>x. round_seconds (?f x)) ws)) - spent_ms p db st now (of_int a) (of_int b) / 1000\<bar>
      \<le> of_nat (length ws) / 2"
    using sum_rounded[of ?f ws] spent_consecutive[OF ws(1), of p db st now] by simp
  moreover have "(of_nat (length hs + 1) / 2 :: rat) = of_nat (length ws) / 2 + 1 / 2"
    by (simp add: len add_divide_distrib)
  ultimately show ?thesis
    unfolding m g using round_seconds_near[of "spent_ms p db st now (of_int a) (of_int b)"] by linarith
qed

text \<open>
  C4: the base buckets of a shift add up to the shift.  For a shift of whole seconds, computing
  its hour buckets one by one and summing them gives run, down, planned and unplanned seconds
  that differ from those computed over the shift at once by at most half a second for each
  bucket and half a second for the shift, the rounding of each: no time is counted twice or lost.
\<close>
theorem hour_buckets_sum_to_shift:
  assumes d: "sw_duration shift = of_int d" "0 < d"
    and hs: "hs = hour_buckets_for_shift shift anchor"
    and summed: "summed = sum_kpis (map (\<lambda>h. compute_bucket_from_events db st (hb_start h) (hb_duration h) None now) hs)"
    and whole: "whole = compute_bucket_from_events db st (sw_start shift) (sw_duration shift) None now"
  shows "\<bar>of_int (bk_run summed) - of_int (bk_run whole)\<bar> \<le> (of_nat (length hs + 1) / 2 :: rat)
    \<and> \<bar>of_int (bk_down summed) - of_int (bk_down whole)\<bar> \<le> (of_nat (length hs + 1) / 2 :: rat)
    \<and> \<bar>of_int (bk_planned_down summed) - of_int (bk_planned_down whole)\<bar> \<le> (of_nat (length hs + 1) / 2 :: rat)
    \<and> \<bar>of_int (bk_unplanned_down summed) - of_int (bk_unplanned_down whole)\<bar> \<le> (of_nat (length hs + 1) / 2 :: rat)"
proof -
  define a b where "a = sw_start shift" and "b = sw_start shift + d * 1000"
  have dur: "sw_duration shift = of_int (b - a) / 1000" by (simp add: d(1) a_def b_def)
  have tl: "tiles (of_int a) (of_int b) hs"
    using hour_buckets_tile[of shift anchor] d by (simp add: hs a_def b_def)
  have w: "whole = compute_bucket_from_events db st a (of_int (b - a) / 1000) None now"
    by (simp only: whole dur a_def)
  note s = tile_sums[OF tl, where db = db and st = st and now = now]
  show ?thesis
    using s[OF bucket_durations(1)] s[OF bucket_durations(2)] s[OF bucket_durations(3)] s[OF bucket_durations(4)]
    unfolding summed sum_kpis_def foldl_add_kpis w by (simp add: zero_kpis_def o_def)
qed

theorem hour_buckets_sum_to_shift_witness:
  "\<bar>of_int (bk_run (sum_kpis (map (\<lambda>h. compute_bucket_from_events sample_metric_db ''s'' (hb_start h) (hb_duration h) None 0)
        (hour_buckets_for_shift sample_shift 0))))
    - of_int (bk_run (compute_bucket_from_events sample_metric_db ''s'' (sw_start sample_shift) (sw_duration sample_shift) None 0))\<bar>
   \<le> (of_nat (length (hour_buckets_for_shift sample_shift 0) + 1) / 2 :: rat)"
  using hour_buckets_sum_to_shift[of sample_shift 6000, OF _ _ refl refl refl, of sample_metric_db "''s''" 0 0]
  by (simp add: sample_shift_def)

lemma tally_nonneg:
  "0 \<le> sm_run (tally_state_logs db st a b now jc)" "0 \<le> sm_unplanned (tally_state_logs db st a b now jc)"
  unfolding tally_state_logs_def case_prod_beta Let_def tally_fold
  by (auto simp: zero_times_def entry_ms_def intro!: sum_list_nonneg)

lemma round_seconds_nonneg: "0 \<le> m \<Longrightarrow> 0 \<le> round_seconds m"
  unfolding round_seconds_def by (rule js_round_nonneg) simp

lemma bucket_elapsed:
  "bk_elapsed_planned (compute_bucket_from_events db st a dur jf now)
     = bk_run (compute_bucket_from_events db st a dur jf now) + bk_unplanned_down (compute_bucket_from_events db st a dur jf now)
   \<and> 0 \<le> bk_run (compute_bucket_from_events db st a dur jf now)
   \<and> 0 \<le> bk_unplanned_down (compute_bucket_from_events db st a dur jf now)"
  by (simp add: compute_bucket_from_events_def Let_def zero_kpis_def tally_nonneg round_seconds_nonneg)

lemma sum_elapsed:
  assumes "\<forall>k \<in> set ks. bk_elapsed_planned k = bk_run k + bk_unplanned_down k \<and> 0 \<le> bk_run k \<and> 0 \<le> bk_unplanned_down k"
  shows "bk_elapsed_planned (sum_kpis ks) = bk_run (sum_kpis ks) + bk_unplanned_down (sum_kpis ks)
    \<and> 0 \<le> bk_run (sum_kpis ks) \<and> 0 \<le> bk_unplanned_down (sum_kpis ks)"
  using assms unfolding sum_kpis_def foldl_add_kpis zero_kpis_def by (induction ks) auto

lemma oee_product:
  assumes "0 < bk_run k" "0 < bk_elapsed_planned k" "0 < bk_total_items k"
  shows "oee k = Some (the (availability k) * the (performance k) * the (quality k))"
  using assms by (simp add: oee_def availability_def performance_def quality_def)

text \<open>
  the ratios of any sum of computed buckets.  The availability, where there is one, lies
  between 0 and 1.  With items and run time the OEE is the product of availability, performance
  and quality; without run time the performance and hence the product is 0, but the OEE is still
  the quotient of the good ideal time and the elapsed time, which need not be 0.
\<close>
theorem oee_ratios:
  assumes k: "k = sum_kpis (map (\<lambda>(st, a, dur, jf). compute_bucket_from_events db st a dur jf now) bs)"
    and elapsed: "0 < bk_elapsed_planned k"
  shows "(\<exists>v. availability k = Some v \<and> 0 \<le> v \<and> v \<le> 1)
    \<and> (if 0 < bk_run k then 0 < bk_total_items k \<longrightarrow> oee k = Some (the (availability k) * the (performance k) * the (quality k))
       else performance k = Some 0
         \<and> (0 < bk_total_items k \<longrightarrow> oee k = Some (of_int (bk_ideal_cycle k) * the (quality k) / of_int (bk_elapsed_planned k))))"
proof -
  have e: "bk_elapsed_planned k = bk_run k + bk_unplanned_down k" "0 \<le> bk_run k" "0 \<le> bk_unplanned_down k"
    using sum_elapsed[of "map (\<lambda>(st, a, dur, jf). compute_bucket_from_events db st a dur jf now) bs"] bucket_elapsed
    unfolding k by (auto simp: case_prod_beta)
  have "(of_int (bk_run k) / of_int (bk_elapsed_planned k) :: rat) \<le> 1"
    using e elapsed by (simp add: divide_le_eq)
  moreover have "0 \<le> (of_int (bk_run k) / of_int (bk_elapsed_planned k) :: rat)"
    using e elapsed by simp
  ultimately show ?thesis
    using elapsed oee_product[of k] by (auto simp: availability_def performance_def oee_def quality_def)
qed

definition sample_args :: "(uuid \<times> ms \<times> rat \<times> job_filter option) list" where
  "sample_args = [(''s'', 0, 100, None)]"

theorem oee_ratios_witness:
  "availability (sum_kpis (map (\<lambda>(st, a, dur, jf). compute_bucket_from_events sample_metric_db st a dur jf 100000) sample_args)) = Some 1"
proof -
  have b: "bk_run (sum_kpis (map (\<lambda>(st, a, dur, jf). compute_bucket_from_events sample_metric_db st a dur jf 100000) sample_args)) = 100"
    "bk_elapsed_planned (sum_kpis (map (\<lambda>(st, a, dur, jf). compute_bucket_from_events sample_metric_db st a dur jf 100000) sample_args)) = 100"
    unfolding sum_kpis_def foldl_add_kpis sample_args_def
    by (simp_all add: compute_bucket_from_events_def Let_def tally_state_logs_def window_logs_def tally_fold zero_kpis_def
        sample_metric_db_def sample_cmds_def state_eval entry_ms_def clip_ms_def zero_times_def round_seconds_def
        tally_log_def)
  from oee_ratios[OF refl, of sample_metric_db 100000 sample_args] b show ?thesis
    by (auto simp: availability_def)
qed

end
