(* ===== verification/Iam.thy ===== *)
theory Iam
  imports Prelude
begin

text \<open>
  Access control: permissions (\<open>packages/services/src/iam/permissions.ts\<close>), roles
  (\<open>roles.ts\<close>), role assignments (\<open>assignments.ts\<close>), the permission gate of the HTTP routes
  (\<open>apps/api/src/plugins/require-permission.ts\<close>), workspace members
  (\<open>apps/api/src/services/account/workspace/members.ts\<close>) with their routes, and the
  administration of users (\<open>account/user/crud.ts\<close>) with its routes.  Tables are lists of rows;
  unique keys, foreign keys and cascades of the schema are part of the writes.
\<close>

section \<open>Permissions\<close>

definition resources :: "string list" where
  "resources = [''facility'', ''schedule'', ''job'', ''status'', ''tool'', ''product'', ''dashboard'', ''user'',
     ''employee'', ''billing'', ''settings'']"

definition perm_actions :: "string list" where
  "perm_actions = [''read'', ''write'', ''admin'']"

definition owner_permission :: string where
  "owner_permission = ''owner:all''"

definition all_permissions :: "string list" where
  "all_permissions =
     concat (map (\<lambda>r. map (\<lambda>a. r @ '':'' @ a) perm_actions) resources) @ [owner_permission]"

definition is_permission :: "string \<Rightarrow> bool" where
  "is_permission p = (p \<in> set all_permissions)"

definition has_owner_permission :: "string list \<Rightarrow> bool" where
  "has_owner_permission ps = (owner_permission \<in> set ps)"

datatype iam_error =
    InvalidPermissions "string list"
  | OwnerReserved
  | RoleNotFound
  | SystemRoleFixed
  | UserNotFound
  | SystemUser
  | ScopeMismatch string
  | SiteNotFound
  | MembershipNotFound
  | AssignmentNotFound
  | IamUniqueViolation
  | WorkspaceMissing
  | RoleWorkspaceMismatch
  | SiteContextRequired
  | SiteWorkspaceMismatch
  | MissingUserManagement
  | OwnerRequired
  | LastOwner
  | AccountNotLocked

definition validate_permissions :: "string list \<Rightarrow> iam_error + string list" where
  "validate_permissions ps =
     (let bad = filter (\<lambda>p. \<not> is_permission p) ps in if bad \<noteq> [] then Inl (InvalidPermissions bad) else Inr ps)"

datatype system_role = Support | Engineer

definition ends_with :: "string \<Rightarrow> string \<Rightarrow> bool" where
  "ends_with suf s = (take (length suf) (rev s) = rev suf)"

definition starts_with :: "string \<Rightarrow> string \<Rightarrow> bool" where
  "starts_with pre s = (take (length pre) s = pre)"

definition system_role_permissions :: "system_role \<Rightarrow> string list" where
  "system_role_permissions r =
     (case r of
        Support \<Rightarrow> filter (\<lambda>p. ends_with '':read'' p \<and> \<not> starts_with ''billing:'' p) all_permissions
      | Engineer \<Rightarrow> filter (\<lambda>p. p \<noteq> owner_permission) all_permissions)"

section \<open>Tables\<close>

datatype role_scope = WorkspaceScope | SiteScope
datatype user_status = PendingUser | ActiveUser | DisabledUser

record iam_user =
  us_id :: uuid
  us_email :: string
  us_status :: user_status
  us_system :: "system_role option"
  us_password :: "string option"
  us_failed :: nat
  us_locked :: "ms option"
  us_last_login :: "ms option"
  us_invite :: "string option"
  us_invite_expiry :: "ms option"
  us_invite_tries :: nat
  us_reset :: "string option"
  us_reset_expiry :: "ms option"
  us_reset_tries :: nat

record role =
  ro_id :: uuid
  ro_workspace :: uuid
  ro_name :: string
  ro_description :: "string option"
  ro_scope :: role_scope
  ro_permissions :: "string list"
  ro_system :: bool

record membership =
  me_id :: uuid
  me_user :: uuid
  me_workspace :: uuid
  me_joined :: ms
  me_employee :: "uuid option"

record role_assignment =
  ra_id :: uuid
  ra_member :: uuid
  ra_role :: uuid
  ra_site :: "uuid option"
  ra_created :: ms

record iam_site =
  si_id :: uuid
  si_workspace :: uuid
  si_name :: string

record refresh_token =
  tk_id :: uuid
  tk_hash :: string
  tk_owner :: uuid
  tk_expires :: ms
  tk_revoked :: "ms option"

record iam_db =
  id_workspaces :: "uuid list"
  id_users :: "iam_user list"
  id_roles :: "role list"
  id_members :: "membership list"
  id_assignments :: "role_assignment list"
  id_sites :: "iam_site list"
  id_tokens :: "refresh_token list"

definition find_user :: "uuid \<Rightarrow> iam_db \<Rightarrow> iam_user option" where
  "find_user i db = find (\<lambda>u. us_id u = i) (id_users db)"

definition find_role :: "uuid \<Rightarrow> iam_db \<Rightarrow> role option" where
  "find_role i db = find (\<lambda>r. ro_id r = i) (id_roles db)"

definition find_site :: "uuid \<Rightarrow> iam_db \<Rightarrow> iam_site option" where
  "find_site i db = find (\<lambda>s. si_id s = i) (id_sites db)"

definition find_member :: "uuid \<Rightarrow> uuid \<Rightarrow> iam_db \<Rightarrow> membership option" where
  "find_member u ws db = find (\<lambda>m. me_user m = u \<and> me_workspace m = ws) (id_members db)"

definition member_of :: "role_assignment \<Rightarrow> iam_db \<Rightarrow> membership option" where
  "member_of a db = find (\<lambda>m. me_id m = ra_member a) (id_members db)"

definition assignment_of :: "uuid \<Rightarrow> uuid \<Rightarrow> iam_db \<Rightarrow> role_assignment \<Rightarrow> bool" where
  "assignment_of u ws db a =
     (case member_of a db of None \<Rightarrow> False | Some m \<Rightarrow> me_user m = u \<and> me_workspace m = ws)"

definition permissions_of :: "role_assignment \<Rightarrow> iam_db \<Rightarrow> string list" where
  "permissions_of a db = (case find_role (ra_role a) db of None \<Rightarrow> [] | Some r \<Rightarrow> ro_permissions r)"

section \<open>Permission checks\<close>

text \<open>The site of a context counts when it is a non-empty string.\<close>
definition site_matches :: "uuid option \<Rightarrow> role_assignment \<Rightarrow> bool" where
  "site_matches ctx a =
     (case ra_site a of None \<Rightarrow> True | Some s \<Rightarrow> (case ctx of None \<Rightarrow> False | Some c \<Rightarrow> c \<noteq> '''' \<and> s = c))"

definition effective_permissions :: "uuid \<Rightarrow> uuid \<Rightarrow> uuid option \<Rightarrow> iam_db \<Rightarrow> string list" where
  "effective_permissions u ws site db =
     (case find_user u db of
        None \<Rightarrow> []
      | Some usr \<Rightarrow>
          (case us_system usr of
             Some sr \<Rightarrow> system_role_permissions sr
           | None \<Rightarrow> remdups (filter is_permission (concat (map (\<lambda>a. permissions_of a db)
                       (filter (\<lambda>a. assignment_of u ws db a \<and> site_matches site a) (id_assignments db)))))))"

definition has_permission :: "uuid \<Rightarrow> string \<Rightarrow> uuid \<Rightarrow> uuid option \<Rightarrow> iam_db \<Rightarrow> bool" where
  "has_permission u p ws site db = (p \<in> set (effective_permissions u ws site db))"

definition has_any_permission :: "uuid \<Rightarrow> string list \<Rightarrow> uuid \<Rightarrow> uuid option \<Rightarrow> iam_db \<Rightarrow> bool" where
  "has_any_permission u ps ws site db = (\<exists>p \<in> set ps. p \<in> set (effective_permissions u ws site db))"

datatype accessible = AllSites | SomeSites "uuid list"

text \<open>The loop over the assignments: an assignment without site ends it with all sites.\<close>
fun collect_sites :: "string \<Rightarrow> iam_db \<Rightarrow> role_assignment list \<Rightarrow> uuid list \<Rightarrow> accessible" where
  "collect_sites p db [] acc = SomeSites acc"
| "collect_sites p db (a # as) acc =
     (if p \<notin> set (permissions_of a db) then collect_sites p db as acc
      else (case ra_site a of
              None \<Rightarrow> AllSites
            | Some s \<Rightarrow> collect_sites p db as (if s \<in> set acc then acc else acc @ [s])))"

definition accessible_sites :: "uuid \<Rightarrow> string \<Rightarrow> uuid \<Rightarrow> iam_db \<Rightarrow> accessible" where
  "accessible_sites u p ws db =
     (case find_user u db of
        None \<Rightarrow> SomeSites []
      | Some usr \<Rightarrow>
          (case us_system usr of
             Some sr \<Rightarrow> if p \<in> set (system_role_permissions sr) then AllSites else SomeSites []
           | None \<Rightarrow> collect_sites p db (filter (assignment_of u ws db) (id_assignments db)) []))"

text \<open>The sites by name; \<open>rank\<close> is the collation order of the database.\<close>
definition list_accessible_sites :: "(string \<Rightarrow> nat) \<Rightarrow> uuid \<Rightarrow> uuid \<Rightarrow> string \<Rightarrow> iam_db \<Rightarrow> iam_site list" where
  "list_accessible_sites rank u ws p db =
     sort_key (\<lambda>s. rank (si_name s))
       (filter (\<lambda>s. si_workspace s = ws
            \<and> (case accessible_sites u p ws db of AllSites \<Rightarrow> True | SomeSites ids \<Rightarrow> si_id s \<in> set ids))
         (id_sites db))"

section \<open>Roles\<close>

definition same_role_key :: "uuid \<Rightarrow> string \<Rightarrow> role_scope \<Rightarrow> role \<Rightarrow> bool" where
  "same_role_key ws name scope r = (ro_workspace r = ws \<and> ro_name r = name \<and> ro_scope r = scope)"

definition create_role ::
  "uuid \<Rightarrow> uuid \<Rightarrow> string \<Rightarrow> string option \<Rightarrow> role_scope \<Rightarrow> string list \<Rightarrow> iam_db \<Rightarrow> iam_error + (role \<times> iam_db)" where
  "create_role i ws name desc scope perms db =
     (case validate_permissions perms of
        Inl e \<Rightarrow> Inl e
      | Inr ps \<Rightarrow>
          if owner_permission \<in> set ps then Inl OwnerReserved
          else if ws \<notin> set (id_workspaces db) then Inl WorkspaceMissing
          else if list_ex (same_role_key ws name scope) (id_roles db) then Inl IamUniqueViolation
          else (let r = \<lparr>ro_id = i, ro_workspace = ws, ro_name = name, ro_description = desc, ro_scope = scope,
                         ro_permissions = ps, ro_system = False\<rparr>
                in Inr (r, db\<lparr>id_roles := id_roles db @ [r]\<rparr>)))"

text \<open>An absent field of the input leaves the column.\<close>
definition role_changes :: "string option \<Rightarrow> string option \<Rightarrow> string list option \<Rightarrow> role \<Rightarrow> role" where
  "role_changes name desc perms r =
     r\<lparr>ro_name := (case name of None \<Rightarrow> ro_name r | Some n \<Rightarrow> n),
       ro_description := (case desc of None \<Rightarrow> ro_description r | Some d \<Rightarrow> Some d),
       ro_permissions := (case perms of None \<Rightarrow> ro_permissions r | Some ps \<Rightarrow> ps)\<rparr>"

definition update_role ::
  "uuid \<Rightarrow> string option \<Rightarrow> string option \<Rightarrow> string list option \<Rightarrow> iam_db \<Rightarrow> iam_error + (role \<times> iam_db)" where
  "update_role i name desc perms db =
     (case find_role i db of
        None \<Rightarrow> Inl RoleNotFound
      | Some r \<Rightarrow>
          if ro_system r then Inl SystemRoleFixed
          else (case (case perms of None \<Rightarrow> Inr [] | Some ps \<Rightarrow> validate_permissions ps) of
                  Inl e \<Rightarrow> Inl e
                | Inr ps \<Rightarrow>
                    if owner_permission \<in> set ps then Inl OwnerReserved
                    else if list_ex (\<lambda>q. ro_id q \<noteq> i
                            \<and> same_role_key (ro_workspace r) (ro_name (role_changes name desc perms r)) (ro_scope r) q)
                          (id_roles db)
                    then Inl IamUniqueViolation
                    else Inr (role_changes name desc perms r,
                              db\<lparr>id_roles := update_where (\<lambda>q. ro_id q = i) (role_changes name desc perms) (id_roles db)\<rparr>)))"

text \<open>Removing a role cascades to its assignments; a missing role is not an error.\<close>
definition remove_role :: "uuid \<Rightarrow> iam_db \<Rightarrow> iam_error + iam_db" where
  "remove_role i db =
     (case find_role i db of
        None \<Rightarrow> Inr db
      | Some r \<Rightarrow>
          if ro_system r then Inl SystemRoleFixed
          else Inr (db\<lparr>id_roles := filter (\<lambda>q. ro_id q \<noteq> i) (id_roles db),
                       id_assignments := filter (\<lambda>a. ra_role a \<noteq> i) (id_assignments db)\<rparr>))"

definition find_system_role :: "uuid \<Rightarrow> string \<Rightarrow> role_scope \<Rightarrow> iam_db \<Rightarrow> role option" where
  "find_system_role ws name scope db = find (same_role_key ws name scope) (id_roles db)"

section \<open>Role assignments\<close>

definition assign ::
  "uuid \<Rightarrow> ms \<Rightarrow> uuid \<Rightarrow> uuid \<Rightarrow> uuid option \<Rightarrow> iam_db \<Rightarrow> iam_error + (role_assignment \<times> iam_db)" where
  "assign i now u rid site db =
     (case find_user u db of
        None \<Rightarrow> Inl UserNotFound
      | Some usr \<Rightarrow>
          if us_system usr \<noteq> None then Inl SystemUser
          else (case find_role rid db of
            None \<Rightarrow> Inl RoleNotFound
          | Some r \<Rightarrow>
              if ro_scope r = WorkspaceScope \<and> site \<noteq> None
              then Inl (ScopeMismatch ''Workspace-scoped role cannot be assigned with a siteId'')
              else if ro_scope r = SiteScope \<and> site = None
              then Inl (ScopeMismatch ''Site-scoped role requires a siteId'')
              else (case (case site of
                            None \<Rightarrow> Inr ()
                          | Some s \<Rightarrow>
                              (case find_site s db of
                                 None \<Rightarrow> Inl SiteNotFound
                               | Some x \<Rightarrow> if si_workspace x \<noteq> ro_workspace r
                                            then Inl (ScopeMismatch ''Site does not belong to the role's workspace'')
                                            else Inr ())) of
                Inl e \<Rightarrow> Inl e
              | Inr _ \<Rightarrow>
                  (case find_member u (ro_workspace r) db of
                     None \<Rightarrow> Inl MembershipNotFound
                   | Some m \<Rightarrow>
                       (let a = \<lparr>ra_id = i, ra_member = me_id m, ra_role = rid, ra_site = site, ra_created = now\<rparr>
                        in Inr (a, db\<lparr>id_assignments := id_assignments db @ [a]\<rparr>))))))"

definition unassign :: "uuid \<Rightarrow> iam_db \<Rightarrow> iam_error + iam_db" where
  "unassign i db =
     (if list_ex (\<lambda>a. ra_id a = i) (id_assignments db)
      then Inr (db\<lparr>id_assignments := filter (\<lambda>a. ra_id a \<noteq> i) (id_assignments db)\<rparr>)
      else Inl AssignmentNotFound)"

definition list_for_user :: "uuid \<Rightarrow> uuid option \<Rightarrow> iam_db \<Rightarrow> role_assignment list" where
  "list_for_user u ws db =
     sort_key ra_created
       (filter (\<lambda>a. case member_of a db of
                      None \<Rightarrow> False
                    | Some m \<Rightarrow> me_user m = u \<and> (case ws of None \<Rightarrow> True | Some w \<Rightarrow> w = '''' \<or> me_workspace m = w))
         (id_assignments db))"

text \<open>The site filter is absent (None), null (Some None) or an id.\<close>
definition list_for_workspace :: "uuid \<Rightarrow> uuid option option \<Rightarrow> iam_db \<Rightarrow> role_assignment list" where
  "list_for_workspace ws site db =
     sort_key ra_created
       (filter (\<lambda>a. (case member_of a db of None \<Rightarrow> False | Some m \<Rightarrow> me_workspace m = ws)
            \<and> (case site of None \<Rightarrow> True | Some s \<Rightarrow> ra_site a = s))
         (id_assignments db))"

section \<open>The gate of a route\<close>

text \<open>The caller that the access token resolved to, and the parameters of the URL.\<close>
record request =
  rq_user :: "uuid option"
  rq_workspace :: "uuid option"
  rq_site :: "uuid option"
  rq_params :: "string \<Rightarrow> string option"

datatype site_scope_opt = NoScope | OnlyWorkspace | OnlySite

record gate_opts =
  go_scope :: site_scope_opt
  go_workspace :: "string option"
  go_site :: "string option"

definition no_opts :: gate_opts where
  "no_opts = \<lparr>go_scope = NoScope, go_workspace = None, go_site = None\<rparr>"

datatype gate_result = Unauthorized string | Forbidden string | Passed

definition truthy :: "string option \<Rightarrow> bool" where
  "truthy s = (case s of None \<Rightarrow> False | Some x \<Rightarrow> x \<noteq> '''')"

definition require_permission :: "string \<Rightarrow> gate_opts \<Rightarrow> request \<Rightarrow> iam_db \<Rightarrow> gate_result" where
  "require_permission p opts rq db =
     (if \<not> truthy (rq_user rq) then Unauthorized ''Unauthorized''
      else
        (let ws = (case go_workspace opts of Some k \<Rightarrow> rq_params rq k | None \<Rightarrow> rq_workspace rq)
         in if \<not> truthy ws then Unauthorized ''No workspace context''
            else
              (let key = (case go_site opts of Some k \<Rightarrow> k | None \<Rightarrow> ''siteId'');
                   site = (if go_scope opts = OnlyWorkspace then None
                           else (case rq_params rq key of Some s \<Rightarrow> Some s | None \<Rightarrow> rq_site rq))
               in if go_scope opts = OnlySite \<and> \<not> truthy site then Unauthorized ''No site context''
                  else if has_permission (the (rq_user rq)) p (the ws) site db then Passed
                  else Forbidden p)))"

section \<open>Workspace members\<close>

definition is_owner_role :: "role \<Rightarrow> bool" where
  "is_owner_role r = (ro_system r \<and> ro_scope r = WorkspaceScope \<and> has_owner_permission (ro_permissions r))"

definition has_reserved_owner :: "role \<Rightarrow> bool" where
  "has_reserved_owner r = (has_owner_permission (ro_permissions r) \<and> \<not> is_owner_role r)"

definition resolve_workspace_role :: "uuid \<Rightarrow> uuid \<Rightarrow> iam_db \<Rightarrow> iam_error + role" where
  "resolve_workspace_role ws rid db =
     (case find_role rid db of
        None \<Rightarrow> Inl RoleNotFound
      | Some r \<Rightarrow>
          if ro_workspace r \<noteq> ws then Inl RoleWorkspaceMismatch
          else if ro_scope r \<noteq> WorkspaceScope then Inl (ScopeMismatch ''site-scoped'')
          else Inr r)"

text \<open>The arguments \<open>i\<close> and \<open>j\<close> are the fresh ids of the membership and of the assignment.\<close>
definition add_member ::
  "uuid \<Rightarrow> uuid \<Rightarrow> ms \<Rightarrow> uuid \<Rightarrow> uuid \<Rightarrow> uuid \<Rightarrow> iam_db \<Rightarrow> iam_error + (membership \<times> iam_db)" where
  "add_member i j now ws u rid db =
     (case resolve_workspace_role ws rid db of
        Inl e \<Rightarrow> Inl e
      | Inr r \<Rightarrow>
          if find_user u db = None then Inl UserNotFound
          else if find_member u ws db \<noteq> None then Inl IamUniqueViolation
          else (let m = \<lparr>me_id = i, me_user = u, me_workspace = ws, me_joined = now, me_employee = None\<rparr>
                in Inr (m, db\<lparr>id_members := id_members db @ [m],
                             id_assignments := id_assignments db @
                               [\<lparr>ra_id = j, ra_member = i, ra_role = ro_id r, ra_site = None, ra_created = now\<rparr>]\<rparr>)))"

text \<open>Deleting a membership cascades to its role assignments.\<close>
definition remove_member :: "uuid \<Rightarrow> uuid \<Rightarrow> iam_db \<Rightarrow> iam_error + iam_db" where
  "remove_member ws u db =
     (case find_member u ws db of
        None \<Rightarrow> Inl MembershipNotFound
      | Some m \<Rightarrow> Inr (db\<lparr>id_members := filter (\<lambda>x. me_id x \<noteq> me_id m) (id_members db),
                          id_assignments := filter (\<lambda>a. ra_member a \<noteq> me_id m) (id_assignments db)\<rparr>))"

text \<open>Another active customer user of the workspace with an owner role at workspace scope.\<close>
definition owner_member :: "uuid \<Rightarrow> iam_db \<Rightarrow> membership \<Rightarrow> bool" where
  "owner_member ws db m =
     (me_workspace m = ws
      \<and> (case find_user (me_user m) db of None \<Rightarrow> False | Some u \<Rightarrow> us_status u = ActiveUser \<and> us_system u = None)
      \<and> (\<exists>a \<in> set (id_assignments db). ra_member a = me_id m \<and> ra_site a = None
           \<and> (case find_role (ra_role a) db of None \<Rightarrow> False | Some r \<Rightarrow> is_owner_role r)))"

definition has_owner_assignment :: "membership \<Rightarrow> uuid option \<Rightarrow> iam_db \<Rightarrow> bool" where
  "has_owner_assignment m site db =
     (\<exists>a \<in> set (id_assignments db). ra_member a = me_id m \<and> ra_site a = site
        \<and> (case find_role (ra_role a) db of None \<Rightarrow> False | Some r \<Rightarrow> is_owner_role r))"

record role_change =
  rc_actor :: uuid
  rc_target :: uuid
  rc_workspace :: uuid
  rc_site :: "uuid option"
  rc_role :: uuid

definition replace_assignment :: "uuid \<Rightarrow> ms \<Rightarrow> membership \<Rightarrow> uuid \<Rightarrow> uuid option \<Rightarrow> iam_db \<Rightarrow> iam_db" where
  "replace_assignment i now m rid site db =
     db\<lparr>id_assignments :=
        filter (\<lambda>a. \<not> (ra_member a = me_id m \<and> ra_site a = site)) (id_assignments db)
        @ [\<lparr>ra_id = i, ra_member = me_id m, ra_role = rid, ra_site = site, ra_created = now\<rparr>]\<rparr>"

text \<open>The serializable transaction of \<open>updateRole\<close>.\<close>
definition change_role_tx :: "uuid \<Rightarrow> ms \<Rightarrow> role_change \<Rightarrow> role \<Rightarrow> bool \<Rightarrow> iam_db \<Rightarrow> iam_error + iam_db" where
  "change_role_tx i now c r actor_owner db =
     (case (if ro_scope r = SiteScope
            then (case Option.bind (rc_site c) (\<lambda>s. find_site s db) of
                    None \<Rightarrow> Inl SiteNotFound
                  | Some s \<Rightarrow> if si_workspace s \<noteq> rc_workspace c then Inl SiteWorkspaceMismatch else Inr ())
            else Inr ()) of
        Inl e \<Rightarrow> Inl e
      | Inr _ \<Rightarrow>
          (case find_member (rc_target c) (rc_workspace c) db of
             None \<Rightarrow> Inl MembershipNotFound
           | Some m \<Rightarrow>
               (let site = (if ro_scope r = SiteScope then rc_site c else None);
                    current_owner = has_owner_assignment m site db
                in if current_owner \<and> \<not> actor_owner then Inl OwnerRequired
                   else if current_owner \<and> \<not> is_owner_role r
                     \<and> \<not> list_ex (\<lambda>x. me_user x \<noteq> rc_target c \<and> owner_member (rc_workspace c) db x) (id_members db)
                   then Inl LastOwner
                   else Inr (replace_assignment i now m (ro_id r) site db))))"

definition change_member_role :: "uuid \<Rightarrow> ms \<Rightarrow> role_change \<Rightarrow> iam_db \<Rightarrow> iam_error + iam_db" where
  "change_member_role i now c db =
     (case find_role (rc_role c) db of
        None \<Rightarrow> Inl RoleNotFound
      | Some r \<Rightarrow>
          if ro_workspace r \<noteq> rc_workspace c then Inl RoleWorkspaceMismatch
          else if has_reserved_owner r then Inl OwnerReserved
          else if ro_scope r = SiteScope \<and> \<not> truthy (rc_site c) then Inl SiteContextRequired
          else
            (let ctx = (if ro_scope r = SiteScope then rc_site c else None);
                 actor_owner = has_permission (rc_actor c) owner_permission (rc_workspace c) None db
             in if \<not> has_any_permission (rc_actor c) [''user:write'', ''user:admin''] (rc_workspace c) ctx db
                then Inl MissingUserManagement
                else if is_owner_role r \<and> \<not> actor_owner then Inl OwnerRequired
                else change_role_tx i now c r actor_owner db))"

section \<open>Administration of users\<close>

definition set_user :: "uuid \<Rightarrow> (iam_user \<Rightarrow> iam_user) \<Rightarrow> iam_db \<Rightarrow> iam_db" where
  "set_user i f db = db\<lparr>id_users := update_where (\<lambda>u. us_id u = i) f (id_users db)\<rparr>"

definition disable_user :: "uuid \<Rightarrow> ms \<Rightarrow> iam_db \<Rightarrow> iam_error + iam_db" where
  "disable_user i now db =
     (if find_user i db = None then Inl UserNotFound
      else Inr ((set_user i (\<lambda>u. u\<lparr>us_status := DisabledUser\<rparr>) db)
             \<lparr>id_tokens := update_where (\<lambda>t. tk_owner t = i \<and> tk_revoked t = None) (\<lambda>t. t\<lparr>tk_revoked := Some now\<rparr>) (id_tokens db)\<rparr>))"

definition enable_user :: "uuid \<Rightarrow> iam_db \<Rightarrow> iam_error + iam_db" where
  "enable_user i db =
     (if find_user i db = None then Inl UserNotFound
      else Inr (set_user i (\<lambda>u. u\<lparr>us_status := ActiveUser, us_failed := 0, us_locked := None\<rparr>) db))"

definition unlock_account :: "uuid \<Rightarrow> iam_db \<Rightarrow> iam_error + iam_db" where
  "unlock_account i db =
     (case find_user i db of
        None \<Rightarrow> Inl UserNotFound
      | Some u \<Rightarrow>
          if us_locked u = None \<and> us_failed u = 0 then Inl AccountNotLocked
          else Inr (set_user i (\<lambda>u. u\<lparr>us_failed := 0, us_locked := None\<rparr>) db))"

text \<open>Whether the account is locked now, the failed attempts, and the end of the lock.\<close>
definition lock_status :: "uuid \<Rightarrow> ms \<Rightarrow> iam_db \<Rightarrow> (bool \<times> nat \<times> ms option) option" where
  "lock_status i now db =
     map_option (\<lambda>u. (case us_locked u of None \<Rightarrow> False | Some t \<Rightarrow> t > now, us_failed u, us_locked u)) (find_user i db)"

section \<open>Routes\<close>

datatype response = Status nat | Done nat iam_db

definition gated :: "gate_result \<Rightarrow> response \<Rightarrow> response" where
  "gated g k = (case g of Unauthorized _ \<Rightarrow> Status 401 | Forbidden _ \<Rightarrow> Status 403 | Passed \<Rightarrow> k)"

definition in_workspace :: gate_opts where
  "in_workspace = no_opts\<lparr>go_workspace := Some ''id''\<rparr>"

definition workspace_only :: gate_opts where
  "workspace_only = no_opts\<lparr>go_scope := OnlyWorkspace\<rparr>"

definition add_member_route :: "uuid \<Rightarrow> uuid \<Rightarrow> ms \<Rightarrow> request \<Rightarrow> uuid \<Rightarrow> uuid \<Rightarrow> iam_db \<Rightarrow> response" where
  "add_member_route i j now rq u rid db =
     gated (require_permission ''user:write'' in_workspace rq db)
       (let ws = the (rq_params rq ''id'')
        in if find_member u ws db \<noteq> None then Status 400
           else (case add_member i j now ws u rid db of Inl _ \<Rightarrow> Status 400 | Inr (_, db') \<Rightarrow> Done 201 db'))"

definition change_role_route :: "uuid \<Rightarrow> ms \<Rightarrow> request \<Rightarrow> uuid \<Rightarrow> uuid \<Rightarrow> iam_db \<Rightarrow> response" where
  "change_role_route i now rq u rid db =
     (if \<not> truthy (rq_user rq) \<or> \<not> truthy (rq_workspace rq) then Status 401
      else if rq_params rq ''id'' \<noteq> rq_workspace rq then Status 403
      else (case change_member_role i now
                   \<lparr>rc_actor = the (rq_user rq), rc_target = u, rc_workspace = the (rq_workspace rq),
                    rc_site = rq_site rq, rc_role = rid\<rparr> db of
              Inr db' \<Rightarrow> Done 200 db'
            | Inl e \<Rightarrow>
                if e \<in> {MissingUserManagement, OwnerRequired} then Status 403
                else if e \<in> {MembershipNotFound, RoleNotFound, SiteNotFound} then Status 404
                else Status 400))"

definition remove_member_route :: "request \<Rightarrow> uuid \<Rightarrow> iam_db \<Rightarrow> response" where
  "remove_member_route rq u db =
     gated (require_permission ''user:admin'' in_workspace rq db)
       (let ws = the (rq_params rq ''id'')
        in if find_member u ws db = None then Status 404
           else if rq_user rq = Some u then Status 400
           else (case remove_member ws u db of Inl _ \<Rightarrow> Status 500 | Inr db' \<Rightarrow> Done 200 db'))"

definition disable_route :: "ms \<Rightarrow> request \<Rightarrow> uuid \<Rightarrow> iam_db \<Rightarrow> response" where
  "disable_route now rq u db =
     gated (require_permission ''user:admin'' workspace_only rq db)
       (if find_user u db = None then Status 404
        else if rq_user rq = Some u then Status 400
        else (case disable_user u now db of Inl _ \<Rightarrow> Status 500 | Inr db' \<Rightarrow> Done 200 db'))"

definition enable_route :: "request \<Rightarrow> uuid \<Rightarrow> iam_db \<Rightarrow> response" where
  "enable_route rq u db =
     gated (require_permission ''user:admin'' workspace_only rq db)
       (case enable_user u db of Inl _ \<Rightarrow> Status 404 | Inr db' \<Rightarrow> Done 200 db')"

definition unlock_route :: "request \<Rightarrow> uuid \<Rightarrow> iam_db \<Rightarrow> response" where
  "unlock_route rq u db =
     gated (require_permission ''user:admin'' workspace_only rq db)
       (case unlock_account u db of
          Inl e \<Rightarrow> Status (if e = UserNotFound then 404 else 400)
        | Inr db' \<Rightarrow> Done 200 db')"

section \<open>Accessible sites agree with the permission check\<close>

definition grants_at :: "string \<Rightarrow> iam_db \<Rightarrow> role_assignment list \<Rightarrow> uuid option \<Rightarrow> bool" where
  "grants_at p db as site = (\<exists>a \<in> set as. p \<in> set (permissions_of a db) \<and> ra_site a = site)"

lemma grants_at_simps [simp]:
  "\<not> grants_at p db [] site"
  "grants_at p db (a # as) site \<longleftrightarrow> p \<in> set (permissions_of a db) \<and> ra_site a = site \<or> grants_at p db as site"
  by (auto simp: grants_at_def)

lemma collect_all: "collect_sites p db as acc = AllSites \<longleftrightarrow> grants_at p db as None"
  by (induction p db as acc rule: collect_sites.induct) (auto split: option.splits)

lemma collect_some:
  "collect_sites p db as acc = SomeSites ids \<Longrightarrow> s \<in> set ids \<longleftrightarrow> s \<in> set acc \<or> grants_at p db as (Some s)"
proof (induction p db as acc rule: collect_sites.induct)
  case (2 p db a as acc)
  then show ?case by (cases "ra_site a"; cases "p \<in> set (permissions_of a db)") (simp_all split: if_splits, blast+)
qed simp

lemma site_matches_simps:
  "site_matches None a \<longleftrightarrow> ra_site a = None"
  "s \<noteq> '''' \<Longrightarrow> site_matches (Some s) a \<longleftrightarrow> ra_site a = None \<or> ra_site a = Some s"
  by (auto simp: site_matches_def split: option.splits)

lemma has_permission_customer:
  assumes "find_user u db = Some usr" "us_system usr = None"
  shows "has_permission u p ws site db \<longleftrightarrow> is_permission p
    \<and> (\<exists>a \<in> set (id_assignments db). assignment_of u ws db a \<and> site_matches site a \<and> p \<in> set (permissions_of a db))"
  using assms by (auto simp: has_permission_def effective_permissions_def)

text \<open>
  C39: the sites a user can reach with a permission are exactly the sites at which the
  permission check passes for that user, for customers and for internal staff; all sites are
  reported exactly when the permission is held at workspace level.
\<close>
theorem accessible_sites_agree:
  assumes "is_permission p" "s \<noteq> ''''"
  shows "((case accessible_sites u p ws db of AllSites \<Rightarrow> True | SomeSites ids \<Rightarrow> s \<in> set ids)
      \<longleftrightarrow> has_permission u p ws (Some s) db)
    \<and> (accessible_sites u p ws db = AllSites \<longleftrightarrow> has_permission u p ws None db)"
proof (cases "find_user u db")
  case None
  then show ?thesis by (simp add: accessible_sites_def has_permission_def effective_permissions_def)
next
  case (Some usr)
  show ?thesis
  proof (cases "us_system usr")
    case sys: (Some sr)
    with Some show ?thesis by (simp add: accessible_sites_def has_permission_def effective_permissions_def)
  next
    case None
    note hp = has_permission_customer[OF Some None]
    define as where "as = filter (assignment_of u ws db) (id_assignments db)"
    have acc: "accessible_sites u p ws db = collect_sites p db as []"
      using Some None by (simp add: accessible_sites_def as_def)
    have ws: "has_permission u p ws None db \<longleftrightarrow> grants_at p db as None"
      unfolding hp using assms(1) by (auto simp: as_def site_matches_simps grants_at_def)
    have at: "has_permission u p ws (Some s) db \<longleftrightarrow> grants_at p db as None \<or> grants_at p db as (Some s)"
      unfolding hp using assms by (auto simp: as_def site_matches_simps grants_at_def)
    show ?thesis
      using collect_all[of p db as "[]"] collect_some[of p db as "[]" _ s]
      unfolding acc ws at by (cases "collect_sites p db as []") auto
  qed
qed

section \<open>Confinement of the owner permission\<close>

definition owner_role_ok :: "role \<Rightarrow> bool" where
  "owner_role_ok r = (has_owner_permission (ro_permissions r) \<longrightarrow> is_owner_role r)"

text \<open>An assignment joins a role and a membership of one workspace, with a site iff the role is for sites.\<close>
definition assignment_ok :: "iam_db \<Rightarrow> role_assignment \<Rightarrow> bool" where
  "assignment_ok db a =
     (case (member_of a db, find_role (ra_role a) db) of
        (Some m, Some r) \<Rightarrow> ro_workspace r = me_workspace m
          \<and> (case ra_site a of
               None \<Rightarrow> ro_scope r = WorkspaceScope
             | Some s \<Rightarrow> ro_scope r = SiteScope
                 \<and> (case find_site s db of None \<Rightarrow> False | Some x \<Rightarrow> si_workspace x = ro_workspace r))
      | _ \<Rightarrow> False)"

definition iam_ok :: "iam_db \<Rightarrow> bool" where
  "iam_ok db = (distinct (map me_id (id_members db)) \<and> (\<forall>r \<in> set (id_roles db). owner_role_ok r) \<and> (\<forall>a \<in> set (id_assignments db). assignment_ok db a))"

lemma find_role_in: "find_role i db = Some r \<Longrightarrow> r \<in> set (id_roles db) \<and> ro_id r = i"
  unfolding find_role_def by (rule find_Some_in)

lemma find_member_in: "find_member u ws db = Some m \<Longrightarrow> m \<in> set (id_members db) \<and> me_user m = u \<and> me_workspace m = ws"
  unfolding find_member_def by (drule find_Some_in) simp

text \<open>A membership is found by its own id when ids are distinct.\<close>
lemma find_self: "distinct (map k xs) \<Longrightarrow> x \<in> set xs \<Longrightarrow> find (\<lambda>y. k y = k x) xs = Some x"
  by (induction xs) auto

lemma assignment_ok_cong:
  assumes "id_members db' = id_members db" "id_roles db' = id_roles db" "id_sites db' = id_sites db"
  shows "assignment_ok db' a = assignment_ok db a"
proof -
  have "member_of a db' = member_of a db" "find_role i db' = find_role i db" "find_site s db' = find_site s db" for i s
    using assms by (simp_all add: member_of_def find_role_def find_site_def)
  then show ?thesis unfolding assignment_ok_def by (simp only:)
qed

lemma assignment_ok_transfer:
  assumes "assignment_ok db a" "member_of a db' = member_of a db" "id_sites db' = id_sites db"
    and "\<And>r. find_role (ra_role a) db = Some r \<Longrightarrow>
      \<exists>r'. find_role (ra_role a) db' = Some r' \<and> ro_workspace r' = ro_workspace r \<and> ro_scope r' = ro_scope r"
  shows "assignment_ok db' a"
proof -
  from assms(1) obtain m r where mr: "member_of a db = Some m" "find_role (ra_role a) db = Some r"
    by (auto simp: assignment_ok_def split: option.splits)
  with assms(4) obtain r' where r': "find_role (ra_role a) db' = Some r'" "ro_workspace r' = ro_workspace r" "ro_scope r' = ro_scope r"
    by blast
  have s: "find_site s db' = find_site s db" for s using assms(3) by (simp add: find_site_def)
  show ?thesis using assms(1,2) mr r' unfolding assignment_ok_def by (auto simp: s split: option.splits)
qed

lemma assignment_ok_new:
  assumes "find_role rid db = Some r" "m \<in> set (id_members db)" "distinct (map me_id (id_members db))"
    and "ro_workspace r = me_workspace m"
    and "case site of None \<Rightarrow> ro_scope r = WorkspaceScope
      | Some s \<Rightarrow> ro_scope r = SiteScope \<and> (\<exists>x. find_site s db = Some x \<and> si_workspace x = ro_workspace r)"
  shows "assignment_ok db \<lparr>ra_id = i, ra_member = me_id m, ra_role = rid, ra_site = site, ra_created = now\<rparr>"
  using assms find_self[OF assms(3,2)]
  by (auto simp: assignment_ok_def member_of_def split: option.splits)

lemma validate_permissions_Inr: "validate_permissions ps = Inr qs \<longleftrightarrow> qs = ps \<and> (\<forall>p \<in> set ps. is_permission p)"
  by (auto simp: validate_permissions_def Let_def filter_empty_conv)

lemma create_role_ok:
  assumes "iam_ok db" "create_role i ws name desc scope perms db = Inr (r, db')"
  shows "iam_ok db'"
proof -
  from assms(2) have r: "db' = db\<lparr>id_roles := id_roles db @ [r]\<rparr>" "owner_permission \<notin> set (ro_permissions r)"
    by (auto simp: create_role_def Let_def validate_permissions_Inr split: sum.splits if_splits)
  have "assignment_ok db' a" if "a \<in> set (id_assignments db)" for a
    using assms(1) that by (intro assignment_ok_transfer[of db a db'])
      (auto simp: iam_ok_def r(1) member_of_def find_role_def find_append)
  with assms(1) r show ?thesis by (auto simp: iam_ok_def owner_role_ok_def has_owner_permission_def)
qed

lemma role_changes_keeps [simp]:
  "ro_id (role_changes n d p r) = ro_id r" "ro_workspace (role_changes n d p r) = ro_workspace r"
  "ro_scope (role_changes n d p r) = ro_scope r" "ro_system (role_changes n d p r) = ro_system r"
  by (simp_all add: role_changes_def)

lemma update_role_ok:
  assumes "iam_ok db" "update_role i name desc perms db = Inr (r, db')"
  shows "iam_ok db'"
proof -
  from assms(2) have db': "db' = db\<lparr>id_roles := update_where (\<lambda>q. ro_id q = i) (role_changes name desc perms) (id_roles db)\<rparr>"
    and ps: "\<And>ps. perms = Some ps \<Longrightarrow> owner_permission \<notin> set ps"
    by (auto simp: update_role_def validate_permissions_Inr split: option.splits sum.splits if_splits)
  have "assignment_ok db' a" if "a \<in> set (id_assignments db)" for a
  proof (rule assignment_ok_transfer[of db a db'])
    show "assignment_ok db a" using assms(1) that by (simp add: iam_ok_def)
    fix q assume "find_role (ra_role a) db = Some q"
    then show "\<exists>r'. find_role (ra_role a) db' = Some r' \<and> ro_workspace r' = ro_workspace q \<and> ro_scope r' = ro_scope q"
      by (simp add: find_role_def db' find_update_where)
  qed (simp_all add: db' member_of_def)
  moreover have "owner_role_ok (role_changes name desc perms q)" if "owner_role_ok q" for q
    using that ps by (auto simp: owner_role_ok_def has_owner_permission_def is_owner_role_def role_changes_def split: option.splits)
  ultimately show ?thesis using assms(1) by (auto simp: iam_ok_def db' set_update_where)
qed

lemma remove_role_ok:
  assumes "iam_ok db" "remove_role i db = Inr db'"
  shows "iam_ok db'"
proof (cases "find_role i db")
  case None
  with assms show ?thesis by (simp add: remove_role_def)
next
  case (Some r)
  with assms(2) have db': "db' = db\<lparr>id_roles := filter (\<lambda>q. ro_id q \<noteq> i) (id_roles db),
      id_assignments := filter (\<lambda>a. ra_role a \<noteq> i) (id_assignments db)\<rparr>"
    by (simp add: remove_role_def split: if_splits)
  have "assignment_ok db' a" if "a \<in> set (id_assignments db)" "ra_role a \<noteq> i" for a
    using assms(1) that by (intro assignment_ok_transfer[of db a db'])
      (auto simp: iam_ok_def db' member_of_def find_role_def find_filter_key)
  with assms(1) show ?thesis by (auto simp: iam_ok_def db')
qed

lemma assign_ok:
  assumes "iam_ok db" "assign i now u rid site db = Inr (a, db')"
  shows "iam_ok db'"
proof -
  from assms(2) obtain r m where r: "find_role rid db = Some r" "find_member u (ro_workspace r) db = Some m"
    and a: "a = \<lparr>ra_id = i, ra_member = me_id m, ra_role = rid, ra_site = site, ra_created = now\<rparr>"
      "db' = db\<lparr>id_assignments := id_assignments db @ [a]\<rparr>"
    and scope: "ro_scope r = WorkspaceScope \<Longrightarrow> site = None" "ro_scope r = SiteScope \<Longrightarrow> site \<noteq> None"
    and s: "\<And>s. site = Some s \<Longrightarrow> \<exists>x. find_site s db = Some x \<and> si_workspace x = ro_workspace r"
    by (auto simp: assign_def Let_def split: option.splits if_splits sum.splits)
  have "assignment_ok db a"
    unfolding a(1) using find_member_in[OF r(2)] scope s assms(1)
    by (intro assignment_ok_new[OF r(1)]) (cases "ro_scope r"; auto simp: iam_ok_def split: option.splits)+
  moreover have "assignment_ok db' x = assignment_ok db x" for x by (rule assignment_ok_cong) (simp_all add: a(2))
  ultimately show ?thesis using assms(1) by (auto simp: iam_ok_def a(2))
qed

lemma unassign_ok: "iam_ok db \<Longrightarrow> unassign i db = Inr db' \<Longrightarrow> iam_ok db'"
proof -
  assume ok: "iam_ok db" and "unassign i db = Inr db'"
  then have db': "db' = db\<lparr>id_assignments := filter (\<lambda>a. ra_id a \<noteq> i) (id_assignments db)\<rparr>"
    by (auto simp: unassign_def split: if_splits)
  have "assignment_ok db' x = assignment_ok db x" for x by (rule assignment_ok_cong) (simp_all add: db')
  with ok show ?thesis by (auto simp: iam_ok_def db')
qed

lemma add_member_ok:
  assumes "iam_ok db" "add_member i j now ws u rid db = Inr (m, db')" "i \<notin> me_id ` set (id_members db)"
  shows "iam_ok db'"
proof -
  from assms(2) obtain r where r: "find_role rid db = Some r" "ro_workspace r = ws" "ro_scope r = WorkspaceScope"
    and m: "m = \<lparr>me_id = i, me_user = u, me_workspace = ws, me_joined = now, me_employee = None\<rparr>"
    and db': "db' = db\<lparr>id_members := id_members db @ [m],
      id_assignments := id_assignments db @ [\<lparr>ra_id = j, ra_member = me_id m, ra_role = rid, ra_site = None, ra_created = now\<rparr>]\<rparr>"
    by (auto simp: add_member_def resolve_workspace_role_def Let_def split: option.splits if_splits sum.splits dest: find_role_in)
  have d: "distinct (map me_id (id_members db'))" using assms(1,3) by (simp add: iam_ok_def db' m)
  have "assignment_ok db' a" if "a \<in> set (id_assignments db)" for a
  proof (rule assignment_ok_transfer[of db a db'])
    show ok: "assignment_ok db a" using assms(1) that by (simp add: iam_ok_def)
    then show "member_of a db' = member_of a db"
      by (auto simp: assignment_ok_def member_of_def db' find_append split: option.splits)
  qed (simp_all add: db' find_role_def)
  moreover have "assignment_ok db' \<lparr>ra_id = j, ra_member = me_id m, ra_role = rid, ra_site = None, ra_created = now\<rparr>"
    using r d by (intro assignment_ok_new[of rid db' r]) (simp_all add: find_role_def db' m)
  ultimately show ?thesis using assms(1) d by (auto simp: iam_ok_def db')
qed

lemma remove_member_ok:
  assumes "iam_ok db" "remove_member ws u db = Inr db'"
  shows "iam_ok db'"
proof (cases "find_member u ws db")
  case None
  with assms(2) show ?thesis by (simp add: remove_member_def)
next
  case (Some m)
  with assms(2) have db': "db' = db\<lparr>id_members := filter (\<lambda>x. me_id x \<noteq> me_id m) (id_members db),
      id_assignments := filter (\<lambda>a. ra_member a \<noteq> me_id m) (id_assignments db)\<rparr>"
    by (simp add: remove_member_def)
  have "assignment_ok db' a" if "a \<in> set (id_assignments db)" "ra_member a \<noteq> me_id m" for a
    using assms(1) that by (intro assignment_ok_transfer[of db a db'])
      (auto simp: iam_ok_def db' member_of_def find_role_def find_filter_key)
  with assms(1) show ?thesis by (auto simp: iam_ok_def db' distinct_map_filter)
qed

text \<open>What a successful change of a member's role did.\<close>
lemma change_member_role_result:
  assumes "change_member_role i now c db = Inr db'"
  shows "\<exists>r m. find_role (rc_role c) db = Some r \<and> ro_workspace r = rc_workspace c \<and> \<not> has_reserved_owner r
    \<and> find_member (rc_target c) (rc_workspace c) db = Some m
    \<and> (ro_scope r = SiteScope \<longrightarrow> (\<exists>s x. rc_site c = Some s \<and> find_site s db = Some x \<and> si_workspace x = rc_workspace c))
    \<and> (is_owner_role r \<longrightarrow> has_permission (rc_actor c) owner_permission (rc_workspace c) None db)
    \<and> (let site = if ro_scope r = SiteScope then rc_site c else None
       in db' = replace_assignment i now m (rc_role c) site db
        \<and> (has_owner_assignment m site db \<longrightarrow>
             has_permission (rc_actor c) owner_permission (rc_workspace c) None db
             \<and> (is_owner_role r \<or> (\<exists>x \<in> set (id_members db). me_user x \<noteq> rc_target c \<and> owner_member (rc_workspace c) db x))))"
proof -
  from assms obtain r where r: "find_role (rc_role c) db = Some r" "ro_workspace r = rc_workspace c" "\<not> has_reserved_owner r"
    "is_owner_role r \<Longrightarrow> has_permission (rc_actor c) owner_permission (rc_workspace c) None db"
    and tx: "change_role_tx i now c r (has_permission (rc_actor c) owner_permission (rc_workspace c) None db) db = Inr db'"
    by (auto simp: change_member_role_def Let_def split: option.splits if_splits)
  from tx obtain m where m: "find_member (rc_target c) (rc_workspace c) db = Some m"
    by (auto simp: change_role_tx_def Let_def split: sum.splits option.splits)
  have "ro_id r = rc_role c" using find_role_in[OF r(1)] by simp
  with r m tx show ?thesis
    by (intro exI[of _ r] exI[of _ m])
      (auto simp: change_role_tx_def Let_def list_ex_iff bind_eq_Some_conv split: sum.splits option.splits if_splits)
qed

lemma change_member_role_ok:
  assumes ok: "iam_ok db" and res: "change_member_role i now c db = Inr db'"
  shows "iam_ok db'"
proof -
  from change_member_role_result[OF res] obtain r m where r: "find_role (rc_role c) db = Some r"
      "ro_workspace r = rc_workspace c" "find_member (rc_target c) (rc_workspace c) db = Some m"
    and s: "ro_scope r = SiteScope \<longrightarrow> (\<exists>s x. rc_site c = Some s \<and> find_site s db = Some x \<and> si_workspace x = rc_workspace c)"
    and db': "db' = replace_assignment i now m (rc_role c) (if ro_scope r = SiteScope then rc_site c else None) db"
    by (auto simp: Let_def)
  have "assignment_ok db \<lparr>ra_id = i, ra_member = me_id m, ra_role = rc_role c,
      ra_site = (if ro_scope r = SiteScope then rc_site c else None), ra_created = now\<rparr>"
    using find_member_in[OF r(3)] s r(2) ok
    by (intro assignment_ok_new[OF r(1)]) (cases "ro_scope r"; auto simp: iam_ok_def)+
  moreover have "assignment_ok db' x = assignment_ok db x" for x
    by (rule assignment_ok_cong) (simp_all add: db' replace_assignment_def)
  ultimately show ?thesis using ok by (auto simp: iam_ok_def db' replace_assignment_def)
qed

lemma user_write_ok:
  assumes "iam_ok db" "id_members db' = id_members db" "id_roles db' = id_roles db" "id_sites db' = id_sites db"
    "id_assignments db' = id_assignments db"
  shows "iam_ok db'"
  using assms assignment_ok_cong[of db' db] by (simp add: iam_ok_def)

datatype iam_cmd =
    CreateRole uuid uuid string "string option" role_scope "string list"
  | UpdateRole uuid "string option" "string option" "string list option"
  | RemoveRole uuid
  | Assign uuid ms uuid uuid "uuid option"
  | Unassign uuid
  | AddMember uuid uuid ms uuid uuid uuid
  | RemoveMember uuid uuid
  | ChangeRole uuid ms role_change
  | DisableUser uuid ms
  | EnableUser uuid
  | UnlockUser uuid

fun exec_iam :: "iam_cmd \<Rightarrow> iam_db \<Rightarrow> iam_error + iam_db" where
  "exec_iam (CreateRole i ws n d s ps) db = map_sum id snd (create_role i ws n d s ps db)"
| "exec_iam (UpdateRole i n d ps) db = map_sum id snd (update_role i n d ps db)"
| "exec_iam (RemoveRole i) db = remove_role i db"
| "exec_iam (Assign i now u r s) db = map_sum id snd (assign i now u r s db)"
| "exec_iam (Unassign i) db = unassign i db"
| "exec_iam (AddMember i j now ws u r) db = map_sum id snd (add_member i j now ws u r db)"
| "exec_iam (RemoveMember ws u) db = remove_member ws u db"
| "exec_iam (ChangeRole i now c) db = change_member_role i now c db"
| "exec_iam (DisableUser u now) db = disable_user u now db"
| "exec_iam (EnableUser u) db = enable_user u db"
| "exec_iam (UnlockUser u) db = unlock_account u db"

text \<open>The operations in any order; a failed one changes nothing.  New memberships get fresh ids.\<close>
inductive iam_step :: "iam_db \<Rightarrow> iam_db \<Rightarrow> bool" where
  "exec_iam c db = Inr db' \<Longrightarrow> (\<And>i j now ws u r. c = AddMember i j now ws u r \<Longrightarrow> i \<notin> me_id ` set (id_members db))
     \<Longrightarrow> iam_step db db'"

lemma map_sum_Inr: "map_sum id snd x = Inr db' \<longleftrightarrow> (\<exists>a. x = Inr (a, db'))"
  by (cases x) auto

lemma iam_step_ok:
  assumes "iam_step db db'" "iam_ok db"
  shows "iam_ok db'"
  using assms
proof cases
  case (1 c)
  note e = 1(1) and fresh = 1(2)
  show ?thesis
  proof (cases c)
    case (AddMember i j now ws u r)
    with e fresh assms(2) show ?thesis by (auto simp: map_sum_Inr intro: add_member_ok)
  next
    case (DisableUser u now)
    with e show ?thesis
      by (intro user_write_ok[OF assms(2)]) (auto simp: disable_user_def set_user_def split: if_splits)
  next
    case (EnableUser u)
    with e show ?thesis
      by (intro user_write_ok[OF assms(2)]) (auto simp: enable_user_def set_user_def split: if_splits)
  next
    case (UnlockUser u)
    with e show ?thesis
      by (intro user_write_ok[OF assms(2)])
        (auto simp: unlock_account_def set_user_def split: if_splits option.splits)
  qed (use e assms(2) in \<open>auto simp: map_sum_Inr intro: create_role_ok update_role_ok remove_role_ok assign_ok
      unassign_ok remove_member_ok change_member_role_ok\<close>)
qed

lemma iam_steps_ok: "iam_step\<^sup>*\<^sup>* db db' \<Longrightarrow> iam_ok db \<Longrightarrow> iam_ok db'"
  by (induction rule: rtranclp_induct) (auto intro: iam_step_ok)

text \<open>
  C14: confinement of the owner permission.  Whatever sequence of role, assignment and member
  operations is run from a consistent state, a customer who passes the check for the owner
  permission in a workspace, at any site or none, holds it through a workspace-level assignment
  of a built-in owner role of that very workspace: neither a custom role, nor a site role, nor a
  role of another workspace can carry it.
\<close>
theorem owner_permission_confined:
  assumes "iam_step\<^sup>*\<^sup>* db0 db" "iam_ok db0"
    and u: "find_user u db = Some usr" "us_system usr = None"
    and has: "has_permission u owner_permission ws site db"
  shows "\<exists>m r a. a \<in> set (id_assignments db) \<and> member_of a db = Some m \<and> me_user m = u \<and> me_workspace m = ws
    \<and> find_role (ra_role a) db = Some r \<and> ro_workspace r = ws \<and> is_owner_role r \<and> ra_site a = None"
proof -
  have ok: "iam_ok db" by (rule iam_steps_ok[OF assms(1,2)])
  from has has_permission_customer[OF u] obtain a where a: "a \<in> set (id_assignments db)" "assignment_of u ws db a"
    "owner_permission \<in> set (permissions_of a db)" by blast
  from ok a(1) have "assignment_ok db a" by (simp add: iam_ok_def)
  then obtain m r where mr: "member_of a db = Some m" "find_role (ra_role a) db = Some r" "ro_workspace r = me_workspace m"
    "ra_site a = None \<longleftrightarrow> ro_scope r = WorkspaceScope"
    by (auto simp: assignment_ok_def split: option.splits)
  from find_role_in[OF mr(2)] ok have "owner_role_ok r" by (simp add: iam_ok_def)
  with a(3) mr(2) have "is_owner_role r"
    by (simp add: permissions_of_def owner_role_ok_def has_owner_permission_def)
  with mr a show ?thesis by (auto simp: assignment_of_def is_owner_role_def)
qed

text \<open>
  C15: changing roles never leaves a workspace without an owner and never makes one without an
  owner's hand.  A successful change keeps an active customer owner in every workspace that had
  one, and if it assigned an owner role, or took one away, the actor held the owner permission.
\<close>
theorem change_role_keeps_owner:
  assumes ok: "iam_ok db" and res: "change_member_role i now c db = Inr db'"
    and owner: "\<exists>m \<in> set (id_members db). owner_member ws db m"
  shows "(\<exists>m \<in> set (id_members db'). owner_member ws db' m)
    \<and> ({a \<in> set (id_assignments db'). \<exists>r. find_role (ra_role a) db' = Some r \<and> is_owner_role r}
         = {a \<in> set (id_assignments db). \<exists>r. find_role (ra_role a) db = Some r \<and> is_owner_role r}
       \<or> has_permission (rc_actor c) owner_permission (rc_workspace c) None db)"
proof -
  from change_member_role_result[OF res] obtain r m site where r: "find_role (rc_role c) db = Some r"
    "ro_workspace r = rc_workspace c" and m: "find_member (rc_target c) (rc_workspace c) db = Some m"
    and act: "is_owner_role r \<longrightarrow> has_permission (rc_actor c) owner_permission (rc_workspace c) None db"
    and site: "site = (if ro_scope r = SiteScope then rc_site c else None)" "ro_scope r = SiteScope \<longrightarrow> rc_site c \<noteq> None"
    and db': "db' = replace_assignment i now m (rc_role c) site db"
    and cur: "has_owner_assignment m site db \<longrightarrow> has_permission (rc_actor c) owner_permission (rc_workspace c) None db
        \<and> (is_owner_role r \<or> (\<exists>x \<in> set (id_members db). me_user x \<noteq> rc_target c \<and> owner_member (rc_workspace c) db x))"
    by (auto simp: Let_def)
  have same: "id_members db' = id_members db" "find_role j db' = find_role j db" "find_user j db' = find_user j db" for j
    by (simp_all add: db' replace_assignment_def find_role_def find_user_def)
  have mm: "m \<in> set (id_members db)" "me_user m = rc_target c" "me_workspace m = rc_workspace c"
    using find_member_in[OF m] by auto
  have d: "distinct (map me_id (id_members db))" using ok by (simp add: iam_ok_def)
  have keep: "owner_member ws db' x" if "owner_member ws db x" "me_id x \<noteq> me_id m \<or> site \<noteq> None" for x
    using that unfolding owner_member_def same by (auto simp: db' replace_assignment_def)
  from owner obtain x where x: "x \<in> set (id_members db)" "owner_member ws db x" by blast
  have ex: "\<exists>y \<in> set (id_members db'). owner_member ws db' y"
  proof (cases "me_id x = me_id m \<and> site = None")
    case False
    with keep x same show ?thesis by auto
  next
    case True
    with d x(1) mm(1) have xm: "x = m" by (metis distinct_map inj_on_eq_iff)
    then have "has_owner_assignment m site db" using x(2) True by (auto simp: owner_member_def has_owner_assignment_def)
    with cur consider "is_owner_role r"
      | y where "y \<in> set (id_members db)" "me_user y \<noteq> rc_target c" "owner_member (rc_workspace c) db y" by blast
    then show ?thesis
    proof cases
      case 1
      have "owner_member ws db' m"
        using x(2) xm 1 r(1) True unfolding owner_member_def same by (auto simp: db' replace_assignment_def)
      with mm(1) same show ?thesis by auto
    next
      case (2 y)
      have "me_id y \<noteq> me_id m" using 2 mm d by (metis distinct_map inj_on_eq_iff)
      moreover have "ws = rc_workspace c" using x(2) xm mm by (simp add: owner_member_def)
      ultimately show ?thesis using keep 2 same by auto
    qed
  qed
  have "has_permission (rc_actor c) owner_permission (rc_workspace c) None db
      \<or> \<not> is_owner_role r \<and> \<not> has_owner_assignment m site db" using act cur by blast
  then have "{a \<in> set (id_assignments db'). \<exists>r. find_role (ra_role a) db' = Some r \<and> is_owner_role r}
      = {a \<in> set (id_assignments db). \<exists>r. find_role (ra_role a) db = Some r \<and> is_owner_role r}
    \<or> has_permission (rc_actor c) owner_permission (rc_workspace c) None db"
    unfolding same using r(1) by (auto simp: db' replace_assignment_def has_owner_assignment_def)
  with ex show ?thesis by blast
qed

section \<open>Built-in roles\<close>

definition all_of :: "string \<Rightarrow> string list" where
  "all_of res = map (\<lambda>a. res @ '':'' @ a) perm_actions"

definition factory_permissions :: "string list" where
  "factory_permissions =
     concat (map all_of [''facility'', ''schedule'', ''job'', ''status'', ''tool'', ''product'', ''dashboard'', ''employee''])
     @ [''user:read'', ''user:write'']"

definition office_permissions :: "string list" where
  "office_permissions = [''schedule:read'', ''schedule:write'', ''job:read'', ''job:write'', ''status:read'', ''status:write'',
     ''facility:read'', ''tool:read'', ''tool:write'', ''product:read'', ''product:write'', ''dashboard:read'', ''employee:read'']"

definition read_only_permissions :: "string list" where
  "read_only_permissions = [''facility:read'', ''product:read'', ''job:read'', ''status:read'', ''tool:read'', ''schedule:read'',
     ''dashboard:read'', ''employee:read'']"

record role_spec =
  rs_name :: string
  rs_description :: string
  rs_scope :: role_scope
  rs_permissions :: "string list"

definition system_role_specs :: "role_spec list" where
  "system_role_specs =
     [\<lparr>rs_name = ''Company Administrator'',
       rs_description = ''Company-level administrator with billing visibility and full operational access across all sites.'',
       rs_scope = WorkspaceScope, rs_permissions = all_permissions\<rparr>,
      \<lparr>rs_name = ''Factory Administrator'',
       rs_description = ''Local factory administrator with full access to production data and site configuration.'',
       rs_scope = SiteScope, rs_permissions = factory_permissions\<rparr>,
      \<lparr>rs_name = ''Office User'',
       rs_description = ''Production office user who can work with schedules, jobs, products, tools, and facility data for the site.'',
       rs_scope = SiteScope, rs_permissions = office_permissions\<rparr>,
      \<lparr>rs_name = ''Read-only User'',
       rs_description = ''Analytics and reporting user with read-only access to production data for the site.'',
       rs_scope = SiteScope, rs_permissions = read_only_permissions\<rparr>]"

text \<open>One upsert by workspace, name and scope; \<open>i\<close> is the id of a created row.\<close>
definition seed_role :: "uuid \<Rightarrow> uuid \<Rightarrow> role_spec \<Rightarrow> iam_db \<Rightarrow> iam_db" where
  "seed_role i ws spec db =
     (if list_ex (same_role_key ws (rs_name spec) (rs_scope spec)) (id_roles db)
      then db\<lparr>id_roles := update_where (same_role_key ws (rs_name spec) (rs_scope spec))
             (\<lambda>r. r\<lparr>ro_description := Some (rs_description spec), ro_permissions := rs_permissions spec, ro_system := True\<rparr>)
             (id_roles db)\<rparr>
      else db\<lparr>id_roles := id_roles db @
             [\<lparr>ro_id = i, ro_workspace = ws, ro_name = rs_name spec, ro_description = Some (rs_description spec),
               ro_scope = rs_scope spec, ro_permissions = rs_permissions spec, ro_system = True\<rparr>]\<rparr>)"

definition seed_system_roles :: "uuid list \<Rightarrow> uuid \<Rightarrow> iam_db \<Rightarrow> iam_db" where
  "seed_system_roles ids ws db = fold (\<lambda>(i, spec). seed_role i ws spec) (zip ids system_role_specs) db"

section \<open>Witnesses and an escalation\<close>

definition sample_iam_user :: "uuid \<Rightarrow> iam_user" where
  "sample_iam_user i = \<lparr>us_id = i, us_email = i, us_status = ActiveUser, us_system = None, us_password = None, us_failed = 0,
     us_locked = None, us_last_login = None, us_invite = None, us_invite_expiry = None, us_invite_tries = 0,
     us_reset = None, us_reset_expiry = None, us_reset_tries = 0\<rparr>"

definition sample_owner_role :: role where
  "sample_owner_role = \<lparr>ro_id = ''ca'', ro_workspace = ''w'', ro_name = ''Company Administrator'', ro_description = None,
     ro_scope = WorkspaceScope, ro_permissions = [''user:admin'', ''owner:all''], ro_system = True\<rparr>"

definition sample_factory_role :: role where
  "sample_factory_role = \<lparr>ro_id = ''fa'', ro_workspace = ''w'', ro_name = ''Factory Administrator'', ro_description = None,
     ro_scope = SiteScope, ro_permissions = [''facility:read'', ''user:write''], ro_system = True\<rparr>"

text \<open>An owner, a factory administrator of one site, and a user outside the workspace.\<close>
definition sample_iam :: iam_db where
  "sample_iam =
     \<lparr>id_workspaces = [''w''], id_users = map sample_iam_user [''o'', ''f'', ''n''],
      id_roles = [sample_owner_role, sample_factory_role],
      id_members = [\<lparr>me_id = ''mo'', me_user = ''o'', me_workspace = ''w'', me_joined = 0, me_employee = None\<rparr>,
                    \<lparr>me_id = ''mf'', me_user = ''f'', me_workspace = ''w'', me_joined = 0, me_employee = None\<rparr>],
      id_assignments = [\<lparr>ra_id = ''1'', ra_member = ''mo'', ra_role = ''ca'', ra_site = None, ra_created = 0\<rparr>,
                        \<lparr>ra_id = ''2'', ra_member = ''mf'', ra_role = ''fa'', ra_site = Some ''s'', ra_created = 0\<rparr>],
      id_sites = [\<lparr>si_id = ''s'', si_workspace = ''w'', si_name = ''Plant''\<rparr>], id_tokens = []\<rparr>"

lemmas iam_eval =
  sample_iam_def sample_iam_user_def sample_owner_role_def sample_factory_role_def find_user_def find_role_def
  find_site_def find_member_def member_of_def assignment_of_def permissions_of_def site_matches_def
  effective_permissions_def has_permission_def has_any_permission_def is_permission_def all_permissions_def
  resources_def perm_actions_def owner_permission_def is_owner_role_def has_reserved_owner_def has_owner_permission_def

lemma sample_iam_ok: "iam_ok sample_iam"
  by (simp add: iam_ok_def assignment_ok_def owner_role_ok_def iam_eval)

theorem accessible_sites_agree_witness:
  "(case accessible_sites ''f'' ''facility:read'' ''w'' sample_iam of AllSites \<Rightarrow> True | SomeSites ids \<Rightarrow> ''s'' \<in> set ids)"
proof -
  have p: "is_permission ''facility:read''" by (simp add: iam_eval)
  have "has_permission ''f'' ''facility:read'' ''w'' (Some ''s'') sample_iam" by (simp add: iam_eval)
  with accessible_sites_agree[OF p, of "''s''" "''f''" "''w''" sample_iam] show ?thesis by simp
qed

theorem owner_permission_confined_witness:
  "\<exists>m r a. a \<in> set (id_assignments sample_iam) \<and> member_of a sample_iam = Some m \<and> me_user m = ''o''
    \<and> find_role (ra_role a) sample_iam = Some r \<and> is_owner_role r"
proof -
  have u: "find_user ''o'' sample_iam = Some (sample_iam_user ''o'')" "us_system (sample_iam_user ''o'') = None"
    by (simp_all add: iam_eval)
  have "has_permission ''o'' owner_permission ''w'' None sample_iam" by (simp add: iam_eval)
  from owner_permission_confined[OF rtranclp.rtrancl_refl sample_iam_ok u this] show ?thesis by blast
qed

definition sample_change :: role_change where
  "sample_change = \<lparr>rc_actor = ''o'', rc_target = ''f'', rc_workspace = ''w'', rc_site = None, rc_role = ''ca''\<rparr>"

theorem change_role_keeps_owner_witness:
  "\<exists>db'. change_member_role ''3'' 5 sample_change sample_iam = Inr db'
    \<and> (\<exists>m \<in> set (id_members db'). owner_member ''w'' db' m)"
proof -
  obtain db' where c: "change_member_role ''3'' 5 sample_change sample_iam = Inr db'"
    by (simp add: change_member_role_def change_role_tx_def sample_change_def iam_eval has_owner_assignment_def)
  have o: "\<exists>m \<in> set (id_members sample_iam). owner_member ''w'' sample_iam m"
    by (simp add: owner_member_def iam_eval)
  from change_role_keeps_owner[OF sample_iam_ok c o] c show ?thesis by blast
qed

text \<open>
  the route that adds a member does not protect the owner role.  Whoever passes its gate,
  which asks for the permission to write users, at the workspace or at the site of the token,
  can add any customer who is not yet a member with a built-in owner role; that user then
  holds the owner permission of the whole workspace, whether or not the caller does.
\<close>
theorem add_member_escalates:
  assumes gate: "require_permission ''user:write'' in_workspace rq db = Passed" "rq_params rq ''id'' = Some ws"
    and u: "find_user u db = Some usr" "us_system usr = None" "find_member u ws db = None"
    and r: "find_role rid db = Some r" "ro_workspace r = ws" "is_owner_role r"
    and fresh: "i \<notin> me_id ` set (id_members db)"
  shows "\<exists>db'. add_member_route i j now rq u rid db = Done 201 db' \<and> has_permission u owner_permission ws None db'"
proof -
  let ?m = "\<lparr>me_id = i, me_user = u, me_workspace = ws, me_joined = now, me_employee = None\<rparr>"
  let ?a = "\<lparr>ra_id = j, ra_member = i, ra_role = ro_id r, ra_site = None, ra_created = now\<rparr>"
  define db' where "db' = db\<lparr>id_members := id_members db @ [?m], id_assignments := id_assignments db @ [?a]\<rparr>"
  have "add_member i j now ws u rid db = Inr (?m, db')"
    using u r by (simp add: add_member_def resolve_workspace_role_def is_owner_role_def db'_def Let_def)
  then have added: "add_member_route i j now rq u rid db = Done 201 db'"
    using gate u(3) by (simp add: add_member_route_def gated_def)
  have fu: "find_user u db' = Some usr" using u(1) by (simp add: db'_def find_user_def)
  have "find (\<lambda>m. me_id m = i) (id_members db) = None" using fresh by (auto simp: find_None_iff)
  then have "assignment_of u ws db' ?a"
    by (simp add: assignment_of_def member_of_def db'_def find_append)
  moreover have "owner_permission \<in> set (permissions_of ?a db')"
    using r find_role_in[OF r(1)] by (auto simp: permissions_of_def find_role_def db'_def is_owner_role_def has_owner_permission_def)
  moreover have "?a \<in> set (id_assignments db')" by (simp add: db'_def)
  ultimately have "has_permission u owner_permission ws None db'"
    unfolding has_permission_customer[OF fu u(2)]
    by (auto simp: site_matches_def is_permission_def all_permissions_def)
  with added show ?thesis by blast
qed

definition sample_request :: request where
  "sample_request = \<lparr>rq_user = Some ''f'', rq_workspace = Some ''w'', rq_site = Some ''s'',
     rq_params = (\<lambda>k. if k = ''id'' then Some ''w'' else None)\<rparr>"

theorem add_member_escalates_witness:
  "\<not> has_permission ''f'' owner_permission ''w'' (Some ''s'') sample_iam
   \<and> (\<exists>db'. add_member_route ''m'' ''4'' 5 sample_request ''n'' ''ca'' sample_iam = Done 201 db'
        \<and> has_permission ''n'' owner_permission ''w'' None db')"
proof
  show "\<not> has_permission ''f'' owner_permission ''w'' (Some ''s'') sample_iam" by (simp add: iam_eval)
  have g: "require_permission ''user:write'' in_workspace sample_request sample_iam = Passed"
    by (simp add: require_permission_def in_workspace_def no_opts_def sample_request_def truthy_def iam_eval)
  show "\<exists>db'. add_member_route ''m'' ''4'' 5 sample_request ''n'' ''ca'' sample_iam = Done 201 db'
      \<and> has_permission ''n'' owner_permission ''w'' None db'"
    by (rule add_member_escalates[OF g, of "''w''" _ "sample_iam_user ''n''" _ sample_owner_role])
      (simp_all add: sample_request_def iam_eval)
qed

text \<open>The removal route has no such protection either: an administrator of users can remove the only owner.\<close>
theorem remove_member_drops_owner:
  assumes "iam_ok db" "require_permission ''user:admin'' in_workspace rq db = Passed" "rq_params rq ''id'' = Some ws"
    and "find_member u ws db = Some m" "rq_user rq \<noteq> Some u"
    and only: "\<forall>x \<in> set (id_members db). owner_member ws db x \<longrightarrow> me_user x = u \<and> me_id x = me_id m"
  shows "\<exists>db'. remove_member_route rq u db = Done 200 db' \<and> \<not> (\<exists>x \<in> set (id_members db'). owner_member ws db' x)"
proof -
  define db' where "db' = db\<lparr>id_members := filter (\<lambda>x. me_id x \<noteq> me_id m) (id_members db),
     id_assignments := filter (\<lambda>a. ra_member a \<noteq> me_id m) (id_assignments db)\<rparr>"
  have "remove_member_route rq u db = Done 200 db'"
    using assms(2-5) by (simp add: remove_member_route_def gated_def remove_member_def db'_def)
  moreover have "owner_member ws db' x \<Longrightarrow> owner_member ws db x" for x
    by (auto simp: owner_member_def db'_def find_user_def find_role_def)
  then have "\<not> (\<exists>x \<in> set (id_members db'). owner_member ws db' x)"
    using only by (auto simp: db'_def)
  ultimately show ?thesis by blast
qed

end
