(* ===== verification/Contracts.thy ===== *)
theory Contracts
  imports Prelude
begin

text \<open>
  Two contracts that the program provides twice.  A \<open>lockout\<close> counts wrong secrets and closes an
  account for a period: the password of a user
  (\<open>apps/api/src/services/auth/session.ts\<close>) and the PIN of an operator
  (\<open>apps/api/src/services/employee/auth.ts\<close>).  A \<open>token_store\<close> issues, verifies and revokes refresh
  tokens: those of users and those of displays (\<open>packages/services/src/auth/tokens.ts\<close>).
\<close>

section \<open>Lockout after wrong secrets\<close>

text \<open>
  \<open>checks now s\<close> says that an attempt at \<open>now\<close> reaches the comparison of the secret, and
  \<open>wrong c s\<close> that the comparison fails.
\<close>
locale lockout =
  fixes tries :: "'s \<Rightarrow> nat" and lock :: "'s \<Rightarrow> ms option" and checks :: "ms \<Rightarrow> 's \<Rightarrow> bool"
    and wrong :: "'c \<Rightarrow> 's \<Rightarrow> bool" and attempt :: "ms \<Rightarrow> 'c \<Rightarrow> 's \<Rightarrow> 's" and limit :: nat and period :: ms
  assumes unlocked: "checks now s \<Longrightarrow> lock s = Some u \<Longrightarrow> u \<le> now"
    and ignored: "\<not> checks now s \<Longrightarrow> attempt now c s = s"
    and counted: "checks now s \<Longrightarrow> wrong c s \<Longrightarrow> tries (attempt now c s) = Suc (tries s)"
    and locks: "checks now s \<Longrightarrow> wrong c s \<Longrightarrow>
      lock (attempt now c s) = (if limit \<le> Suc (tries s) then Some (now + period) else None)"
    and same_secret: "checks now s \<Longrightarrow> wrong c s \<Longrightarrow> wrong c' (attempt now c s) = wrong c' s"
begin

text \<open>The guesses that reach the comparison, in a sequence of attempts.\<close>
fun guesses :: "(ms \<times> 'c) list \<Rightarrow> 's \<Rightarrow> nat" where
  "guesses [] s = 0"
| "guesses ((now, c) # as) s = (if checks now s then 1 else 0) + guesses as (attempt now c s)"

text \<open>The first instant at which the next guess can be compared.\<close>
definition free_from :: "ms \<Rightarrow> 's \<Rightarrow> ms" where
  "free_from now s = (case lock s of Some u \<Rightarrow> max now u | None \<Rightarrow> now)"

lemma checks_free: "checks now s \<Longrightarrow> free_from now s = now"
  using unlocked by (auto simp: free_from_def split: option.splits)

lemma guesses_bound:
  assumes "0 < period"
  shows "sorted (map fst as) \<Longrightarrow> \<forall>a \<in> set as. now \<le> fst a \<and> fst a \<le> t1 \<and> wrong (snd a) s \<Longrightarrow>
    int (guesses as s) \<le> (if tries s < limit then int (limit - tries s) + max 0 ((t1 - now) div period)
      else if t1 < free_from now s then 0 else 1 + (t1 - free_from now s) div period)"
proof (induction as arbitrary: now s)
  case Nil
  then show ?case using assms by (simp add: pos_imp_zdiv_nonneg_iff)
next
  case (Cons a as)
  obtain t c where a: "a = (t, c)" by fastforce
  let ?s = "attempt t c s"
  have t: "now \<le> t" "t \<le> t1" "wrong c s" and s: "sorted (map fst as)" and later: "\<forall>a \<in> set as. t \<le> fst a"
    using Cons.prems a by auto
  have mono: "(t1 - t) div period \<le> (t1 - now) div period" using t(1) assms by (intro zdiv_mono1) auto
  have pos: "0 \<le> (t1 - t) div period" using t assms by (simp add: pos_imp_zdiv_nonneg_iff)
  show ?case
  proof (cases "checks t s")
    case False
    then have ign: "?s = s" by (rule ignored)
    have "int (guesses as s) \<le> (if tries s < limit then int (limit - tries s) + max 0 ((t1 - t) div period)
        else if t1 < free_from t s then 0 else 1 + (t1 - free_from t s) div period)"
      using Cons.IH[of t s] Cons.prems s later by auto
    moreover have fl: "free_from now s \<le> free_from t s" using t(1) by (auto simp: free_from_def split: option.splits)
    from fl have "(t1 - free_from t s) div period \<le> (t1 - free_from now s) div period"
      using assms by (intro zdiv_mono1) auto
    moreover have "t1 \<ge> free_from now s \<Longrightarrow> 0 \<le> (t1 - free_from now s) div period"
      using assms by (simp add: pos_imp_zdiv_nonneg_iff)
    ultimately show ?thesis using False ign a mono pos fl by (auto split: if_splits)
  next
    case True
    note step = counted[OF True t(3)] locks[OF True t(3)]
    have wr: "\<forall>a \<in> set as. t \<le> fst a \<and> fst a \<le> t1 \<and> wrong (snd a) ?s"
      using Cons.prems later same_secret[OF True t(3)] by auto
    note ih = Cons.IH[OF s wr]
    have free: "free_from t s = t" by (rule checks_free[OF True])
    then have le: "free_from now s \<le> t" "now \<le> free_from now s"
      using t(1) by (auto simp: free_from_def split: option.splits)
    then have mono': "(t1 - t) div period \<le> (t1 - free_from now s) div period" using assms by (intro zdiv_mono1) auto
    have after: "free_from t ?s = t + period" if "limit \<le> Suc (tries s)"
      using step that assms by (simp add: free_from_def)
    have shift: "(t1 - (t + period)) div period = (t1 - t) div period - 1"
      using div_add_self2[of period "t1 - (t + period)"] assms by (simp add: algebra_simps)
    have small: "t1 < t + period \<Longrightarrow> (t1 - t) div period = 0"
      using t assms by (intro div_pos_pos_trivial) auto
    show ?thesis
    proof (cases "Suc (tries s) < limit")
      case True
      then show ?thesis using ih step mono pos \<open>checks t s\<close> a by auto
    next
      case False
      then have "int (guesses as ?s) \<le> (t1 - t) div period"
        using ih step after shift small pos by (auto split: if_splits)
      then show ?thesis using \<open>checks t s\<close> a mono mono' pos le t False by (auto split: if_splits)
    qed
  qed
qed

text \<open>Whatever the start, the guesses of a span of time are bounded.\<close>
lemma guesses_in_span:
  assumes "0 < period" "sorted (map fst as)" "\<forall>a \<in> set as. t0 \<le> fst a \<and> fst a \<le> t1 \<and> wrong (snd a) s" "t0 \<le> t1"
  shows "int (guesses as s) \<le> max 1 (int limit - int (tries s)) + (t1 - t0) div period"
proof -
  have pos: "0 \<le> (t1 - t0) div period" using assms by (simp add: pos_imp_zdiv_nonneg_iff)
  have "t0 \<le> free_from t0 s" by (simp add: free_from_def split: option.splits)
  then have "(t1 - free_from t0 s) div period \<le> (t1 - t0) div period" using assms(1) by (intro zdiv_mono1) auto
  with guesses_bound[OF assms(1,2,3)] pos show ?thesis by (auto split: if_splits simp: of_nat_diff)
qed

end

section \<open>Refresh tokens\<close>

text \<open>
  \<open>valid now h s\<close> is the holder of the token with hash \<open>h\<close>, \<open>spent h s\<close> says that no row with
  this hash is still open, and \<open>other h\<close> are the steps of the system that issue no token with
  this hash.
\<close>
locale token_store =
  fixes valid :: "ms \<Rightarrow> string \<Rightarrow> 's \<Rightarrow> uuid option" and revoke :: "ms \<Rightarrow> string \<Rightarrow> 's \<Rightarrow> 's"
    and issue :: "uuid \<Rightarrow> ms \<Rightarrow> string \<Rightarrow> uuid \<Rightarrow> 's \<Rightarrow> 's option" and spent :: "string \<Rightarrow> 's \<Rightarrow> bool"
    and other :: "string \<Rightarrow> 's \<Rightarrow> 's \<Rightarrow> bool" and life :: ms
  assumes spent_valid: "spent h s \<Longrightarrow> valid now h s = None"
    and revoked: "spent h (revoke now h s)"
    and spent_step: "other h s s' \<Longrightarrow> spent h s \<Longrightarrow> spent h s'"
    and issued: "issue i now h u s = Some s' \<Longrightarrow> t \<le> now + life \<Longrightarrow> valid t h s' = Some u"
    and expired: "issue i now h u s = Some s' \<Longrightarrow> now + life < t \<Longrightarrow> valid t h s' = None"
begin

lemma spent_steps: "(other h)\<^sup>*\<^sup>* s s' \<Longrightarrow> spent h s \<Longrightarrow> spent h s'"
  by (induction rule: rtranclp_induct) (auto intro: spent_step)

lemma revoked_forever: "(other h)\<^sup>*\<^sup>* (revoke now h s) s' \<Longrightarrow> valid t h s' = None"
  by (rule spent_valid[OF spent_steps[OF _ revoked]])

lemma lifetime: "issue i now h u s = Some s' \<Longrightarrow> valid t h s' = Some u \<longleftrightarrow> t \<le> now + life"
  using issued expired by (cases "t \<le> now + life") auto

end

end
