(* ===== verification/Employees.thy ===== *)
theory Employees
  imports Contracts Iam Shifts StateLog
begin

text \<open>
  Operators of the shop floor (\<open>apps/api/src/services/employee/\<close>): their versioned profiles
  (\<open>crud.ts\<close>), authentication at a display by number, PIN or badge (\<open>auth.ts\<close>), and the logon
  sessions of stations with the live value of who is logged on (\<open>logon.ts\<close>).  The password hash
  and its comparison are parameters; the audit log is left out.
\<close>

section \<open>Tables\<close>

datatype employee_status = EmpActive | EmpInactive

record employee =
  em_id :: uuid
  em_workspace :: uuid
  em_status :: employee_status
  em_version :: "uuid option"
  em_failed :: nat
  em_locked :: "ms option"

record employee_version =
  ev_id :: uuid
  ev_employee :: uuid
  ev_number :: nat
  ev_first :: string
  ev_last :: string
  ev_employee_number :: "string option"
  ev_badge :: "string option"
  ev_pin :: "string option"

record employee_role =
  er_id :: uuid
  er_site :: uuid
  er_name :: string

record site_access =
  sa_employee :: uuid
  sa_site :: uuid
  sa_role :: uuid
  sa_status :: employee_status

record logon_session =
  lo_id :: uuid
  lo_employee :: "uuid option"
  lo_version :: "uuid option"
  lo_station :: uuid
  lo_display :: uuid
  lo_generic :: "string option"
  lo_method :: string
  lo_time :: ms
  lo_off :: "ms option"
  lo_shift :: "uuid option"

record emp_db =
  ed_employees :: "employee list"
  ed_versions :: "employee_version list"
  ed_roles :: "employee_role list"
  ed_access :: "site_access list"
  ed_logons :: "logon_session list"

datatype emp_error =
    WorkspaceOrSiteRequired
  | EmpSiteNotFound
  | EmpRoleNotFound
  | EmpRoleForeign
  | NoOperatorRole
  | NumberTaken
  | BadgeTaken
  | EmployeeNotFound
  | EmpWorkspaceMismatch
  | EmpUniqueViolation
  | LogonStationNotFound
  | AlreadyLoggedOn
  | LogonNotFound
  | LogonForbidden
  | LogonEnded

definition find_employee :: "uuid \<Rightarrow> emp_db \<Rightarrow> employee option" where
  "find_employee i db = find (\<lambda>e. em_id e = i) (ed_employees db)"

definition find_version :: "uuid \<Rightarrow> emp_db \<Rightarrow> employee_version option" where
  "find_version i db = find (\<lambda>v. ev_id v = i) (ed_versions db)"

definition current_version :: "employee \<Rightarrow> emp_db \<Rightarrow> employee_version option" where
  "current_version e db = Option.bind (em_version e) (\<lambda>i. find_version i db)"

text \<open>\<open>x || null\<close>: an empty string counts as absent.\<close>
definition or_null :: "string option \<Rightarrow> string option" where
  "or_null s = (if truthy s then s else None)"

section \<open>Profiles\<close>

definition resolve_workspace_id :: "iam_site list \<Rightarrow> uuid option \<Rightarrow> uuid option \<Rightarrow> emp_error + uuid" where
  "resolve_workspace_id sites ws site =
     (if truthy ws then Inr (the ws)
      else if \<not> truthy site then Inl WorkspaceOrSiteRequired
      else (case find (\<lambda>s. si_id s = the site) sites of
              None \<Rightarrow> Inl EmpSiteNotFound
            | Some s \<Rightarrow> Inr (si_workspace s)))"

definition resolve_site_role :: "uuid \<Rightarrow> uuid option \<Rightarrow> emp_db \<Rightarrow> emp_error + uuid" where
  "resolve_site_role site rid db =
     (if truthy rid
      then (case find (\<lambda>r. er_id r = the rid) (ed_roles db) of
              None \<Rightarrow> Inl EmpRoleNotFound
            | Some r \<Rightarrow> if er_site r \<noteq> site then Inl EmpRoleForeign else Inr (er_id r))
      else (case find (\<lambda>r. er_site r = site \<and> er_name r = ''Operator'') (ed_roles db) of
              None \<Rightarrow> Inl NoOperatorRole
            | Some r \<Rightarrow> Inr (er_id r)))"

text \<open>Whether a version is the current one of an employee of the workspace, other than \<open>except\<close>.\<close>
definition current_in :: "uuid \<Rightarrow> uuid option \<Rightarrow> emp_db \<Rightarrow> employee_version \<Rightarrow> bool" where
  "current_in ws except db v =
     list_ex (\<lambda>e. em_version e = Some (ev_id v) \<and> em_workspace e = ws \<and> Some (em_id e) \<noteq> except) (ed_employees db)"

definition same_identity :: "string option \<Rightarrow> string option \<Rightarrow> employee_version \<Rightarrow> bool" where
  "same_identity num badge v =
     (truthy num \<and> ev_employee_number v = num \<or> truthy badge \<and> ev_badge v = badge)"

definition ensure_identity_available ::
  "uuid \<Rightarrow> uuid option \<Rightarrow> string option \<Rightarrow> string option \<Rightarrow> emp_db \<Rightarrow> emp_error + unit" where
  "ensure_identity_available ws except num badge db =
     (case find (\<lambda>v. same_identity num badge v \<and> current_in ws except db v) (ed_versions db) of
        None \<Rightarrow> Inr ()
      | Some v \<Rightarrow>
          if truthy num \<and> ev_employee_number v = num then Inl NumberTaken
          else if truthy badge \<and> ev_badge v = badge then Inl BadgeTaken
          else Inr ())"

record employee_input =
  ei_workspace :: "uuid option"
  ei_site :: "uuid option"
  ei_number :: "string option"
  ei_first :: string
  ei_last :: string
  ei_role :: "uuid option"
  ei_pin :: "string option"
  ei_badge :: "string option"

text \<open>The arguments \<open>i\<close> and \<open>j\<close> are the fresh ids of the employee and of its first version.\<close>
definition create_employee ::
  "(string \<Rightarrow> string) \<Rightarrow> uuid \<Rightarrow> uuid \<Rightarrow> iam_site list \<Rightarrow> employee_input \<Rightarrow> emp_db \<Rightarrow> emp_error + (employee \<times> emp_db)" where
  "create_employee hash i j sites inp db =
     (case resolve_workspace_id sites (ei_workspace inp) (ei_site inp) of
        Inl e \<Rightarrow> Inl e
      | Inr ws \<Rightarrow>
          (case ensure_identity_available ws None (ei_number inp) (ei_badge inp) db of
             Inl e \<Rightarrow> Inl e
           | Inr _ \<Rightarrow>
               (case (if truthy (ei_site inp)
                      then map_sum id Some (resolve_site_role (the (ei_site inp)) (ei_role inp) db)
                      else Inr None) of
                  Inl e \<Rightarrow> Inl e
                | Inr rid \<Rightarrow>
                    (let e = \<lparr>em_id = i, em_workspace = ws, em_status = EmpActive, em_version = Some j, em_failed = 0,
                              em_locked = None\<rparr>;
                         v = \<lparr>ev_id = j, ev_employee = i, ev_number = 1, ev_first = ei_first inp, ev_last = ei_last inp,
                              ev_employee_number = or_null (ei_number inp), ev_badge = or_null (ei_badge inp),
                              ev_pin = (if truthy (ei_pin inp) then Some (hash (the (ei_pin inp))) else None)\<rparr>;
                         access = (case rid of
                              None \<Rightarrow> []
                            | Some r \<Rightarrow> [\<lparr>sa_employee = i, sa_site = the (ei_site inp), sa_role = r, sa_status = EmpActive\<rparr>])
                     in Inr (e, db\<lparr>ed_employees := ed_employees db @ [e], ed_versions := ed_versions db @ [v],
                                  ed_access := ed_access db @ access\<rparr>)))))"

text \<open>Fields of an update: None is absent; for nullable fields Some None is null.\<close>
record employee_update =
  eu_number :: "string option option"
  eu_first :: "string option"
  eu_last :: "string option"
  eu_status :: "employee_status option"
  eu_role :: "uuid option"
  eu_pin :: "string option option"
  eu_badge :: "string option option"

definition needs_new_version :: "employee_update \<Rightarrow> bool" where
  "needs_new_version u =
     (eu_first u \<noteq> None \<or> eu_last u \<noteq> None \<or> eu_number u \<noteq> None \<or> eu_pin u \<noteq> None \<or> eu_badge u \<noteq> None)"

definition next_value :: "string option option \<Rightarrow> string option \<Rightarrow> string option" where
  "next_value new old = (case new of None \<Rightarrow> old | Some x \<Rightarrow> or_null x)"

text \<open>The site of the new role and the role, checked against the workspace of the employee.\<close>
definition role_update ::
  "iam_site list \<Rightarrow> uuid option \<Rightarrow> employee \<Rightarrow> emp_db \<Rightarrow> emp_error + (uuid \<times> uuid) option" where
  "role_update sites rid e db =
     (if \<not> truthy rid then Inr None
      else (case find (\<lambda>r. er_id r = the rid) (ed_roles db) of
              None \<Rightarrow> Inl EmpRoleNotFound
            | Some r \<Rightarrow>
                (case find (\<lambda>s. si_id s = er_site r) sites of
                   None \<Rightarrow> Inl EmpRoleNotFound
                 | Some s \<Rightarrow> if si_workspace s \<noteq> em_workspace e then Inl EmpWorkspaceMismatch
                              else Inr (Some (er_site r, er_id r)))))"

definition upsert_access :: "uuid \<Rightarrow> uuid \<times> uuid \<Rightarrow> site_access list \<Rightarrow> site_access list" where
  "upsert_access i sr as =
     (if list_ex (\<lambda>a. sa_employee a = i \<and> sa_site a = fst sr) as
      then update_where (\<lambda>a. sa_employee a = i \<and> sa_site a = fst sr) (\<lambda>a. a\<lparr>sa_role := snd sr, sa_status := EmpActive\<rparr>) as
      else as @ [\<lparr>sa_employee = i, sa_site = fst sr, sa_role = snd sr, sa_status = EmpActive\<rparr>])"

definition next_version ::
  "(string \<Rightarrow> string) \<Rightarrow> uuid \<Rightarrow> employee_update \<Rightarrow> employee_version \<Rightarrow> employee_version" where
  "next_version hash j u v =
     \<lparr>ev_id = j, ev_employee = ev_employee v, ev_number = ev_number v + 1,
      ev_first = (case eu_first u of None \<Rightarrow> ev_first v | Some s \<Rightarrow> s),
      ev_last = (case eu_last u of None \<Rightarrow> ev_last v | Some s \<Rightarrow> s),
      ev_employee_number = next_value (eu_number u) (ev_employee_number v),
      ev_badge = next_value (eu_badge u) (ev_badge v),
      ev_pin = (case eu_pin u of
                  None \<Rightarrow> ev_pin v
                | Some p \<Rightarrow> if truthy p then Some (hash (the p)) else None)\<rparr>"

definition set_employee :: "uuid \<Rightarrow> (employee \<Rightarrow> employee) \<Rightarrow> emp_db \<Rightarrow> emp_db" where
  "set_employee i f db = db\<lparr>ed_employees := update_where (\<lambda>e. em_id e = i) f (ed_employees db)\<rparr>"

definition update_employee ::
  "(string \<Rightarrow> string) \<Rightarrow> uuid \<Rightarrow> iam_site list \<Rightarrow> uuid \<Rightarrow> employee_update \<Rightarrow> emp_db \<Rightarrow> emp_error + emp_db" where
  "update_employee hash j sites i u db =
     (case find_employee i db of
        None \<Rightarrow> Inl EmployeeNotFound
      | Some e \<Rightarrow>
          (case current_version e db of
             None \<Rightarrow> Inl EmployeeNotFound
           | Some v \<Rightarrow>
               (case ensure_identity_available (em_workspace e) (Some (em_id e))
                       (next_value (eu_number u) (ev_employee_number v)) (next_value (eu_badge u) (ev_badge v)) db of
                  Inl x \<Rightarrow> Inl x
                | Inr _ \<Rightarrow>
                    (case role_update sites (eu_role u) e db of
                       Inl x \<Rightarrow> Inl x
                     | Inr role \<Rightarrow>
                         (let db1 = (case eu_status u of
                                       None \<Rightarrow> db
                                     | Some s \<Rightarrow> set_employee i (\<lambda>e. e\<lparr>em_status := s\<rparr>) db);
                              db2 = (case role of
                                       None \<Rightarrow> db1
                                     | Some sr \<Rightarrow> db1\<lparr>ed_access := upsert_access i sr (ed_access db1)\<rparr>)
                          in if \<not> needs_new_version u then Inr db2
                             else if list_ex (\<lambda>w. ev_employee w = i \<and> ev_number w = ev_number v + 1) (ed_versions db2)
                             then Inl EmpUniqueViolation
                             else Inr (set_employee i (\<lambda>e. e\<lparr>em_version := Some j\<rparr>)
                                    (db2\<lparr>ed_versions := ed_versions db2 @ [(next_version hash j u v)\<lparr>ev_employee := i\<rparr>]\<rparr>)))))))"

text \<open>
  Removing an employee ends the open sessions, then deletes the row; versions, accesses and
  sessions of the employee go with it, and memberships forget it.  The stations whose live
  value is published afterwards are returned.
\<close>
definition remove_employee :: "uuid \<Rightarrow> ms \<Rightarrow> emp_db \<Rightarrow> emp_error + (uuid list \<times> emp_db)" where
  "remove_employee i now db =
     (case find_employee i db of
        None \<Rightarrow> Inl EmployeeNotFound
      | Some _ \<Rightarrow>
          Inr (remdups (map lo_station (filter (\<lambda>s. lo_employee s = Some i \<and> lo_off s = None) (ed_logons db))),
               \<lparr>ed_employees = filter (\<lambda>e. em_id e \<noteq> i) (ed_employees db),
                ed_versions = filter (\<lambda>v. ev_employee v \<noteq> i) (ed_versions db),
                ed_roles = ed_roles db,
                ed_access = filter (\<lambda>a. sa_employee a \<noteq> i) (ed_access db),
                ed_logons = filter (\<lambda>s. lo_employee s \<noteq> Some i)
                   (update_where (\<lambda>s. lo_employee s = Some i \<and> lo_off s = None) (\<lambda>s. s\<lparr>lo_off := Some now\<rparr>) (ed_logons db))\<rparr>))"

definition on_site :: "uuid \<Rightarrow> emp_db \<Rightarrow> employee \<Rightarrow> bool" where
  "on_site site db e =
     (em_status e = EmpActive
      \<and> list_ex (\<lambda>a. sa_employee a = em_id e \<and> sa_site a = site \<and> sa_status a = EmpActive) (ed_access db))"

definition by_employee_number :: "uuid \<Rightarrow> string \<Rightarrow> emp_db \<Rightarrow> employee option" where
  "by_employee_number site n db =
     find (\<lambda>e. on_site site db e
        \<and> (case current_version e db of None \<Rightarrow> False | Some v \<Rightarrow> ev_employee_number v = Some n)) (ed_employees db)"

definition by_badge_number :: "uuid \<Rightarrow> string \<Rightarrow> emp_db \<Rightarrow> employee option" where
  "by_badge_number site b db =
     find (\<lambda>e. on_site site db e
        \<and> (case current_version e db of None \<Rightarrow> False | Some v \<Rightarrow> ev_badge v = Some b)) (ed_employees db)"

section \<open>Authentication of operators\<close>

datatype auth_method = ByEmployeeId | ByPin | ByBadge | Generic

record credentials =
  cr_number :: "string option"
  cr_pin :: "string option"
  cr_badge :: "string option"
  cr_employee :: "uuid option"
  cr_generic :: "string option"

record auth_data =
  ad_employee :: "uuid option"
  ad_version :: "uuid option"
  ad_first :: string
  ad_last :: string
  ad_role :: string
  ad_number :: "string option"

datatype auth_error =
    NameRequired
  | IdentifierRequired
  | UnknownEmployee
  | PinRequired
  | AccountLocked int
  | ProfileIncomplete
  | PinNotConfigured
  | InvalidPin
  | BadgeRequired
  | BadgeUnknown
  | InactiveEmployee

definition max_login_attempts :: nat where "max_login_attempts = 5"
definition login_lockout_ms :: ms where "login_lockout_ms = 15 * 60 * 1000"

text \<open>Split at the first space, unless it is missing or in front.\<close>
definition split_name :: "string \<Rightarrow> string \<times> string" where
  "split_name s =
     (let f = takeWhile (\<lambda>c. c \<noteq> CHR '' '') s
      in if f \<noteq> s \<and> f \<noteq> [] then (f, drop (length f + 1) s) else (s, ''''))"

definition role_at :: "uuid \<Rightarrow> employee \<Rightarrow> emp_db \<Rightarrow> string" where
  "role_at site e db =
     (case Option.bind (find (\<lambda>a. sa_employee a = em_id e \<and> sa_site a = site) (ed_access db))
             (\<lambda>a. find (\<lambda>r. er_id r = sa_role a) (ed_roles db)) of
        None \<Rightarrow> ''Operator''
      | Some r \<Rightarrow> er_name r)"

definition auth_of :: "uuid \<Rightarrow> employee \<Rightarrow> employee_version option \<Rightarrow> emp_db \<Rightarrow> auth_data" where
  "auth_of site e v db =
     \<lparr>ad_employee = Some (em_id e), ad_version = map_option ev_id v,
      ad_first = (case v of None \<Rightarrow> '''' | Some w \<Rightarrow> ev_first w),
      ad_last = (case v of None \<Rightarrow> '''' | Some w \<Rightarrow> ev_last w),
      ad_role = role_at site e db, ad_number = Option.bind v ev_employee_number\<rparr>"

definition unknown_operator :: "string \<Rightarrow> string \<Rightarrow> string option \<Rightarrow> auth_data" where
  "unknown_operator fst_name lst_name num =
     \<lparr>ad_employee = None, ad_version = None, ad_first = fst_name, ad_last = lst_name, ad_role = ''Operator'', ad_number = num\<rparr>"

definition authenticate_generic :: "credentials \<Rightarrow> auth_error + auth_data" where
  "authenticate_generic c =
     (let name = (case cr_generic c of None \<Rightarrow> '''' | Some s \<Rightarrow> js_trim s)
      in if name = '''' then Inl NameRequired
         else Inr (unknown_operator (fst (split_name name)) (snd (split_name name)) None))"

text \<open>By employee id, else by badge, else by number.\<close>
definition resolve_employee :: "uuid \<Rightarrow> credentials \<Rightarrow> emp_db \<Rightarrow> employee option" where
  "resolve_employee site c db =
     (if truthy (cr_employee c) then find (\<lambda>e. em_id e = the (cr_employee c) \<and> on_site site db e) (ed_employees db)
      else if truthy (cr_badge c) then by_badge_number site (the (cr_badge c)) db
      else if truthy (cr_number c) then by_employee_number site (the (cr_number c)) db
      else None)"

definition authenticate_employee_id :: "bool \<Rightarrow> uuid \<Rightarrow> credentials \<Rightarrow> emp_db \<Rightarrow> auth_error + auth_data" where
  "authenticate_employee_id auto site c db =
     (if \<not> truthy (cr_employee c) \<and> \<not> truthy (cr_number c) then Inl IdentifierRequired
      else (case resolve_employee site c db of
              None \<Rightarrow>
                if auto \<and> truthy (cr_number c) then Inr (unknown_operator (the (cr_number c)) '''' (cr_number c))
                else Inl UnknownEmployee
            | Some e \<Rightarrow>
                if em_status e \<noteq> EmpActive then Inl InactiveEmployee
                else Inr (auth_of site e (current_version e db) db)))"

definition authenticate_badge :: "bool \<Rightarrow> uuid \<Rightarrow> credentials \<Rightarrow> emp_db \<Rightarrow> auth_error + auth_data" where
  "authenticate_badge auto site c db =
     (if \<not> truthy (cr_badge c) then Inl BadgeRequired
      else (case by_badge_number site (the (cr_badge c)) db of
              None \<Rightarrow> if auto then Inr (unknown_operator (the (cr_badge c)) '''' None) else Inl BadgeUnknown
            | Some e \<Rightarrow>
                if em_status e \<noteq> EmpActive then Inl InactiveEmployee
                else Inr (auth_of site e (current_version e db) db)))"

text \<open>The minutes left, rounded up.\<close>
definition check_lockout :: "ms \<Rightarrow> ms option \<Rightarrow> int option" where
  "check_lockout now locked =
     (case locked of None \<Rightarrow> None | Some u \<Rightarrow> if u > now then Some \<lceil>of_int (u - now) / (60000 :: rat)\<rceil> else None)"

definition handle_failed_attempt :: "uuid \<Rightarrow> nat \<Rightarrow> ms \<Rightarrow> ms \<Rightarrow> emp_db \<Rightarrow> emp_db" where
  "handle_failed_attempt i limit period now db =
     (let attempts = (case find_employee i db of None \<Rightarrow> 0 | Some e \<Rightarrow> em_failed e) + 1
      in set_employee i (\<lambda>e. e\<lparr>em_failed := attempts,
           em_locked := (if attempts \<ge> limit then Some (now + period) else None)\<rparr>) db)"

definition reset_failed_attempts :: "uuid \<Rightarrow> emp_db \<Rightarrow> emp_db" where
  "reset_failed_attempts i db = set_employee i (\<lambda>e. e\<lparr>em_failed := 0, em_locked := None\<rparr>) db"

text \<open>The current version with its PIN hash, when it has one.\<close>
definition pin_of :: "employee \<Rightarrow> emp_db \<Rightarrow> (employee_version \<times> string) option" where
  "pin_of e db =
     Option.bind (current_version e db) (\<lambda>v. if truthy (ev_pin v) then Some (v, the (ev_pin v)) else None)"

definition authenticate_pin ::
  "(string \<Rightarrow> string \<Rightarrow> bool) \<Rightarrow> nat \<Rightarrow> ms \<Rightarrow> ms \<Rightarrow> uuid \<Rightarrow> credentials \<Rightarrow> emp_db \<Rightarrow> (auth_error + auth_data) \<times> emp_db" where
  "authenticate_pin compare limit period now site c db =
     (if \<not> truthy (cr_pin c) then (Inl PinRequired, db)
      else (case resolve_employee site c db of
        None \<Rightarrow> (Inl UnknownEmployee, db)
      | Some e \<Rightarrow>
          (case check_lockout now (em_locked e) of
             Some m \<Rightarrow> (Inl (AccountLocked m), db)
           | None \<Rightarrow>
               if em_version e = None then (Inl ProfileIncomplete, db)
               else (case pin_of e db of
                 None \<Rightarrow> (Inl PinNotConfigured, db)
               | Some (v, pin_hash) \<Rightarrow>
                   if \<not> compare (the (cr_pin c)) pin_hash
                   then (Inl InvalidPin, handle_failed_attempt (em_id e) limit period now db)
                   else (Inr (auth_of site e (Some v) db), reset_failed_attempts (em_id e) db)))))"

record auth_config =
  ac_max :: "nat option"
  ac_minutes :: "int option"
  ac_auto :: "bool option"

definition authenticate ::
  "(string \<Rightarrow> string \<Rightarrow> bool) \<Rightarrow> auth_config \<Rightarrow> ms \<Rightarrow> uuid \<Rightarrow> auth_method \<Rightarrow> credentials \<Rightarrow> emp_db
     \<Rightarrow> (auth_error + auth_data) \<times> emp_db" where
  "authenticate compare cfg now site method c db =
     (let limit = (case ac_max cfg of None \<Rightarrow> max_login_attempts | Some n \<Rightarrow> n);
          period = (case ac_minutes cfg of None \<Rightarrow> 15 | Some m \<Rightarrow> m) * 60 * 1000;
          auto = (ac_auto cfg = Some True)
      in case method of
           Generic \<Rightarrow> (authenticate_generic c, db)
         | ByEmployeeId \<Rightarrow> (authenticate_employee_id auto site c db, db)
         | ByPin \<Rightarrow> authenticate_pin compare limit period now site c db
         | ByBadge \<Rightarrow> (authenticate_badge auto site c db, db))"

section \<open>Logon sessions\<close>

definition logon_name :: "emp_db \<Rightarrow> logon_session \<Rightarrow> string" where
  "logon_name db s =
     (if truthy (lo_generic s) then the (lo_generic s)
      else (case Option.bind (lo_version s) (\<lambda>i. find_version i db) of
              None \<Rightarrow> ''Unknown''
            | Some v \<Rightarrow>
                (let full = js_trim (if ev_first v = '''' then ev_last v
                                         else if ev_last v = '''' then ev_first v
                                         else ev_first v @ '' '' @ ev_last v)
                 in if full \<noteq> '''' then full
                    else if truthy (ev_employee_number v) then the (ev_employee_number v) else ''Unknown'')))"

fun join_comma :: "string list \<Rightarrow> string" where
  "join_comma [] = ''''"
| "join_comma [s] = s"
| "join_comma (s # t # ss) = s @ '', '' @ join_comma (t # ss)"

definition format_station_logons :: "emp_db \<Rightarrow> logon_session list \<Rightarrow> string option" where
  "format_station_logons db ss = (if ss = [] then None else Some (join_comma (map (logon_name db) ss)))"

definition open_at_station :: "uuid \<Rightarrow> emp_db \<Rightarrow> logon_session list" where
  "open_at_station st db = sort_key lo_time (filter (\<lambda>s. lo_station s = st \<and> lo_off s = None) (ed_logons db))"

text \<open>The live value of a station; None when the walk over the workcenters does not end.\<close>
definition publish_current_logons :: "state_db \<Rightarrow> uuid \<Rightarrow> ms \<Rightarrow> emp_db \<Rightarrow> live_event list option" where
  "publish_current_logons sdb st tm db =
     do { c \<leftarrow> load_metric_context sdb st;
          Some (case c of
                  None \<Rightarrow> []
                | Some ctx \<Rightarrow> [live_metric ctx ''currentLogons''
                      (json_string (format_station_logons db (open_at_station st db))) tm]) }"

definition active_sessions :: "uuid \<Rightarrow> emp_db \<Rightarrow> logon_session list" where
  "active_sessions d db = sort_key lo_time (filter (\<lambda>s. lo_display s = d \<and> lo_off s = None) (ed_logons db))"

record logon_input =
  li_employee :: "uuid option"
  li_version :: "uuid option"
  li_station :: uuid
  li_display :: uuid
  li_method :: string
  li_generic :: "string option"

text \<open>\<open>shift\<close> is the answer of the shift resolution for the site and workcenter of the station.\<close>
definition logon ::
  "uuid \<Rightarrow> ms \<Rightarrow> (uuid \<Rightarrow> uuid option \<Rightarrow> current_shift_error + current_shift) \<Rightarrow> state_db \<Rightarrow> logon_input \<Rightarrow> emp_db
     \<Rightarrow> emp_error + (logon_session \<times> emp_db)" where
  "logon i now shift sdb inp db =
     (case find (\<lambda>s. sr_id s = li_station inp) (sd_stations sdb) of
        None \<Rightarrow> Inl LogonStationNotFound
      | Some st \<Rightarrow>
          if truthy (li_employee inp)
             \<and> list_ex (\<lambda>s. lo_employee s = li_employee inp \<and> lo_display s = li_display inp \<and> lo_off s = None) (ed_logons db)
          then Inl AlreadyLoggedOn
          else (let inst = (case shift (sr_site st) (sr_workcenter st) of
                              Inl _ \<Rightarrow> None
                            | Inr c \<Rightarrow> map_option fst (cu_shift c));
                    s = \<lparr>lo_id = i, lo_employee = li_employee inp, lo_version = li_version inp,
                         lo_station = li_station inp, lo_display = li_display inp, lo_generic = or_null (li_generic inp),
                         lo_method = li_method inp, lo_time = now, lo_off = None, lo_shift = inst\<rparr>
                in Inr (s, db\<lparr>ed_logons := ed_logons db @ [s]\<rparr>)))"

definition end_sessions :: "(logon_session \<Rightarrow> bool) \<Rightarrow> ms \<Rightarrow> emp_db \<Rightarrow> emp_db" where
  "end_sessions p now db =
     db\<lparr>ed_logons := update_where (\<lambda>s. p s \<and> lo_off s = None) (\<lambda>s. s\<lparr>lo_off := Some now\<rparr>) (ed_logons db)\<rparr>"

definition logoff :: "uuid \<Rightarrow> uuid \<Rightarrow> ms \<Rightarrow> emp_db \<Rightarrow> emp_error + (uuid \<times> emp_db)" where
  "logoff i d now db =
     (case find (\<lambda>s. lo_id s = i) (ed_logons db) of
        None \<Rightarrow> Inl LogonNotFound
      | Some s \<Rightarrow>
          if lo_display s \<noteq> d then Inl LogonForbidden
          else if lo_off s \<noteq> None then Inl LogonEnded
          else Inr (lo_station s, end_sessions (\<lambda>x. lo_id x = i) now db))"

text \<open>The number of ended sessions and the stations to publish.\<close>
definition logoff_where :: "(logon_session \<Rightarrow> bool) \<Rightarrow> ms \<Rightarrow> emp_db \<Rightarrow> (nat \<times> uuid list) \<times> emp_db" where
  "logoff_where p now db =
     (let open_rows = filter (\<lambda>s. p s \<and> lo_off s = None) (ed_logons db)
      in ((length open_rows, remdups (map lo_station open_rows)), end_sessions p now db))"

definition logoff_all :: "uuid \<Rightarrow> ms \<Rightarrow> emp_db \<Rightarrow> (nat \<times> uuid list) \<times> emp_db" where
  "logoff_all d now db = logoff_where (\<lambda>s. lo_display s = d) now db"

datatype logoff_scope = StationScope | DisplayScope

definition logoff_by_scope ::
  "logoff_scope \<Rightarrow> uuid \<Rightarrow> uuid option \<Rightarrow> (uuid \<Rightarrow> uuid option) \<Rightarrow> ms \<Rightarrow> emp_db \<Rightarrow> (nat \<times> uuid list) \<times> emp_db" where
  "logoff_by_scope scope d st provisioned now db =
     (case scope of
        StationScope \<Rightarrow>
          (let resolved = (if truthy st then st else provisioned d)
           in if \<not> truthy resolved then ((0, []), db)
              else logoff_where (\<lambda>s. Some (lo_station s) = resolved) now db)
      | DisplayScope \<Rightarrow> logoff_where (\<lambda>s. lo_display s = d) now db)"

section \<open>PIN guesses are bounded\<close>

text \<open>The attempts of one operator identity differ in the PIN only.\<close>
definition with_pin :: "credentials \<Rightarrow> string \<Rightarrow> credentials" where
  "with_pin c p = c\<lparr>cr_pin := Some p\<rparr>"

definition pin_checks :: "uuid \<Rightarrow> credentials \<Rightarrow> ms \<Rightarrow> emp_db \<Rightarrow> bool" where
  "pin_checks site c now db =
     (case resolve_employee site c db of
        None \<Rightarrow> False
      | Some e \<Rightarrow> check_lockout now (em_locked e) = None \<and> em_version e \<noteq> None \<and> pin_of e db \<noteq> None)"

definition wrong_pin :: "(string \<Rightarrow> string \<Rightarrow> bool) \<Rightarrow> uuid \<Rightarrow> credentials \<Rightarrow> string \<Rightarrow> emp_db \<Rightarrow> bool" where
  "wrong_pin compare site c p db =
     (p \<noteq> '''' \<and> (case resolve_employee site c db of
        None \<Rightarrow> True
      | Some e \<Rightarrow> (case pin_of e db of None \<Rightarrow> True | Some (v, h) \<Rightarrow> \<not> compare p h)))"

definition pin_tries :: "uuid \<Rightarrow> credentials \<Rightarrow> emp_db \<Rightarrow> nat" where
  "pin_tries site c db =
     (case Option.bind (resolve_employee site c db) (\<lambda>e. find_employee (em_id e) db) of None \<Rightarrow> 0 | Some e \<Rightarrow> em_failed e)"

definition pin_lock :: "uuid \<Rightarrow> credentials \<Rightarrow> emp_db \<Rightarrow> ms option" where
  "pin_lock site c db = Option.bind (resolve_employee site c db) em_locked"

definition pin_attempt ::
  "(string \<Rightarrow> string \<Rightarrow> bool) \<Rightarrow> nat \<Rightarrow> ms \<Rightarrow> uuid \<Rightarrow> credentials \<Rightarrow> ms \<Rightarrow> string \<Rightarrow> emp_db \<Rightarrow> emp_db" where
  "pin_attempt compare limit period site c now p db =
     snd (authenticate_pin compare limit period now site (with_pin c p) db)"

fun pin_rejections ::
  "(string \<Rightarrow> string \<Rightarrow> bool) \<Rightarrow> nat \<Rightarrow> ms \<Rightarrow> uuid \<Rightarrow> credentials \<Rightarrow> (ms \<times> string) list \<Rightarrow> emp_db \<Rightarrow> nat" where
  "pin_rejections compare limit period site c [] db = 0"
| "pin_rejections compare limit period site c ((now, p) # as) db =
     (case authenticate_pin compare limit period now site (with_pin c p) db of
        (r, db') \<Rightarrow> (if r = Inl InvalidPin then 1 else 0) + pin_rejections compare limit period site c as db')"

text \<open>The counters of an employee take no part in the lookups.\<close>
definition counters_only :: "(employee \<Rightarrow> employee) \<Rightarrow> bool" where
  "counters_only f = (\<forall>e. em_id (f e) = em_id e \<and> em_workspace (f e) = em_workspace e \<and> em_status (f e) = em_status e
     \<and> em_version (f e) = em_version e)"

lemma set_employee_tables [simp]:
  "ed_versions (set_employee i f db) = ed_versions db" "ed_access (set_employee i f db) = ed_access db"
  "ed_roles (set_employee i f db) = ed_roles db" "ed_logons (set_employee i f db) = ed_logons db"
  "ed_employees (set_employee i f db) = update_where (\<lambda>e. em_id e = i) f (ed_employees db)"
  by (simp_all add: set_employee_def)

lemma find_update_counters:
  assumes "\<And>e. P (f e) = P e"
  shows "find P (update_where q f xs) = map_option (\<lambda>e. if q e then f e else e) (find P xs)"
  using assms by (induction xs) (auto simp: update_where_def)

lemma counters_lookups:
  assumes "counters_only f"
  shows "current_version (f e) db = current_version e db" "on_site site db (f e) = on_site site db e"
    "current_version e (set_employee i f db) = current_version e db"
    "on_site site (set_employee i f db) e = on_site site db e"
  using assms by (auto simp: counters_only_def current_version_def on_site_def find_version_def)

lemma resolve_counters:
  assumes "counters_only f"
  shows "resolve_employee site c (set_employee i f db)
    = map_option (\<lambda>e. if em_id e = i then f e else e) (resolve_employee site c db)"
proof -
  have id: "em_id (f e) = em_id e" for e using assms by (simp add: counters_only_def)
  show ?thesis
    unfolding resolve_employee_def by_badge_number_def by_employee_number_def
    by (auto simp: counters_lookups[OF assms] id intro!: find_update_counters)
qed

lemma pin_of_counters: "counters_only f \<Longrightarrow> pin_of e (set_employee i f db) = pin_of e db"
  "counters_only f \<Longrightarrow> pin_of (f e) db = pin_of e db"
  by (simp_all add: pin_of_def counters_lookups)

lemma find_employee_counters:
  assumes "counters_only f"
  shows "find_employee j (set_employee i f db) = map_option (\<lambda>e. if em_id e = i then f e else e) (find_employee j db)"
  unfolding find_employee_def set_employee_tables
  using assms by (intro find_update_counters) (simp add: counters_only_def)

lemma resolve_with_pin [simp]: "resolve_employee site (with_pin c p) db = resolve_employee site c db"
  by (simp add: resolve_employee_def with_pin_def)

lemma cr_pin_with_pin [simp]: "cr_pin (with_pin c p) = Some p"
  by (simp add: with_pin_def)

lemma resolve_in: "resolve_employee site c db = Some e \<Longrightarrow> e \<in> set (ed_employees db)"
  by (auto simp: resolve_employee_def by_badge_number_def by_employee_number_def find_Some_iff split: if_splits)

lemma find_employee_self: "e \<in> set (ed_employees db) \<Longrightarrow> \<exists>d. find_employee (em_id e) db = Some d \<and> em_id d = em_id e"
  unfolding find_employee_def
  by (cases "find (\<lambda>d. em_id d = em_id e) (ed_employees db)") (auto simp: find_None_iff find_Some_iff)

lemma pin_failed:
  assumes "pin_checks site c now db" "wrong_pin compare site c p db"
  obtains e d where "resolve_employee site c db = Some e" "find_employee (em_id e) db = Some d"
    "authenticate_pin compare limit period now site (with_pin c p) db
       = (Inl InvalidPin, set_employee (em_id e) (\<lambda>x. x\<lparr>em_failed := Suc (em_failed d),
            em_locked := (if limit \<le> Suc (em_failed d) then Some (now + period) else None)\<rparr>) db)"
proof -
  from assms(1) obtain e v h where e: "resolve_employee site c db = Some e" "check_lockout now (em_locked e) = None"
    "em_version e \<noteq> None" "pin_of e db = Some (v, h)"
    by (auto simp: pin_checks_def split: option.splits)
  from find_employee_self[OF resolve_in[OF e(1)]] obtain d where d: "find_employee (em_id e) db = Some d" by blast
  have "authenticate_pin compare limit period now site (with_pin c p) db
      = (Inl InvalidPin, handle_failed_attempt (em_id e) limit period now db)"
    using e assms(2) by (simp add: authenticate_pin_def wrong_pin_def truthy_def)
  then show ?thesis using that[OF e(1) d] d by (simp add: handle_failed_attempt_def)
qed

lemma pin_ignored:
  assumes "\<not> pin_checks site c now db"
  shows "snd (authenticate_pin compare limit period now site (with_pin c p) db) = db
    \<and> fst (authenticate_pin compare limit period now site (with_pin c p) db) \<noteq> Inl InvalidPin"
  using assms by (auto simp: authenticate_pin_def pin_checks_def split: option.splits prod.splits)

interpretation pin_lock: lockout "pin_tries site c" "pin_lock site c" "pin_checks site c" "wrong_pin compare site c"
  "pin_attempt compare limit period site c" limit period
  for site c compare limit period
proof
  fix now s u p p'
  show "u \<le> now" if "pin_checks site c now s" "pin_lock site c s = Some u"
    using that by (auto simp: pin_checks_def pin_lock_def check_lockout_def split: option.splits if_splits)
  show "pin_attempt compare limit period site c now p s = s" if "\<not> pin_checks site c now s"
    using pin_ignored[OF that] by (simp add: pin_attempt_def)
  assume a: "pin_checks site c now s" "wrong_pin compare site c p s"
  from pin_failed[OF a, of limit period] obtain e d where
    e: "resolve_employee site c s = Some e" "find_employee (em_id e) s = Some d"
    and eq: "authenticate_pin compare limit period now site (with_pin c p) s = (Inl InvalidPin, set_employee (em_id e)
      (\<lambda>x. x\<lparr>em_failed := Suc (em_failed d), em_locked := (if limit \<le> Suc (em_failed d) then Some (now + period) else None)\<rparr>) s)" .
  note s' = pin_attempt_def[of compare limit period site c now p s, unfolded eq snd_conv]
  have co: "counters_only (\<lambda>x. x\<lparr>em_failed := Suc (em_failed d),
      em_locked := (if limit \<le> Suc (em_failed d) then Some (now + period) else None)\<rparr>)"
    by (simp add: counters_only_def)
  have d: "em_id d = em_id e" using find_employee_self[OF resolve_in[OF e(1)]] e(2) by simp
  note look = resolve_counters[OF co] find_employee_counters[OF co] pin_of_counters[OF co]
  show "pin_tries site c (pin_attempt compare limit period site c now p s) = Suc (pin_tries site c s)"
    using e d by (simp add: s' pin_tries_def look)
  show "pin_lock site c (pin_attempt compare limit period site c now p s)
      = (if limit \<le> Suc (pin_tries site c s) then Some (now + period) else None)"
    using e by (simp add: s' pin_lock_def pin_tries_def look)
  show "wrong_pin compare site c p' (pin_attempt compare limit period site c now p s) = wrong_pin compare site c p' s"
    using e by (simp add: s' wrong_pin_def look)
qed

lemma rejections_are_guesses:
  "pin_rejections compare limit period site c as db \<le> pin_lock.guesses site c compare limit period as db"
proof (induction as arbitrary: db)
  case (Cons a as)
  obtain now p where a: "a = (now, p)" by fastforce
  obtain r db' where res: "authenticate_pin compare limit period now site (with_pin c p) db = (r, db')" by fastforce
  then have "pin_attempt compare limit period site c now p db = db'" by (simp add: pin_attempt_def)
  moreover have "r = Inl InvalidPin \<Longrightarrow> pin_checks site c now db"
    using pin_ignored[of site c now db compare limit period p] res by auto
  ultimately show ?case using Cons.IH[of db'] a res by auto
qed simp

text \<open>
  brute force on a PIN.  However an attacker spaces wrong PINs for one operator over a span of
  time, with no right PIN in between, at most \<open>limit\<close> of them (less the failures already counted, but
  at least one) are compared and answered "Invalid PIN", plus one per full lockout period; the
  others meet the lock.
\<close>
theorem pin_guesses_bounded:
  assumes "0 < period" "sorted (map fst as)" "t0 \<le> t1"
    and "\<forall>a \<in> set as. t0 \<le> fst a \<and> fst a \<le> t1 \<and> wrong_pin compare site c (snd a) db"
  shows "int (pin_rejections compare limit period site c as db)
    \<le> max 1 (int limit - int (pin_tries site c db)) + (t1 - t0) div period"
proof -
  have "int (pin_rejections compare limit period site c as db) \<le> int (pin_lock.guesses site c compare limit period as db)"
    using rejections_are_guesses[of compare limit period site c as db] by simp
  also have "\<dots> \<le> max 1 (int limit - int (pin_tries site c db)) + (t1 - t0) div period"
    by (rule pin_lock.guesses_in_span[OF assms(1,2,4,3)])
  finally show ?thesis .
qed

definition sample_emp :: emp_db where
  "sample_emp =
     \<lparr>ed_employees = [\<lparr>em_id = ''e'', em_workspace = ''w'', em_status = EmpActive, em_version = Some ''v'', em_failed = 0,
                       em_locked = None\<rparr>],
      ed_versions = [\<lparr>ev_id = ''v'', ev_employee = ''e'', ev_number = 1, ev_first = ''Ada'', ev_last = ''L'',
                      ev_employee_number = Some ''7'', ev_badge = None, ev_pin = Some ''4711''\<rparr>],
      ed_roles = [], ed_access = [\<lparr>sa_employee = ''e'', sa_site = ''s'', sa_role = ''r'', sa_status = EmpActive\<rparr>],
      ed_logons = []\<rparr>"

definition sample_credentials :: credentials where
  "sample_credentials = \<lparr>cr_number = Some ''7'', cr_pin = None, cr_badge = None, cr_employee = None, cr_generic = None\<rparr>"

lemmas emp_eval =
  sample_emp_def sample_credentials_def with_pin_def authenticate_pin_def resolve_employee_def by_employee_number_def
  by_badge_number_def on_site_def current_version_def find_version_def find_employee_def pin_of_def check_lockout_def
  handle_failed_attempt_def set_employee_def update_where_def reset_failed_attempts_def truthy_def wrong_pin_def
  pin_tries_def

theorem pin_guesses_bounded_witness:
  "int (pin_rejections (=) 2 100 ''s'' sample_credentials [(0, ''1''), (1, ''2''), (2, ''3''), (101, ''4''), (150, ''5'')] sample_emp)
     \<le> max 1 (2 - int (pin_tries ''s'' sample_credentials sample_emp)) + (150 - 0) div 100
   \<and> pin_rejections (=) 2 100 ''s'' sample_credentials [(0, ''1''), (1, ''2''), (2, ''3''), (101, ''4''), (150, ''5'')] sample_emp = 3"
proof
  show "int (pin_rejections (=) 2 100 ''s'' sample_credentials [(0, ''1''), (1, ''2''), (2, ''3''), (101, ''4''), (150, ''5'')] sample_emp)
     \<le> max 1 (2 - int (pin_tries ''s'' sample_credentials sample_emp)) + (150 - 0) div 100"
    using pin_guesses_bounded[of 100 "[(0, ''1''), (1, ''2''), (2, ''3''), (101, ''4''), (150, ''5'')]" 0 150 "(=)" "''s''"
        sample_credentials sample_emp 2]
    by (simp add: emp_eval)
  show "pin_rejections (=) 2 100 ''s'' sample_credentials [(0, ''1''), (1, ''2''), (2, ''3''), (101, ''4''), (150, ''5'')] sample_emp = 3"
    by (simp add: emp_eval)
qed

end
