(* ===== verification/Sessions.thy ===== *)
theory Sessions
  imports Employees
begin

text \<open>
  Authentication: access and refresh tokens (\<open>packages/services/src/auth/tokens.ts\<close>), user sessions
  (\<open>apps/api/src/services/auth/session.ts\<close>), display sessions (\<open>auth/display-session.ts\<close>), the
  resolution of the caller of a request (\<open>apps/api/src/services/auth/plugin.ts\<close>), invitations and
  passwords (\<open>account/user/invite.ts\<close>, \<open>password.ts\<close>).  The signature of access tokens, the
  password hash with its comparison, and the token digest are parameters \<open>sign\<close>, \<open>check\<close>,
  \<open>hash\<close>, \<open>compare\<close> and \<open>sha\<close>; fresh random tokens and row ids are arguments.
\<close>

section \<open>State\<close>

datatype display_status = Unclaimed | Claimed

record display =
  ds_id :: uuid
  ds_status :: display_status
  ds_secret :: "string option"
  ds_secret_used :: "ms option"
  ds_site :: "uuid option"

record auth_db =
  au_iam :: iam_db
  au_emp :: emp_db
  au_displays :: "display list"
  au_display_tokens :: "refresh_token list"

text \<open>The contents of an access token.\<close>
datatype payload =
    UserToken uuid string "uuid option" "uuid option"
  | DisplayToken uuid uuid uuid

datatype session_error =
    InvalidCredentials
  | LoginLocked int
  | AccountDisabled
  | RegistrationIncomplete
  | TooManyAttempts
  | NotInWorkspace
  | SiteNotAuthorized
  | InvalidRefreshToken
  | AccountNotActive
  | AccountLockedNow
  | NotAMember
  | SessionSiteNotFound
  | DisplayNotClaimed
  | DisplayWithoutSite
  | DisplayNotActive
  | TokenCollision

definition access_token_expiry :: ms where "access_token_expiry = 15 * 60 * 1000"
definition refresh_token_expiry :: ms where "refresh_token_expiry = 7 * 24 * 60 * 60 * 1000"

section \<open>Refresh tokens\<close>

text \<open>Both tables of tokens have the same shape; the hash is unique.\<close>
definition find_token :: "string \<Rightarrow> refresh_token list \<Rightarrow> refresh_token option" where
  "find_token h ts = find (\<lambda>t. tk_hash t = h) ts"

definition insert_token :: "uuid \<Rightarrow> ms \<Rightarrow> string \<Rightarrow> uuid \<Rightarrow> refresh_token list \<Rightarrow> refresh_token list option" where
  "insert_token i now h u ts =
     (if find_token h ts \<noteq> None then None
      else Some (ts @ [\<lparr>tk_id = i, tk_hash = h, tk_owner = u, tk_expires = now + refresh_token_expiry, tk_revoked = None\<rparr>]))"

definition valid_token :: "ms \<Rightarrow> string \<Rightarrow> refresh_token list \<Rightarrow> uuid option" where
  "valid_token now h ts =
     (case find_token h ts of
        None \<Rightarrow> None
      | Some t \<Rightarrow> if tk_revoked t \<noteq> None then None
                   else if tk_expires t < now then None
                   else Some (tk_owner t))"

definition revoke_token :: "ms \<Rightarrow> string \<Rightarrow> refresh_token list \<Rightarrow> refresh_token list" where
  "revoke_token now h ts = update_where (\<lambda>t. tk_hash t = h) (\<lambda>t. t\<lparr>tk_revoked := Some now\<rparr>) ts"

definition revoke_all_of :: "ms \<Rightarrow> uuid \<Rightarrow> refresh_token list \<Rightarrow> refresh_token list" where
  "revoke_all_of now u ts =
     update_where (\<lambda>t. tk_owner t = u \<and> tk_revoked t = None) (\<lambda>t. t\<lparr>tk_revoked := Some now\<rparr>) ts"

definition cleanup_tokens :: "ms \<Rightarrow> refresh_token list \<Rightarrow> refresh_token list" where
  "cleanup_tokens now ts = filter (\<lambda>t. \<not> (tk_expires t < now \<or> tk_revoked t \<noteq> None)) ts"

text \<open>The table of users and that of displays.\<close>
definition on_user_tokens :: "(refresh_token list \<Rightarrow> refresh_token list) \<Rightarrow> auth_db \<Rightarrow> auth_db" where
  "on_user_tokens f db = db\<lparr>au_iam := (au_iam db)\<lparr>id_tokens := f (id_tokens (au_iam db))\<rparr>\<rparr>"

definition user_tokens :: "auth_db \<Rightarrow> refresh_token list" where
  "user_tokens db = id_tokens (au_iam db)"

definition on_display_tokens :: "(refresh_token list \<Rightarrow> refresh_token list) \<Rightarrow> auth_db \<Rightarrow> auth_db" where
  "on_display_tokens f db = db\<lparr>au_display_tokens := f (au_display_tokens db)\<rparr>"

text \<open>Issuing fails when the hash is taken.\<close>
definition create_refresh_token :: "uuid \<Rightarrow> ms \<Rightarrow> string \<Rightarrow> uuid \<Rightarrow> auth_db \<Rightarrow> auth_db option" where
  "create_refresh_token i now h u db =
     map_option (\<lambda>ts. on_user_tokens (\<lambda>_. ts) db) (insert_token i now h u (user_tokens db))"

definition create_display_refresh_token :: "uuid \<Rightarrow> ms \<Rightarrow> string \<Rightarrow> uuid \<Rightarrow> auth_db \<Rightarrow> auth_db option" where
  "create_display_refresh_token i now h d db =
     map_option (\<lambda>ts. on_display_tokens (\<lambda>_. ts) db) (insert_token i now h d (au_display_tokens db))"

definition verify_refresh_token :: "ms \<Rightarrow> string \<Rightarrow> auth_db \<Rightarrow> uuid option" where
  "verify_refresh_token now h db = valid_token now h (user_tokens db)"

definition verify_display_refresh_token :: "ms \<Rightarrow> string \<Rightarrow> auth_db \<Rightarrow> uuid option" where
  "verify_display_refresh_token now h db = valid_token now h (au_display_tokens db)"

definition revoke_refresh_token :: "ms \<Rightarrow> string \<Rightarrow> auth_db \<Rightarrow> bool \<times> auth_db" where
  "revoke_refresh_token now h db =
     (find_token h (user_tokens db) \<noteq> None, on_user_tokens (revoke_token now h) db)"

definition revoke_display_refresh_token :: "ms \<Rightarrow> string \<Rightarrow> auth_db \<Rightarrow> bool \<times> auth_db" where
  "revoke_display_refresh_token now h db =
     (find_token h (au_display_tokens db) \<noteq> None, on_display_tokens (revoke_token now h) db)"

definition revoke_all_user_tokens :: "ms \<Rightarrow> uuid \<Rightarrow> auth_db \<Rightarrow> nat \<times> auth_db" where
  "revoke_all_user_tokens now u db =
     (count_where (\<lambda>t. tk_owner t = u \<and> tk_revoked t = None) (user_tokens db), on_user_tokens (revoke_all_of now u) db)"

definition revoke_all_display_tokens :: "ms \<Rightarrow> uuid \<Rightarrow> auth_db \<Rightarrow> nat \<times> auth_db" where
  "revoke_all_display_tokens now d db =
     (count_where (\<lambda>t. tk_owner t = d \<and> tk_revoked t = None) (au_display_tokens db), on_display_tokens (revoke_all_of now d) db)"

definition cleanup_expired_tokens :: "ms \<Rightarrow> auth_db \<Rightarrow> auth_db" where
  "cleanup_expired_tokens now db = on_user_tokens (cleanup_tokens now) db"

definition cleanup_expired_display_tokens :: "ms \<Rightarrow> auth_db \<Rightarrow> auth_db" where
  "cleanup_expired_display_tokens now db = on_display_tokens (cleanup_tokens now) db"

section \<open>User sessions\<close>

definition set_auth_user :: "uuid \<Rightarrow> (iam_user \<Rightarrow> iam_user) \<Rightarrow> auth_db \<Rightarrow> auth_db" where
  "set_auth_user u f db = db\<lparr>au_iam := set_user u f (au_iam db)\<rparr>"

text \<open>
  The payload of an access token: the given workspace or else the one the user joined first, and the
  given site or else the first accessible one; \<open>rank\<close> is the collation order of site names.
\<close>
definition user_token_for ::
  "(string \<Rightarrow> nat) \<Rightarrow> iam_user \<Rightarrow> uuid option \<Rightarrow> uuid option \<Rightarrow> iam_db \<Rightarrow> session_error + payload" where
  "user_token_for rank u ws site db =
     (case (if truthy ws then find_member (us_id u) (the ws) db
            else first_asc me_joined (filter (\<lambda>m. me_user m = us_id u) (id_members db))) of
        None \<Rightarrow> Inl NotInWorkspace
      | Some m \<Rightarrow>
          (let sites = list_accessible_sites rank (us_id u) (me_workspace m) ''facility:read'' db
           in if truthy site
              then (case find (\<lambda>s. si_id s = the site) sites of
                      None \<Rightarrow> Inl SiteNotAuthorized
                    | Some s \<Rightarrow> Inr (UserToken (us_id u) (us_email u) (Some (me_workspace m)) (Some (si_id s))))
              else Inr (UserToken (us_id u) (us_email u) (Some (me_workspace m))
                     (case sites of [] \<Rightarrow> None | s # _ \<Rightarrow> Some (si_id s)))))"

record 't session =
  sn_access :: 't
  sn_refresh :: string
  sn_expires :: ms

definition minutes_left :: "ms \<Rightarrow> ms \<Rightarrow> int" where
  "minutes_left now until = \<lceil>of_int (until - now) / (60000 :: rat)\<rceil>"

definition locked_at :: "ms \<Rightarrow> iam_user \<Rightarrow> bool" where
  "locked_at now u = (case us_locked u of None \<Rightarrow> False | Some t \<Rightarrow> t > now)"

definition find_by_email :: "string \<Rightarrow> auth_db \<Rightarrow> iam_user option" where
  "find_by_email email db = find (\<lambda>u. us_email u = map to_lower email) (id_users (au_iam db))"

text \<open>\<open>sha\<close> is the digest of tokens, \<open>tok\<close> the fresh refresh token and \<open>i\<close> the id of its row.\<close>
definition login ::
  "(ms \<Rightarrow> payload \<Rightarrow> 't) \<Rightarrow> (string \<Rightarrow> nat) \<Rightarrow> (string \<Rightarrow> string) \<Rightarrow> (string \<Rightarrow> string \<Rightarrow> bool) \<Rightarrow> uuid \<Rightarrow> string \<Rightarrow> ms
     \<Rightarrow> string \<Rightarrow> string \<Rightarrow> auth_db \<Rightarrow> (session_error + 't session) \<times> auth_db" where
  "login sign rank sha compare i tok now email password db =
     (case find_by_email email db of
        None \<Rightarrow> (Inl InvalidCredentials, db)
      | Some u \<Rightarrow>
          if locked_at now u then (Inl (LoginLocked (minutes_left now (the (us_locked u)))), db)
          else if us_status u = DisabledUser then (Inl AccountDisabled, db)
          else if us_status u = PendingUser then (Inl RegistrationIncomplete, db)
          else if \<not> truthy (us_password u) then (Inl RegistrationIncomplete, db)
          else if \<not> compare password (the (us_password u)) then
            (let attempts = us_failed u + 1;
                 should_lock = (attempts \<ge> max_login_attempts)
             in (Inl (if should_lock then TooManyAttempts else InvalidCredentials),
                 set_auth_user (us_id u) (\<lambda>x. x\<lparr>us_failed := attempts,
                    us_locked := (if should_lock then Some (now + login_lockout_ms) else None)\<rparr>) db))
          else (case user_token_for rank u None None (au_iam db) of
                  Inl e \<Rightarrow> (Inl e, db)
                | Inr p \<Rightarrow>
                    (case create_refresh_token i now (sha tok) (us_id u) db of
                       None \<Rightarrow> (Inl TokenCollision, db)
                     | Some db1 \<Rightarrow>
                         (Inr \<lparr>sn_access = sign now p, sn_refresh = tok, sn_expires = now + refresh_token_expiry\<rparr>,
                          set_auth_user (us_id u)
                            (\<lambda>x. x\<lparr>us_failed := 0, us_locked := None, us_last_login := Some now\<rparr>) db1))))"

definition logout :: "(string \<Rightarrow> string) \<Rightarrow> ms \<Rightarrow> string \<Rightarrow> auth_db \<Rightarrow> bool \<times> auth_db" where
  "logout sha now tok db = revoke_refresh_token now (sha tok) db"

definition logout_all :: "ms \<Rightarrow> uuid \<Rightarrow> auth_db \<Rightarrow> nat \<times> auth_db" where
  "logout_all now u db = revoke_all_user_tokens now u db"

text \<open>
  A refresh first verifies the old token, then, in later statements, revokes it and issues a new
  one.  Requests are served concurrently, so the two parts are separate steps.
\<close>
definition refresh_verify :: "(string \<Rightarrow> string) \<Rightarrow> ms \<Rightarrow> string \<Rightarrow> auth_db \<Rightarrow> uuid option" where
  "refresh_verify sha now old db =
     (case verify_refresh_token now (sha old) db of None \<Rightarrow> None | Some u \<Rightarrow> if u = '''' then None else Some u)"

definition refresh_commit ::
  "(ms \<Rightarrow> payload \<Rightarrow> 't) \<Rightarrow> (string \<Rightarrow> nat) \<Rightarrow> (string \<Rightarrow> string) \<Rightarrow> uuid \<Rightarrow> string \<Rightarrow> ms \<Rightarrow> string \<Rightarrow> uuid option \<Rightarrow> uuid
     \<Rightarrow> auth_db \<Rightarrow> (session_error + 't session) \<times> auth_db" where
  "refresh_commit sign rank sha i tok now old site uid db =
     (let db1 = snd (revoke_refresh_token now (sha old) db)
      in case find_user uid (au_iam db1) of
           None \<Rightarrow> (Inl AccountNotActive, db1)
         | Some u \<Rightarrow>
             if us_status u \<noteq> ActiveUser then (Inl AccountNotActive, db1)
             else if locked_at now u then (Inl AccountLockedNow, db1)
             else (case user_token_for rank u None site (au_iam db1) of
                     Inl e \<Rightarrow> (Inl e, db1)
                   | Inr p \<Rightarrow>
                       (case create_refresh_token i now (sha tok) uid db1 of
                          None \<Rightarrow> (Inl TokenCollision, db1)
                        | Some db2 \<Rightarrow>
                            (Inr \<lparr>sn_access = sign now p, sn_refresh = tok, sn_expires = now + refresh_token_expiry\<rparr>, db2))))"

definition refresh_session ::
  "(ms \<Rightarrow> payload \<Rightarrow> 't) \<Rightarrow> (string \<Rightarrow> nat) \<Rightarrow> (string \<Rightarrow> string) \<Rightarrow> uuid \<Rightarrow> string \<Rightarrow> ms \<Rightarrow> string \<Rightarrow> uuid option
     \<Rightarrow> auth_db \<Rightarrow> (session_error + 't session) \<times> auth_db" where
  "refresh_session sign rank sha i tok now old site db =
     (case refresh_verify sha now old db of
        None \<Rightarrow> (Inl InvalidRefreshToken, db)
      | Some uid \<Rightarrow> refresh_commit sign rank sha i tok now old site uid db)"

definition switch_workspace ::
  "(ms \<Rightarrow> payload \<Rightarrow> 't) \<Rightarrow> (string \<Rightarrow> nat) \<Rightarrow> ms \<Rightarrow> uuid \<Rightarrow> uuid \<Rightarrow> auth_db \<Rightarrow> session_error + 't" where
  "switch_workspace sign rank now uid ws db =
     (case find_user uid (au_iam db) of
        None \<Rightarrow> Inl AccountNotActive
      | Some u \<Rightarrow>
          if us_status u \<noteq> ActiveUser then Inl AccountNotActive
          else if locked_at now u then Inl AccountLockedNow
          else (case find_member uid ws (au_iam db) of
                  None \<Rightarrow> Inl NotAMember
                | Some m \<Rightarrow> map_sum id (sign now) (user_token_for rank u (Some (me_workspace m)) None (au_iam db))))"

definition switch_site ::
  "(ms \<Rightarrow> payload \<Rightarrow> 't) \<Rightarrow> (string \<Rightarrow> nat) \<Rightarrow> ms \<Rightarrow> uuid \<Rightarrow> uuid \<Rightarrow> auth_db \<Rightarrow> session_error + 't" where
  "switch_site sign rank now uid site db =
     (case find_user uid (au_iam db) of
        None \<Rightarrow> Inl AccountNotActive
      | Some u \<Rightarrow>
          if us_status u \<noteq> ActiveUser then Inl AccountNotActive
          else if locked_at now u then Inl AccountLockedNow
          else (case find_site site (au_iam db) of
                  None \<Rightarrow> Inl SessionSiteNotFound
                | Some s \<Rightarrow> map_sum id (sign now)
                    (user_token_for rank u (Some (si_workspace s)) (Some site) (au_iam db))))"

section \<open>Display sessions\<close>

definition find_display :: "uuid \<Rightarrow> auth_db \<Rightarrow> display option" where
  "find_display d db = find (\<lambda>x. ds_id x = d) (au_displays db)"

text \<open>The workspace of the site of a display, when both are set.\<close>
definition display_place :: "display \<Rightarrow> auth_db \<Rightarrow> (uuid \<times> uuid) option" where
  "display_place d db =
     (if \<not> truthy (ds_site d) then None
      else (case find_site (the (ds_site d)) (au_iam db) of
              None \<Rightarrow> None
            | Some s \<Rightarrow> if si_workspace s = '''' then None else Some (the (ds_site d), si_workspace s)))"

definition issue_display_session ::
  "(ms \<Rightarrow> payload \<Rightarrow> 't) \<Rightarrow> (string \<Rightarrow> string) \<Rightarrow> uuid \<Rightarrow> string \<Rightarrow> ms \<Rightarrow> display \<Rightarrow> auth_db
     \<Rightarrow> (session_error + 't session) \<times> auth_db" where
  "issue_display_session sign sha i tok now d db =
     (case display_place d db of
        None \<Rightarrow> (Inl DisplayWithoutSite, db)
      | Some (site, ws) \<Rightarrow>
          (case create_display_refresh_token i now (sha tok) (ds_id d) db of
             None \<Rightarrow> (Inl TokenCollision, db)
           | Some db1 \<Rightarrow>
               (Inr \<lparr>sn_access = sign now (DisplayToken (ds_id d) site ws), sn_refresh = tok,
                     sn_expires = now + refresh_token_expiry\<rparr>, db1)))"

definition login_display ::
  "(ms \<Rightarrow> payload \<Rightarrow> 't) \<Rightarrow> (string \<Rightarrow> string) \<Rightarrow> uuid \<Rightarrow> string \<Rightarrow> ms \<Rightarrow> uuid \<Rightarrow> string \<Rightarrow> auth_db
     \<Rightarrow> (session_error + 't session) \<times> auth_db" where
  "login_display sign sha i tok now did secret db =
     (case find_display did db of
        None \<Rightarrow> (Inl InvalidCredentials, db)
      | Some d \<Rightarrow>
          if \<not> truthy (ds_secret d) \<or> Some (sha secret) \<noteq> ds_secret d then (Inl InvalidCredentials, db)
          else if ds_status d \<noteq> Claimed then (Inl DisplayNotClaimed, db)
          else (case issue_display_session sign sha i tok now d db of
                  (Inl e, db1) \<Rightarrow> (Inl e, db1)
                | (Inr s, db1) \<Rightarrow>
                    (Inr s, db1\<lparr>au_displays := update_where (\<lambda>x. ds_id x = ds_id d) (\<lambda>x. x\<lparr>ds_secret_used := Some now\<rparr>)
                        (au_displays db1)\<rparr>)))"

definition refresh_display_session ::
  "(ms \<Rightarrow> payload \<Rightarrow> 't) \<Rightarrow> (string \<Rightarrow> string) \<Rightarrow> uuid \<Rightarrow> string \<Rightarrow> ms \<Rightarrow> string \<Rightarrow> auth_db
     \<Rightarrow> (session_error + 't session) \<times> auth_db" where
  "refresh_display_session sign sha i tok now old db =
     (case verify_display_refresh_token now (sha old) db of
        None \<Rightarrow> (Inl InvalidRefreshToken, db)
      | Some did \<Rightarrow>
          if did = '''' then (Inl InvalidRefreshToken, db)
          else (let db1 = snd (revoke_display_refresh_token now (sha old) db)
                in case find_display did db1 of
                     None \<Rightarrow> (Inl DisplayNotActive, db1)
                   | Some d \<Rightarrow>
                       if ds_status d \<noteq> Claimed then (Inl DisplayNotActive, db1)
                       else issue_display_session sign sha i tok now d db1))"

definition logout_display :: "(string \<Rightarrow> string) \<Rightarrow> ms \<Rightarrow> string \<Rightarrow> auth_db \<Rightarrow> bool \<times> auth_db" where
  "logout_display sha now tok db = revoke_display_refresh_token now (sha tok) db"

section \<open>The caller of a request\<close>

datatype iam_context =
    UnknownCaller
  | UserCaller uuid string uuid "uuid option"
  | DisplayCaller uuid uuid uuid

definition resolve_display_iam :: "uuid \<Rightarrow> auth_db \<Rightarrow> iam_context" where
  "resolve_display_iam did db =
     (case find_display did db of
        None \<Rightarrow> UnknownCaller
      | Some d \<Rightarrow>
          if ds_status d \<noteq> Claimed \<or> \<not> truthy (ds_site d) then UnknownCaller
          else (case find_site (the (ds_site d)) (au_iam db) of
                  None \<Rightarrow> UnknownCaller
                | Some s \<Rightarrow> DisplayCaller (ds_id d) (the (ds_site d)) (si_workspace s)))"

definition resolve_user_iam ::
  "(string \<Rightarrow> nat) \<Rightarrow> ms \<Rightarrow> uuid \<Rightarrow> uuid option \<Rightarrow> uuid option \<Rightarrow> auth_db \<Rightarrow> iam_context" where
  "resolve_user_iam rank now uid ws site db =
     (case find_user uid (au_iam db) of
        None \<Rightarrow> UnknownCaller
      | Some u \<Rightarrow>
          if us_status u \<noteq> ActiveUser then UnknownCaller
          else if locked_at now u then UnknownCaller
          else if \<not> truthy ws then UnknownCaller
          else if find_member uid (the ws) (au_iam db) = None then UnknownCaller
          else if truthy site
            \<and> \<not> list_ex (\<lambda>s. si_id s = the site) (list_accessible_sites rank uid (the ws) ''facility:read'' (au_iam db))
          then UnknownCaller
          else UserCaller uid (us_email u) (the ws) site)"

definition bearer :: string where "bearer = ''Bearer ''"

text \<open>\<open>check\<close> decodes a token string at an instant, or fails.\<close>
definition resolve_iam ::
  "(ms \<Rightarrow> string \<Rightarrow> payload option) \<Rightarrow> (string \<Rightarrow> nat) \<Rightarrow> ms \<Rightarrow> string \<Rightarrow> auth_db \<Rightarrow> iam_context" where
  "resolve_iam check rank now header db =
     (if \<not> starts_with bearer header then UnknownCaller
      else (case check now (drop (length bearer) header) of
              None \<Rightarrow> UnknownCaller
            | Some (DisplayToken d _ _) \<Rightarrow> resolve_display_iam d db
            | Some (UserToken u _ ws site) \<Rightarrow> resolve_user_iam rank now u ws site db))"

text \<open>The guard of the routes for users, applied to the decorated request.\<close>
definition verify_access_token :: "iam_context option \<Rightarrow> bool" where
  "verify_access_token ctx = (case ctx of Some (UserCaller _ _ _ _) \<Rightarrow> True | _ \<Rightarrow> False)"

section \<open>Passwords\<close>

datatype password_problem = TooShort | NoUppercase | NoLowercase | NoDigit | NoSpecial

definition special_chars :: string where
  "special_chars = ''!@#$%^&*()_+-=[]{};:\"|,.<>/?~`'' @ [CHR 0x27, CHR 0x5C]"

definition validate_password_strength :: "string \<Rightarrow> password_problem list" where
  "validate_password_strength p =
     (if length p < 12 then [TooShort] else [])
     @ (if list_ex (\<lambda>c. 65 \<le> char_code c \<and> char_code c \<le> 90) p then [] else [NoUppercase])
     @ (if list_ex (\<lambda>c. 97 \<le> char_code c \<and> char_code c \<le> 122) p then [] else [NoLowercase])
     @ (if list_ex is_digit p then [] else [NoDigit])
     @ (if list_ex (\<lambda>c. c \<in> set special_chars) p then [] else [NoSpecial])"

definition max_token_attempts :: nat where "max_token_attempts = 5"
definition reset_token_expiry_ms :: ms where "reset_token_expiry_ms = 60 * 60 * 1000"
definition invite_token_expiry_ms :: ms where "invite_token_expiry_ms = 7 * 24 * 60 * 60 * 1000"

datatype account_error =
    WeakPassword "password_problem list"
  | InvalidResetToken
  | TokenInvalidated
  | NotActiveAccount
  | TokenExpired
  | NoSuchUser
  | NoPasswordSet
  | WrongPassword
  | InvalidInviteToken
  | AlreadyRegistered
  | InviteeWithoutWorkspace
  | EmployeeFailure emp_error
  | SystemUserInvited
  | EmailTaken
  | InviteForbidden
  | RoleIdRequired
  | InviteRoleNotFound
  | InviteRoleForeign
  | InviteOwnerReserved
  | SiteForWorkspaceRole
  | InviteSiteRequired
  | InviteSiteNotFound
  | InviteSiteForeign
  | InviteCollision

text \<open>Whether the mail with a reset token goes out: only to an active account.\<close>
definition initiate_reset ::
  "(string \<Rightarrow> string) \<Rightarrow> string \<Rightarrow> ms \<Rightarrow> string \<Rightarrow> auth_db \<Rightarrow> bool \<times> auth_db" where
  "initiate_reset sha tok now email db =
     (case find_by_email email db of
        None \<Rightarrow> (False, db)
      | Some u \<Rightarrow>
          if us_status u = DisabledUser \<or> us_status u = PendingUser then (False, db)
          else (True, set_auth_user (us_id u) (\<lambda>x. x\<lparr>us_reset := Some (sha tok),
                   us_reset_expiry := Some (now + reset_token_expiry_ms), us_reset_tries := 0\<rparr>) db))"

definition find_by_reset :: "string \<Rightarrow> auth_db \<Rightarrow> iam_user option" where
  "find_by_reset h db = find (\<lambda>u. us_reset u = Some h) (id_users (au_iam db))"

definition overdue :: "ms \<Rightarrow> ms option \<Rightarrow> bool" where
  "overdue now e = (case e of None \<Rightarrow> False | Some t \<Rightarrow> t < now)"

definition verify_reset_token :: "(string \<Rightarrow> string) \<Rightarrow> ms \<Rightarrow> string \<Rightarrow> auth_db \<Rightarrow> account_error + (uuid \<times> string)" where
  "verify_reset_token sha now tok db =
     (case find_by_reset (sha tok) db of
        None \<Rightarrow> Inl InvalidResetToken
      | Some u \<Rightarrow>
          if us_reset_tries u \<ge> max_token_attempts then Inl TokenInvalidated
          else if us_status u \<noteq> ActiveUser then Inl NotActiveAccount
          else if overdue now (us_reset_expiry u) then Inl TokenExpired
          else Inr (us_id u, us_email u))"

text \<open>A refused use of a known token counts as an attempt; success closes every session.\<close>
definition reset_password ::
  "(string \<Rightarrow> string) \<Rightarrow> (string \<Rightarrow> string) \<Rightarrow> ms \<Rightarrow> string \<Rightarrow> string \<Rightarrow> auth_db \<Rightarrow> (account_error + nat) \<times> auth_db" where
  "reset_password sha hash now tok password db =
     (if validate_password_strength password \<noteq> [] then (Inl (WeakPassword (validate_password_strength password)), db)
      else (case find_by_reset (sha tok) db of
              None \<Rightarrow> (Inl InvalidResetToken, db)
            | Some u \<Rightarrow>
                (let tried = set_auth_user (us_id u) (\<lambda>x. x\<lparr>us_reset_tries := us_reset_tries x + 1\<rparr>) db
                 in if us_reset_tries u \<ge> max_token_attempts then (Inl TokenInvalidated, db)
                    else if us_status u \<noteq> ActiveUser then (Inl NotActiveAccount, tried)
                    else if overdue now (us_reset_expiry u) then (Inl TokenExpired, tried)
                    else (let db1 = set_auth_user (us_id u) (\<lambda>x. x\<lparr>us_password := Some (hash password),
                                us_reset := None, us_reset_expiry := None, us_reset_tries := 0\<rparr>) db;
                              r = revoke_all_user_tokens now (us_id u) db1
                          in (Inr (fst r), snd r)))))"

definition change_password ::
  "(string \<Rightarrow> string \<Rightarrow> bool) \<Rightarrow> (string \<Rightarrow> string) \<Rightarrow> uuid \<Rightarrow> string \<Rightarrow> string \<Rightarrow> auth_db \<Rightarrow> account_error + auth_db" where
  "change_password compare hash uid current new db =
     (if validate_password_strength new \<noteq> [] then Inl (WeakPassword (validate_password_strength new))
      else (case find_user uid (au_iam db) of
              None \<Rightarrow> Inl NoSuchUser
            | Some u \<Rightarrow>
                if us_status u \<noteq> ActiveUser then Inl NotActiveAccount
                else if \<not> truthy (us_password u) then Inl NoPasswordSet
                else if \<not> compare current (the (us_password u)) then Inl WrongPassword
                else Inr (set_auth_user uid (\<lambda>x. x\<lparr>us_password := Some (hash new)\<rparr>) db)))"

section \<open>Invitations\<close>

record invite_assignment =
  ia_role :: uuid
  ia_site :: "uuid option"
  ia_owner :: bool

record invite_input =
  iv_email :: string
  iv_inviter :: uuid
  iv_workspace :: uuid
  iv_role :: "uuid option"
  iv_site :: "uuid option"
  iv_fallback :: "uuid option"

definition resolve_invite_assignment :: "invite_input \<Rightarrow> iam_db \<Rightarrow> account_error + invite_assignment" where
  "resolve_invite_assignment inp db =
     (if \<not> truthy (iv_role inp) then Inl RoleIdRequired
      else (case find_role (the (iv_role inp)) db of
        None \<Rightarrow> Inl InviteRoleNotFound
      | Some r \<Rightarrow>
          if ro_workspace r \<noteq> iv_workspace inp then Inl InviteRoleForeign
          else (let owner = has_owner_permission (ro_permissions r)
                in if owner \<and> (\<not> ro_system r \<or> ro_scope r \<noteq> WorkspaceScope) then Inl InviteOwnerReserved
                   else if ro_scope r = WorkspaceScope then
                     (if truthy (iv_site inp) then Inl SiteForWorkspaceRole
                      else Inr \<lparr>ia_role = ro_id r, ia_site = None, ia_owner = owner\<rparr>)
                   else (let site = (case iv_site inp of Some s \<Rightarrow> Some s | None \<Rightarrow> iv_fallback inp)
                         in if \<not> truthy site then Inl InviteSiteRequired
                            else (case find_site (the site) db of
                                    None \<Rightarrow> Inl InviteSiteNotFound
                                  | Some s \<Rightarrow>
                                      if si_workspace s \<noteq> iv_workspace inp then Inl InviteSiteForeign
                                      else Inr \<lparr>ia_role = ro_id r, ia_site = site, ia_owner = False\<rparr>)))))"

definition can_invite_assignment :: "uuid \<Rightarrow> uuid \<Rightarrow> invite_assignment \<Rightarrow> iam_db \<Rightarrow> bool" where
  "can_invite_assignment inviter ws a db =
     (if ia_owner a then has_permission inviter owner_permission ws None db
      else has_permission inviter ''user:write'' ws (ia_site a) db)"

definition can_resend_pending_invite :: "uuid \<Rightarrow> uuid \<Rightarrow> uuid \<Rightarrow> iam_db \<Rightarrow> bool" where
  "can_resend_pending_invite inviter ws pending db =
     (case find_member pending ws db of
        None \<Rightarrow> False
      | Some m \<Rightarrow>
          (let as = filter (\<lambda>a. ra_member a = me_id m) (id_assignments db)
           in if as = [] then False
              else if list_ex (\<lambda>a. has_owner_permission (permissions_of a db)) as
              then has_permission inviter owner_permission ws None db
              else list_ex (\<lambda>a. has_permission inviter ''user:write'' ws (ra_site a) db) as))"

text \<open>The arguments \<open>iu\<close>, \<open>im\<close> and \<open>ia\<close> are the fresh ids of the user, membership and assignment.\<close>
definition create_invite ::
  "(string \<Rightarrow> string) \<Rightarrow> string \<Rightarrow> uuid \<Rightarrow> uuid \<Rightarrow> uuid \<Rightarrow> ms \<Rightarrow> invite_input \<Rightarrow> auth_db \<Rightarrow> account_error + (uuid \<times> auth_db)" where
  "create_invite sha tok iu im ia now inp db =
     (case find_by_email (iv_email inp) db of
        Some u \<Rightarrow>
          if us_system u \<noteq> None then Inl SystemUserInvited
          else if us_status u = ActiveUser then Inl EmailTaken
          else if \<not> can_resend_pending_invite (iv_inviter inp) (iv_workspace inp) (us_id u) (au_iam db) then Inl InviteForbidden
          else if list_ex (\<lambda>x. us_invite x = Some (sha tok) \<and> us_id x \<noteq> us_id u) (id_users (au_iam db)) then Inl InviteCollision
          else Inr (us_id u, set_auth_user (us_id u) (\<lambda>x. x\<lparr>us_invite := Some (sha tok),
                 us_invite_expiry := Some (now + invite_token_expiry_ms), us_invite_tries := 0\<rparr>) db)
      | None \<Rightarrow>
          (case resolve_invite_assignment inp (au_iam db) of
             Inl e \<Rightarrow> Inl e
           | Inr a \<Rightarrow>
               if \<not> can_invite_assignment (iv_inviter inp) (iv_workspace inp) a (au_iam db) then Inl InviteForbidden
               else if list_ex (\<lambda>x. us_invite x = Some (sha tok)) (id_users (au_iam db)) then Inl InviteCollision
               else (let iam = au_iam db;
                         u = \<lparr>us_id = iu, us_email = map to_lower (iv_email inp), us_status = PendingUser, us_system = None,
                              us_password = None, us_failed = 0, us_locked = None, us_last_login = None,
                              us_invite = Some (sha tok), us_invite_expiry = Some (now + invite_token_expiry_ms),
                              us_invite_tries = 0, us_reset = None, us_reset_expiry = None, us_reset_tries = 0\<rparr>
                     in Inr (iu, db\<lparr>au_iam := iam\<lparr>id_users := id_users iam @ [u],
                          id_members := id_members iam @
                            [\<lparr>me_id = im, me_user = iu, me_workspace = iv_workspace inp, me_joined = now, me_employee = None\<rparr>],
                          id_assignments := id_assignments iam @
                            [\<lparr>ra_id = ia, ra_member = im, ra_role = ia_role a, ra_site = ia_site a, ra_created = now\<rparr>]\<rparr>\<rparr>))))"

definition find_by_invite :: "string \<Rightarrow> auth_db \<Rightarrow> iam_user option" where
  "find_by_invite h db = find (\<lambda>u. us_invite u = Some h) (id_users (au_iam db))"

definition verify_invite_token :: "(string \<Rightarrow> string) \<Rightarrow> ms \<Rightarrow> string \<Rightarrow> auth_db \<Rightarrow> account_error + (uuid \<times> string)" where
  "verify_invite_token sha now tok db =
     (case find_by_invite (sha tok) db of
        None \<Rightarrow> Inl InvalidInviteToken
      | Some u \<Rightarrow>
          if us_invite_tries u \<ge> max_token_attempts then Inl TokenInvalidated
          else if us_status u \<noteq> PendingUser then Inl AlreadyRegistered
          else if overdue now (us_invite_expiry u) then Inl TokenExpired
          else Inr (us_id u, us_email u))"

record invite_completion =
  ic_first :: "string option"
  ic_last :: "string option"
  ic_number :: "string option"
  ic_badge :: "string option"
  ic_pin :: "string option"

definition profile_first :: "invite_completion \<Rightarrow> string \<Rightarrow> string" where
  "profile_first inp email =
     (case ic_first inp of
        None \<Rightarrow> takeWhile (\<lambda>c. c \<noteq> CHR ''@'') email
      | Some f \<Rightarrow> if js_trim f = '''' then takeWhile (\<lambda>c. c \<noteq> CHR ''@'') email else js_trim f)"

definition profile_last :: "invite_completion \<Rightarrow> string" where
  "profile_last inp = (case ic_last inp of None \<Rightarrow> '''' | Some l \<Rightarrow> js_trim l)"

text \<open>One profile per membership without employee; \<open>ids\<close> are the fresh ids of each.\<close>
fun create_profiles ::
  "(string \<Rightarrow> string) \<Rightarrow> (uuid \<times> uuid) list \<Rightarrow> string \<Rightarrow> invite_completion \<Rightarrow> membership list \<Rightarrow> emp_db
     \<Rightarrow> emp_error + ((uuid \<times> uuid) list \<times> emp_db)" where
  "create_profiles hash ids email inp [] db = Inr ([], db)"
| "create_profiles hash [] email inp (m # ms) db = Inl EmpUniqueViolation"
| "create_profiles hash ((i, j) # ids) email inp (m # ms) db =
     (case create_employee hash i j [] \<lparr>ei_workspace = Some (me_workspace m), ei_site = None, ei_number = ic_number inp,
              ei_first = profile_first inp email, ei_last = profile_last inp, ei_role = None, ei_pin = ic_pin inp,
              ei_badge = ic_badge inp\<rparr> db of
        Inl e \<Rightarrow> Inl e
      | Inr (e, db1) \<Rightarrow>
          (case create_profiles hash ids email inp ms db1 of
             Inl e \<Rightarrow> Inl e
           | Inr (links, db2) \<Rightarrow> Inr ((me_id m, i) # links, db2)))"

definition link_employees :: "(uuid \<times> uuid) list \<Rightarrow> membership list \<Rightarrow> membership list" where
  "link_employees links = map (\<lambda>m. case map_of links (me_id m) of None \<Rightarrow> m | Some e \<Rightarrow> m\<lparr>me_employee := Some e\<rparr>)"

definition complete_invite ::
  "(string \<Rightarrow> string) \<Rightarrow> (string \<Rightarrow> string) \<Rightarrow> (uuid \<times> uuid) list \<Rightarrow> ms \<Rightarrow> string \<Rightarrow> string \<Rightarrow> invite_completion \<Rightarrow> auth_db
     \<Rightarrow> (account_error + uuid) \<times> auth_db" where
  "complete_invite sha hash ids now tok password inp db =
     (if validate_password_strength password \<noteq> [] then (Inl (WeakPassword (validate_password_strength password)), db)
      else (case find_by_invite (sha tok) db of
        None \<Rightarrow> (Inl InvalidInviteToken, db)
      | Some u \<Rightarrow>
          (let tried = set_auth_user (us_id u) (\<lambda>x. x\<lparr>us_invite_tries := us_invite_tries x + 1\<rparr>) db;
               mine = filter (\<lambda>m. me_user m = us_id u) (id_members (au_iam db))
           in if us_invite_tries u \<ge> max_token_attempts then (Inl TokenInvalidated, db)
              else if us_status u \<noteq> PendingUser then (Inl InvalidInviteToken, tried)
              else if overdue now (us_invite_expiry u) then (Inl TokenExpired, tried)
              else if mine = [] then (Inl InviteeWithoutWorkspace, db)
              else (case create_profiles hash ids (us_email u) inp (filter (\<lambda>m. me_employee m = None) mine) (au_emp db) of
                      Inl e \<Rightarrow> (Inl (EmployeeFailure e), db)
                    | Inr (links, emp) \<Rightarrow>
                        (let iam = au_iam db
                         in (Inr (us_id u),
                             db\<lparr>au_emp := emp,
                                au_iam := set_user (us_id u) (\<lambda>x. x\<lparr>us_password := Some (hash password),
                                     us_status := ActiveUser, us_invite := None, us_invite_expiry := None,
                                     us_invite_tries := 0\<rparr>)
                                  (iam\<lparr>id_members := link_employees links (id_members iam)\<rparr>)\<rparr>))))))"

section \<open>Every operation on accounts and sessions\<close>

text \<open>The parameters of the operations.\<close>
record auth_env =
  en_rank :: "string \<Rightarrow> nat"
  en_sha :: "string \<Rightarrow> string"
  en_compare :: "string \<Rightarrow> string \<Rightarrow> bool"
  en_hash :: "string \<Rightarrow> string"

datatype auth_cmd =
    Login uuid string ms string string
  | Refresh uuid string ms string "uuid option"
  | RefreshCommit uuid string ms string "uuid option" uuid
  | Logout ms string
  | LogoutAll ms uuid
  | CleanupTokens ms
  | LoginDisplay uuid string ms uuid string
  | RefreshDisplay uuid string ms string
  | LogoutDisplay ms string
  | RevokeDisplay ms uuid
  | CleanupDisplayTokens ms
  | InitiateReset string ms string
  | ResetPassword ms string string
  | ChangePassword uuid string string
  | CreateInvite string uuid uuid uuid ms invite_input
  | CompleteInvite "(uuid \<times> uuid) list" ms string string invite_completion
  | Administer iam_cmd

definition or_same :: "auth_db \<Rightarrow> 'e + auth_db \<Rightarrow> auth_db" where
  "or_same db r = (case r of Inl _ \<Rightarrow> db | Inr db' \<Rightarrow> db')"

text \<open>The state after an operation; the access tokens handed out play no part in it.\<close>
fun exec_auth :: "auth_env \<Rightarrow> auth_cmd \<Rightarrow> auth_db \<Rightarrow> auth_db" where
  "exec_auth E (Login i tok now email pw) db =
     snd (login (\<lambda>_ _. ()) (en_rank E) (en_sha E) (en_compare E) i tok now email pw db)"
| "exec_auth E (Refresh i tok now old site) db = snd (refresh_session (\<lambda>_ _. ()) (en_rank E) (en_sha E) i tok now old site db)"
| "exec_auth E (RefreshCommit i tok now old site uid) db =
     snd (refresh_commit (\<lambda>_ _. ()) (en_rank E) (en_sha E) i tok now old site uid db)"
| "exec_auth E (Logout now tok) db = snd (logout (en_sha E) now tok db)"
| "exec_auth E (LogoutAll now u) db = snd (logout_all now u db)"
| "exec_auth E (CleanupTokens now) db = cleanup_expired_tokens now db"
| "exec_auth E (LoginDisplay i tok now d secret) db = snd (login_display (\<lambda>_ _. ()) (en_sha E) i tok now d secret db)"
| "exec_auth E (RefreshDisplay i tok now old) db = snd (refresh_display_session (\<lambda>_ _. ()) (en_sha E) i tok now old db)"
| "exec_auth E (LogoutDisplay now tok) db = snd (logout_display (en_sha E) now tok db)"
| "exec_auth E (RevokeDisplay now d) db = snd (revoke_all_display_tokens now d db)"
| "exec_auth E (CleanupDisplayTokens now) db = cleanup_expired_display_tokens now db"
| "exec_auth E (InitiateReset tok now email) db = snd (initiate_reset (en_sha E) tok now email db)"
| "exec_auth E (ResetPassword now tok pw) db = snd (reset_password (en_sha E) (en_hash E) now tok pw db)"
| "exec_auth E (ChangePassword uid cur new) db = or_same db (change_password (en_compare E) (en_hash E) uid cur new db)"
| "exec_auth E (CreateInvite tok iu im ia now inp) db = or_same db (map_sum id snd (create_invite (en_sha E) tok iu im ia now inp db))"
| "exec_auth E (CompleteInvite ids now tok pw inp) db = snd (complete_invite (en_sha E) (en_hash E) ids now tok pw inp db)"
| "exec_auth E (Administer c) db = or_same db (map_sum id (\<lambda>iam. db\<lparr>au_iam := iam\<rparr>) (exec_iam c (au_iam db)))"

text \<open>The token that an operation issues, for a user or for a display.\<close>
fun fresh_token :: "auth_cmd \<Rightarrow> string option" where
  "fresh_token (Login i tok now email pw) = Some tok"
| "fresh_token (Refresh i tok now old site) = Some tok"
| "fresh_token (RefreshCommit i tok now old site uid) = Some tok"
| "fresh_token (LoginDisplay i tok now d secret) = Some tok"
| "fresh_token (RefreshDisplay i tok now old) = Some tok"
| "fresh_token _ = None"

text \<open>A step of the system in which no token with the digest \<open>h\<close> is drawn.\<close>
inductive auth_step :: "auth_env \<Rightarrow> string \<Rightarrow> auth_db \<Rightarrow> auth_db \<Rightarrow> bool" for E h where
  "map_option (en_sha E) (fresh_token c) \<noteq> Some h \<Longrightarrow> auth_step E h db (exec_auth E c db)"

inductive_cases auth_stepE: "auth_step E h db db'"

section \<open>Tokens are spent for good\<close>

definition spent_in :: "string \<Rightarrow> refresh_token list \<Rightarrow> bool" where
  "spent_in h ts = (\<forall>t \<in> set ts. tk_hash t = h \<longrightarrow> tk_revoked t \<noteq> None)"

lemma spent_in_valid: "spent_in h ts \<Longrightarrow> valid_token now h ts = None"
  by (auto simp: spent_in_def valid_token_def find_token_def find_Some_iff split: option.splits)

lemma spent_in_revoked: "spent_in h (revoke_token now h ts)"
  unfolding spent_in_def revoke_token_def update_where_def set_map by (simp add: ball_Un)

lemma spent_in_keep:
  "spent_in h ts \<Longrightarrow> spent_in h (revoke_token now k ts)"
  "spent_in h ts \<Longrightarrow> spent_in h (revoke_all_of now u ts)"
  "spent_in h ts \<Longrightarrow> spent_in h (cleanup_tokens now ts)"
  "spent_in h ts \<Longrightarrow> k \<noteq> h \<Longrightarrow> insert_token i now k u ts = Some ts' \<Longrightarrow> spent_in h ts'"
  unfolding spent_in_def revoke_token_def revoke_all_of_def cleanup_tokens_def insert_token_def update_where_def set_map
  by (auto split: if_splits)

lemma insert_token_valid:
  assumes "insert_token i now h u ts = Some ts'"
  shows "valid_token t h ts' = (if t \<le> now + refresh_token_expiry then Some u else None)"
    and "k \<noteq> h \<Longrightarrow> valid_token t k ts' = valid_token t k ts"
  using assms by (auto simp: insert_token_def valid_token_def find_token_def find_append split: if_splits option.splits)

lemma revoke_token_other: "k \<noteq> h \<Longrightarrow> valid_token t h (revoke_token now k ts) = valid_token t h ts"
proof -
  assume "k \<noteq> h"
  then have "find_token h (revoke_token now k ts) = find_token h ts"
    by (induction ts) (auto simp: find_token_def revoke_token_def)
  then show ?thesis by (simp add: valid_token_def)
qed

lemma tokens_simps [simp]:
  "user_tokens (on_user_tokens f db) = f (user_tokens db)" "user_tokens (on_display_tokens f db) = user_tokens db"
  "au_display_tokens (on_user_tokens f db) = au_display_tokens db"
  "au_display_tokens (on_display_tokens f db) = f (au_display_tokens db)"
  "user_tokens (set_auth_user u g db) = user_tokens db" "au_display_tokens (set_auth_user u g db) = au_display_tokens db"
  "user_tokens (db\<lparr>au_displays := ds\<rparr>) = user_tokens db" "user_tokens (db\<lparr>au_emp := em\<rparr>) = user_tokens db"
  "au_displays (on_user_tokens f db) = au_displays db" "au_displays (on_display_tokens f db) = au_displays db"
  by (simp_all add: user_tokens_def on_user_tokens_def on_display_tokens_def set_auth_user_def set_user_def)

text \<open>The user tables other than the tokens are untouched by writes to tokens, and lookups ignore the tokens.\<close>
lemma iam_tables [simp]:
  "id_users (au_iam (on_user_tokens f db)) = id_users (au_iam db)" "id_members (au_iam (on_user_tokens f db)) = id_members (au_iam db)"
  "id_sites (au_iam (on_user_tokens f db)) = id_sites (au_iam db)" "id_roles (au_iam (on_user_tokens f db)) = id_roles (au_iam db)"
  "id_assignments (au_iam (on_user_tokens f db)) = id_assignments (au_iam db)"
  "au_iam (on_display_tokens f db) = au_iam db" "au_emp (on_user_tokens f db) = au_emp db"
  by (simp_all add: on_user_tokens_def on_display_tokens_def)

lemma create_refresh_token_Some:
  "create_refresh_token i now h u db = Some db' \<longleftrightarrow>
     (\<exists>ts. insert_token i now h u (user_tokens db) = Some ts \<and> db' = on_user_tokens (\<lambda>_. ts) db)"
  by (auto simp: create_refresh_token_def)

lemma create_display_refresh_token_Some:
  "create_display_refresh_token i now h u db = Some db' \<longleftrightarrow>
     (\<exists>ts. insert_token i now h u (au_display_tokens db) = Some ts \<and> db' = on_display_tokens (\<lambda>_. ts) db)"
  by (auto simp: create_display_refresh_token_def)

lemma login_tokens:
  assumes "spent_in h (user_tokens db)" "sha tok \<noteq> h"
  shows "spent_in h (user_tokens (snd (login sign rank sha compare i tok now email pw db)))"
  using assms
  by (auto simp: login_def Let_def create_refresh_token_Some spent_in_keep split: option.splits sum.splits)

lemma commit_tokens:
  assumes "spent_in h (user_tokens db)" "sha tok \<noteq> h"
  shows "spent_in h (user_tokens (snd (refresh_commit sign rank sha i tok now old site uid db)))"
  using assms
  by (auto simp: refresh_commit_def Let_def revoke_refresh_token_def create_refresh_token_Some
      intro: spent_in_keep split: option.splits sum.splits)

lemma display_issue_tokens [simp]:
  "user_tokens (snd (issue_display_session sign sha i tok now d db)) = user_tokens db"
  "au_iam (snd (issue_display_session sign sha i tok now d db)) = au_iam db"
  by (auto simp: issue_display_session_def create_display_refresh_token_Some split: option.splits prod.splits)

lemma display_issue_result:
  "issue_display_session sign sha i tok now d db = (r, db') \<Longrightarrow> user_tokens db' = user_tokens db \<and> au_iam db' = au_iam db"
  using display_issue_tokens[of sign sha i tok now d db] by simp

lemma display_login_user [simp]:
  "user_tokens (snd (login_display sign sha i tok now did secret db)) = user_tokens db"
  "au_iam (snd (login_display sign sha i tok now did secret db)) = au_iam db"
  by (auto simp: login_display_def dest: display_issue_result split: option.splits prod.splits sum.splits)

lemma display_refresh_user [simp]:
  "user_tokens (snd (refresh_display_session sign sha i tok now old db)) = user_tokens db"
  "au_iam (snd (refresh_display_session sign sha i tok now old db)) = au_iam db"
  by (auto simp: refresh_display_session_def revoke_display_refresh_token_def Let_def split: option.splits)

lemma admin_tokens:
  "exec_iam c iam = Inr iam' \<Longrightarrow> id_tokens iam' = id_tokens iam \<or> (\<exists>u now. id_tokens iam' = revoke_all_of now u (id_tokens iam))"
proof (cases c)
  case (ChangeRole i now rc)
  then show "exec_iam c iam = Inr iam' \<Longrightarrow> ?thesis"
    using change_member_role_result[of i now rc iam iam'] by (auto simp: replace_assignment_def Let_def)
next
  case (DisableUser u now)
  then show "exec_iam c iam = Inr iam' \<Longrightarrow> ?thesis"
    by (intro disjI2 exI[of _ u] exI[of _ now]) (auto simp: disable_user_def revoke_all_of_def set_user_def split: if_splits)
qed (auto simp: map_sum_Inr create_role_def update_role_def remove_role_def assign_def unassign_def add_member_def
    remove_member_def disable_user_def enable_user_def unlock_account_def set_user_def revoke_all_of_def Let_def
    split: sum.splits option.splits if_splits)

lemma invite_tokens:
  "create_invite sha tok iu im ia now inp db = Inr (u, db') \<Longrightarrow> user_tokens db' = user_tokens db"
  by (auto simp: create_invite_def user_tokens_def set_auth_user_def set_user_def Let_def split: option.splits sum.splits if_splits)

lemma complete_tokens:
  "user_tokens (snd (complete_invite sha hash ids now tok pw inp db)) = user_tokens db"
  by (auto simp: complete_invite_def user_tokens_def set_auth_user_def set_user_def Let_def split: option.splits sum.splits)

lemma auth_step_spent:
  assumes "auth_step E h db db'" "spent_in h (user_tokens db)"
  shows "spent_in h (user_tokens db')"
  using assms(1)
proof cases
  case (1 c)
  note fresh = 1(2) and s = assms(2)
  show ?thesis unfolding 1(1)
  proof (cases c)
    case (Login i tok now email pw)
    with fresh s show "spent_in h (user_tokens (exec_auth E c db))" by (simp add: login_tokens)
  next
    case (Refresh i tok now old site)
    with fresh s show "spent_in h (user_tokens (exec_auth E c db))"
      by (simp add: refresh_session_def commit_tokens split: option.splits)
  next
    case (RefreshCommit i tok now old site uid)
    with fresh s show "spent_in h (user_tokens (exec_auth E c db))" by (simp add: commit_tokens)
  next
    case (CreateInvite tok iu im ia now inp)
    with s show "spent_in h (user_tokens (exec_auth E c db))"
      using invite_tokens[of "en_sha E" tok iu im ia now inp db]
      by (auto simp: or_same_def map_sum_Inr split: sum.splits)
  next
    case (Administer ic)
    with s show "spent_in h (user_tokens (exec_auth E c db))"
      using admin_tokens[of ic "au_iam db"]
      by (auto simp: or_same_def map_sum_Inr_iff user_tokens_def spent_in_keep split: sum.splits)
  next
    case (ResetPassword now tok pw)
    with s show "spent_in h (user_tokens (exec_auth E c db))"
      by (auto simp: reset_password_def revoke_all_user_tokens_def Let_def spent_in_keep split: option.splits)
  qed (use s in \<open>auto simp: logout_def logout_all_def revoke_refresh_token_def revoke_all_user_tokens_def
      cleanup_expired_tokens_def logout_display_def revoke_display_refresh_token_def revoke_all_display_tokens_def
      cleanup_expired_display_tokens_def initiate_reset_def change_password_def or_same_def complete_tokens
      spent_in_keep split: option.splits\<close>)
qed

lemma user_ops_display_tokens:
  "au_display_tokens (snd (login sign rank sha compare i tok now email pw db)) = au_display_tokens db"
  "au_display_tokens (snd (refresh_commit sign rank sha i tok now old site uid db)) = au_display_tokens db"
  "au_display_tokens (snd (initiate_reset sha tok now email db)) = au_display_tokens db"
  "au_display_tokens (snd (reset_password sha hash now tok pw db)) = au_display_tokens db"
  "au_display_tokens (snd (complete_invite sha hash ids now tok pw inp db)) = au_display_tokens db"
  "au_display_tokens (or_same db (change_password compare hash uid cur new db)) = au_display_tokens db"
  "au_display_tokens (or_same db (map_sum id snd (create_invite sha tok iu im ia now ivp db))) = au_display_tokens db"
  "au_display_tokens (or_same db (map_sum id (\<lambda>iam. db\<lparr>au_iam := iam\<rparr>) x)) = au_display_tokens db"
  by (auto simp: login_def refresh_commit_def revoke_refresh_token_def create_refresh_token_Some initiate_reset_def
      reset_password_def revoke_all_user_tokens_def complete_invite_def change_password_def create_invite_def or_same_def
      map_sum_Inr_iff Let_def split: option.splits sum.splits)

lemma issue_display_spent:
  assumes "issue_display_session sign sha i tok now d db = (r, db')" "spent_in h (au_display_tokens db)" "sha tok \<noteq> h"
  shows "spent_in h (au_display_tokens db')"
  using assms
  by (auto simp: issue_display_session_def create_display_refresh_token_Some intro: spent_in_keep split: option.splits prod.splits)

lemma auth_step_display_spent:
  assumes "auth_step E h db db'" "spent_in h (au_display_tokens db)"
  shows "spent_in h (au_display_tokens db')"
  using assms(1)
proof cases
  case (1 c)
  note fresh = 1(2) and s = assms(2)
  have issue: "spent_in h (au_display_tokens (snd (issue_display_session sign (en_sha E) i tok now d db1)))"
    if "spent_in h (au_display_tokens db1)" "en_sha E tok \<noteq> h" for i tok now d db1 and sign :: "ms \<Rightarrow> payload \<Rightarrow> unit"
    by (rule issue_display_spent[OF prod.collapse[symmetric] that(1)]) (rule that(2))
  show ?thesis unfolding 1(1)
  proof (cases c)
    case (LoginDisplay i tok now d secret)
    with fresh s show "spent_in h (au_display_tokens (exec_auth E c db))"
      by (auto simp: login_display_def intro: issue_display_spent split: option.splits prod.splits sum.splits)
  next
    case (RefreshDisplay i tok now old)
    with fresh s show "spent_in h (au_display_tokens (exec_auth E c db))"
      by (auto simp: refresh_display_session_def revoke_display_refresh_token_def Let_def spent_in_keep intro!: issue
          split: option.splits)
  qed (use s in \<open>auto simp: user_ops_display_tokens refresh_session_def logout_def logout_all_def revoke_refresh_token_def
      revoke_all_user_tokens_def cleanup_expired_tokens_def logout_display_def revoke_display_refresh_token_def
      revoke_all_display_tokens_def cleanup_expired_display_tokens_def spent_in_keep split: option.splits\<close>)
qed

interpretation user_store: token_store verify_refresh_token "\<lambda>now h db. snd (revoke_refresh_token now h db)"
  create_refresh_token "\<lambda>h db. spent_in h (user_tokens db)" "auth_step E" refresh_token_expiry
  for E
  by unfold_locales (auto simp: verify_refresh_token_def revoke_refresh_token_def spent_in_valid spent_in_revoked
      create_refresh_token_Some insert_token_valid dest: auth_step_spent)

interpretation display_store: token_store verify_display_refresh_token "\<lambda>now h db. snd (revoke_display_refresh_token now h db)"
  create_display_refresh_token "\<lambda>h db. spent_in h (au_display_tokens db)" "auth_step E" refresh_token_expiry
  for E
  by unfold_locales (auto simp: verify_display_refresh_token_def revoke_display_refresh_token_def spent_in_valid spent_in_revoked
      create_display_refresh_token_Some insert_token_valid dest: auth_step_display_spent)

text \<open>What a user may access depends on the memberships, roles, assignments and sites, and on the system role only.\<close>
definition same_access :: "iam_db \<Rightarrow> iam_db \<Rightarrow> bool" where
  "same_access a b = (id_members a = id_members b \<and> id_roles a = id_roles b \<and> id_assignments a = id_assignments b
     \<and> id_sites a = id_sites b \<and> (\<forall>j. map_option us_system (find_user j a) = map_option us_system (find_user j b)))"

lemma collect_sites_cong:
  "(\<And>a. permissions_of a db = permissions_of a db') \<Longrightarrow> collect_sites p db as acc = collect_sites p db' as acc"
  by (induction p db as acc rule: collect_sites.induct) (auto split: option.splits)

lemma same_access_sites:
  assumes "same_access a b"
  shows "list_accessible_sites rank u ws p a = list_accessible_sites rank u ws p b"
proof -
  from assms have eq: "id_members a = id_members b" "id_roles a = id_roles b" "id_assignments a = id_assignments b"
    "id_sites a = id_sites b" and sys: "map_option us_system (find_user u a) = map_option us_system (find_user u b)"
    by (simp_all add: same_access_def)
  have perm: "permissions_of x a = permissions_of x b" for x using eq by (simp add: permissions_of_def find_role_def)
  have of: "assignment_of u ws a = assignment_of u ws b"
    using eq by (simp add: assignment_of_def[abs_def] member_of_def)
  have "accessible_sites u p ws a = accessible_sites u p ws b"
    using sys of eq collect_sites_cong[OF perm]
    by (cases "find_user u a"; cases "find_user u b") (auto simp: accessible_sites_def split: option.splits)
  then show ?thesis using eq by (simp add: list_accessible_sites_def)
qed

lemma same_access_token:
  assumes "same_access a b"
  shows "user_token_for rank u ws site a = user_token_for rank u ws site b"
proof -
  have eq: "id_members a = id_members b" using assms by (simp add: same_access_def)
  show ?thesis unfolding user_token_for_def find_member_def same_access_sites[OF assms] eq ..
qed

lemma same_access_tokens [simp]: "same_access (au_iam (on_user_tokens f db)) (au_iam db)"
  by (simp add: same_access_def find_user_def)

lemma find_user_tokens [simp]: "find_user j (au_iam (on_user_tokens f db)) = find_user j (au_iam db)"
  by (simp add: find_user_def)

lemma token_for_tokens [simp]:
  "user_token_for rank u ws site (au_iam (on_user_tokens f db)) = user_token_for rank u ws site (au_iam db)"
  by (rule same_access_token) simp

lemma on_user_tokens_twice [simp]: "on_user_tokens f (on_user_tokens g db) = on_user_tokens (\<lambda>x. f (g x)) db"
  by (simp add: on_user_tokens_def)

lemma refresh_commit_result:
  assumes "find_user uid (au_iam db) = Some u" "us_status u = ActiveUser" "\<not> locked_at now u"
    and "user_token_for rank u None site (au_iam db) = Inr p"
    and "insert_token i now (sha tok) uid (revoke_token now (sha old) (user_tokens db)) = Some ts"
  shows "refresh_commit sign rank sha i tok now old site uid db
    = (Inr \<lparr>sn_access = sign now p, sn_refresh = tok, sn_expires = now + refresh_token_expiry\<rparr>, on_user_tokens (\<lambda>_. ts) db)"
  using assms by (simp add: refresh_commit_def revoke_refresh_token_def create_refresh_token_def)

lemma refresh_session_Inr:
  assumes "refresh_session sign rank sha i tok now old site db = (Inr s, db1)"
  shows "\<exists>uid ts. refresh_verify sha now old db = Some uid
    \<and> insert_token i now (sha tok) uid (revoke_token now (sha old) (user_tokens db)) = Some ts
    \<and> db1 = on_user_tokens (\<lambda>_. ts) db \<and> sn_refresh s = tok"
  using assms
  by (auto simp: refresh_session_def refresh_commit_def revoke_refresh_token_def create_refresh_token_Some Let_def
      split: option.splits if_splits sum.splits)

text \<open>
  C17: refresh tokens are used once.  After a successful refresh, the old token is refused for
  good, whatever operations follow (as long as no later random token has the same digest), and the
  new token verifies for the same user exactly until its seven days are over.
\<close>
theorem refresh_single_use:
  assumes "refresh_session sign rank sha i tok now old site db = (Inr s, db1)" "sha tok \<noteq> sha old"
    and e: "en_sha E = sha" and steps: "(auth_step E (sha old))\<^sup>*\<^sup>* db1 db2"
  shows "(\<exists>uid. refresh_verify sha now old db = Some uid
      \<and> verify_refresh_token t (sha (sn_refresh s)) db1 = (if t \<le> now + refresh_token_expiry then Some uid else None))
    \<and> refresh_session sign rank sha i' tok' now' old site' db2 = (Inl InvalidRefreshToken, db2)"
proof -
  from refresh_session_Inr[OF assms(1)] obtain uid ts where uid: "refresh_verify sha now old db = Some uid"
    and ts: "insert_token i now (sha tok) uid (revoke_token now (sha old) (user_tokens db)) = Some ts"
    and db1: "db1 = on_user_tokens (\<lambda>_. ts) db" and s: "sn_refresh s = tok" by auto
  have a: "\<exists>uid. refresh_verify sha now old db = Some uid
      \<and> verify_refresh_token t (sha (sn_refresh s)) db1 = (if t \<le> now + refresh_token_expiry then Some uid else None)"
    using uid insert_token_valid(1)[OF ts] by (simp add: verify_refresh_token_def db1 s)
  have "spent_in (sha old) (user_tokens db1)"
    using spent_in_keep(4)[OF spent_in_revoked assms(2) ts] by (simp add: db1)
  then have "verify_refresh_token now' (sha old) db2 = None"
    using user_store.spent_valid[OF user_store.spent_steps[OF steps]] by simp
  then have "refresh_session sign rank sha i' tok' now' old site' db2 = (Inl InvalidRefreshToken, db2)"
    by (simp add: refresh_session_def refresh_verify_def)
  with a show ?thesis by blast
qed

text \<open>
  a token is not used once when requests overlap.  When two refreshes with one token both
  verify it before either revokes it, both succeed, and both new tokens are valid afterwards.
\<close>
theorem refresh_race:
  assumes ver: "refresh_verify sha now1 old db = Some uid" "refresh_verify sha now2 old db = Some uid"
    and u: "find_user uid (au_iam db) = Some u" "us_status u = ActiveUser" "\<not> locked_at now1 u" "\<not> locked_at now2 u"
    and ctx: "user_token_for rank u None site1 (au_iam db) = Inr p1" "user_token_for rank u None site2 (au_iam db) = Inr p2"
    and fresh: "find_token (sha tok1) (user_tokens db) = None" "find_token (sha tok2) (user_tokens db) = None"
      "distinct [sha old, sha tok1, sha tok2]"
    and le: "now1 \<le> now2" "now2 \<le> now1 + refresh_token_expiry"
  shows "\<exists>s1 s2 db1 db2. refresh_commit sign rank sha i1 tok1 now1 old site1 uid db = (Inr s1, db1)
      \<and> refresh_commit sign rank sha i2 tok2 now2 old site2 uid db1 = (Inr s2, db2)
      \<and> verify_refresh_token now2 (sha tok1) db2 = Some uid \<and> verify_refresh_token now2 (sha tok2) db2 = Some uid"
proof -
  have rev: "find_token h (revoke_token t k ts) = None" if "find_token h ts = None" for h t k ts
    using that by (auto simp: find_token_def revoke_token_def find_None_iff update_where_def)
  let ?r1 = "revoke_token now1 (sha old) (user_tokens db)"
  obtain ts1 where ts1: "insert_token i1 now1 (sha tok1) uid ?r1 = Some ts1" "find_token (sha tok2) ts1 = None"
    using rev[OF fresh(1)] rev[OF fresh(2)] fresh(3) by (auto simp: insert_token_def find_token_def find_append)
  let ?r2 = "revoke_token now2 (sha old) ts1"
  obtain ts2 where ts2: "insert_token i2 now2 (sha tok2) uid ?r2 = Some ts2"
    using rev[OF ts1(2)] by (auto simp: insert_token_def)
  let ?db1 = "on_user_tokens (\<lambda>_. ts1) db"
  have c1: "refresh_commit sign rank sha i1 tok1 now1 old site1 uid db
      = (Inr \<lparr>sn_access = sign now1 p1, sn_refresh = tok1, sn_expires = now1 + refresh_token_expiry\<rparr>, ?db1)"
    by (rule refresh_commit_result[OF u(1,2,3) ctx(1)]) (rule ts1(1))
  have c2: "refresh_commit sign rank sha i2 tok2 now2 old site2 uid ?db1
      = (Inr \<lparr>sn_access = sign now2 p2, sn_refresh = tok2, sn_expires = now2 + refresh_token_expiry\<rparr>,
         on_user_tokens (\<lambda>_. ts2) ?db1)"
    by (rule refresh_commit_result) (use u ctx ts2 in simp_all)
  have "valid_token now2 (sha tok1) ts1 = Some uid" using insert_token_valid(1)[OF ts1(1)] le by simp
  then have "valid_token now2 (sha tok1) ?r2 = Some uid"
    using fresh(3) by (simp add: revoke_token_other)
  then have "valid_token now2 (sha tok1) ts2 = Some uid" "valid_token now2 (sha tok2) ts2 = Some uid"
    using insert_token_valid[OF ts2] fresh(3) le by (simp_all add: refresh_token_expiry_def)
  with c1 c2 show ?thesis unfolding verify_refresh_token_def by auto
qed

text \<open>
  Refreshing for a site outside the workspace joined first loses the session.  A user who may
  switch to a site of another workspace, and who refreshes with that site as the client does after
  a switch, is refused, and the refresh token is revoked all the same.
\<close>
theorem refresh_after_switch_fails:
  assumes ver: "refresh_verify sha now old db = Some uid"
    and sw: "switch_site sign rank now uid site db = Inr access" and site: "find_site site (au_iam db) = Some s" "site \<noteq> ''''"
    and first: "first_asc me_joined (filter (\<lambda>m. me_user m = uid) (id_members (au_iam db))) = Some m"
      "me_workspace m \<noteq> si_workspace s"
    and ids: "distinct (map si_id (id_sites (au_iam db)))"
  shows "\<exists>db'. refresh_session sign rank sha i tok now old (Some site) db = (Inl SiteNotAuthorized, db')
    \<and> (\<forall>t. refresh_verify sha t old db' = None)"
proof -
  from sw obtain u where u: "find_user uid (au_iam db) = Some u" "us_status u = ActiveUser" "\<not> locked_at now u"
    by (auto simp: switch_site_def split: option.splits if_splits)
  have uid: "us_id u = uid" using u(1) by (auto simp: find_user_def dest: find_Some_in)
  have s: "s \<in> set (id_sites (au_iam db))" "si_id s = site"
    using site(1) by (auto simp: find_site_def dest: find_Some_in)
  have "find (\<lambda>x. si_id x = site) (list_accessible_sites rank uid (me_workspace m) p (au_iam db)) = None" for p
  proof -
    have "si_workspace x = si_workspace s" if "x \<in> set (id_sites (au_iam db))" "si_id x = site" for x
      using ids s that by (metis distinct_map inj_on_eq_iff)
    with first(2) show ?thesis by (auto simp: find_None_iff list_accessible_sites_def)
  qed
  then have tok: "user_token_for rank u None (Some site) (au_iam db) = Inl SiteNotAuthorized"
    using first site(2) by (simp add: user_token_for_def uid truthy_def)
  let ?db = "on_user_tokens (revoke_token now (sha old)) db"
  have "refresh_session sign rank sha i tok now old (Some site) db = (Inl SiteNotAuthorized, ?db)"
    using ver u tok by (simp add: refresh_session_def refresh_commit_def revoke_refresh_token_def)
  moreover have "refresh_verify sha t old ?db = None" for t
    by (simp add: refresh_verify_def verify_refresh_token_def spent_in_valid[OF spent_in_revoked])
  ultimately show ?thesis by blast
qed

section \<open>A disabled user stays out\<close>

definition shut_out :: "uuid \<Rightarrow> iam_db \<Rightarrow> bool" where
  "shut_out u iam = ((\<exists>x \<in> set (id_users iam). us_id x = u) \<and> (\<forall>x \<in> set (id_users iam). us_id x = u \<longrightarrow> us_status x = DisabledUser))"

text \<open>A step other than enabling the user; the row of an invited user gets a fresh id.\<close>
inductive account_step :: "auth_env \<Rightarrow> uuid \<Rightarrow> auth_db \<Rightarrow> auth_db \<Rightarrow> bool" for E u where
  "c \<noteq> Administer (EnableUser u) \<Longrightarrow>
   (\<And>tok iu im ia now inp. c = CreateInvite tok iu im ia now inp \<Longrightarrow> iu \<notin> us_id ` set (id_users (au_iam db))) \<Longrightarrow>
   account_step E u db (exec_auth E c db)"

lemma find_user_in: "find_user i iam = Some x \<Longrightarrow> x \<in> set (id_users iam) \<and> us_id x = i"
  by (auto simp: find_user_def dest: find_Some_in)

lemma shut_out_user: "shut_out u iam \<Longrightarrow> find_user u iam = Some x \<Longrightarrow> us_status x = DisabledUser"
  by (auto simp: shut_out_def dest: find_user_in)

lemma shut_out_email: "shut_out u (au_iam db) \<Longrightarrow> find_by_email email db = Some x \<Longrightarrow> us_id x = u \<Longrightarrow> us_status x = DisabledUser"
  by (auto simp: shut_out_def find_by_email_def dest: find_Some_in)

lemma shut_out_users: "id_users iam' = id_users iam \<Longrightarrow> shut_out u iam' = shut_out u iam"
  by (simp add: shut_out_def)

lemma shut_out_set_user:
  assumes "shut_out u iam" "\<And>x. us_id (f x) = us_id x" "\<And>x. j = u \<Longrightarrow> us_status x = DisabledUser \<Longrightarrow> us_status (f x) = DisabledUser"
  shows "shut_out u (set_user j f iam)"
  using assms by (auto simp: shut_out_def set_user_def set_update_where) blast+

lemma shut_out_auth_user:
  assumes "shut_out u (au_iam db)" "\<And>x. us_id (f x) = us_id x" "\<And>x. j = u \<Longrightarrow> us_status x = DisabledUser \<Longrightarrow> us_status (f x) = DisabledUser"
  shows "shut_out u (au_iam (set_auth_user j f db))"
  using shut_out_set_user[OF assms] by (simp add: set_auth_user_def)

lemma shut_out_tokens [simp]: "shut_out u (au_iam (on_user_tokens f db)) = shut_out u (au_iam db)"
  by (rule shut_out_users) simp

lemma login_shut_out:
  assumes "shut_out u (au_iam db)"
  shows "shut_out u (au_iam (snd (login sign rank sha compare i tok now email pw db)))"
  using assms
  by (auto simp: login_def create_refresh_token_Some Let_def intro!: shut_out_auth_user split: option.splits sum.splits)

lemma commit_shut_out:
  "shut_out u (au_iam db) \<Longrightarrow> shut_out u (au_iam (snd (refresh_commit sign rank sha i tok now old site uid db)))"
  by (auto simp: refresh_commit_def revoke_refresh_token_def create_refresh_token_Some Let_def split: option.splits sum.splits)

lemma complete_shut_out:
  assumes "shut_out u (au_iam db)"
  shows "shut_out u (au_iam (snd (complete_invite sha hash ids now tok pw inp db)))"
proof (cases "find_by_invite (sha tok) db")
  case None
  with assms show ?thesis by (simp add: complete_invite_def)
next
  case (Some x)
  then have x: "x \<in> set (id_users (au_iam db))" by (auto simp: find_by_invite_def dest: find_Some_in)
  have same: "shut_out u ((au_iam db)\<lparr>id_members := ms\<rparr>)" for ms using assms by (simp add: shut_out_def)
  have "us_status x = PendingUser \<Longrightarrow> us_id x \<noteq> u" using assms x by (auto simp: shut_out_def)
  with assms Some same show ?thesis
    by (auto simp: complete_invite_def Let_def intro!: shut_out_auth_user shut_out_set_user split: sum.splits)
qed

lemma invite_shut_out:
  assumes "shut_out u (au_iam db)" "create_invite sha tok iu im ia now inp db = Inr (v, db')"
    and "iu \<notin> us_id ` set (id_users (au_iam db))"
  shows "shut_out u (au_iam db')"
proof (cases "find_by_email (iv_email inp) db")
  case None
  with assms(2) obtain n where n: "id_users (au_iam db') = id_users (au_iam db) @ [n]" "us_id n = iu"
    by (auto simp: create_invite_def Let_def split: sum.splits if_splits)
  with assms(1,3) show ?thesis by (auto simp: shut_out_def)
next
  case (Some x)
  with assms(1,2) show ?thesis
    by (auto simp: create_invite_def intro!: shut_out_auth_user split: if_splits)
qed

lemma admin_users:
  "exec_iam c iam = Inr iam' \<Longrightarrow> (\<And>v now. c \<noteq> DisableUser v now \<and> c \<noteq> EnableUser v \<and> c \<noteq> UnlockUser v)
     \<Longrightarrow> id_users iam' = id_users iam"
proof (cases c)
  case (ChangeRole i now rc)
  then show "exec_iam c iam = Inr iam' \<Longrightarrow> ?thesis"
    using change_member_role_result[of i now rc iam iam'] by (auto simp: replace_assignment_def Let_def)
qed (auto simp: map_sum_Inr create_role_def update_role_def remove_role_def assign_def unassign_def
    add_member_def remove_member_def Let_def split: sum.splits option.splits if_splits)

lemma admin_shut_out:
  assumes "shut_out u iam" "exec_iam c iam = Inr iam'" "c \<noteq> EnableUser u"
  shows "shut_out u iam'"
proof -
  consider v now where "c = DisableUser v now" | v where "c = EnableUser v" | v where "c = UnlockUser v"
    | "\<And>v now. c \<noteq> DisableUser v now \<and> c \<noteq> EnableUser v \<and> c \<noteq> UnlockUser v" by blast
  then show ?thesis
  proof cases
    case (1 v now)
    have "shut_out u (set_user v (\<lambda>x. x\<lparr>us_status := DisabledUser\<rparr>) iam)"
      by (rule shut_out_set_user[OF assms(1)]) simp_all
    moreover have "id_users iam' = id_users (set_user v (\<lambda>x. x\<lparr>us_status := DisabledUser\<rparr>) iam)"
      using assms(2) 1 by (auto simp: disable_user_def split: if_splits)
    ultimately show ?thesis
      using shut_out_users[of iam' "set_user v (\<lambda>x. x\<lparr>us_status := DisabledUser\<rparr>) iam" u] by simp
  next
    case (2 v)
    with assms(2) have "iam' = set_user v (\<lambda>u. u\<lparr>us_status := ActiveUser, us_failed := 0, us_locked := None\<rparr>) iam"
      by (simp add: enable_user_def split: if_splits)
    then show ?thesis using 2 assms(3) by (simp only:) (rule shut_out_set_user[OF assms(1)], simp_all)
  next
    case (3 v)
    with assms(2) have "iam' = set_user v (\<lambda>u. u\<lparr>us_failed := 0, us_locked := None\<rparr>) iam"
      by (simp add: unlock_account_def split: option.splits if_splits)
    then show ?thesis by (simp only:) (rule shut_out_set_user[OF assms(1)], simp_all)
  next
    case 4
    from shut_out_users[OF admin_users[OF assms(2) 4]] assms(1) show ?thesis by simp
  qed
qed

lemma account_step_shut_out:
  assumes "account_step E u db db'" "shut_out u (au_iam db)"
  shows "shut_out u (au_iam db')"
  using assms(1)
proof cases
  case (1 c)
  note allowed = 1(2,3) and s = assms(2)
  show ?thesis unfolding 1(1)
  proof (cases c)
    case (CreateInvite tok iu im ia now inp)
    with s allowed(2) show "shut_out u (au_iam (exec_auth E c db))"
      using invite_shut_out[of u db "en_sha E" tok iu im ia now inp] by (auto simp: or_same_def map_sum_Inr split: sum.splits)
  next
    case (Administer ic)
    with s allowed(1) show "shut_out u (au_iam (exec_auth E c db))"
      using admin_shut_out[of u "au_iam db" ic] by (auto simp: or_same_def map_sum_Inr_iff split: sum.splits)
  next
    case (ResetPassword now tok pw)
    with s show "shut_out u (au_iam (exec_auth E c db))"
      by (auto simp: reset_password_def revoke_all_user_tokens_def Let_def intro!: shut_out_auth_user split: option.splits)
  qed (use s in \<open>auto simp: login_shut_out commit_shut_out refresh_session_def complete_shut_out logout_def logout_all_def
      revoke_refresh_token_def revoke_all_user_tokens_def cleanup_expired_tokens_def logout_display_def
      revoke_display_refresh_token_def revoke_all_display_tokens_def cleanup_expired_display_tokens_def initiate_reset_def
      change_password_def or_same_def intro!: shut_out_auth_user split: option.splits\<close>)
qed

lemma account_steps_shut_out: "(account_step E u)\<^sup>*\<^sup>* db db' \<Longrightarrow> shut_out u (au_iam db) \<Longrightarrow> shut_out u (au_iam db')"
  by (induction rule: rtranclp_induct) (auto intro: account_step_shut_out)

text \<open>
  C9: disabling a user ends every session and admits no new one.  After \<open>disable\<close>, whatever
  operations follow other than enabling that user (logins, refreshes, resets, invitations, changes
  of roles), no request is resolved to the user, no refresh and no login succeeds for the user,
  and the workspace cannot be switched.
\<close>
theorem disabled_user_stays_out:
  assumes dis: "disable_user u t0 (au_iam db0) = Inr iam" and steps: "(account_step E u)\<^sup>*\<^sup>* (db0\<lparr>au_iam := iam\<rparr>) db"
  shows "resolve_iam check rank now header db \<noteq> UserCaller u email ws site
    \<and> (fst (refresh_session sign rank sha i tok now old st db) = Inr s \<longrightarrow> refresh_verify sha now old db \<noteq> Some u)
    \<and> (fst (login sign rank sha compare i tok now mail pw db) = Inr s \<longrightarrow> map_option us_id (find_by_email mail db) \<noteq> Some u)
    \<and> switch_workspace sign rank now u w db = Inl AccountNotActive"
proof -
  from dis obtain x where x: "x \<in> set (id_users (au_iam db0))" "us_id x = u"
    by (auto simp: disable_user_def dest: find_user_in split: if_splits)
  have eq: "id_users iam = update_where (\<lambda>x. us_id x = u) (\<lambda>x. x\<lparr>us_status := DisabledUser\<rparr>) (id_users (au_iam db0))"
    using dis by (auto simp: disable_user_def set_user_def split: if_splits)
  have "x\<lparr>us_status := DisabledUser\<rparr> \<in> set (id_users iam)" unfolding eq set_update_where using x by blast
  moreover have "us_id (x\<lparr>us_status := DisabledUser\<rparr>) = u" using x by simp
  moreover have "\<forall>y \<in> set (id_users iam). us_id y = u \<longrightarrow> us_status y = DisabledUser"
    unfolding eq set_update_where by (simp add: ball_Un)
  ultimately have "shut_out u iam" unfolding shut_out_def by blast
  then have out: "shut_out u (au_iam db)" using account_steps_shut_out[OF steps] by simp
  have user: "find_user u (au_iam db) = Some y \<Longrightarrow> us_status y = DisabledUser" for y by (rule shut_out_user[OF out])
  have a: "resolve_iam check rank now header db \<noteq> UserCaller u email ws site"
    by (auto simp: resolve_iam_def resolve_display_iam_def resolve_user_iam_def dest: user
        split: option.splits payload.splits if_splits)
  have b: "refresh_verify sha now old db = Some u \<Longrightarrow> fst (refresh_session sign rank sha i tok now old st db) \<noteq> Inr s"
    using user by (auto simp: refresh_session_def refresh_commit_def revoke_refresh_token_def Let_def split: option.splits)
  have c: "map_option us_id (find_by_email mail db) = Some u \<Longrightarrow> fst (login sign rank sha compare i tok now mail pw db) \<noteq> Inr s"
    using shut_out_email[OF out, of mail] by (auto simp: login_def split: option.splits)
  have d: "switch_workspace sign rank now u w db = Inl AccountNotActive"
    using user by (auto simp: switch_workspace_def split: option.splits)
  from a b c d show ?thesis by blast
qed

section \<open>Password guesses are bounded\<close>

definition login_checks :: "string \<Rightarrow> ms \<Rightarrow> auth_db \<Rightarrow> bool" where
  "login_checks email now db =
     (case find_by_email email db of
        None \<Rightarrow> False
      | Some u \<Rightarrow> \<not> locked_at now u \<and> us_status u = ActiveUser \<and> truthy (us_password u))"

definition wrong_password :: "(string \<Rightarrow> string \<Rightarrow> bool) \<Rightarrow> string \<Rightarrow> string \<Rightarrow> auth_db \<Rightarrow> bool" where
  "wrong_password compare email p db =
     (case Option.bind (find_by_email email db) us_password of None \<Rightarrow> True | Some h \<Rightarrow> \<not> compare p h)"

definition login_tries :: "string \<Rightarrow> auth_db \<Rightarrow> nat" where
  "login_tries email db = (case find_by_email email db of None \<Rightarrow> 0 | Some u \<Rightarrow> us_failed u)"

definition login_lock :: "string \<Rightarrow> auth_db \<Rightarrow> ms option" where
  "login_lock email db = Option.bind (find_by_email email db) us_locked"

definition login_attempt ::
  "(string \<Rightarrow> nat) \<Rightarrow> (string \<Rightarrow> string) \<Rightarrow> (string \<Rightarrow> string \<Rightarrow> bool) \<Rightarrow> uuid \<Rightarrow> string \<Rightarrow> string \<Rightarrow> ms \<Rightarrow> string \<Rightarrow> auth_db \<Rightarrow> auth_db" where
  "login_attempt rank sha compare i tok email now p db = snd (login (\<lambda>_ _. ()) rank sha compare i tok now email p db)"

text \<open>The attempts that are answered after a comparison of the password.\<close>
fun login_rejections ::
  "(string \<Rightarrow> nat) \<Rightarrow> (string \<Rightarrow> string) \<Rightarrow> (string \<Rightarrow> string \<Rightarrow> bool) \<Rightarrow> uuid \<Rightarrow> string \<Rightarrow> string \<Rightarrow> (ms \<times> string) list \<Rightarrow> auth_db \<Rightarrow> nat" where
  "login_rejections rank sha compare i tok email [] db = 0"
| "login_rejections rank sha compare i tok email ((now, p) # as) db =
     (case login (\<lambda>_ _. ()) rank sha compare i tok now email p db of
        (r, db') \<Rightarrow> (if r = Inl InvalidCredentials \<or> r = Inl TooManyAttempts then 1 else 0)
          + login_rejections rank sha compare i tok email as db')"

lemma find_by_email_set:
  assumes "\<And>x. us_email (f x) = us_email x"
  shows "find_by_email email (set_auth_user j f db) = map_option (\<lambda>u. if us_id u = j then f u else u) (find_by_email email db)"
proof -
  have "find (\<lambda>u. us_email u = m) (update_where q f xs) = map_option (\<lambda>u. if q u then f u else u) (find (\<lambda>u. us_email u = m) xs)"
    for m q xs using assms by (induction xs) (auto simp: update_where_def)
  then show ?thesis by (simp add: find_by_email_def set_auth_user_def set_user_def)
qed

lemma find_by_email_tokens [simp]: "find_by_email email (on_user_tokens f db) = find_by_email email db"
  by (simp add: find_by_email_def)

lemma login_failed:
  assumes "login_checks email now db" "wrong_password compare email p db" "find_by_email email db = Some u"
  shows "login sign rank sha compare i tok now email p db
    = (Inl (if us_failed u + 1 \<ge> max_login_attempts then TooManyAttempts else InvalidCredentials),
       set_auth_user (us_id u) (\<lambda>x. x\<lparr>us_failed := us_failed u + 1,
         us_locked := (if us_failed u + 1 \<ge> max_login_attempts then Some (now + login_lockout_ms) else None)\<rparr>) db)"
  using assms by (auto simp: login_def login_checks_def wrong_password_def truthy_def Let_def split: option.splits)

lemma login_ignored:
  assumes "\<not> login_checks email now db" "find_by_email email db \<noteq> None"
  shows "snd (login sign rank sha compare i tok now email p db) = db
    \<and> fst (login sign rank sha compare i tok now email p db) \<notin> {Inl InvalidCredentials, Inl TooManyAttempts}"
  using assms by (cases "find_by_email email db") (auto simp: login_def login_checks_def intro: user_status.exhaust)

lemma login_unknown: "find_by_email email db = None \<Longrightarrow> login sign rank sha compare i tok now email p db = (Inl InvalidCredentials, db)"
  by (simp add: login_def)

lemma login_keeps_email:
  "find_by_email email db \<noteq> None \<Longrightarrow> find_by_email email (snd (login sign rank sha compare i tok now email p db)) \<noteq> None"
  by (auto simp: login_def create_refresh_token_Some find_by_email_set Let_def split: option.splits sum.splits)

interpretation login_lock: lockout "login_tries email" "login_lock email" "login_checks email" "wrong_password compare email"
  "login_attempt rank sha compare i tok email" max_login_attempts login_lockout_ms
  for email compare rank sha i tok
proof
  fix now s t p p'
  show "t \<le> now" if "login_checks email now s" "login_lock email s = Some t"
    using that by (auto simp: login_checks_def login_lock_def locked_at_def split: option.splits)
  show "login_attempt rank sha compare i tok email now p s = s" if "\<not> login_checks email now s"
    using login_ignored[OF that, of "\<lambda>_ _. ()"] login_unknown[of email s "\<lambda>_ _. ()"] by (cases "find_by_email email s") (auto simp: login_attempt_def)
  assume a: "login_checks email now s" "wrong_password compare email p s"
  then obtain u where u: "find_by_email email s = Some u" by (auto simp: login_checks_def split: option.splits)
  note s' = login_attempt_def[of rank sha compare i tok email now p s, unfolded login_failed[OF a u] snd_conv]
  show "login_tries email (login_attempt rank sha compare i tok email now p s) = Suc (login_tries email s)"
    using u by (simp add: s' login_tries_def find_by_email_set)
  show "login_lock email (login_attempt rank sha compare i tok email now p s)
      = (if max_login_attempts \<le> Suc (login_tries email s) then Some (now + login_lockout_ms) else None)"
    using u by (simp add: s' login_lock_def login_tries_def find_by_email_set)
  show "wrong_password compare email p' (login_attempt rank sha compare i tok email now p s) = wrong_password compare email p' s"
    using u by (simp add: s' wrong_password_def find_by_email_set)
qed

lemma login_rejections_are_guesses:
  "find_by_email email db \<noteq> None \<Longrightarrow>
   login_rejections rank sha compare i tok email as db \<le> login_lock.guesses email rank sha compare i tok as db"
proof (induction as arbitrary: db)
  case (Cons a as)
  obtain now p where a: "a = (now, p)" by fastforce
  obtain r db' where res: "login (\<lambda>_ _. ()) rank sha compare i tok now email p db = (r, db')" by fastforce
  then have att: "login_attempt rank sha compare i tok email now p db = db'" by (simp add: login_attempt_def)
  have "find_by_email email db' \<noteq> None" using login_keeps_email[OF Cons.prems] res by (metis snd_conv)
  moreover have "r = Inl InvalidCredentials \<or> r = Inl TooManyAttempts \<Longrightarrow> login_checks email now db"
    using login_ignored[of email now db "\<lambda>_ _. ()" rank sha compare i tok p] Cons.prems res by auto
  ultimately show ?case using Cons.IH[of db'] a att res by auto
qed simp

text \<open>
  brute force on a password.  However wrong passwords for one account are spaced over a span of
  time, with no right one in between, at most five of them (less the failures already counted, but
  at least one) are compared with the hash, plus one per full fifteen minutes.
\<close>
theorem login_guesses_bounded:
  assumes "find_by_email email db \<noteq> None" "sorted (map fst as)" "t0 \<le> t1"
    and "\<forall>a \<in> set as. t0 \<le> fst a \<and> fst a \<le> t1 \<and> wrong_password compare email (snd a) db"
  shows "int (login_rejections rank sha compare i tok email as db)
    \<le> max 1 (int max_login_attempts - int (login_tries email db)) + (t1 - t0) div login_lockout_ms"
proof -
  have "int (login_rejections rank sha compare i tok email as db) \<le> int (login_lock.guesses email rank sha compare i tok as db)"
    using login_rejections_are_guesses[OF assms(1)] by simp
  also have "\<dots> \<le> max 1 (int max_login_attempts - int (login_tries email db)) + (t1 - t0) div login_lockout_ms"
    by (rule login_lock.guesses_in_span[OF _ assms(2,4,3)]) (simp add: login_lockout_ms_def)
  finally show ?thesis .
qed

section \<open>A session opens the workspace of its user\<close>

lemma login_Inr:
  assumes "login sign rank sha compare i tok now email pw db = (Inr s, db1)"
  shows "\<exists>u p ts. find_by_email email db = Some u \<and> us_status u = ActiveUser \<and> \<not> locked_at now u
    \<and> user_token_for rank u None None (au_iam db) = Inr p \<and> sn_access s = sign now p \<and> sn_refresh s = tok
    \<and> insert_token i now (sha tok) (us_id u) (user_tokens db) = Some ts
    \<and> db1 = set_auth_user (us_id u) (\<lambda>x. x\<lparr>us_failed := 0, us_locked := None, us_last_login := Some now\<rparr>)
        (on_user_tokens (\<lambda>_. ts) db)"
proof -
  from assms obtain u where u: "find_by_email email db = Some u" by (auto simp: login_def split: option.splits)
  then have "us_status u = ActiveUser"
    using assms by (cases "us_status u") (auto simp: login_def split: if_splits)
  with assms u show ?thesis
    by (auto simp: login_def create_refresh_token_Some Let_def split: if_splits option.splits sum.splits)
qed

lemma find_user_unique:
  "distinct (map us_id (id_users iam)) \<Longrightarrow> u \<in> set (id_users iam) \<Longrightarrow> find_user (us_id u) iam = Some u"
  unfolding find_user_def by (rule find_self)

lemma find_user_set:
  assumes "\<And>x. us_id (f x) = us_id x"
  shows "find_user j (set_user i f iam) = map_option (\<lambda>u. if us_id u = i then f u else u) (find_user j iam)"
  unfolding find_user_def set_user_def using assms by (simp add: find_update_where)

lemma same_access_set_user:
  assumes "\<And>x. us_id (f x) = us_id x \<and> us_system (f x) = us_system x"
  shows "same_access (set_user i f iam) iam"
proof -
  have id: "us_id (f x) = us_id x" and sys: "us_system (f x) = us_system x" for x using assms by auto
  have "map_option us_system (find_user j (set_user i f iam)) = map_option us_system (find_user j iam)" for j
    unfolding find_user_set[OF id] by (cases "find_user j iam") (simp_all add: sys)
  then show ?thesis by (simp add: same_access_def set_user_def)
qed

lemma same_access_trans: "same_access a b \<Longrightarrow> same_access b c \<Longrightarrow> same_access a c"
  by (simp add: same_access_def)

text \<open>
  a login opens the workspace the user joined first.  Until the access token expires, a request
  that carries it is resolved to that user, in the workspace of one of the user's memberships and,
  if any site is readable, at such a site.
\<close>
theorem login_resolves:
  assumes log: "login sign rank sha compare i tok now email pw db = (Inr s, db1)"
    and jwt: "\<And>p t. now \<le> t \<Longrightarrow> t < now + access_token_expiry \<Longrightarrow> check t (sign now p) = Some p"
    and t: "now \<le> t" "t < now + access_token_expiry"
    and keys: "distinct (map us_id (id_users (au_iam db)))" "\<forall>m \<in> set (id_members (au_iam db)). me_workspace m \<noteq> ''''"
  shows "\<exists>u m site. find_by_email email db = Some u \<and> m \<in> set (id_members (au_iam db)) \<and> me_user m = us_id u
    \<and> resolve_iam check rank t (bearer @ sn_access s) db1 = UserCaller (us_id u) (us_email u) (me_workspace m) site
    \<and> (site = None \<longleftrightarrow> list_accessible_sites rank (us_id u) (me_workspace m) ''facility:read'' (au_iam db1) = [])"
proof -
  let ?f = "\<lambda>x. x\<lparr>us_failed := 0, us_locked := None, us_last_login := Some now\<rparr>"
  from login_Inr[OF log] obtain u p ts where u: "find_by_email email db = Some u" "us_status u = ActiveUser"
    and p: "user_token_for rank u None None (au_iam db) = Inr p" "sn_access s = sign now p"
    and db1: "db1 = set_auth_user (us_id u) ?f (on_user_tokens (\<lambda>_. ts) db)" by blast
  have "u \<in> set (id_users (au_iam db))" using u(1) by (auto simp: find_by_email_def dest: find_Some_in)
  from find_user_unique[OF keys(1) this] have "find_user (us_id u) (au_iam (on_user_tokens (\<lambda>_. ts) db)) = Some u" by simp
  then have fu: "find_user (us_id u) (au_iam db1) = Some (?f u)"
    unfolding db1 set_auth_user_def by (simp add: find_user_set)
  have sa: "same_access (au_iam db1) (au_iam db)"
    unfolding db1 set_auth_user_def by (simp add: same_access_trans[OF same_access_set_user same_access_tokens])
  from p(1) obtain m where m: "first_asc me_joined (filter (\<lambda>m. me_user m = us_id u) (id_members (au_iam db))) = Some m"
    by (auto simp: user_token_for_def truthy_def split: option.splits)
  note min = first_asc_filter[OF m]
  let ?sites = "list_accessible_sites rank (us_id u) (me_workspace m) ''facility:read'' (au_iam db)"
  let ?site = "case ?sites of [] \<Rightarrow> None | s # _ \<Rightarrow> Some (si_id s)"
  have pay: "p = UserToken (us_id u) (us_email u) (Some (me_workspace m)) ?site"
    using p(1) m by (simp add: user_token_for_def truthy_def Let_def)
  have "id_members (au_iam db1) = id_members (au_iam db)" using sa by (simp add: same_access_def)
  then have mem: "find_member (us_id u) (me_workspace m) (au_iam db1) \<noteq> None"
    using min by (auto simp: find_member_def find_None_iff)
  have "resolve_user_iam rank t (us_id u) (Some (me_workspace m)) ?site db1 = UserCaller (us_id u) (us_email u) (me_workspace m) ?site"
    using fu mem keys(2) min u(2)
    by (auto simp: resolve_user_iam_def locked_at_def truthy_def same_access_sites[OF sa] split: list.splits)
  then have "resolve_iam check rank t (bearer @ sn_access s) db1 = UserCaller (us_id u) (us_email u) (me_workspace m) ?site"
    using jwt[OF t] by (simp add: resolve_iam_def p(2) pay starts_with_def)
  moreover have "?site = None \<longleftrightarrow> ?sites = []" by (simp split: list.splits)
  ultimately show ?thesis using u(1) min same_access_sites[OF sa] by metis
qed

section \<open>From the invitation to the first login\<close>

text \<open>The row of an invited user.\<close>
definition invited_row :: "string \<Rightarrow> uuid \<Rightarrow> string \<Rightarrow> ms \<Rightarrow> iam_user" where
  "invited_row h iu email now =
     \<lparr>us_id = iu, us_email = map to_lower email, us_status = PendingUser, us_system = None, us_password = None, us_failed = 0,
      us_locked = None, us_last_login = None, us_invite = Some h, us_invite_expiry = Some (now + invite_token_expiry_ms),
      us_invite_tries = 0, us_reset = None, us_reset_expiry = None, us_reset_tries = 0\<rparr>"

lemma create_invite_new:
  assumes "create_invite sha tok iu im ia now inp db = Inr (v, db1)" "find_by_email (iv_email inp) db = None"
  shows "\<not> list_ex (\<lambda>x. us_invite x = Some (sha tok)) (id_users (au_iam db))"
    "au_emp db1 = au_emp db" "user_tokens db1 = user_tokens db"
    "id_members (au_iam db1) = id_members (au_iam db) @
       [\<lparr>me_id = im, me_user = iu, me_workspace = iv_workspace inp, me_joined = now, me_employee = None\<rparr>]"
    "id_users (au_iam db1) = id_users (au_iam db) @ [invited_row (sha tok) iu (iv_email inp) now]"
proof -
  from assms obtain a where "resolve_invite_assignment inp (au_iam db) = Inr a"
    by (auto simp: create_invite_def split: sum.splits)
  note facts = assms this
  show "\<not> list_ex (\<lambda>x. us_invite x = Some (sha tok)) (id_users (au_iam db))"
    "au_emp db1 = au_emp db" "user_tokens db1 = user_tokens db"
    "id_members (au_iam db1) = id_members (au_iam db) @
       [\<lparr>me_id = im, me_user = iu, me_workspace = iv_workspace inp, me_joined = now, me_employee = None\<rparr>]"
    "id_users (au_iam db1) = id_users (au_iam db) @ [invited_row (sha tok) iu (iv_email inp) now]"
    using facts by (auto simp: create_invite_def user_tokens_def invited_row_def Let_def split: if_splits)
qed

lemma create_one_profile:
  assumes "me_workspace m \<noteq> ''''" "ensure_identity_available (me_workspace m) None (ic_number inp) (ic_badge inp) emp = Inr ()"
  shows "\<exists>emp'. create_profiles hash ((i, j) # ids) email inp [m] emp = Inr ([(me_id m, i)], emp')"
  using assms by (simp add: create_employee_def resolve_workspace_id_def truthy_def Let_def)

lemma token_of_member:
  assumes "filter (\<lambda>m. me_user m = us_id u) (id_members iam) \<noteq> []"
  shows "\<exists>p. user_token_for rank u None None iam = Inr p"
  using assms first_asc_None[of me_joined "filter (\<lambda>m. me_user m = us_id u) (id_members iam)"]
  by (auto simp: user_token_for_def truthy_def Let_def simp del: first_asc_None)

text \<open>
  an invitation leads to a login.  An invited new user who completes the registration within the
  seven days with a strong password, and with an employee number and badge that are free, becomes
  active with an employee profile, and can then log in with the invited address, in any spelling
  of its case, and the chosen password.
\<close>
theorem invited_user_logs_in:
  assumes inv: "create_invite sha tok iu im ia now inp db = Inr (v, db1)" "find_by_email (iv_email inp) db = None"
    and new: "iu \<notin> us_id ` set (id_users (au_iam db))" "iu \<notin> me_user ` set (id_members (au_iam db))" "iv_workspace inp \<noteq> ''''"
    and pw: "validate_password_strength pw = []" "hash pw \<noteq> ''''" "compare pw (hash pw)"
    and ident: "ensure_identity_available (iv_workspace inp) None (ic_number reg) (ic_badge reg) (au_emp db) = Inr ()"
    and times: "t1 \<le> now + invite_token_expiry_ms" and mail: "map to_lower mail = map to_lower (iv_email inp)"
    and fresh: "find_token (sha tok') (user_tokens db) = None"
  shows "\<exists>db2 s db3. complete_invite sha hash ((e, w) # ids) t1 tok pw reg db1 = (Inr iu, db2)
    \<and> login sign rank sha compare i tok' t2 mail pw db2 = (Inr s, db3)
    \<and> (\<exists>m \<in> set (id_members (au_iam db2)). me_user m = iu \<and> me_workspace m = iv_workspace inp \<and> me_employee m = Some e)"
proof -
  let ?m = "\<lparr>me_id = im, me_user = iu, me_workspace = iv_workspace inp, me_joined = now, me_employee = None\<rparr>"
  let ?u = "invited_row (sha tok) iu (iv_email inp) now"
  note clash = create_invite_new(1)[OF inv] and db1 = create_invite_new(2-5)[OF inv]
  have found: "find_by_invite (sha tok) db1 = Some ?u"
    using clash by (auto simp: find_by_invite_def db1 find_append find_None_iff list_ex_iff invited_row_def split: option.splits dest: find_Some_in)
  have mine: "filter (\<lambda>m. me_user m = iu) (id_members (au_iam db1)) = [?m]"
    using new(2) by (auto simp: db1 filter_empty_conv)
  have wm: "me_workspace ?m \<noteq> ''''" using new(3) by simp
  have idm: "ensure_identity_available (me_workspace ?m) None (ic_number reg) (ic_badge reg) (au_emp db1) = Inr ()"
    using ident by (simp add: db1)
  obtain emp where emp: "create_profiles hash ((e, w) # ids) (us_email ?u) reg [?m] (au_emp db1) = Inr ([(me_id ?m, e)], emp)"
    using create_one_profile[OF wm idm] by blast
  let ?f = "\<lambda>x. x\<lparr>us_password := Some (hash pw), us_status := ActiveUser, us_invite := None, us_invite_expiry := None, us_invite_tries := 0\<rparr>"
  define db2 where "db2 = db1\<lparr>au_emp := emp, au_iam := set_user iu ?f
      ((au_iam db1)\<lparr>id_members := link_employees [(im, e)] (id_members (au_iam db1))\<rparr>)\<rparr>"
  have complete: "complete_invite sha hash ((e, w) # ids) t1 tok pw reg db1 = (Inr iu, db2)"
    using found mine emp times pw(1)
    by (simp add: complete_invite_def Let_def db2_def overdue_def max_token_attempts_def invited_row_def)
  have old: "update_where (\<lambda>u. us_id u = iu) ?f (id_users (au_iam db)) = id_users (au_iam db)"
    using new(1) unfolding update_where_def by (intro map_idI) auto
  have "find (\<lambda>u. us_email u = map to_lower mail) (id_users (au_iam db)) = None"
    using inv(2) mail by (simp add: find_by_email_def)
  then have "find (\<lambda>u. us_email u = map to_lower mail) (update_where (\<lambda>u. us_id u = iu) ?f (id_users (au_iam db1))) = Some (?f ?u)"
    using mail old by (simp add: db1 find_append invited_row_def)
  then have user: "find_by_email mail db2 = Some (?f ?u)" by (simp add: find_by_email_def db2_def set_user_def)
  have uid: "us_id (?f ?u) = iu" by (simp add: invited_row_def)
  have "filter (\<lambda>m. me_user m = us_id (?f ?u)) (id_members (au_iam db2)) \<noteq> []"
    unfolding uid by (auto simp: db2_def set_user_def filter_empty_conv db1 link_employees_def)
  from token_of_member[OF this] obtain p where p: "user_token_for rank (?f ?u) None None (au_iam db2) = Inr p" by blast
  have "user_tokens db2 = user_tokens db" using db1(2) by (simp add: db2_def user_tokens_def set_user_def)
  then obtain ts where ts: "insert_token i t2 (sha tok') iu (user_tokens db2) = Some ts" using fresh by (simp add: insert_token_def)
  have "\<exists>s db3. login sign rank sha compare i tok' t2 mail pw db2 = (Inr s, db3)"
    using user p ts pw(2,3) by (simp add: login_def locked_at_def truthy_def create_refresh_token_def invited_row_def)
  moreover have "\<exists>m \<in> set (id_members (au_iam db2)). me_user m = iu \<and> me_workspace m = iv_workspace inp \<and> me_employee m = Some e"
    by (auto simp: db2_def set_user_def db1 link_employees_def)
  ultimately show ?thesis using complete by blast
qed

section \<open>Concrete runs\<close>

text \<open>Ada belongs to two workspaces, each with one site she may read.\<close>
definition sample_ada :: iam_user where
  "sample_ada = (sample_iam_user ''ada'')\<lparr>us_email := ''ada@x'', us_password := Some ''Secret''\<rparr>"

definition sample_reader :: "uuid \<Rightarrow> uuid \<Rightarrow> role" where
  "sample_reader i ws = \<lparr>ro_id = i, ro_workspace = ws, ro_name = ''Reader'', ro_description = None, ro_scope = WorkspaceScope,
     ro_permissions = [''facility:read'', ''user:write''], ro_system = False\<rparr>"

definition sample_digest :: "string \<Rightarrow> string" where
  "sample_digest s = CHR ''#'' # s"

definition sample_auth :: auth_db where
  "sample_auth =
     \<lparr>au_iam = \<lparr>id_workspaces = [''w'', ''w2''], id_users = [sample_ada], id_roles = [sample_reader ''r'' ''w'', sample_reader ''r2'' ''w2''],
        id_members = [\<lparr>me_id = ''m'', me_user = ''ada'', me_workspace = ''w'', me_joined = 0, me_employee = None\<rparr>,
                      \<lparr>me_id = ''m2'', me_user = ''ada'', me_workspace = ''w2'', me_joined = 1, me_employee = None\<rparr>],
        id_assignments = [\<lparr>ra_id = ''a'', ra_member = ''m'', ra_role = ''r'', ra_site = None, ra_created = 0\<rparr>,
                          \<lparr>ra_id = ''a2'', ra_member = ''m2'', ra_role = ''r2'', ra_site = None, ra_created = 1\<rparr>],
        id_sites = [\<lparr>si_id = ''s'', si_workspace = ''w'', si_name = ''Plant''\<rparr>, \<lparr>si_id = ''s2'', si_workspace = ''w2'', si_name = ''Mill''\<rparr>],
        id_tokens = [\<lparr>tk_id = ''t'', tk_hash = ''#old'', tk_owner = ''ada'', tk_expires = 1000, tk_revoked = None\<rparr>]\<rparr>,
      au_emp = \<lparr>ed_employees = [], ed_versions = [], ed_roles = [], ed_access = [], ed_logons = []\<rparr>,
      au_displays = [], au_display_tokens = []\<rparr>"

definition sample_env :: auth_env where
  "sample_env = \<lparr>en_rank = (\<lambda>_. 0), en_sha = sample_digest, en_compare = (=), en_hash = id\<rparr>"

lemmas auth_eval =
  sample_auth_def sample_ada_def sample_iam_user_def sample_reader_def sample_env_def sample_digest_def find_token_def insert_token_def
  valid_token_def revoke_token_def verify_refresh_token_def refresh_verify_def user_tokens_def on_user_tokens_def
  user_token_for_def list_accessible_sites_def accessible_sites_def assignment_of_def member_of_def permissions_of_def
  find_user_def find_role_def find_site_def find_member_def locked_at_def truthy_def refresh_token_expiry_def update_where_def

lemma sample_refresh:
  "refresh_session (\<lambda>t p. (t, p)) (\<lambda>_. 0) sample_digest ''i'' ''new'' 5 ''old'' None sample_auth
   = (Inr \<lparr>sn_access = (5, UserToken ''ada'' ''ada@x'' (Some ''w'') (Some ''s'')), sn_refresh = ''new'',
           sn_expires = 5 + refresh_token_expiry\<rparr>,
      on_user_tokens (\<lambda>_. [\<lparr>tk_id = ''t'', tk_hash = ''#old'', tk_owner = ''ada'', tk_expires = 1000, tk_revoked = Some 5\<rparr>,
        \<lparr>tk_id = ''i'', tk_hash = ''#new'', tk_owner = ''ada'', tk_expires = 5 + refresh_token_expiry, tk_revoked = None\<rparr>]) sample_auth)"
  by (simp add: refresh_session_def refresh_commit_def revoke_refresh_token_def create_refresh_token_def auth_eval)

theorem refresh_single_use_witness:
  "\<exists>s db1. refresh_session (\<lambda>t p. (t, p)) (\<lambda>_. 0) sample_digest ''i'' ''new'' 5 ''old'' None sample_auth = (Inr s, db1)
    \<and> verify_refresh_token 6 (sample_digest (sn_refresh s)) db1 = Some ''ada''
    \<and> refresh_session (\<lambda>t p. (t, p)) (\<lambda>_. 0) sample_digest ''j'' ''next'' 7 ''old'' None (exec_auth sample_env (CleanupTokens 6) db1)
        = (Inl InvalidRefreshToken, exec_auth sample_env (CleanupTokens 6) db1)"
proof -
  have e: "en_sha sample_env = sample_digest" by (simp add: sample_env_def)
  have step: "(auth_step sample_env (sample_digest ''old''))\<^sup>*\<^sup>* db (exec_auth sample_env (CleanupTokens 6) db)" for db
    by (intro r_into_rtranclp auth_step.intros) simp
  have ne: "sample_digest ''new'' \<noteq> sample_digest ''old''" by (simp add: sample_digest_def)
  have "refresh_verify sample_digest 5 ''old'' sample_auth = Some ''ada''" by (simp add: auth_eval)
  moreover obtain s db1 where run: "refresh_session (\<lambda>t p. (t, p)) (\<lambda>_. 0) sample_digest ''i'' ''new'' 5 ''old'' None sample_auth = (Inr s, db1)"
    using sample_refresh by blast
  moreover note refresh_single_use[OF run ne e step[of db1], of 6 "''j''" "''next''" 7 None]
  ultimately show ?thesis by (auto simp: refresh_token_expiry_def)
qed

theorem refresh_race_witness:
  "\<exists>s1 s2 db1 db2. refresh_commit (\<lambda>t p. (t, p)) (\<lambda>_. 0) sample_digest ''i'' ''new'' 5 ''old'' None ''ada'' sample_auth = (Inr s1, db1)
      \<and> refresh_commit (\<lambda>t p. (t, p)) (\<lambda>_. 0) sample_digest ''j'' ''newer'' 6 ''old'' None ''ada'' db1 = (Inr s2, db2)
      \<and> verify_refresh_token 6 ''#new'' db2 = Some ''ada'' \<and> verify_refresh_token 6 ''#newer'' db2 = Some ''ada''"
  using refresh_race[where sha = sample_digest and ?now1.0 = 5 and ?now2.0 = 6 and old = "''old''" and uid = "''ada''" and u = sample_ada
      and db = sample_auth and rank = "\<lambda>_. 0" and ?site1.0 = None and ?site2.0 = None
      and ?p1.0 = "UserToken ''ada'' ''ada@x'' (Some ''w'') (Some ''s'')" and ?p2.0 = "UserToken ''ada'' ''ada@x'' (Some ''w'') (Some ''s'')"
      and ?tok1.0 = "''new''" and ?tok2.0 = "''newer''" and ?i1.0 = "''i''" and ?i2.0 = "''j''" and sign = "\<lambda>t p. (t, p)"]
  by (simp add: auth_eval)

theorem refresh_after_switch_fails_witness:
  "\<exists>db'. refresh_session (\<lambda>t p. (t, p)) (\<lambda>_. 0) sample_digest ''i'' ''new'' 5 ''old'' (Some ''s2'') sample_auth = (Inl SiteNotAuthorized, db')
    \<and> refresh_verify sample_digest 6 ''old'' db' = None"
proof -
  have "\<exists>db'. refresh_session (\<lambda>t p. (t, p)) (\<lambda>_. 0) sample_digest ''i'' ''new'' 5 ''old'' (Some ''s2'') sample_auth = (Inl SiteNotAuthorized, db')
    \<and> (\<forall>t. refresh_verify sample_digest t ''old'' db' = None)"
    by (rule refresh_after_switch_fails[where uid = "''ada''" and s = "\<lparr>si_id = ''s2'', si_workspace = ''w2'', si_name = ''Mill''\<rparr>"
        and m = "\<lparr>me_id = ''m'', me_user = ''ada'', me_workspace = ''w'', me_joined = 0, me_employee = None\<rparr>"
        and access = "(5, UserToken ''ada'' ''ada@x'' (Some ''w2'') (Some ''s2''))"])
      (simp_all add: switch_site_def auth_eval)
  then show ?thesis by blast
qed

lemma sample_mails [simp]:
  "to_lower (CHR ''A'') = CHR ''a''" "to_lower (CHR ''D'') = CHR ''d''" "to_lower (CHR ''a'') = CHR ''a''"
  "to_lower (CHR ''d'') = CHR ''d''" "to_lower (CHR ''@'') = CHR ''@''" "to_lower (CHR ''x'') = CHR ''x''"
  "to_lower (CHR ''N'') = CHR ''n''" "to_lower (CHR ''n'') = CHR ''n''" "to_lower (CHR ''e'') = CHR ''e''"
  "to_lower (CHR ''w'') = CHR ''w''" "to_lower (CHR ''E'') = CHR ''e''"
  by code_simp+

text \<open>After Ada is disabled, her own attempts and an invitation by someone else change nothing for her.\<close>
theorem disabled_user_stays_out_witness:
  "\<exists>iam. disable_user ''ada'' 3 (au_iam sample_auth) = Inr iam
    \<and> (\<forall>s. fst (login (\<lambda>t p. (t, p)) (\<lambda>_. 0) sample_digest (=) ''i'' ''new'' 5 ''Ada@x'' ''Secret''
        (exec_auth sample_env (Login ''i'' ''x'' 4 ''ada@x'' ''Secret'') (sample_auth\<lparr>au_iam := iam\<rparr>))) \<noteq> Inr s)"
proof -
  obtain iam where dis: "disable_user ''ada'' 3 (au_iam sample_auth) = Inr iam" by (simp add: disable_user_def auth_eval)
  let ?db = "exec_auth sample_env (Login ''i'' ''x'' 4 ''ada@x'' ''Secret'') (sample_auth\<lparr>au_iam := iam\<rparr>)"
  have step: "(account_step sample_env ''ada'')\<^sup>*\<^sup>* (sample_auth\<lparr>au_iam := iam\<rparr>) ?db"
    by (intro r_into_rtranclp account_step.intros) simp_all
  have "map_option us_id (find_by_email ''Ada@x'' ?db) = Some ''ada''"
    using dis by (auto simp: disable_user_def set_user_def login_def find_by_email_def auth_eval)
  then have "fst (login (\<lambda>t p. (t, p)) (\<lambda>_. 0) sample_digest (=) ''i'' ''new'' 5 ''Ada@x'' ''Secret'' ?db) \<noteq> Inr s" for s
    using disabled_user_stays_out[OF dis step, of "\<lambda>_ _. None" "\<lambda>_. 0" 5 "''''" "''''" "''''" None "\<lambda>t p. (t, p)" sample_digest
      "''i''" "''new''" "''old''" None s "(=)" "''Ada@x''" "''Secret''" "''w''"] by blast
  with dis show ?thesis by blast
qed

theorem login_guesses_bounded_witness:
  "int (login_rejections (\<lambda>_. 0) sample_digest (=) ''i'' ''t'' ''ada@x''
      [(0, ''1''), (1, ''2''), (2, ''3''), (3, ''4''), (4, ''5''), (5, ''6''), (900004, ''7'')] sample_auth)
    \<le> max 1 (int max_login_attempts - int (login_tries ''ada@x'' sample_auth)) + (900004 - 0) div login_lockout_ms
   \<and> login_rejections (\<lambda>_. 0) sample_digest (=) ''i'' ''t'' ''ada@x''
      [(0, ''1''), (1, ''2''), (2, ''3''), (3, ''4''), (4, ''5''), (5, ''6''), (900004, ''7'')] sample_auth = 6"
proof
  show "int (login_rejections (\<lambda>_. 0) sample_digest (=) ''i'' ''t'' ''ada@x''
      [(0, ''1''), (1, ''2''), (2, ''3''), (3, ''4''), (4, ''5''), (5, ''6''), (900004, ''7'')] sample_auth)
    \<le> max 1 (int max_login_attempts - int (login_tries ''ada@x'' sample_auth)) + (900004 - 0) div login_lockout_ms"
    by (rule login_guesses_bounded) (simp_all add: find_by_email_def wrong_password_def auth_eval)
  show "login_rejections (\<lambda>_. 0) sample_digest (=) ''i'' ''t'' ''ada@x''
      [(0, ''1''), (1, ''2''), (2, ''3''), (3, ''4''), (4, ''5''), (5, ''6''), (900004, ''7'')] sample_auth = 6"
    by (simp add: login_def find_by_email_def set_auth_user_def set_user_def auth_eval
        max_login_attempts_def login_lockout_ms_def minutes_left_def Let_def)
qed

text \<open>A signature that writes the payload into the token, with lengths in unary in front of the fields.\<close>
definition put_field :: "string \<Rightarrow> string" where
  "put_field s = replicate (length s) (CHR ''1'') @ CHR ''0'' # s"

definition get_field :: "string \<Rightarrow> string \<times> string" where
  "get_field x =
     (let n = length (takeWhile (\<lambda>c. c = CHR ''1'') x); rest = drop (Suc n) x in (take n rest, drop n rest))"

definition put_option :: "string option \<Rightarrow> string" where
  "put_option s = (case s of None \<Rightarrow> ''N'' | Some x \<Rightarrow> CHR ''S'' # put_field x)"

definition get_option :: "string \<Rightarrow> string option \<times> string" where
  "get_option x =
     (if take 1 x = ''N'' then (None, drop 1 x) else (Some (fst (get_field (drop 1 x))), snd (get_field (drop 1 x))))"

definition sample_sign :: "ms \<Rightarrow> payload \<Rightarrow> string" where
  "sample_sign t p =
     (case p of
        UserToken u e w s \<Rightarrow> CHR ''U'' # put_field u @ put_field e @ put_option w @ put_option s
      | DisplayToken d s w \<Rightarrow> CHR ''D'' # put_field d @ put_field s @ put_field w)"

definition sample_check :: "ms \<Rightarrow> string \<Rightarrow> payload option" where
  "sample_check t x =
     (let a = get_field (drop 1 x); b = get_field (snd a)
      in if take 1 x = ''U'' then (let c = get_option (snd b); d = get_option (snd c) in Some (UserToken (fst a) (fst b) (fst c) (fst d)))
         else Some (DisplayToken (fst a) (fst b) (fst (get_field (snd b)))))"

lemma takeWhile_replicate_other: "b \<noteq> a \<Longrightarrow> takeWhile (\<lambda>c. c = a) (replicate n a @ b # r) = replicate n a"
  by (induction n) simp_all

lemma get_put_field [simp]: "get_field (put_field s @ r) = (s, r)"
proof -
  have "takeWhile (\<lambda>c. c = CHR ''1'') (put_field s @ r) = replicate (length s) (CHR ''1'')"
    by (simp add: put_field_def takeWhile_replicate_other)
  then show ?thesis by (simp add: get_field_def put_field_def Let_def)
qed

lemma get_put_field_end [simp]: "get_field (put_field s) = (s, [])"
  using get_put_field[of s "[]"] by simp

lemma get_put_option [simp]: "get_option (put_option s @ r) = (s, r)" "get_option (put_option s) = (s, [])"
  by (simp_all add: get_option_def put_option_def split: option.splits)

lemma sample_check_sign: "sample_check t' (sample_sign t p) = Some p"
  by (cases p) (simp_all add: sample_check_def sample_sign_def Let_def)

theorem login_resolves_witness:
  "\<exists>s db1 site. login sample_sign (\<lambda>_. 0) sample_digest (=) ''i'' ''new'' 5 ''ADA@x'' ''Secret'' sample_auth = (Inr s, db1)
    \<and> resolve_iam sample_check (\<lambda>_. 0) 6 (bearer @ sn_access s) db1 = UserCaller ''ada'' ''ada@x'' ''w'' site"
proof -
  have user: "find_by_email ''ADA@x'' sample_auth = Some sample_ada"
    by (simp add: find_by_email_def auth_eval)
  have "fst (login sample_sign (\<lambda>_. 0) sample_digest (=) ''i'' ''new'' 5 ''ADA@x'' ''Secret'' sample_auth)
      = Inr \<lparr>sn_access = sample_sign 5 (UserToken ''ada'' ''ada@x'' (Some ''w'') (Some ''s'')), sn_refresh = ''new'',
             sn_expires = 5 + refresh_token_expiry\<rparr>" (is "_ = Inr ?s")
    using user by (simp add: login_def create_refresh_token_def auth_eval)
  then obtain db1 where run: "login sample_sign (\<lambda>_. 0) sample_digest (=) ''i'' ''new'' 5 ''ADA@x'' ''Secret'' sample_auth = (Inr ?s, db1)"
    by (metis prod.collapse)
  have "\<exists>u m site. find_by_email ''ADA@x'' sample_auth = Some u \<and> m \<in> set (id_members (au_iam sample_auth)) \<and> me_user m = us_id u
    \<and> resolve_iam sample_check (\<lambda>_. 0) 6 (bearer @ sn_access ?s) db1 = UserCaller (us_id u) (us_email u) (me_workspace m) site
    \<and> (site = None \<longleftrightarrow> list_accessible_sites (\<lambda>_. 0) (us_id u) (me_workspace m) ''facility:read'' (au_iam db1) = [])"
    by (rule login_resolves[OF run]) (simp_all add: sample_check_sign access_token_expiry_def auth_eval)
  then obtain u site and m :: membership where "find_by_email ''ADA@x'' sample_auth = Some u"
    "resolve_iam sample_check (\<lambda>_. 0) 6 (bearer @ sn_access ?s) db1 = UserCaller (us_id u) (us_email u) (me_workspace m) site"
    by blast
  then have got: "resolve_iam sample_check (\<lambda>_. 0) 6 (bearer @ sn_access ?s) db1 = UserCaller ''ada'' ''ada@x'' (me_workspace m) site"
    using user by (auto simp: sample_ada_def sample_iam_user_def)
  then have "me_workspace m = ''w''"
    by (auto simp: resolve_iam_def sample_check_sign bearer_def starts_with_def resolve_user_iam_def split: option.splits if_splits)
  with got run show ?thesis by auto
qed

definition sample_invite :: invite_input where
  "sample_invite = \<lparr>iv_email = ''New@x'', iv_inviter = ''ada'', iv_workspace = ''w'', iv_role = Some ''r'', iv_site = None, iv_fallback = None\<rparr>"

definition sample_registration :: invite_completion where
  "sample_registration = \<lparr>ic_first = None, ic_last = None, ic_number = Some ''12'', ic_badge = None, ic_pin = None\<rparr>"

lemma sample_password [simp]: "validate_password_strength ''Correct-Horse7'' = []"
  by code_simp

theorem invited_user_logs_in_witness:
  "\<exists>db1 db2 s db3. create_invite sample_digest ''tok'' ''new'' ''mn'' ''an'' 5 sample_invite sample_auth = Inr (''new'', db1)
    \<and> complete_invite sample_digest id [(''e'', ''v'')] 6 ''tok'' ''Correct-Horse7'' sample_registration db1 = (Inr ''new'', db2)
    \<and> login (\<lambda>t p. (t, p)) (\<lambda>_. 0) sample_digest (=) ''i'' ''t2'' 7 ''NEw@x'' ''Correct-Horse7'' db2 = (Inr s, db3)"
proof -
  have nouser: "find_by_email (iv_email sample_invite) sample_auth = None"
    by (simp add: find_by_email_def sample_invite_def auth_eval)
  have "can_invite_assignment ''ada'' ''w'' \<lparr>ia_role = ''r'', ia_site = None, ia_owner = False\<rparr> (au_iam sample_auth)"
    by (simp add: can_invite_assignment_def has_permission_def effective_permissions_def site_matches_def is_permission_def
        all_permissions_def resources_def perm_actions_def owner_permission_def auth_eval)
  then obtain db1 where inv: "create_invite sample_digest ''tok'' ''new'' ''mn'' ''an'' 5 sample_invite sample_auth = Inr (''new'', db1)"
    using nouser by (auto simp: create_invite_def resolve_invite_assignment_def sample_invite_def has_owner_permission_def
        owner_permission_def auth_eval Let_def)
  have "\<exists>db2 s db3. complete_invite sample_digest id [(''e'', ''v'')] 6 ''tok'' ''Correct-Horse7'' sample_registration db1 = (Inr ''new'', db2)
    \<and> login (\<lambda>t p. (t, p)) (\<lambda>_. 0) sample_digest (=) ''i'' ''t2'' 7 ''NEw@x'' ''Correct-Horse7'' db2 = (Inr s, db3)
    \<and> (\<exists>m \<in> set (id_members (au_iam db2)). me_user m = ''new'' \<and> me_workspace m = iv_workspace sample_invite \<and> me_employee m = Some ''e'')"
    by (rule invited_user_logs_in[OF inv nouser])
      (simp_all add: sample_invite_def sample_registration_def auth_eval ensure_identity_available_def invite_token_expiry_ms_def)
  with inv show ?thesis by blast
qed

end
