(* ===== verification/Materials.thy ===== *)
theory Materials
  imports Metrics "HOL-Library.Product_Lexorder"
begin

text \<open>
  Inventory items and the consumption of materials: the items and the staged material usage of
  a completed cycle (\<open>inventory/inventory.ts\<close>), weight units (\<open>lib/units/weight.ts\<close>), the flush of
  a shift into the ledger (\<open>inventory/material-shift-flush.ts\<close>), the ledger
  (\<open>inventory/material-ledger.ts\<close>) and the balance (\<open>inventory/material-balance.ts\<close>), all under
  \<open>packages/services/src\<close>.  Decimals are exact rationals, rounded to four places where a column
  of that scale stores them.  The lemmas follow the weight from the items to the balance.
\<close>

section \<open>Weight units\<close>

datatype weight_unit = UnitKG | UnitLB | UnitG | UnitOZ | UnitMT | UnitTON

fun weight_to_grams :: "weight_unit \<Rightarrow> rat" where
  "weight_to_grams UnitG = 1"
| "weight_to_grams UnitKG = 1000"
| "weight_to_grams UnitMT = 1000000"
| "weight_to_grams UnitOZ = 28349523125 / 1000000000"
| "weight_to_grams UnitLB = 45359237 / 100000"
| "weight_to_grams UnitTON = 90718474 / 100"

definition convert_weight :: "rat \<Rightarrow> weight_unit \<Rightarrow> weight_unit \<Rightarrow> rat" where
  "convert_weight v from to = (if from = to then v else v * weight_to_grams from / weight_to_grams to)"

text \<open>A \<open>Decimal(18, 4)\<close> column stores a value rounded to four places, halves away from zero.\<close>
definition store4 :: "rat \<Rightarrow> rat" where
  "store4 x = (if 0 \<le> x then of_int \<lfloor>x * 10000 + 1 / 2\<rfloor> / 10000 else - (of_int \<lfloor>- x * 10000 + 1 / 2\<rfloor> / 10000))"

section \<open>Tables\<close>

text \<open>A cycle with its site, and the tools it ran with.\<close>
record cycle = cycle_row +
  cc_site :: uuid
  cc_job_tools :: "uuid list"
  cc_tool_blobs :: "uuid list"

record job_product =
  jp_id :: uuid
  jp_job :: uuid
  jp_product :: uuid
  jp_blob :: "uuid option"
  jp_tool :: "uuid option"
  jp_cavity :: "uuid option"
  jp_deleted :: "ms option"

record job_product_blob =
  jq_id :: uuid
  jq_active :: bool
  jq_quantity :: int

record product_material =
  pm_id :: uuid
  pm_product :: uuid
  pm_material :: uuid
  pm_blob :: "uuid option"
  pm_group :: "uuid option"
  pm_archived :: "ms option"

record material_weight =
  mw_id :: uuid
  mw_material_blob :: uuid
  mw_weight :: "rat option"
  mw_unit :: "weight_unit option"

record material =
  mt_id :: uuid
  mt_site :: uuid
  mt_blob :: "uuid option"
  mt_archived :: "ms option"
  mt_deleted :: "ms option"

record material_blob =
  mb_id :: uuid
  mb_material :: uuid
  mb_unit :: "weight_unit option"

record inventory_item =
  ii_id :: uuid
  ii_cycle :: uuid
  ii_job_product_blob :: uuid
  ii_product_blob :: uuid
  ii_tool_blob :: "uuid option"
  ii_cavity_blob :: "uuid option"
  ii_created :: ms
  ii_deleted :: "ms option"

record shift_usage =
  su_id :: uuid
  su_site :: uuid
  su_shift :: uuid
  su_station :: uuid
  su_job :: uuid
  su_product :: uuid
  su_material :: uuid
  su_quantity :: rat
  su_unit :: weight_unit
  su_items :: int
  su_flushed :: "ms option"
  su_entry :: "uuid option"

datatype ledger_kind = RECEIPT | ADJUSTMENT | WRITE_OFF | TRANSFER_IN | TRANSFER_OUT | OPENING_BALANCE | PRODUCTION

record ledger_entry =
  lg_id :: uuid
  lg_site :: uuid
  lg_material :: uuid
  lg_kind :: ledger_kind
  lg_quantity :: rat
  lg_unit :: weight_unit
  lg_cost :: "rat option"
  lg_reference :: "string option"
  lg_note :: "string option"
  lg_user :: "uuid option"
  lg_created :: ms

text \<open>
  Products, tools and cavities are given with their current blob; product blobs with their
  product, alternative groups with their active member, stations with their work center.
\<close>
record inv_db =
  iv_cycles :: "cycle list"
  iv_stations :: "(uuid \<times> uuid option) list"
  iv_shifts :: "shift_instance list"
  iv_job_products :: "job_product list"
  iv_job_product_blobs :: "job_product_blob list"
  iv_products :: "(uuid \<times> uuid option) list"
  iv_product_blobs :: "(uuid \<times> uuid) list"
  iv_tools :: "(uuid \<times> uuid option) list"
  iv_cavities :: "(uuid \<times> uuid option) list"
  iv_product_materials :: "product_material list"
  iv_weights :: "material_weight list"
  iv_groups :: "(uuid \<times> uuid option) list"
  iv_materials :: "material list"
  iv_material_blobs :: "material_blob list"
  iv_items :: "inventory_item list"
  iv_links :: "(uuid \<times> uuid) list"
  iv_usage :: "shift_usage list"
  iv_ledger :: "ledger_entry list"

section \<open>Items of a cycle\<close>

record item_spec =
  is_product :: uuid
  is_blob :: uuid
  is_quantity :: int
  is_product_blob :: uuid
  is_tool_blob :: "uuid option"
  is_cavity_blob :: "uuid option"
  is_materials :: "uuid list"

definition find_material :: "uuid \<Rightarrow> inv_db \<Rightarrow> material option" where
  "find_material i db = find (\<lambda>m. mt_id m = i) (iv_materials db)"

definition find_material_blob :: "uuid \<Rightarrow> inv_db \<Rightarrow> material_blob option" where
  "find_material_blob i db = find (\<lambda>b. mb_id b = i) (iv_material_blobs db)"

text \<open>
  The current blobs of the materials of a product: of an alternative group only the active
  member counts.
\<close>
definition material_blobs_of :: "inv_db \<Rightarrow> uuid \<Rightarrow> uuid list" where
  "material_blobs_of db p =
     List.map_filter pm_blob
       (filter (\<lambda>x. pm_product x = p \<and> pm_archived x = None
           \<and> (case find_material (pm_material x) db of
                None \<Rightarrow> False | Some m \<Rightarrow> mt_archived m = None \<and> mt_deleted m = None)
           \<and> (case pm_group x of None \<Rightarrow> True
              | Some g \<Rightarrow> Option.bind (map_of (iv_groups db) g) id = Some (pm_id x)))
         (iv_product_materials db))"

text \<open>The active products of a job that have current blobs.\<close>
definition job_item_specs :: "inv_db \<Rightarrow> uuid \<Rightarrow> item_spec list" where
  "job_item_specs db job =
     List.map_filter
       (\<lambda>jp. case (jp_blob jp, Option.bind (map_of (iv_products db) (jp_product jp)) id) of
          (Some b, Some pb) \<Rightarrow>
            (case find (\<lambda>q. jq_id q = b) (iv_job_product_blobs db) of
               Some q \<Rightarrow>
                 if jq_active q
                 then Some \<lparr>is_product = jp_product jp, is_blob = b, is_quantity = jq_quantity q,
                            is_product_blob = pb,
                            is_tool_blob = Option.bind (Option.bind (jp_tool jp) (map_of (iv_tools db))) id,
                            is_cavity_blob = Option.bind (Option.bind (jp_cavity jp) (map_of (iv_cavities db))) id,
                            is_materials = material_blobs_of db (jp_product jp)\<rparr>
                 else None
             | None \<Rightarrow> None)
        | _ \<Rightarrow> None)
       (filter (\<lambda>jp. jp_job jp = job \<and> jp_deleted jp = None) (iv_job_products db))"

definition flat_specs :: "item_spec list \<Rightarrow> item_spec list" where
  "flat_specs specs = concat (map (\<lambda>s. replicate (nat (is_quantity s)) s) specs)"

definition item_of :: "ms \<Rightarrow> uuid \<Rightarrow> uuid \<Rightarrow> item_spec \<Rightarrow> inventory_item" where
  "item_of now i cyc s =
     \<lparr>ii_id = i, ii_cycle = cyc, ii_job_product_blob = is_blob s, ii_product_blob = is_product_blob s,
      ii_tool_blob = is_tool_blob s, ii_cavity_blob = is_cavity_blob s,
      ii_created = now, ii_deleted = None\<rparr>"

text \<open>The shift of a cycle: that of the work center first, then the one that started last.\<close>
definition cycle_shift :: "inv_db \<Rightarrow> cycle \<Rightarrow> shift_instance option" where
  "cycle_shift db c =
     (let ts = (case cy_end c of Some e \<Rightarrow> e | None \<Rightarrow> cy_start c)
      in case map_of (iv_stations db) (cy_station c) of
           None \<Rightarrow> None
         | Some wc \<Rightarrow>
             first_asc (\<lambda>i. (ir_work_center i = None, - ir_start i))
               (filter (\<lambda>i. ir_site i = cc_site c \<and> ir_start i \<le> ts \<and> ts < ir_end i
                    \<and> (ir_work_center i = None \<or> (wc \<noteq> None \<and> ir_work_center i = wc)))
                 (iv_shifts db)))"

section \<open>Staged usage\<close>

text \<open>One weighed material of one new item.\<close>
record usage_part =
  up_item :: uuid
  up_product :: uuid
  up_material :: uuid
  up_weight :: rat
  up_unit :: "weight_unit option"
  up_canonical :: "weight_unit option"

definition canonical_unit :: "inv_db \<Rightarrow> uuid \<Rightarrow> weight_unit option" where
  "canonical_unit db m =
     Option.bind (Option.bind (find_material m db) mt_blob) (\<lambda>b. Option.bind (find_material_blob b db) mb_unit)"

definition usage_part_of :: "inv_db \<Rightarrow> uuid \<times> uuid \<Rightarrow> usage_part option" where
  "usage_part_of db link =
     (case (find (\<lambda>i. ii_id i = fst link) (iv_items db), find (\<lambda>w. mw_id w = snd link) (iv_weights db)) of
        (Some it, Some w) \<Rightarrow>
          (case (map_of (iv_product_blobs db) (ii_product_blob it), find_material_blob (mw_material_blob w) db, mw_weight w) of
             (Some p, Some mb, Some q) \<Rightarrow>
               if find_material (mb_material mb) db = None then None
               else Some \<lparr>up_item = ii_id it, up_product = p, up_material = mb_material mb, up_weight = q,
                          up_unit = mw_unit w, up_canonical = canonical_unit db (mb_material mb)\<rparr>
           | _ \<Rightarrow> None)
      | _ \<Rightarrow> None)"

definition usage_parts :: "inv_db \<Rightarrow> uuid list \<Rightarrow> usage_part list" where
  "usage_parts db ids = List.map_filter (usage_part_of db) (filter (\<lambda>l. fst l \<in> set ids) (iv_links db))"

record usage_want =
  uw_product :: uuid
  uw_material :: uuid
  uw_unit :: "weight_unit option"
  uw_canonical :: "weight_unit option"
  uw_quantity :: rat
  uw_items :: int

definition usage_key :: "usage_part \<Rightarrow> uuid \<times> uuid \<times> weight_unit option \<times> weight_unit option" where
  "usage_key x = (up_product x, up_material x, up_unit x, up_canonical x)"

text \<open>\<open>GROUP BY\<close> product, material and the two units; the shift, station and job are fixed.\<close>
definition usage_wants :: "usage_part list \<Rightarrow> usage_want list" where
  "usage_wants parts =
     map (\<lambda>k. let xs = filter (\<lambda>x. usage_key x = k) parts
              in \<lparr>uw_product = fst k, uw_material = fst (snd k), uw_unit = fst (snd (snd k)),
                  uw_canonical = snd (snd (snd k)), uw_quantity = sum_list (map up_weight xs),
                  uw_items = int (length (remdups (map up_item xs)))\<rparr>)
       (remdups (map usage_key parts))"

text \<open>The scope of staged usage: site, shift, station and job.\<close>
record usage_scope =
  us_site :: uuid
  us_shift :: uuid
  us_station :: uuid
  us_job :: uuid

definition usage_row :: "usage_scope \<Rightarrow> uuid \<Rightarrow> uuid \<Rightarrow> shift_usage \<Rightarrow> bool" where
  "usage_row sc p m r =
     (su_shift r = us_shift sc \<and> su_station r = us_station sc \<and> su_job r = us_job sc
      \<and> su_product r = p \<and> su_material r = m)"

text \<open>One row of the loop: a material without a unit and a flushed row are skipped.\<close>
definition stage_usage :: "usage_scope \<Rightarrow> uuid \<Rightarrow> usage_want \<Rightarrow> shift_usage list \<Rightarrow> shift_usage list" where
  "stage_usage sc i w rows =
     (case uw_canonical w of
        None \<Rightarrow> rows
      | Some u \<Rightarrow>
          (let q = convert_weight (uw_quantity w) (case uw_unit w of Some v \<Rightarrow> v | None \<Rightarrow> u) u
           in case find (usage_row sc (uw_product w) (uw_material w)) rows of
                Some r \<Rightarrow>
                  if su_flushed r \<noteq> None then rows
                  else update_where (\<lambda>x. su_id x = su_id r)
                         (\<lambda>x. x\<lparr>su_quantity := store4 (su_quantity x + q), su_items := su_items x + uw_items w\<rparr>) rows
              | None \<Rightarrow>
                  rows @ [\<lparr>su_id = i, su_site = us_site sc, su_shift = us_shift sc, su_station = us_station sc,
                           su_job = us_job sc, su_product = uw_product w, su_material = uw_material w,
                           su_quantity = store4 q, su_unit = u, su_items = uw_items w, su_flushed = None,
                           su_entry = None\<rparr>]))"

fun stage_all :: "usage_scope \<Rightarrow> (nat \<Rightarrow> uuid) \<Rightarrow> nat \<Rightarrow> usage_want list \<Rightarrow> shift_usage list \<Rightarrow> shift_usage list" where
  "stage_all sc fresh k [] rows = rows"
| "stage_all sc fresh k (w # ws) rows = stage_all sc fresh (Suc k) ws (stage_usage sc (fresh k) w rows)"

datatype inventory_error = EmptyInsert | CycleNotFound | ItemDeleted

text \<open>
  The items take the ids \<open>fresh 0\<close>, \<open>fresh 1\<close> and so on, new staging rows the ids after them.
  Joining an empty list of values throws, which is the error.
\<close>
definition create_from_cycle ::
  "ms \<Rightarrow> (nat \<Rightarrow> uuid) \<Rightarrow> uuid \<Rightarrow> uuid \<Rightarrow> inv_db \<Rightarrow> inventory_error + ((uuid \<times> uuid) list \<times> inv_db)" where
  "create_from_cycle now fresh cyc job db =
     (let specs = job_item_specs db job;
          flat = flat_specs specs;
          ids = map fresh [0 ..< length flat];
          new_items = map (\<lambda>(i, s). item_of now i cyc s) (zip ids flat);
          links = concat (map (\<lambda>(i, s). map (Pair i) (remdups (is_materials s))) (zip ids flat));
          result = zip ids (map is_product flat);
          db1 = db\<lparr>iv_items := iv_items db @ new_items, iv_links := iv_links db @ links\<rparr>
      in if specs = [] then Inr ([], db)
         else if flat = [] then Inl EmptyInsert
         else if links = [] then Inr (result, db1)
         else (case Option.bind (find (\<lambda>c. cy_id c = cyc) (iv_cycles db)) (\<lambda>c. map_option (Pair c) (cycle_shift db c)) of
                 None \<Rightarrow> Inr (result, db1)
               | Some (c, sh) \<Rightarrow>
                   (let sc = \<lparr>us_site = cc_site c, us_shift = in_id sh, us_station = cy_station c, us_job = job\<rparr>
                    in Inr (result, db1\<lparr>iv_usage :=
                         stage_all sc fresh (length flat) (usage_wants (usage_parts db1 ids)) (iv_usage db)\<rparr>))))"

section \<open>Reading the inventory\<close>

record item_filter =
  if_site :: "uuid option"
  if_cycle :: "uuid option"
  if_product_blob :: "uuid option"
  if_job_product_blob :: "uuid option"
  if_from :: "ms option"
  if_to :: "ms option"
  if_limit :: int
  if_offset :: nat

definition item_matches :: "inv_db \<Rightarrow> item_filter \<Rightarrow> inventory_item \<Rightarrow> bool" where
  "item_matches db f i =
     (ii_deleted i = None
      \<and> (case if_cycle f of None \<Rightarrow> True | Some c \<Rightarrow> ii_cycle i = c)
      \<and> (case if_product_blob f of None \<Rightarrow> True | Some b \<Rightarrow> ii_product_blob i = b)
      \<and> (case if_job_product_blob f of None \<Rightarrow> True | Some b \<Rightarrow> ii_job_product_blob i = b)
      \<and> (case if_site f of None \<Rightarrow> True
         | Some s \<Rightarrow> list_ex (\<lambda>c. cy_id c = ii_cycle i \<and> cc_site c = s) (iv_cycles db))
      \<and> (case if_from f of None \<Rightarrow> True | Some t \<Rightarrow> t \<le> ii_created i)
      \<and> (case if_to f of None \<Rightarrow> True | Some t \<Rightarrow> ii_created i \<le> t))"

definition list_items :: "item_filter \<Rightarrow> inv_db \<Rightarrow> inventory_item list \<times> nat" where
  "list_items f db =
     (let rows = drop (if_offset f) (sort_key (\<lambda>i. - ii_created i) (filter (item_matches db f) (iv_items db)))
      in (if if_limit f > 0 then take (nat (if_limit f)) rows else rows,
          count_where (item_matches db f) (iv_items db)))"

text \<open>None is the null result for a missing item.\<close>
definition get_item :: "uuid \<Rightarrow> inv_db \<Rightarrow> (inventory_error + inventory_item) option" where
  "get_item i db =
     (case find (\<lambda>x. ii_id x = i) (iv_items db) of
        None \<Rightarrow> None
      | Some x \<Rightarrow> Some (if ii_deleted x \<noteq> None then Inl ItemDeleted else Inr x))"

definition items_by_cycle :: "uuid \<Rightarrow> inv_db \<Rightarrow> inventory_error + (cycle \<times> inventory_item list \<times> nat)" where
  "items_by_cycle cyc db =
     (case find (\<lambda>c. cy_id c = cyc) (iv_cycles db) of
        None \<Rightarrow> Inl CycleNotFound
      | Some c \<Rightarrow>
          (let xs = sort_key ii_created (filter (\<lambda>i. ii_cycle i = cyc \<and> ii_deleted i = None) (iv_items db))
           in Inr (c, xs, length xs)))"

section \<open>Flushing a shift\<close>

definition distinct_first :: "'a list \<Rightarrow> 'a list" where
  "distinct_first xs = rev (remdups (rev xs))"

definition flush_key :: "shift_usage \<Rightarrow> uuid \<times> uuid \<times> weight_unit" where
  "flush_key r = (su_site r, su_material r, su_unit r)"

definition unflushed :: "uuid \<Rightarrow> shift_usage \<Rightarrow> bool" where
  "unflushed sh r = (su_shift r = sh \<and> su_flushed r = None)"

text \<open>One group: a negative ledger entry, and its rows are frozen with the id of the entry.\<close>
definition flush_group ::
  "ms \<Rightarrow> uuid \<Rightarrow> (uuid \<times> uuid \<times> weight_unit) \<times> shift_usage list \<Rightarrow> inv_db \<Rightarrow> inv_db" where
  "flush_group now i g db =
     (case g of ((site, m, u), rows) \<Rightarrow>
        db\<lparr>iv_ledger := iv_ledger db @
             [\<lparr>lg_id = i, lg_site = site, lg_material = m, lg_kind = PRODUCTION,
               lg_quantity = store4 (- sum_list (map su_quantity rows)), lg_unit = u, lg_cost = None,
               lg_reference = None, lg_note = None, lg_user = None, lg_created = now\<rparr>],
           iv_usage := update_where (\<lambda>r. su_id r \<in> su_id ` set rows)
             (\<lambda>r. r\<lparr>su_flushed := Some now, su_entry := Some i\<rparr>) (iv_usage db)\<rparr>)"

fun flush_groups ::
  "ms \<Rightarrow> (nat \<Rightarrow> uuid) \<Rightarrow> nat \<Rightarrow> ((uuid \<times> uuid \<times> weight_unit) \<times> shift_usage list) list \<Rightarrow> inv_db \<Rightarrow> inv_db" where
  "flush_groups now fresh k [] db = db"
| "flush_groups now fresh k (g # gs) db = flush_groups now fresh (Suc k) gs (flush_group now (fresh k) g db)"

record flush_result =
  fl_shift :: uuid
  fl_rows :: nat
  fl_already :: nat

definition group_rows :: "shift_usage list \<Rightarrow> ((uuid \<times> uuid \<times> weight_unit) \<times> shift_usage list) list" where
  "group_rows rows = map (\<lambda>k. (k, filter (\<lambda>r. flush_key r = k) rows)) (distinct_first (map flush_key rows))"

definition flush_shift_usage :: "ms \<Rightarrow> (nat \<Rightarrow> uuid) \<Rightarrow> uuid \<Rightarrow> inv_db \<Rightarrow> flush_result \<times> inv_db" where
  "flush_shift_usage now fresh sh db =
     (let rows = filter (unflushed sh) (iv_usage db)
      in (\<lparr>fl_shift = sh, fl_rows = length rows,
           fl_already = count_where (\<lambda>r. su_shift r = sh \<and> su_flushed r \<noteq> None) (iv_usage db)\<rparr>,
          flush_groups now fresh 0 (group_rows rows) db))"

text \<open>The ended shifts with unflushed rows, of one site or of all.\<close>
definition expired_shifts :: "uuid option \<Rightarrow> ms \<Rightarrow> inv_db \<Rightarrow> uuid list" where
  "expired_shifts site now db =
     distinct_first (map su_shift
       (filter (\<lambda>r. (case site of None \<Rightarrow> True | Some s \<Rightarrow> su_site r = s) \<and> su_flushed r = None
            \<and> (\<exists>i \<in> set (iv_shifts db). in_id i = su_shift r \<and> ir_end i \<le> now))
         (iv_usage db)))"

fun flush_each :: "ms \<Rightarrow> (uuid \<Rightarrow> nat \<Rightarrow> uuid) \<Rightarrow> uuid list \<Rightarrow> inv_db \<Rightarrow> flush_result list \<times> inv_db" where
  "flush_each now fresh [] db = ([], db)"
| "flush_each now fresh (s # ss) db =
     (case flush_shift_usage now (fresh s) s db of
        (r, db1) \<Rightarrow> (case flush_each now fresh ss db1 of (rs, db2) \<Rightarrow> (r # rs, db2)))"

definition flush_expired :: "ms \<Rightarrow> (uuid \<Rightarrow> nat \<Rightarrow> uuid) \<Rightarrow> uuid option \<Rightarrow> inv_db \<Rightarrow> flush_result list \<times> inv_db" where
  "flush_expired now fresh site db = flush_each now fresh (expired_shifts site now db) db"

section \<open>The ledger\<close>

datatype ledger_error = MaterialNotFound | SiteMismatch | UnitMismatch | InvalidQuantity | InvalidSign | LedgerEntryNotFound

record ledger_input =
  lx_site :: uuid
  lx_material :: uuid
  lx_kind :: ledger_kind
  lx_quantity :: rat
  lx_unit :: weight_unit
  lx_cost :: "rat option"
  lx_reference :: "string option"
  lx_note :: "string option"
  lx_user :: "uuid option"

definition outflow_kinds :: "ledger_kind list" where "outflow_kinds = [WRITE_OFF, TRANSFER_OUT]"
definition inflow_kinds :: "ledger_kind list" where "inflow_kinds = [RECEIPT, TRANSFER_IN, OPENING_BALANCE]"

definition create_ledger_entry ::
  "ms \<Rightarrow> uuid \<Rightarrow> ledger_input \<Rightarrow> inv_db \<Rightarrow> ledger_error + (ledger_entry \<times> inv_db)" where
  "create_ledger_entry now i inp db =
     (case find_material (lx_material inp) db of
        None \<Rightarrow> Inl MaterialNotFound
      | Some m \<Rightarrow>
          if mt_deleted m \<noteq> None then Inl MaterialNotFound
          else if mt_site m \<noteq> lx_site inp then Inl SiteMismatch
          else if (case canonical_unit db (mt_id m) of None \<Rightarrow> False | Some u \<Rightarrow> lx_unit inp \<noteq> u) then Inl UnitMismatch
          else if lx_quantity inp = 0 then Inl InvalidQuantity
          else if lx_kind inp \<in> set outflow_kinds \<and> lx_quantity inp > 0 then Inl InvalidSign
          else if lx_kind inp \<in> set inflow_kinds \<and> lx_quantity inp < 0 then Inl InvalidSign
          else (let e = \<lparr>lg_id = i, lg_site = lx_site inp, lg_material = lx_material inp, lg_kind = lx_kind inp,
                         lg_quantity = store4 (lx_quantity inp), lg_unit = lx_unit inp,
                         lg_cost = map_option store4 (lx_cost inp), lg_reference = lx_reference inp,
                         lg_note = lx_note inp, lg_user = lx_user inp, lg_created = now\<rparr>
                in Inr (e, db\<lparr>iv_ledger := iv_ledger db @ [e]\<rparr>)))"

record ledger_filter =
  lq_site :: "uuid option"
  lq_material :: "uuid option"
  lq_kind :: "ledger_kind option"
  lq_limit :: int
  lq_offset :: nat

definition ledger_matches :: "ledger_filter \<Rightarrow> ledger_entry \<Rightarrow> bool" where
  "ledger_matches f e =
     ((case lq_site f of None \<Rightarrow> True | Some s \<Rightarrow> lg_site e = s)
      \<and> (case lq_material f of None \<Rightarrow> True | Some m \<Rightarrow> lg_material e = m)
      \<and> (case lq_kind f of None \<Rightarrow> True | Some k \<Rightarrow> lg_kind e = k))"

text \<open>Creation time, then id: \<open>rank\<close> is the order of the ids in the database.\<close>
definition ledger_key :: "(uuid \<Rightarrow> nat) \<Rightarrow> ledger_entry \<Rightarrow> ms \<times> nat" where
  "ledger_key rank e = (lg_created e, rank (lg_id e))"

definition running_balance :: "(uuid \<Rightarrow> nat) \<Rightarrow> inv_db \<Rightarrow> ledger_entry \<Rightarrow> rat" where
  "running_balance rank db t =
     sum_list (map lg_quantity
       (filter (\<lambda>e. lg_material e = lg_material t
            \<and> (lg_created e < lg_created t \<or> (lg_created e = lg_created t \<and> rank (lg_id e) \<le> rank (lg_id t))))
         (iv_ledger db)))"

text \<open>The page, newest first, each entry with its running balance, and the total.\<close>
definition list_ledger :: "(uuid \<Rightarrow> nat) \<Rightarrow> ledger_filter \<Rightarrow> inv_db \<Rightarrow> (ledger_entry \<times> rat) list \<times> nat" where
  "list_ledger rank f db =
     (let rows = drop (lq_offset f) (rev (sort_key (ledger_key rank) (filter (ledger_matches f) (iv_ledger db))));
          page = (if lq_limit f > 0 then take (nat (lq_limit f)) rows else rows)
      in (map (\<lambda>e. (e, running_balance rank db e)) page, count_where (ledger_matches f) (iv_ledger db)))"

definition get_ledger_entry :: "uuid \<Rightarrow> inv_db \<Rightarrow> ledger_error + ledger_entry" where
  "get_ledger_entry i db =
     (case find (\<lambda>e. lg_id e = i) (iv_ledger db) of None \<Rightarrow> Inl LedgerEntryNotFound | Some e \<Rightarrow> Inr e)"

section \<open>The usage report\<close>

record usage_input =
  ui_site :: uuid
  ui_work_center :: "uuid option"
  ui_start :: "ms option"
  ui_end :: "ms option"
  ui_by_job :: bool
  ui_by_product :: bool
  ui_job :: "uuid option"
  ui_product :: "uuid option"
  ui_material :: "uuid option"
  ui_limit :: int
  ui_offset :: nat

record usage_report =
  ur_date :: ms
  ur_shift :: string
  ur_job :: "uuid option"
  ur_product :: "uuid option"
  ur_material :: uuid
  ur_unit :: weight_unit
  ur_weight :: rat
  ur_items :: int

text \<open>The defaults 2000-01-01 and 2100-01-01; the end date is inclusive.\<close>
definition usage_from :: "usage_input \<Rightarrow> ms" where
  "usage_from inp = (case ui_start inp of None \<Rightarrow> 946684800000 | Some d \<Rightarrow> d)"

definition usage_until :: "usage_input \<Rightarrow> ms" where
  "usage_until inp = (case ui_end inp of None \<Rightarrow> 4102444800000 | Some d \<Rightarrow> d + day_ms)"

definition binding_rows :: "usage_input \<Rightarrow> inv_db \<Rightarrow> (shift_usage \<times> shift_instance) list" where
  "binding_rows inp db =
     List.map_filter
       (\<lambda>r. case find (\<lambda>i. in_id i = su_shift r) (iv_shifts db) of
          Some i \<Rightarrow>
            if su_site r = ui_site inp \<and> usage_from inp \<le> ir_business_date i \<and> ir_business_date i < usage_until inp
               \<and> (case ui_work_center inp of None \<Rightarrow> True
                  | Some w \<Rightarrow> (su_station r, Some w) \<in> set (iv_stations db))
               \<and> (case ui_job inp of None \<Rightarrow> True | Some j \<Rightarrow> su_job r = j)
               \<and> (case ui_product inp of None \<Rightarrow> True | Some p \<Rightarrow> su_product r = p)
               \<and> (case ui_material inp of None \<Rightarrow> True | Some m \<Rightarrow> su_material r = m)
            then Some (r, i) else None
        | None \<Rightarrow> None)
       (iv_usage db)"

definition report_key :: "usage_input \<Rightarrow> shift_usage \<times> shift_instance \<Rightarrow>
    ms \<times> string \<times> uuid option \<times> uuid option \<times> uuid \<times> weight_unit" where
  "report_key inp b =
     (ir_business_date (snd b), ir_name (snd b),
      if ui_by_job inp then Some (su_job (fst b)) else None,
      if ui_by_product inp then Some (su_product (fst b)) else None,
      su_material (fst b), su_unit (fst b))"

definition grouped_usage :: "usage_input \<Rightarrow> inv_db \<Rightarrow> usage_report list" where
  "grouped_usage inp db =
     (let bs = binding_rows inp db
      in map (\<lambda>k. let xs = filter (\<lambda>b. report_key inp b = k) bs
                  in (case k of (d, s, j, p, m, u) \<Rightarrow>
                        \<lparr>ur_date = d, ur_shift = s, ur_job = j, ur_product = p, ur_material = m, ur_unit = u,
                         ur_weight = round2 (sum_list (map (su_quantity \<circ> fst) xs)),
                         ur_items = sum_list (map (su_items \<circ> fst) xs)\<rparr>))
           (distinct_first (map (report_key inp) bs)))"

text \<open>
  The page and the total; \<open>order_by\<close> is the chosen \<open>ORDER BY\<close>.  The total is that of the window
  function, so it is 0 when the page is empty.  A work center without stations gives nothing.
\<close>
definition usage_page :: "(usage_report list \<Rightarrow> usage_report list) \<Rightarrow> usage_input \<Rightarrow> inv_db \<Rightarrow> usage_report list \<times> nat" where
  "usage_page order_by inp db =
     (let all_rows = grouped_usage inp db;
          page = (if ui_limit inp > 0 then take (nat (ui_limit inp)) (drop (ui_offset inp) (order_by all_rows)) else order_by all_rows)
      in (page, if page = [] then 0 else length all_rows))"

section \<open>The balance\<close>

record material_balance =
  bl_material :: uuid
  bl_unit :: "weight_unit option"
  bl_received :: rat
  bl_adjusted :: rat
  bl_consumed :: rat
  bl_balance :: rat
  bl_as_of :: "ms option"

definition kind_sum :: "ledger_kind list \<Rightarrow> uuid \<Rightarrow> ms option \<Rightarrow> inv_db \<Rightarrow> rat" where
  "kind_sum ks m as_of db =
     sum_list (map lg_quantity
       (filter (\<lambda>e. lg_material e = m \<and> (case as_of of None \<Rightarrow> True | Some t \<Rightarrow> lg_created e \<le> t)
            \<and> lg_kind e \<in> set ks) (iv_ledger db)))"

definition pending :: "uuid \<Rightarrow> inv_db \<Rightarrow> rat" where
  "pending m db = sum_list (map su_quantity (filter (\<lambda>r. su_material r = m \<and> su_flushed r = None) (iv_usage db)))"

definition balance :: "uuid \<Rightarrow> ms option \<Rightarrow> inv_db \<Rightarrow> material_balance" where
  "balance m as_of db =
     (let received = kind_sum [RECEIPT, TRANSFER_IN, OPENING_BALANCE] m as_of db;
          adjusted = kind_sum [ADJUSTMENT] m as_of db;
          consumed_signed = kind_sum [WRITE_OFF, TRANSFER_OUT, PRODUCTION] m as_of db
      in \<lparr>bl_material = m, bl_unit = canonical_unit db m, bl_received = received, bl_adjusted = adjusted,
          bl_consumed = - consumed_signed + pending m db,
          bl_balance = received + adjusted + consumed_signed - pending m db, bl_as_of = as_of\<rparr>)"

section \<open>Stored quantities\<close>

definition on_grid :: "rat \<Rightarrow> bool" where
  "on_grid x = (x * 10000 \<in> \<int>)"

lemma grid_zero [simp]: "on_grid 0"
  by (simp add: on_grid_def)

lemma grid_add: "on_grid x \<Longrightarrow> on_grid y \<Longrightarrow> on_grid (x + y)"
  by (simp add: on_grid_def algebra_simps)

lemma grid_uminus [simp]: "on_grid (- x) = on_grid x"
  by (simp add: on_grid_def)

lemma grid_sum_list: "\<forall>x \<in> set xs. on_grid x \<Longrightarrow> on_grid (sum_list xs)"
  by (induction xs) (auto intro: grid_add)

lemma grid_store4 [simp]: "on_grid (store4 x)"
  by (auto simp: on_grid_def store4_def)

lemma store4_grid: "on_grid x \<Longrightarrow> store4 x = x"
proof -
  have half: "\<lfloor>of_int z + 1 / 2 :: rat\<rfloor> = z" for z by (simp add: floor_eq_iff)
  have neg: "- (x * 10000) = of_int (- z)" if "x * 10000 = of_int z" for z using that by simp
  assume "on_grid x"
  then obtain z where z: "x * 10000 = of_int z" by (auto simp: on_grid_def elim: Ints_cases)
  then show ?thesis using half[of z] half[of "- z"] by (simp add: store4_def neg[OF z] field_simps)
qed

lemma store4_near: "\<bar>store4 x - x\<bar> \<le> 1 / 20000"
proof -
  have near: "\<bar>of_int \<lfloor>y * 10000 + 1 / 2\<rfloor> / 10000 - y\<bar> \<le> 1 / 20000" for y :: rat
    using floor_correct[of "y * 10000 + 1 / 2"] unfolding abs_le_iff by (intro conjI) linarith+
  have flip: "\<bar>- a - x\<bar> = \<bar>a - - x\<bar>" for a :: rat by (simp add: abs_if)
  show ?thesis
    using near[of x] near[of "- x"] by (cases "0 \<le> x") (simp_all only: store4_def if_True if_False not_True_eq_False flip)
qed

lemma grams_pos: "0 < weight_to_grams u"
  by (cases u) simp_all

lemma convert_weight_additive:
  "convert_weight (x + y) a b = convert_weight x a b + convert_weight y a b"
  by (simp add: convert_weight_def field_simps add_divide_distrib)

lemma convert_weight_sum_list: "convert_weight (sum_list (map f xs)) a b = sum_list (map (\<lambda>x. convert_weight (f x) a b) xs)"
  by (induction xs) (simp_all add: convert_weight_additive, simp add: convert_weight_def)

lemma convert_weight_inverse: "convert_weight (convert_weight x a b) b a = x"
  using grams_pos[of a] grams_pos[of b] by (simp add: convert_weight_def)

section \<open>Grouping\<close>

lemma set_distinct_first [simp]: "set (distinct_first xs) = set xs"
  by (simp add: distinct_first_def)

lemma distinct_distinct_first [simp]: "distinct (distinct_first xs)"
  by (simp add: distinct_first_def)

text \<open>A sum over all rows is the sum over the groups, for any listing of the group keys.\<close>
lemma sum_list_groups:
  fixes f :: "'a \<Rightarrow> 'b::comm_monoid_add"
  assumes "distinct ks" "key ` set xs \<subseteq> set ks"
  shows "sum_list (map (\<lambda>k. sum_list (map f (filter (\<lambda>x. key x = k) xs))) ks) = sum_list (map f xs)"
  using assms(2)
proof (induction xs)
  case (Cons x xs)
  have "sum_list (map (\<lambda>k. sum_list (map f (filter (\<lambda>y. key y = k) (x # xs)))) ks)
      = sum_list (map (\<lambda>k. (if k = key x then f x else 0) + sum_list (map f (filter (\<lambda>y. key y = k) xs))) ks)"
    by (rule arg_cong[where f = sum_list]) (auto simp: map_eq_conv)
  also have "\<dots> = sum_list (map (\<lambda>k. if k = key x then f x else 0) ks)
      + sum_list (map (\<lambda>k. sum_list (map f (filter (\<lambda>y. key y = k) xs))) ks)"
    by (rule sum_list_addf)
  also have "sum_list (map (\<lambda>k. if k = key x then f x else 0) ks) = f x"
    using assms(1) Cons.prems by (simp add: sum_list_distinct_conv_sum_set)
  finally show ?case using Cons by simp
qed simp

lemma sum_list_split:
  fixes f :: "'a \<Rightarrow> 'b::comm_monoid_add"
  shows "sum_list (map f (filter q xs)) = sum_list (map f (filter (\<lambda>x. p x \<and> q x) xs)) + sum_list (map f (filter (\<lambda>x. \<not> p x \<and> q x) xs))"
  by (induction xs) (auto simp: ac_simps)

section \<open>The audit invariant\<close>

definition row_key :: "shift_usage \<Rightarrow> uuid \<times> uuid \<times> uuid \<times> uuid \<times> uuid" where
  "row_key r = (su_shift r, su_station r, su_job r, su_product r, su_material r)"

text \<open>Ids and binding keys are unique, quantities are stored values, a flushed row has an entry.\<close>
definition rows_ok :: "shift_usage list \<Rightarrow> bool" where
  "rows_ok rows \<longleftrightarrow> distinct (map su_id rows) \<and> distinct (map row_key rows)
     \<and> (\<forall>r \<in> set rows. on_grid (su_quantity r) \<and> (su_flushed r = None \<longleftrightarrow> su_entry r = None))"

definition entry_rows :: "uuid \<Rightarrow> shift_usage list \<Rightarrow> shift_usage list" where
  "entry_rows i rows = filter (\<lambda>r. su_entry r = Some i) rows"

definition audits :: "shift_usage list \<Rightarrow> ledger_entry \<Rightarrow> bool" where
  "audits rows e \<longleftrightarrow> (lg_kind e = PRODUCTION \<longrightarrow>
     lg_quantity e = - sum_list (map su_quantity (entry_rows (lg_id e) rows))
     \<and> (\<forall>r \<in> set (entry_rows (lg_id e) rows). flush_key r = (lg_site e, lg_material e, lg_unit e)))"

text \<open>
  Every production entry is minus the total of the rows frozen with it, of its site, material
  and unit, and every frozen row belongs to one such entry.
\<close>
definition inv_ok :: "inv_db \<Rightarrow> bool" where
  "inv_ok db \<longleftrightarrow> rows_ok (iv_usage db) \<and> distinct (map lg_id (iv_ledger db))
     \<and> (\<forall>e \<in> set (iv_ledger db). on_grid (lg_quantity e) \<and> audits (iv_usage db) e)
     \<and> (\<forall>r \<in> set (iv_usage db). \<forall>i. su_entry r = Some i \<longrightarrow>
          (\<exists>e \<in> set (iv_ledger db). lg_id e = i \<and> lg_kind e = PRODUCTION))"

definition freeze :: "ms \<Rightarrow> uuid \<Rightarrow> shift_usage \<Rightarrow> shift_usage" where
  "freeze now i r = r\<lparr>su_flushed := Some now, su_entry := Some i\<rparr>"

lemma freeze_simps [simp]:
  "su_id (freeze now i r) = su_id r" "row_key (freeze now i r) = row_key r" "flush_key (freeze now i r) = flush_key r"
  "su_quantity (freeze now i r) = su_quantity r" "su_material (freeze now i r) = su_material r"
  "su_shift (freeze now i r) = su_shift r" "su_flushed (freeze now i r) = Some now" "su_entry (freeze now i r) = Some i"
  by (simp_all add: freeze_def row_key_def flush_key_def)

lemma freeze_by_id:
  assumes "distinct (map su_id rows)"
  shows "update_where (\<lambda>r. su_id r \<in> su_id ` set (filter p rows)) f rows = update_where p f rows"
  using assms unfolding update_where_def distinct_map by (auto simp: inj_on_def)

lemma flush_group_tables:
  assumes "rows_ok (iv_usage db)"
  shows "iv_usage (flush_group now i (k, filter p (iv_usage db)) db) = update_where p (freeze now i) (iv_usage db)"
    and "\<exists>e. iv_ledger (flush_group now i (k, filter p (iv_usage db)) db) = iv_ledger db @ [e]
      \<and> lg_id e = i \<and> lg_kind e = PRODUCTION \<and> k = (lg_site e, lg_material e, lg_unit e)
      \<and> lg_quantity e = - sum_list (map su_quantity (filter p (iv_usage db)))"
proof -
  have d: "distinct (map su_id (iv_usage db))" using assms by (simp add: rows_ok_def)
  show "iv_usage (flush_group now i (k, filter p (iv_usage db)) db) = update_where p (freeze now i) (iv_usage db)"
    using freeze_by_id[OF d] by (cases k) (simp add: flush_group_def freeze_def[abs_def])
  have "on_grid (- sum_list (map su_quantity (filter p (iv_usage db))))"
    using assms by (auto simp: rows_ok_def intro!: grid_sum_list)
  then show "\<exists>e. iv_ledger (flush_group now i (k, filter p (iv_usage db)) db) = iv_ledger db @ [e]
      \<and> lg_id e = i \<and> lg_kind e = PRODUCTION \<and> k = (lg_site e, lg_material e, lg_unit e)
      \<and> lg_quantity e = - sum_list (map su_quantity (filter p (iv_usage db)))"
    by (cases k) (simp add: flush_group_def store4_grid)
qed

text \<open>On hand: the ledger total of a material less its pending usage.\<close>
definition on_hand :: "uuid \<Rightarrow> inv_db \<Rightarrow> rat" where
  "on_hand m db = sum_list (map lg_quantity (filter (\<lambda>e. lg_material e = m) (iv_ledger db))) - pending m db"

lemma rows_ok_freeze:
  assumes "rows_ok rows"
  shows "rows_ok (update_where p (freeze now i) rows)"
  using assms unfolding rows_ok_def by (simp add: map_update_where) (auto simp: set_update_where)

lemma entry_rows_freeze:
  assumes "\<And>r. r \<in> set rows \<Longrightarrow> p r \<Longrightarrow> su_entry r = None" and "j \<noteq> i"
  shows "entry_rows j (update_where p (freeze now i) rows) = entry_rows j rows"
  using assms by (induction rows) (auto simp: entry_rows_def)

lemma entry_rows_new:
  assumes "\<And>r. r \<in> set rows \<Longrightarrow> su_entry r \<noteq> Some i"
  shows "entry_rows i (update_where p (freeze now i) rows) = map (freeze now i) (filter p rows)"
  using assms by (induction rows) (auto simp: entry_rows_def)

lemma pending_freeze:
  assumes "\<And>r. r \<in> set rows \<Longrightarrow> p r \<Longrightarrow> su_flushed r = None"
  shows "sum_list (map su_quantity (filter (\<lambda>r. su_material r = m \<and> su_flushed r = None) (update_where p (freeze now i) rows)))
    + sum_list (map su_quantity (filter (\<lambda>r. p r \<and> su_material r = m) rows))
    = sum_list (map su_quantity (filter (\<lambda>r. su_material r = m \<and> su_flushed r = None) rows))"
  using assms by (induction rows) auto

lemma flush_group_ok:
  assumes ok: "inv_ok db" and new: "i \<notin> lg_id ` set (iv_ledger db)"
    and p: "\<And>r. r \<in> set (iv_usage db) \<Longrightarrow> p r \<Longrightarrow> su_flushed r = None \<and> flush_key r = k"
    and db': "db' = flush_group now i (k, filter p (iv_usage db)) db"
  shows "inv_ok db'" and "on_hand m db' = on_hand m db"
proof -
  have rows: "rows_ok (iv_usage db)" and led: "distinct (map lg_id (iv_ledger db))"
    and aud: "\<And>e. e \<in> set (iv_ledger db) \<Longrightarrow> on_grid (lg_quantity e) \<and> audits (iv_usage db) e"
    and ent: "\<And>r i. r \<in> set (iv_usage db) \<Longrightarrow> su_entry r = Some i \<Longrightarrow>
      \<exists>e \<in> set (iv_ledger db). lg_id e = i \<and> lg_kind e = PRODUCTION"
    using ok by (simp_all add: inv_ok_def)
  have none: "su_entry r = None" if "r \<in> set (iv_usage db)" "p r" for r
    using rows p that by (auto simp: rows_ok_def)
  have fresh: "su_entry r \<noteq> Some i" if "r \<in> set (iv_usage db)" for r
    using ent[OF that] new by (metis imageI)
  note u = flush_group_tables(1)[OF rows, of now i k p, folded db']
  obtain e where l: "iv_ledger db' = iv_ledger db @ [e]" and e: "lg_id e = i" "lg_kind e = PRODUCTION"
      "k = (lg_site e, lg_material e, lg_unit e)" "lg_quantity e = - sum_list (map su_quantity (filter p (iv_usage db)))"
    using flush_group_tables(2)[OF rows, of now i k p, folded db'] by blast
  have grid: "on_grid (lg_quantity e)"
    unfolding e(4) grid_uminus by (rule grid_sum_list) (use rows in \<open>auto simp: rows_ok_def\<close>)
  have "audits (iv_usage db') x" if "x \<in> set (iv_ledger db)" for x
  proof -
    from that new have "lg_id x \<noteq> i" by blast
    with aud[OF that] show ?thesis
      unfolding audits_def u by (simp add: entry_rows_freeze[OF none])
  qed
  moreover have "entry_rows i (iv_usage db') = map (freeze now i) (filter p (iv_usage db))"
    unfolding u by (rule entry_rows_new) (rule fresh)
  then have "audits (iv_usage db') e"
    unfolding audits_def e(1) using p e(3,4) by (auto simp: comp_def)
  moreover have "\<exists>x \<in> set (iv_ledger db'). lg_id x = j \<and> lg_kind x = PRODUCTION"
    if r: "r \<in> set (iv_usage db')" and j: "su_entry r = Some j" for r j
  proof (cases "j = i")
    case True
    then show ?thesis unfolding l using e(1,2) by simp
  next
    case False
    with r j have "r \<in> set (iv_usage db)" unfolding u by (auto simp: set_update_where)
    with ent j show ?thesis unfolding l by fastforce
  qed
  ultimately show "inv_ok db'"
    unfolding inv_ok_def l u using rows_ok_freeze[OF rows] led aud grid new e(1) by auto
  have "filter (\<lambda>r. p r \<and> su_material r = m) (iv_usage db)
      = (if lg_material e = m then filter p (iv_usage db) else [])"
    using p unfolding e(3) by (auto simp: flush_key_def filter_empty_conv intro!: filter_cong)
  then show "on_hand m db' = on_hand m db"
    using pending_freeze[of "iv_usage db" p m now i] p unfolding on_hand_def pending_def l u
    by (auto simp: e(4) split: if_splits)
qed

definition group_of :: "uuid \<Rightarrow> shift_usage list \<Rightarrow> uuid \<times> uuid \<times> weight_unit \<Rightarrow> (uuid \<times> uuid \<times> weight_unit) \<times> shift_usage list" where
  "group_of sh rows k = (k, filter (\<lambda>r. unflushed sh r \<and> flush_key r = k) rows)"

lemma group_rows_of: "group_rows (filter (unflushed sh) rows) = map (group_of sh rows) (distinct_first (map flush_key (filter (unflushed sh) rows)))"
  by (simp add: group_rows_def group_of_def[abs_def])

definition unused_ids :: "(nat \<Rightarrow> uuid) \<Rightarrow> uuid set \<Rightarrow> bool" where
  "unused_ids fresh ids \<longleftrightarrow> inj fresh \<and> range fresh \<inter> ids = {}"

lemma left_after_freeze:
  "filter (\<lambda>r. unflushed sh r \<and> flush_key r \<notin> set ks) (update_where (\<lambda>r. unflushed sh r \<and> flush_key r = k) (freeze now i) rows)
   = filter (\<lambda>r. unflushed sh r \<and> flush_key r \<notin> set (k # ks)) rows"
  by (induction rows) (auto simp: unflushed_def)

text \<open>What flushing a list of groups does to the tables.\<close>
definition flushed_to :: "uuid \<Rightarrow> (uuid \<times> uuid \<times> weight_unit) list \<Rightarrow> inv_db \<Rightarrow> inv_db \<Rightarrow> bool" where
  "flushed_to sh ks db db' \<longleftrightarrow>
     filter (unflushed sh) (iv_usage db') = filter (\<lambda>r. unflushed sh r \<and> flush_key r \<notin> set ks) (iv_usage db)
     \<and> {r \<in> set (iv_usage db). \<not> unflushed sh r} \<subseteq> set (iv_usage db')
     \<and> (\<exists>es. iv_ledger db' = iv_ledger db @ es \<and> list_all (\<lambda>e. lg_kind e = PRODUCTION) es
          \<and> map (\<lambda>e. (lg_site e, lg_material e, lg_unit e)) es = ks)
     \<and> iv_shifts db' = iv_shifts db"

lemma flush_groups_ok:
  assumes "inv_ok db" "distinct ks" "inj fresh" "\<And>j. n \<le> j \<Longrightarrow> fresh j \<notin> lg_id ` set (iv_ledger db)"
    and "map (group_of sh rows) ks = map (group_of sh (iv_usage db)) ks"
  shows "inv_ok (flush_groups now fresh n (map (group_of sh rows) ks) db)
    \<and> on_hand m (flush_groups now fresh n (map (group_of sh rows) ks) db) = on_hand m db
    \<and> flushed_to sh ks db (flush_groups now fresh n (map (group_of sh rows) ks) db)"
  using assms
proof (induction ks arbitrary: db n)
  case Nil
  then show ?case by (auto simp: flushed_to_def)
next
  case (Cons k ks)
  define p where "p = (\<lambda>r. unflushed sh r \<and> flush_key r = k)"
  define db1 where "db1 = flush_group now (fresh n) (group_of sh rows k) db"
  have g: "group_of sh rows k = (k, filter p (iv_usage db))"
    using Cons.prems(5) by (simp add: group_of_def p_def)
  have p: "\<And>r. r \<in> set (iv_usage db) \<Longrightarrow> p r \<Longrightarrow> su_flushed r = None \<and> flush_key r = k"
    by (simp add: p_def unflushed_def)
  have new: "fresh n \<notin> lg_id ` set (iv_ledger db)" by (rule Cons.prems(4)) simp
  have rows_ok: "rows_ok (iv_usage db)" using Cons.prems(1) by (simp add: inv_ok_def)
  note ok = flush_group_ok[OF Cons.prems(1) new p db1_def[unfolded g]]
  note u = flush_group_tables(1)[OF rows_ok, of now "fresh n" k p, folded g, folded db1_def]
  obtain e where l: "iv_ledger db1 = iv_ledger db @ [e]" "lg_id e = fresh n" "lg_kind e = PRODUCTION"
      "k = (lg_site e, lg_material e, lg_unit e)"
    using flush_group_tables(2)[OF rows_ok, of now "fresh n" k p, folded g, folded db1_def] by blast
  have keep: "group_of sh (iv_usage db1) j = group_of sh (iv_usage db) j" if "j \<noteq> k" for j
    unfolding u group_of_def using that
    by (simp, intro filter_update_where_disjoint) (auto simp: p_def unflushed_def)
  have ids: "fresh j \<notin> lg_id ` set (iv_ledger db1)" if "Suc n \<le> j" for j
    using that Cons.prems(3) Cons.prems(4)[of j] l by (auto dest: injD)
  have IH: "inv_ok (flush_groups now fresh (Suc n) (map (group_of sh rows) ks) db1)
    \<and> on_hand m (flush_groups now fresh (Suc n) (map (group_of sh rows) ks) db1) = on_hand m db1
    \<and> flushed_to sh ks db1 (flush_groups now fresh (Suc n) (map (group_of sh rows) ks) db1)"
  proof (rule Cons.IH[OF ok(1) _ Cons.prems(3) ids])
    show "distinct ks" using Cons.prems(2) by simp
    show "map (group_of sh rows) ks = map (group_of sh (iv_usage db1)) ks"
      unfolding map_eq_conv
    proof
      fix j assume "j \<in> set ks"
      with Cons.prems(2,5) have "j \<noteq> k" "group_of sh rows j = group_of sh (iv_usage db) j" by auto
      then show "group_of sh rows j = group_of sh (iv_usage db1) j" using keep[of j] by metis
    qed
  qed
  have left: "filter (\<lambda>r. unflushed sh r \<and> flush_key r \<notin> set ks) (iv_usage db1)
      = filter (\<lambda>r. unflushed sh r \<and> flush_key r \<notin> set (k # ks)) (iv_usage db)"
    unfolding u p_def by (rule left_after_freeze)
  have rest: "{r \<in> set (iv_usage db). \<not> unflushed sh r} \<subseteq> {r \<in> set (iv_usage db1). \<not> unflushed sh r}"
    unfolding u p_def by (auto simp: set_update_where)
  have "iv_shifts db1 = iv_shifts db" by (simp add: db1_def flush_group_def group_of_def split: prod.splits)
  with IH ok(2)[of m] left rest l(1,3,4) show ?case
    unfolding flushed_to_def db1_def by (auto; fastforce)
qed

lemma flush_shift_ok:
  assumes "inv_ok db" "unused_ids fresh (lg_id ` set (iv_ledger db))"
  shows "inv_ok (snd (flush_shift_usage now fresh sh db))"
    and "on_hand m (snd (flush_shift_usage now fresh sh db)) = on_hand m db"
    and "flushed_to sh (distinct_first (map flush_key (filter (unflushed sh) (iv_usage db)))) db
      (snd (flush_shift_usage now fresh sh db))"
proof -
  have "inj fresh" "\<And>j. 0 \<le> j \<Longrightarrow> fresh j \<notin> lg_id ` set (iv_ledger db)"
    using assms(2) by (auto simp: unused_ids_def)
  note flush_groups_ok[OF assms(1) distinct_distinct_first this refl]
  then show "inv_ok (snd (flush_shift_usage now fresh sh db))"
    and "on_hand m (snd (flush_shift_usage now fresh sh db)) = on_hand m db"
    and "flushed_to sh (distinct_first (map flush_key (filter (unflushed sh) (iv_usage db)))) db
      (snd (flush_shift_usage now fresh sh db))"
    by (simp_all add: flush_shift_usage_def Let_def group_rows_of)
qed

lemma flushed_all:
  "flushed_to sh (distinct_first (map flush_key (filter (unflushed sh) (iv_usage db)))) db db' \<Longrightarrow>
     filter (unflushed sh) (iv_usage db') = []"
  by (auto simp: flushed_to_def filter_empty_conv)

text \<open>Every kind of entry is in exactly one of the three sums of the balance.\<close>
lemma kinds_covered:
  "kind_sum [RECEIPT, TRANSFER_IN, OPENING_BALANCE] m t db + kind_sum [ADJUSTMENT] m t db
     + kind_sum [WRITE_OFF, TRANSFER_OUT, PRODUCTION] m t db
   = sum_list (map lg_quantity (filter (\<lambda>e. lg_material e = m \<and> (case t of None \<Rightarrow> True | Some z \<Rightarrow> lg_created e \<le> z)) (iv_ledger db)))"
proof -
  have k: "\<And>e. lg_kind e \<in> {RECEIPT, TRANSFER_IN, OPENING_BALANCE, ADJUSTMENT, WRITE_OFF, TRANSFER_OUT, PRODUCTION}"
    by (rule ledger_kind.exhaust) auto
  define p where "p = (\<lambda>e :: ledger_entry. lg_material e = m \<and> (case t of None \<Rightarrow> True | Some z \<Rightarrow> lg_created e \<le> z))"
  define es where "es = iv_ledger db"
  let ?s = "\<lambda>ks. sum_list (map lg_quantity (filter (\<lambda>e. p e \<and> lg_kind e \<in> set ks) es))"
  have "?s [RECEIPT, TRANSFER_IN, OPENING_BALANCE] + ?s [ADJUSTMENT] + ?s [WRITE_OFF, TRANSFER_OUT, PRODUCTION]
      = sum_list (map lg_quantity (filter p es))"
    using k by (induction es) auto
  then show ?thesis by (simp add: kind_sum_def p_def es_def conj_assoc)
qed

lemma balance_on_hand: "bl_balance (balance m None db) = on_hand m db"
  using kinds_covered[of m None db] by (simp add: balance_def on_hand_def Let_def algebra_simps)

section \<open>Staging usage\<close>

definition staged :: "uuid \<Rightarrow> shift_usage list \<Rightarrow> rat" where
  "staged m rows = sum_list (map su_quantity (filter (\<lambda>r. su_material r = m \<and> su_flushed r = None) rows))"

lemma pending_staged: "pending m db = staged m (iv_usage db)"
  by (simp add: pending_def staged_def)

definition want_amount :: "usage_want \<Rightarrow> rat" where
  "want_amount w = (case uw_canonical w of None \<Rightarrow> 0
     | Some u \<Rightarrow> convert_weight (uw_quantity w) (case uw_unit w of Some v \<Rightarrow> v | None \<Rightarrow> u) u)"

definition bump :: "usage_want \<Rightarrow> shift_usage \<Rightarrow> shift_usage" where
  "bump w r = r\<lparr>su_quantity := store4 (su_quantity r + want_amount w), su_items := su_items r + uw_items w\<rparr>"

definition new_usage :: "usage_scope \<Rightarrow> uuid \<Rightarrow> usage_want \<Rightarrow> weight_unit \<Rightarrow> shift_usage" where
  "new_usage sc i w u =
     \<lparr>su_id = i, su_site = us_site sc, su_shift = us_shift sc, su_station = us_station sc, su_job = us_job sc,
      su_product = uw_product w, su_material = uw_material w, su_quantity = store4 (want_amount w), su_unit = u,
      su_items = uw_items w, su_flushed = None, su_entry = None\<rparr>"

lemma usage_row_key:
  "usage_row sc p m r \<longleftrightarrow> row_key r = (us_shift sc, us_station sc, us_job sc, p, m)"
  by (auto simp: usage_row_def row_key_def)

text \<open>The three outcomes: skipped, a row bumped in place, or a new row.\<close>
lemma stage_usage_cases:
  obtains (skip) "stage_usage sc i w rows = rows"
      "uw_canonical w = None \<or> (\<exists>r \<in> set rows. usage_row sc (uw_product w) (uw_material w) r \<and> su_flushed r \<noteq> None)"
    | (old) xs r ys where "rows = xs @ r # ys" "usage_row sc (uw_product w) (uw_material w) r" "su_flushed r = None"
      "stage_usage sc i w rows = update_where (\<lambda>x. su_id x = su_id r) (bump w) rows"
    | (new) u where "uw_canonical w = Some u" "\<forall>r \<in> set rows. \<not> usage_row sc (uw_product w) (uw_material w) r"
      "stage_usage sc i w rows = rows @ [new_usage sc i w u]"
proof (cases "uw_canonical w")
  case None
  then show ?thesis by (intro that(1)) (simp_all add: stage_usage_def)
next
  case (Some u)
  show ?thesis
  proof (cases "find (usage_row sc (uw_product w) (uw_material w)) rows")
    case None
    then have "\<forall>r \<in> set rows. \<not> usage_row sc (uw_product w) (uw_material w) r" by (auto simp: find_None_iff)
    then show ?thesis using Some None
      by (intro that(3)[of u]) (simp_all add: stage_usage_def want_amount_def new_usage_def Let_def)
  next
    case (Some r)
    then have r: "r \<in> set rows" "usage_row sc (uw_product w) (uw_material w) r" by (auto dest: find_Some_in)
    from r(1) obtain xs ys where "rows = xs @ r # ys" by (meson split_list)
    have e: "stage_usage sc i w rows = (if su_flushed r \<noteq> None then rows
        else update_where (\<lambda>x. su_id x = su_id r) (bump w) rows)"
      using Some \<open>uw_canonical w = Some u\<close> by (simp add: stage_usage_def want_amount_def bump_def[abs_def] Let_def)
    show ?thesis
    proof (cases "su_flushed r = None")
      case True
      then show ?thesis by (intro that(2)[OF \<open>rows = xs @ r # ys\<close> r(2)]) (simp_all add: e)
    next
      case False
      then show ?thesis using r by (intro that(1)) (auto simp: e)
    qed
  qed
qed

lemma update_one_row:
  assumes "distinct (map su_id (xs @ r # ys))"
  shows "update_where (\<lambda>x. su_id x = su_id r) f (xs @ r # ys) = xs @ f r # ys"
proof -
  have "update_where (\<lambda>x. su_id x = i) f zs = zs" if "i \<notin> su_id ` set zs" for i zs
    using that by (induction zs) auto
  with assms show ?thesis by auto
qed

lemma bump_simps [simp]:
  "su_id (bump w r) = su_id r" "row_key (bump w r) = row_key r" "su_flushed (bump w r) = su_flushed r"
  "su_entry (bump w r) = su_entry r" "su_material (bump w r) = su_material r" "su_shift (bump w r) = su_shift r"
  "su_quantity (bump w r) = store4 (su_quantity r + want_amount w)"
  by (simp_all add: bump_def row_key_def)

lemma stage_usage_ok:
  assumes "rows_ok rows" "i \<notin> su_id ` set rows"
  shows "rows_ok (stage_usage sc i w rows)" "entry_rows j (stage_usage sc i w rows) = entry_rows j rows"
    and "su_id ` set (stage_usage sc i w rows) \<subseteq> insert i (su_id ` set rows)"
proof -
  have "rows_ok (stage_usage sc i w rows) \<and> entry_rows j (stage_usage sc i w rows) = entry_rows j rows
    \<and> su_id ` set (stage_usage sc i w rows) \<subseteq> insert i (su_id ` set rows)"
  proof (cases rule: stage_usage_cases[of sc i w rows])
    case skip
    then show ?thesis using assms by auto
  next
    case (old xs r ys)
    have d: "distinct (map su_id (xs @ r # ys))" using assms(1) old(1) by (simp add: rows_ok_def)
    show ?thesis
      using assms(1) old(3) unfolding old(4) unfolding old(1) update_one_row[OF d] by (auto simp: rows_ok_def entry_rows_def)
  next
    case (new u)
    have "row_key (new_usage sc i w u) \<notin> row_key ` set rows"
      using new(2) unfolding usage_row_key by (auto simp: new_usage_def row_key_def)
    then show ?thesis using assms unfolding new(3) by (auto simp: rows_ok_def entry_rows_def new_usage_def)
  qed
  then show "rows_ok (stage_usage sc i w rows)" "entry_rows j (stage_usage sc i w rows) = entry_rows j rows"
    "su_id ` set (stage_usage sc i w rows) \<subseteq> insert i (su_id ` set rows)" by blast+
qed

lemma stage_all_ok:
  assumes "rows_ok rows" "inj fresh" "\<And>j. k \<le> j \<Longrightarrow> fresh j \<notin> su_id ` set rows"
  shows "rows_ok (stage_all sc fresh k ws rows) \<and> entry_rows j (stage_all sc fresh k ws rows) = entry_rows j rows"
  using assms
proof (induction ws arbitrary: k rows)
  case (Cons w ws)
  have new: "fresh k \<notin> su_id ` set rows" by (rule Cons.prems(3)) simp
  note ok = stage_usage_ok[OF Cons.prems(1) new]
  have "fresh n \<notin> su_id ` set (stage_usage sc (fresh k) w rows)" if "Suc k \<le> n" for n
  proof
    assume "fresh n \<in> su_id ` set (stage_usage sc (fresh k) w rows)"
    with ok(3) have "fresh n = fresh k \<or> fresh n \<in> su_id ` set rows" by blast
    with Cons.prems(2) Cons.prems(3)[of n] that show False by (auto dest: injD)
  qed
  then show ?case using Cons.IH[OF ok(1) Cons.prems(2), of "Suc k"] ok(2) by simp
qed simp

text \<open>A completed cycle leaves the ledger alone and stages into unfrozen rows only.\<close>
lemma create_from_cycle_tables:
  assumes "create_from_cycle now fresh cyc job db = Inr (items, db')"
  shows "iv_ledger db' = iv_ledger db"
    and "iv_usage db' = iv_usage db \<or> (\<exists>sc k ws. iv_usage db' = stage_all sc fresh k ws (iv_usage db))"
  using assms unfolding create_from_cycle_def Let_def
  by (auto split: if_splits option.splits) blast+

inductive inv_step :: "inv_db \<Rightarrow> inv_db \<Rightarrow> bool" where
  produced: "create_from_cycle now fresh cyc job db = Inr (items, db') \<Longrightarrow>
    unused_ids fresh (su_id ` set (iv_usage db)) \<Longrightarrow> inv_step db db'"
| flushed: "flush_shift_usage now fresh sh db = (r, db') \<Longrightarrow>
    unused_ids fresh (lg_id ` set (iv_ledger db)) \<Longrightarrow> inv_step db db'"
| entered: "create_ledger_entry now i inp db = Inr (e, db') \<Longrightarrow> lx_kind inp \<noteq> PRODUCTION \<Longrightarrow>
    i \<notin> lg_id ` set (iv_ledger db) \<Longrightarrow> inv_step db db'"

lemma produced_ok:
  assumes "inv_ok db" "create_from_cycle now fresh cyc job db = Inr (items, db')"
    and "unused_ids fresh (su_id ` set (iv_usage db))"
  shows "inv_ok db'"
proof -
  note t = create_from_cycle_tables[OF assms(2)]
  have r: "rows_ok (iv_usage db)" using assms(1) by (simp add: inv_ok_def)
  have ids: "inj fresh" "\<And>j. k \<le> j \<Longrightarrow> fresh j \<notin> su_id ` set (iv_usage db)" for k
    using assms(3) by (auto simp: unused_ids_def)
  have e: "rows_ok (iv_usage db') \<and> entry_rows j (iv_usage db') = entry_rows j (iv_usage db)" for j
    using t(2) stage_all_ok[OF r ids] r by auto
  have "r \<in> set (iv_usage db)" if "r \<in> set (iv_usage db')" "su_entry r = Some i" for r i
  proof -
    from that have "r \<in> set (entry_rows i (iv_usage db'))" by (simp add: entry_rows_def)
    with e show ?thesis by (simp add: entry_rows_def)
  qed
  with assms(1) e show ?thesis unfolding inv_ok_def audits_def t(1) by metis
qed

lemma entered_ok:
  assumes "inv_ok db" "create_ledger_entry now i inp db = Inr (e, db')" "lx_kind inp \<noteq> PRODUCTION"
    and "i \<notin> lg_id ` set (iv_ledger db)"
  shows "inv_ok db'"
proof -
  have "iv_ledger db' = iv_ledger db @ [e] \<and> iv_usage db' = iv_usage db \<and> lg_id e = i
    \<and> lg_kind e \<noteq> PRODUCTION \<and> on_grid (lg_quantity e)"
    using assms(2,3) unfolding create_ledger_entry_def Let_def by (auto split: option.splits if_splits)
  moreover from this have "audits (iv_usage db') e" by (simp add: audits_def)
  ultimately show ?thesis using assms(1,4) unfolding inv_ok_def by simp
qed

lemma inv_step_ok:
  assumes "inv_step db db'" "inv_ok db"
  shows "inv_ok db'"
  using assms(1)
proof cases
  case (produced now fresh cyc job items)
  then show ?thesis by (rule produced_ok[OF assms(2)])
next
  case (flushed now fresh sh r)
  then show ?thesis using flush_shift_ok(1)[OF assms(2), of fresh now sh] by simp
next
  case (entered now i inp e)
  then show ?thesis by (rule entered_ok[OF assms(2)])
qed

lemma inv_run_ok: "inv_step\<^sup>*\<^sup>* db db' \<Longrightarrow> inv_ok db \<Longrightarrow> inv_ok db'"
  by (induction rule: rtranclp_induct) (auto intro: inv_step_ok)

section \<open>Consumption is neither lost nor counted twice\<close>

lemma staged_stage_usage:
  assumes "rows_ok rows" "\<forall>r \<in> set rows. su_shift r = us_shift sc \<longrightarrow> su_flushed r = None"
  shows "\<bar>staged m (stage_usage sc i w rows) - staged m rows - (if uw_material w = m then want_amount w else 0)\<bar>
    \<le> (if uw_material w = m then 1 / 20000 else 0)"
    and "\<forall>r \<in> set (stage_usage sc i w rows). su_shift r = us_shift sc \<longrightarrow> su_flushed r = None"
proof -
  have "\<bar>staged m (stage_usage sc i w rows) - staged m rows - (if uw_material w = m then want_amount w else 0)\<bar>
    \<le> (if uw_material w = m then 1 / 20000 else 0)
    \<and> (\<forall>r \<in> set (stage_usage sc i w rows). su_shift r = us_shift sc \<longrightarrow> su_flushed r = None)"
  proof (cases rule: stage_usage_cases[of sc i w rows])
    case skip
    then show ?thesis using assms(2) by (auto simp: usage_row_def want_amount_def)
  next
    case (old xs r ys)
    have d: "distinct (map su_id (xs @ r # ys))" using assms(1) old(1) by (simp add: rows_ok_def)
    have m: "su_material r = uw_material w" using old(2) by (simp add: usage_row_def)
    show ?thesis
      using store4_near[of "su_quantity r + want_amount w"] assms(2) old(3) m
      unfolding old(4) unfolding old(1) update_one_row[OF d] staged_def by (auto simp: algebra_simps)
  next
    case (new u)
    then show ?thesis
      using store4_near[of "want_amount w"] assms(2) unfolding new(3) staged_def by (auto simp: new_usage_def)
  qed
  then show "\<bar>staged m (stage_usage sc i w rows) - staged m rows - (if uw_material w = m then want_amount w else 0)\<bar>
    \<le> (if uw_material w = m then 1 / 20000 else 0)"
    and "\<forall>r \<in> set (stage_usage sc i w rows). su_shift r = us_shift sc \<longrightarrow> su_flushed r = None" by blast+
qed

lemma staged_stage_all:
  assumes "rows_ok rows" "\<forall>r \<in> set rows. su_shift r = us_shift sc \<longrightarrow> su_flushed r = None"
    and "inj fresh" "\<And>j. k \<le> j \<Longrightarrow> fresh j \<notin> su_id ` set rows"
  shows "\<bar>staged m (stage_all sc fresh k ws rows) - staged m rows
      - sum_list (map want_amount (filter (\<lambda>w. uw_material w = m) ws))\<bar>
    \<le> of_nat (length (filter (\<lambda>w. uw_material w = m) ws)) / 20000"
  using assms
proof (induction ws arbitrary: k rows)
  case (Cons w ws)
  let ?rows = "stage_usage sc (fresh k) w rows"
  have new: "fresh k \<notin> su_id ` set rows" by (rule Cons.prems(4)) simp
  note st = staged_stage_usage[OF Cons.prems(1,2), where i = "fresh k" and w = w]
  have "fresh n \<notin> su_id ` set ?rows" if "Suc k \<le> n" for n
    using stage_usage_ok(3)[OF Cons.prems(1) new] Cons.prems(3) Cons.prems(4)[of n] that
    by (metis Suc_n_not_le_n insertE injD subsetD Suc_leD)
  note IH = Cons.IH[where k = "Suc k", OF stage_usage_ok(1)[OF Cons.prems(1) new] st(2) Cons.prems(3) this]
  have tri: "\<bar>a - b - c\<bar> \<le> d \<Longrightarrow> \<bar>b - e - f\<bar> \<le> g \<Longrightarrow> \<bar>a - e - (f + c)\<bar> \<le> g + d" for a b c d e f g :: rat
    by linarith
  show ?case using tri[OF IH st(1)[of m]] by (cases "uw_material w = m") (simp_all add: add_divide_distrib)
qed simp

definition part_amount :: "usage_part \<Rightarrow> rat" where
  "part_amount x = (case up_canonical x of None \<Rightarrow> 0
     | Some u \<Rightarrow> convert_weight (up_weight x) (case up_unit x of Some v \<Rightarrow> v | None \<Rightarrow> u) u)"

lemma sum_list_zero: "(\<And>x. x \<in> set xs \<Longrightarrow> f x = (0 :: rat)) \<Longrightarrow> sum_list (map f xs) = 0"
  by (induction xs) auto

lemma wants_amount:
  "sum_list (map want_amount (filter (\<lambda>w. uw_material w = m) (usage_wants parts)))
     = sum_list (map part_amount (filter (\<lambda>x. up_material x = m) parts))"
proof -
  let ?ks = "remdups (map usage_key parts)"
  let ?f = "\<lambda>x. if up_material x = m then part_amount x else 0"
  let ?want = "\<lambda>k. let xs = filter (\<lambda>x. usage_key x = k) parts
              in \<lparr>uw_product = fst k, uw_material = fst (snd k), uw_unit = fst (snd (snd k)),
                  uw_canonical = snd (snd (snd k)), uw_quantity = sum_list (map up_weight xs),
                  uw_items = int (length (remdups (map up_item xs)))\<rparr>"
  have amount: "(if uw_material (?want k) = m then want_amount (?want k) else 0)
      = sum_list (map ?f (filter (\<lambda>x. usage_key x = k) parts))" for k
  proof (cases "fst (snd k) = m \<and> snd (snd (snd k)) \<noteq> None")
    case True
    then obtain u where k: "fst (snd k) = m" "snd (snd (snd k)) = Some u" by blast
    have "sum_list (map ?f (filter (\<lambda>x. usage_key x = k) parts))
        = sum_list (map (\<lambda>x. convert_weight (up_weight x) (case fst (snd (snd k)) of Some v \<Rightarrow> v | None \<Rightarrow> u) u)
            (filter (\<lambda>x. usage_key x = k) parts))"
      using k by (intro arg_cong[where f = sum_list] map_cong refl) (auto simp: usage_key_def part_amount_def)
    then show ?thesis using k by (simp add: want_amount_def Let_def convert_weight_sum_list)
  next
    case False
    then have "?f x = 0" if "usage_key x = k" for x
      using that by (auto simp: usage_key_def part_amount_def)
    then have "sum_list (map ?f (filter (\<lambda>x. usage_key x = k) parts)) = 0" by (intro sum_list_zero) auto
    with False show ?thesis by (auto simp: want_amount_def Let_def)
  qed
  have filt: "sum_list (map g (filter P xs)) = sum_list (map (\<lambda>x. if P x then g x else (0 :: rat)) xs)" for g :: "'a \<Rightarrow> rat" and P xs
    by (induction xs) auto
  have "sum_list (map want_amount (filter (\<lambda>w. uw_material w = m) (usage_wants parts)))
      = sum_list (map (\<lambda>k. if uw_material (?want k) = m then want_amount (?want k) else 0) ?ks)"
    unfolding filt usage_wants_def map_map comp_def ..
  also have "\<dots> = sum_list (map ?f parts)"
    unfolding amount by (rule sum_list_groups) auto
  finally show ?thesis unfolding filt .
qed

lemma usage_parts_staged: "usage_parts (db\<lparr>iv_usage := x\<rparr>) ids = usage_parts db ids"
proof -
  have m: "find_material i (db\<lparr>iv_usage := x\<rparr>) = find_material i db"
    "find_material_blob i (db\<lparr>iv_usage := x\<rparr>) = find_material_blob i db" for i
    by (simp_all add: find_material_def find_material_blob_def)
  then have u: "canonical_unit (db\<lparr>iv_usage := x\<rparr>) i = canonical_unit db i" for i
    by (simp add: canonical_unit_def)
  have "usage_part_of (db\<lparr>iv_usage := x\<rparr>) l = usage_part_of db l" for l
    unfolding usage_part_of_def m u by (simp cong: if_cong option.case_cong)
  then have "usage_part_of (db\<lparr>iv_usage := x\<rparr>) = usage_part_of db" by (rule ext)
  then show ?thesis by (simp add: usage_parts_def)
qed

text \<open>The staged wants are those of the links of the new items.\<close>
lemma create_from_cycle_staged:
  assumes c: "create_from_cycle now fresh cyc job db = Inr (items, db')"
    and "find (\<lambda>c. cy_id c = cyc) (iv_cycles db) = Some c" "cycle_shift db c = Some sh"
    and new: "range fresh \<inter> fst ` set (iv_links db) = {}"
  shows "\<exists>k. iv_usage db' = stage_all \<lparr>us_site = cc_site c, us_shift = in_id sh, us_station = cy_station c, us_job = job\<rparr>
    fresh k (usage_wants (usage_parts db' (map fst items))) (iv_usage db)"
proof -
  let ?specs = "job_item_specs db job"
  let ?flat = "flat_specs ?specs"
  let ?ids = "map fresh [0 ..< length ?flat]"
  let ?links = "concat (map (\<lambda>(i, s). map (Pair i) (remdups (is_materials s))) (zip ?ids ?flat))"
  let ?db1 = "db\<lparr>iv_items := iv_items db @ map (\<lambda>(i, s). item_of now i cyc s) (zip ?ids ?flat), iv_links := iv_links db @ ?links\<rparr>"
  have fst_ids: "map fst (zip ?ids (map is_product ?flat)) = ?ids" by simp
  have old: "filter (\<lambda>l. fst l \<in> set ?ids) (iv_links db) = []"
    using new by (auto simp: filter_empty_conv)
  consider (none) "?specs = []" | (nolinks) "?specs \<noteq> []" "?flat \<noteq> []" "?links = []" | (links) "?specs \<noteq> []" "?flat \<noteq> []" "?links \<noteq> []"
    using c by (auto simp: create_from_cycle_def Let_def split: if_splits)
  then show ?thesis
  proof cases
    case none
    with c have "items = []" "db' = db" by (auto simp: create_from_cycle_def)
    then show ?thesis by (simp add: usage_parts_def usage_wants_def)
  next
    case nolinks
    have r: "items = zip ?ids (map is_product ?flat)" "db' = ?db1"
      using c[unfolded create_from_cycle_def Let_def nolinks(3)] nolinks(1,2) unfolding nolinks(3) by auto
    have "usage_parts db' (map fst items) = []"
      unfolding r fst_ids usage_parts_def using old nolinks(3) by (simp add: List.map_filter_def)
    then show ?thesis by (simp add: r(2) usage_wants_def)
  next
    case links
    with c assms(2,3) have r: "items = zip ?ids (map is_product ?flat)"
      "db' = ?db1\<lparr>iv_usage := stage_all \<lparr>us_site = cc_site c, us_shift = in_id sh, us_station = cy_station c, us_job = job\<rparr>
         fresh (length ?flat) (usage_wants (usage_parts ?db1 ?ids)) (iv_usage db)\<rparr>"
      by (auto simp only: create_from_cycle_def Let_def if_False if_True sum.inject prod.inject option.simps
          Option.bind.simps prod.case sum.simps)
    have "usage_parts db' (map fst items) = usage_parts ?db1 ?ids"
      unfolding r fst_ids by (rule usage_parts_staged)
    then show ?thesis by (auto simp: r(2))
  qed
qed

section \<open>Properties\<close>

text \<open>
  C8: In every state the operations reach from empty staging and an empty ledger, the production
  entries of the ledger are audited: each is minus the exact total of the staged rows that were
  frozen with it, all of its site, material and unit; every frozen row belongs to such an entry;
  and the rows are well formed, with unique ids and binding keys and quantities of four decimals.
\<close>
theorem production_entries_audited:
  assumes "inv_step\<^sup>*\<^sup>* db0 db" "iv_usage db0 = []" "iv_ledger db0 = []"
  shows "rows_ok (iv_usage db)
    \<and> (\<forall>e \<in> set (iv_ledger db). on_grid (lg_quantity e) \<and> audits (iv_usage db) e)
    \<and> (\<forall>r \<in> set (iv_usage db). \<forall>i. su_entry r = Some i \<longrightarrow>
         (\<exists>e \<in> set (iv_ledger db). lg_id e = i \<and> lg_kind e = PRODUCTION))"
proof -
  have "inv_ok db0" using assms(2,3) by (simp add: inv_ok_def rows_ok_def)
  from inv_run_ok[OF assms(1) this] show ?thesis by (simp add: inv_ok_def)
qed

text \<open>A plant with one running job: two items per cycle, each of 0.25 kg of a material stocked in grams.\<close>
definition sample_inv_db :: inv_db where
  "sample_inv_db =
     \<lparr>iv_cycles = [\<lparr>cy_id = ''c'', cy_station = ''st'', cy_start = 0, cy_end = Some 60000, cy_blob = ''jb'',
         cy_deleted = None, cc_site = ''s'', cc_job_tools = [], cc_tool_blobs = []\<rparr>],
      iv_stations = [(''st'', None)],
      iv_shifts = [\<lparr>ir_assignment = ''a'', ir_definition = ''d'', ir_site = ''s'', ir_work_center = None,
         ir_name = ''Day'', ir_business_date = 0, ir_start = 0, ir_end = 28800000, in_id = ''sh''\<rparr>],
      iv_job_products = [\<lparr>jp_id = ''jp'', jp_job = ''j'', jp_product = ''p'', jp_blob = Some ''q'', jp_tool = None,
         jp_cavity = None, jp_deleted = None\<rparr>],
      iv_job_product_blobs = [\<lparr>jq_id = ''q'', jq_active = True, jq_quantity = 2\<rparr>],
      iv_products = [(''p'', Some ''pb'')], iv_product_blobs = [(''pb'', ''p'')],
      iv_tools = [], iv_cavities = [],
      iv_product_materials = [\<lparr>pm_id = ''pm'', pm_product = ''p'', pm_material = ''m'', pm_blob = Some ''w'',
         pm_group = None, pm_archived = None\<rparr>],
      iv_weights = [\<lparr>mw_id = ''w'', mw_material_blob = ''mb'', mw_weight = Some (1 / 4), mw_unit = Some UnitKG\<rparr>],
      iv_groups = [],
      iv_materials = [\<lparr>mt_id = ''m'', mt_site = ''s'', mt_blob = Some ''mb'', mt_archived = None, mt_deleted = None\<rparr>],
      iv_material_blobs = [\<lparr>mb_id = ''mb'', mb_material = ''m'', mb_unit = Some UnitG\<rparr>],
      iv_items = [], iv_links = [], iv_usage = [], iv_ledger = []\<rparr>"

definition sample_ids :: "nat \<Rightarrow> uuid" where
  "sample_ids n = replicate n CHR ''x''"

lemma sample_ids_simps [simp]:
  "sample_ids 0 = ''''" "sample_ids (Suc n) = CHR ''x'' # sample_ids n"
  by (simp_all add: sample_ids_def)

lemma sample_ids_inj: "inj sample_ids"
  by (rule injI) (metis length_replicate sample_ids_def)

definition sample_produced :: inv_db where
  "sample_produced = sample_inv_db
     \<lparr>iv_items := [\<lparr>ii_id = '''', ii_cycle = ''c'', ii_job_product_blob = ''q'', ii_product_blob = ''pb'',
                   ii_tool_blob = None, ii_cavity_blob = None, ii_created = 5, ii_deleted = None\<rparr>,
                  \<lparr>ii_id = ''x'', ii_cycle = ''c'', ii_job_product_blob = ''q'', ii_product_blob = ''pb'',
                   ii_tool_blob = None, ii_cavity_blob = None, ii_created = 5, ii_deleted = None\<rparr>],
      iv_links := [('''', ''w''), (''x'', ''w'')],
      iv_usage := [\<lparr>su_id = ''xx'', su_site = ''s'', su_shift = ''sh'', su_station = ''st'', su_job = ''j'',
                    su_product = ''p'', su_material = ''m'', su_quantity = 500, su_unit = UnitG, su_items = 2,
                    su_flushed = None, su_entry = None\<rparr>]\<rparr>"

lemmas inv_eval = sample_inv_db_def sample_produced_def create_from_cycle_def job_item_specs_def material_blobs_of_def
  find_material_def find_material_blob_def flat_specs_def item_of_def cycle_shift_def usage_parts_def usage_part_of_def
  canonical_unit_def usage_wants_def usage_key_def stage_usage_def usage_row_def convert_weight_def store4_def
  List.map_filter_def Let_def unflushed_def

lemma sample_create:
  "create_from_cycle 5 sample_ids ''c'' ''j'' sample_inv_db = Inr ([('''', ''p''), (''x'', ''p'')], sample_produced)"
  by (simp add: inv_eval numeral_2_eq_2 floor_eq_iff)

lemma sample_produced_step: "inv_step sample_inv_db sample_produced"
  by (rule inv_step.produced[OF sample_create]) (simp add: unused_ids_def sample_ids_inj sample_inv_db_def)

theorem production_entries_audited_witness:
  "rows_ok (iv_usage sample_produced) \<and> pending ''m'' sample_produced = 500"
  using production_entries_audited[OF r_into_rtranclp[of inv_step, OF sample_produced_step]]
  by (simp add: sample_inv_db_def) (simp add: pending_def sample_produced_def)

text \<open>
  C34: Flushing a shift moves its pending usage into the ledger without changing any balance: after
  it no row of the shift is pending, the ledger has gained one production entry per site,
  material and unit that had pending rows, in their order, nothing else was added, and the
  balance of every material is what it was.  A second flush changes nothing.
\<close>
theorem flush_keeps_balances:
  assumes "inv_step\<^sup>*\<^sup>* db0 db" "iv_usage db0 = []" "iv_ledger db0 = []"
    and "unused_ids fresh (lg_id ` set (iv_ledger db))" "flush_shift_usage now fresh sh db = (r, db')"
  shows "(\<forall>m. bl_balance (balance m None db') = bl_balance (balance m None db))
    \<and> filter (unflushed sh) (iv_usage db') = []
    \<and> (\<exists>es. iv_ledger db' = iv_ledger db @ es \<and> list_all (\<lambda>e. lg_kind e = PRODUCTION) es
         \<and> map (\<lambda>e. (lg_site e, lg_material e, lg_unit e)) es
           = distinct_first (map flush_key (filter (unflushed sh) (iv_usage db))))
    \<and> snd (flush_shift_usage now' fresh' sh db') = db'"
proof -
  have "inv_ok db0" using assms(2,3) by (simp add: inv_ok_def rows_ok_def)
  from inv_run_ok[OF assms(1) this] have ok: "inv_ok db" .
  note f = flush_shift_ok(2,3)[OF ok assms(4), where now = now and sh = sh, unfolded assms(5) snd_conv]
  note none = flushed_all[OF f(2)]
  have "snd (flush_shift_usage now' fresh' sh db') = db'"
    by (simp add: flush_shift_usage_def none group_rows_def distinct_first_def Let_def)
  with f none show ?thesis by (simp add: balance_on_hand flushed_to_def)
qed

theorem flush_keeps_balances_witness:
  "bl_balance (balance ''m'' None (snd (flush_shift_usage 9 sample_ids ''sh'' sample_produced))) = - 500
   \<and> length (iv_ledger (snd (flush_shift_usage 9 sample_ids ''sh'' sample_produced))) = 1"
proof -
  have "unused_ids sample_ids (lg_id ` set (iv_ledger sample_produced))"
    by (simp add: unused_ids_def sample_ids_inj sample_produced_def sample_inv_db_def)
  note f = flush_keeps_balances[OF r_into_rtranclp[of inv_step, OF sample_produced_step] _ _ this surjective_pairing]
  have "bl_balance (balance ''m'' None sample_produced) = - 500"
    by (simp add: balance_on_hand on_hand_def pending_def) (simp add: sample_produced_def sample_inv_db_def)
  moreover have "distinct_first (map flush_key (filter (unflushed ''sh'') (iv_usage sample_produced))) = [(''s'', ''m'', UnitG)]"
    "iv_ledger sample_produced = []"
    by (simp_all add: sample_produced_def sample_inv_db_def unflushed_def flush_key_def distinct_first_def)
  ultimately show ?thesis
    using f[where now = 9 and sh = "''sh''" and now' = 0 and fresh' = sample_ids] by (auto simp: sample_inv_db_def map_eq_Cons_conv)
qed

text \<open>
  C16: The consumption of a cycle is neither lost nor counted twice.  When the cycle has a shift of
  which nothing is flushed yet, completing it lowers the balance of every material by the
  weights, in its own unit, of the material blobs linked to the new items, up to the rounding
  of each staged group to four decimals.
\<close>
theorem cycle_consumption_conserved:
  assumes "inv_step\<^sup>*\<^sup>* db0 db" "iv_usage db0 = []" "iv_ledger db0 = []"
    and "unused_ids fresh (su_id ` set (iv_usage db) \<union> fst ` set (iv_links db))"
    and "create_from_cycle now fresh cyc job db = Inr (items, db')"
    and "find (\<lambda>c. cy_id c = cyc) (iv_cycles db) = Some c" "cycle_shift db c = Some sh"
    and "\<forall>r \<in> set (iv_usage db). su_shift r = in_id sh \<longrightarrow> su_flushed r = None"
    and "parts = usage_parts db' (map fst items)"
  shows "\<bar>bl_balance (balance m None db) - bl_balance (balance m None db')
      - sum_list (map part_amount (filter (\<lambda>x. up_material x = m) parts))\<bar>
    \<le> of_nat (length (filter (\<lambda>w. uw_material w = m) (usage_wants parts))) / 20000"
proof -
  have "inv_ok db0" using assms(2,3) by (simp add: inv_ok_def rows_ok_def)
  from inv_run_ok[OF assms(1) this] have ok: "rows_ok (iv_usage db)" by (simp add: inv_ok_def)
  have ids: "inj fresh" "\<And>j. k \<le> j \<Longrightarrow> fresh j \<notin> su_id ` set (iv_usage db)" for k
    using assms(4) by (auto simp: unused_ids_def)
  let ?sc = "\<lparr>us_site = cc_site c, us_shift = in_id sh, us_station = cy_station c, us_job = job\<rparr>"
  have "\<exists>k. iv_usage db' = stage_all ?sc fresh k (usage_wants parts) (iv_usage db)"
    unfolding assms(9) using assms(4) by (intro create_from_cycle_staged[OF assms(5,6,7)]) (auto simp: unused_ids_def)
  then obtain k where k: "iv_usage db' = stage_all ?sc fresh k (usage_wants parts) (iv_usage db)" by blast
  have "\<bar>staged m (iv_usage db') - staged m (iv_usage db)
      - sum_list (map part_amount (filter (\<lambda>x. up_material x = m) parts))\<bar>
    \<le> of_nat (length (filter (\<lambda>w. uw_material w = m) (usage_wants parts))) / 20000"
    unfolding k wants_amount[symmetric] using assms(8)
    by (intro staged_stage_all[OF ok _ ids]) simp
  then show ?thesis
    unfolding balance_on_hand on_hand_def pending_staged create_from_cycle_tables(1)[OF assms(5)] by simp
qed

theorem cycle_consumption_conserved_witness:
  "\<bar>bl_balance (balance ''m'' None sample_inv_db) - bl_balance (balance ''m'' None sample_produced) - 500\<bar> \<le> 1 / 20000"
proof -
  have c: "find (\<lambda>c. cy_id c = ''c'') (iv_cycles sample_inv_db) = Some (hd (iv_cycles sample_inv_db))"
    "cycle_shift sample_inv_db (hd (iv_cycles sample_inv_db)) = Some (hd (iv_shifts sample_inv_db))"
    by (simp_all add: inv_eval)
  have p: "usage_parts sample_produced (map fst [('''', ''p''), (''x'', ''p'')])
      = [\<lparr>up_item = '''', up_product = ''p'', up_material = ''m'', up_weight = 1 / 4, up_unit = Some UnitKG, up_canonical = Some UnitG\<rparr>,
         \<lparr>up_item = ''x'', up_product = ''p'', up_material = ''m'', up_weight = 1 / 4, up_unit = Some UnitKG, up_canonical = Some UnitG\<rparr>]"
    by (simp add: inv_eval)
  have "unused_ids sample_ids (su_id ` set (iv_usage sample_inv_db) \<union> fst ` set (iv_links sample_inv_db))"
    by (simp add: unused_ids_def sample_ids_inj sample_inv_db_def)
  note cycle_consumption_conserved[OF rtranclp.rtrancl_refl[of inv_step] _ _ this sample_create c _ refl, of "''m''", unfolded p]
  then show ?thesis
    by (simp add: usage_wants_def usage_key_def part_amount_def convert_weight_def Let_def) (simp add: sample_inv_db_def)
qed

end
