(* ===== verification/Buckets.thy ===== *)
theory Buckets
  imports Metrics
begin

text \<open>
  The rows of the metric buckets and their rollup, under \<open>packages/services/src/metrics\<close>: the
  hierarchy of stations and work centers (\<open>hierarchy.ts\<close>), the creation of empty buckets (second
  half of \<open>bucket.ts\<close>), the rollup from hours to shifts and days and from stations to work
  centers and the site (\<open>rollup.ts\<close>), and archival (\<open>archive.ts\<close>).  The hash that names the buckets
  of a job is a parameter, and so is the offset of the time zone.  A recursive query over the
  work centers is None when it does not end.  The lemmas show what a rollup leaves in the tables.
\<close>

section \<open>Tables\<close>

record bucket_row =
  bu_site :: uuid
  bu_type :: entity_type
  bu_entity :: uuid
  bu_name :: string
  bu_path :: string
  bu_gran :: granularity
  bu_gran_name :: string
  bu_start :: ms
  bu_duration :: rat
  bu_kpis :: bucket_kpis
  bu_shift :: "uuid option"
  bu_date :: "ms option"
  bu_shift_name :: "string option"
  bu_job :: "uuid option"
  bu_job_name :: "string option"

record station_info =
  st_id :: uuid
  st_site :: uuid
  st_name :: string
  st_center :: "uuid option"
  st_job :: "uuid option"
  st_deleted :: "ms option"

record center_info =
  wk_id :: uuid
  wk_parent :: "uuid option"
  wk_name :: string

text \<open>The live buckets and the archive; sites and jobs with their names.\<close>
record bucket_db =
  bd_live :: "bucket_row list"
  bd_log :: "bucket_row list"
  bd_stations :: "station_info list"
  bd_centers :: "center_info list"
  bd_sites :: "(uuid \<times> string) list"
  bd_jobs :: "(uuid \<times> string) list"
  bd_shifts :: shift_db

definition find_station :: "uuid \<Rightarrow> bucket_db \<Rightarrow> station_info option" where
  "find_station i db = find (\<lambda>s. st_id s = i) (bd_stations db)"

section \<open>The hierarchy\<close>

text \<open>A work center with its ancestors, nearest first.\<close>
partial_function (option) centers_up :: "center_info list \<Rightarrow> uuid \<Rightarrow> center_info list option" where
  "centers_up ws i =
     (case find (\<lambda>w. wk_id w = i) ws of
        None \<Rightarrow> Some []
      | Some w \<Rightarrow>
          (case wk_parent w of
             None \<Rightarrow> Some [w]
           | Some p \<Rightarrow> Option.bind (centers_up ws p) (\<lambda>up. Some (w # up))))"

text \<open>One round of the recursive query: the work centers below those found last.\<close>
definition centers_below :: "center_info list \<Rightarrow> uuid list \<Rightarrow> uuid list" where
  "centers_below ws front = concat (map (\<lambda>d. map wk_id (filter (\<lambda>w. wk_parent w = Some d) ws)) front)"

partial_function (option) centers_down :: "center_info list \<Rightarrow> uuid list \<Rightarrow> uuid list option" where
  "centers_down ws front =
     (if centers_below ws front = [] then Some []
      else Option.bind (centers_down ws (centers_below ws front)) (\<lambda>ds. Some (centers_below ws front @ ds)))"

declare centers_up.simps [code] centers_down.simps [code]

record increment_target =
  tg_type :: entity_type
  tg_entity :: uuid
  tg_name :: string
  tg_path :: string

definition site_path :: "uuid \<Rightarrow> string" where
  "site_path site = ''site.'' @ site"

definition center_path :: "string \<Rightarrow> center_info list \<Rightarrow> string" where
  "center_path p ws = p @ concat (map (\<lambda>w. ''.workcenter.'' @ wk_id w) ws)"

text \<open>The paths of a chain, nearest first: each is the path of its ancestors and itself.\<close>
fun chain_targets :: "string \<Rightarrow> center_info list \<Rightarrow> increment_target list" where
  "chain_targets p [] = []"
| "chain_targets p (w # up) =
     \<lparr>tg_type = Workcenter, tg_entity = wk_id w, tg_name = wk_name w, tg_path = center_path p (rev (w # up))\<rparr>
     # chain_targets p up"

definition station_chain :: "bucket_db \<Rightarrow> uuid \<Rightarrow> center_info list option" where
  "station_chain db st =
     (case Option.bind (find_station st db) st_center of
        None \<Rightarrow> Some []
      | Some w \<Rightarrow> centers_up (bd_centers db) w)"

definition opt_name :: "string option \<Rightarrow> string" where
  "opt_name n = (case n of Some s \<Rightarrow> s | None \<Rightarrow> [])"

text \<open>The station, its work centers and the site; without the row of the site the names are empty.\<close>
definition increment_targets :: "bucket_db \<Rightarrow> uuid \<Rightarrow> uuid \<Rightarrow> increment_target list option" where
  "increment_targets db st site =
     (let row = (case map_of (bd_sites db) site of None \<Rightarrow> None | Some n \<Rightarrow> map_option (\<lambda>s. (s, n)) (find_station st db))
      in case (case Option.bind row (\<lambda>r. st_center (fst r)) of
                 None \<Rightarrow> Some [] | Some w \<Rightarrow> centers_up (bd_centers db) w) of
           None \<Rightarrow> None
         | Some chain \<Rightarrow>
             Some (\<lparr>tg_type = Station, tg_entity = st, tg_name = opt_name (map_option (\<lambda>r. st_name (fst r)) row),
                    tg_path = center_path (site_path site) (rev chain) @ ''.station.'' @ st\<rparr>
                   # chain_targets (site_path site) chain
                   @ [\<lparr>tg_type = Site, tg_entity = site, tg_name = opt_name (map_option snd row),
                       tg_path = site_path site\<rparr>]))"

text \<open>The path of a work center joins its chain by dots, so a missing one leaves a trailing dot.\<close>
definition center_entity_path :: "bucket_db \<Rightarrow> uuid \<Rightarrow> uuid \<Rightarrow> string option" where
  "center_entity_path db w site =
     map_option (\<lambda>chain. site_path site @ ''.'' @ join_dot (map (\<lambda>c. ''workcenter.'' @ wk_id c) (rev chain)))
       (centers_up (bd_centers db) w)"

definition station_entity_path :: "bucket_db \<Rightarrow> uuid \<Rightarrow> uuid \<Rightarrow> string option" where
  "station_entity_path db st site =
     (case Option.bind (find_station st db) st_center of
        None \<Rightarrow> Some (site_path site @ ''.station.'' @ st)
      | Some w \<Rightarrow> map_option (\<lambda>p. p @ ''.station.'' @ st) (center_entity_path db w site))"

text \<open>\<open>hash\<close> names the bucket entity of a job on a station.\<close>
definition resolve_entity_path ::
  "(uuid \<Rightarrow> uuid \<Rightarrow> uuid) \<Rightarrow> bucket_db \<Rightarrow> entity_type \<Rightarrow> uuid \<Rightarrow> uuid \<Rightarrow> string option" where
  "resolve_entity_path hash db et eid site =
     (case et of
        Site \<Rightarrow> Some (site_path site)
      | Workcenter \<Rightarrow> center_entity_path db eid site
      | Station \<Rightarrow> station_entity_path db eid site
      | JobEntity \<Rightarrow>
          (let known = (case find (\<lambda>b. bu_type b = JobEntity \<and> bu_entity b = eid) (bd_live db) of
                          Some b \<Rightarrow> bu_path b | None \<Rightarrow> [])
           in if known \<noteq> [] then Some known
              else (case find (\<lambda>s. map_option (hash (st_id s)) (st_job s) = Some eid) (bd_stations db) of
                      None \<Rightarrow> Some (site_path site @ ''.job.'' @ eid)
                    | Some s \<Rightarrow>
                        map_option (\<lambda>p. p @ ''.job.'' @ opt_name (st_job s)) (station_entity_path db (st_id s) site))))"

definition resolve_entity_name :: "bucket_db \<Rightarrow> entity_type \<Rightarrow> uuid \<Rightarrow> string" where
  "resolve_entity_name db et eid =
     (case et of
        Site \<Rightarrow> opt_name (map_of (bd_sites db) eid)
      | Workcenter \<Rightarrow> opt_name (map_option wk_name (find (\<lambda>w. wk_id w = eid) (bd_centers db)))
      | Station \<Rightarrow> opt_name (map_option st_name (find_station eid db))
      | JobEntity \<Rightarrow>
          (case find (\<lambda>b. bu_type b = JobEntity \<and> bu_entity b = eid) (bd_live db) of
             Some b \<Rightarrow> bu_name b
           | None \<Rightarrow> opt_name (map_of (bd_jobs db) eid)))"

section \<open>Child stations\<close>

definition child_stations :: "bucket_db \<Rightarrow> entity_type \<Rightarrow> uuid \<Rightarrow> uuid list option" where
  "child_stations db et eid =
     (case et of
        Site \<Rightarrow> Some (map st_id (filter (\<lambda>s. st_site s = eid \<and> st_deleted s = None) (bd_stations db)))
      | Workcenter \<Rightarrow>
          map_option (\<lambda>ds. map st_id (filter (\<lambda>s. st_center s \<in> Some ` set (ds @ [eid]) \<and> st_deleted s = None) (bd_stations db)))
            (centers_down (bd_centers db) [eid])
      | _ \<Rightarrow> Some [])"

section \<open>Reading buckets\<close>

text \<open>\<open>rowToKPIs\<close>: the standard cycle is not summed.\<close>
definition row_kpis :: "bucket_row \<Rightarrow> bucket_kpis" where
  "row_kpis b = (bu_kpis b)\<lparr>bk_standard_cycle := None\<rparr>"

definition in_window :: "entity_type \<Rightarrow> uuid \<Rightarrow> granularity \<Rightarrow> hour_bucket \<Rightarrow> bucket_row \<Rightarrow> bool" where
  "in_window et eid g w b =
     (bu_type b = et \<and> bu_entity b = eid \<and> bu_gran b = g \<and> hb_start w \<le> bu_start b
      \<and> bu_start b < \<lfloor>of_int (hb_start w) + hb_duration w * 1000\<rfloor>)"

text \<open>Live rows first; an archived row counts when no live row starts at its instant.\<close>
definition window_rows :: "bucket_db \<Rightarrow> entity_type \<Rightarrow> uuid \<Rightarrow> granularity \<Rightarrow> hour_bucket \<Rightarrow> bucket_row list" where
  "window_rows db et eid g w =
     (let live = sort_key bu_start (filter (in_window et eid g w) (bd_live db));
          old = sort_key bu_start (filter (in_window et eid g w) (bd_log db))
      in sort_key bu_start (live @ filter (\<lambda>r. bu_start r \<notin> bu_start ` set live) old))"

record window_sum =
  ws_kpis :: bucket_kpis
  ws_cycle :: "rat option"
  ws_job :: "uuid option"
  ws_job_name :: "string option"

text \<open>The standard cycle and the job are those of the last row that has one.\<close>
definition sum_window :: "bucket_db \<Rightarrow> entity_type \<Rightarrow> uuid \<Rightarrow> granularity \<Rightarrow> hour_bucket \<Rightarrow> window_sum" where
  "sum_window db et eid g w =
     (let rows = window_rows db et eid g w;
          with_job = find (\<lambda>b. bu_job b \<noteq> None) (rev rows)
      in \<lparr>ws_kpis = sum_kpis (map row_kpis rows),
          ws_cycle = Option.bind (find (\<lambda>b. bk_standard_cycle (bu_kpis b) \<noteq> None) (rev rows)) (\<lambda>b. bk_standard_cycle (bu_kpis b)),
          ws_job = Option.bind with_job bu_job, ws_job_name = Option.bind with_job bu_job_name\<rparr>)"

definition at_start :: "uuid list \<Rightarrow> entity_type \<Rightarrow> granularity \<Rightarrow> ms \<Rightarrow> bucket_row \<Rightarrow> bool" where
  "at_start ids et g t b = (bu_type b = et \<and> bu_entity b \<in> set ids \<and> bu_gran b = g \<and> bu_start b = t)"

definition sum_entities :: "bucket_db \<Rightarrow> uuid list \<Rightarrow> granularity \<Rightarrow> ms \<Rightarrow> bucket_kpis" where
  "sum_entities db ids g t =
     (let live = filter (at_start ids Station g t) (bd_live db);
          old = filter (at_start ids Station g t) (bd_log db)
      in sum_kpis (map row_kpis (live @ filter (\<lambda>r. bu_entity r \<notin> bu_entity ` set live) old)))"

section \<open>Writing buckets\<close>

definition bucket_key :: "bucket_row \<Rightarrow> entity_type \<times> uuid \<times> granularity \<times> ms" where
  "bucket_key b = (bu_type b, bu_entity b, bu_gran b, bu_start b)"

text \<open>What the columns keep: the standard cycle has two decimals.\<close>
definition stored_row :: "bucket_row \<Rightarrow> bucket_row" where
  "stored_row b = b\<lparr>bu_kpis := (bu_kpis b)\<lparr>bk_standard_cycle := map_option round2 (bk_standard_cycle (bu_kpis b))\<rparr>\<rparr>"

definition same_values :: "bucket_row \<Rightarrow> bucket_row \<Rightarrow> bool" where
  "same_values old new =
     (bu_kpis old = bu_kpis new \<and> bu_job old = bu_job new \<and> bu_job_name old = bu_job_name new
      \<and> bu_name old = bu_name new \<and> bu_path old = bu_path new)"

text \<open>The columns that a write replaces in the row of its key, live or archived.\<close>
definition overwrite_row :: "bucket_row \<Rightarrow> bucket_row \<Rightarrow> bucket_row" where
  "overwrite_row new old =
     old\<lparr>bu_name := bu_name new, bu_path := bu_path new, bu_kpis := bu_kpis new, bu_shift := bu_shift new,
         bu_date := bu_date new, bu_shift_name := bu_shift_name new, bu_job := bu_job new, bu_job_name := bu_job_name new\<rparr>"

definition find_key :: "entity_type \<times> uuid \<times> granularity \<times> ms \<Rightarrow> bucket_row list \<Rightarrow> bucket_row option" where
  "find_key k rows = find (\<lambda>b. bucket_key b = k) rows"

text \<open>
  An unchanged row is not written and not reported; an archived row is updated in the archive;
  else the row is inserted or updated among the live ones.
\<close>
definition upsert_bucket :: "bucket_row \<Rightarrow> bucket_db \<Rightarrow> bucket_row option \<times> bucket_db" where
  "upsert_bucket inp db =
     (let k = bucket_key inp; new = stored_row inp
      in case (find_key k (bd_live db), find_key k (bd_log db)) of
           (Some old, _) \<Rightarrow>
             if same_values old inp then (None, db)
             else (Some (overwrite_row new old), db\<lparr>bd_live := update_where (\<lambda>b. bucket_key b = k) (overwrite_row new) (bd_live db)\<rparr>)
         | (None, Some old) \<Rightarrow>
             if same_values old inp then (None, db)
             else (Some (overwrite_row new old), db\<lparr>bd_log := update_where (\<lambda>b. bucket_key b = k) (overwrite_row new) (bd_log db)\<rparr>)
         | (None, None) \<Rightarrow> (Some new, db\<lparr>bd_live := bd_live db @ [new]\<rparr>))"

fun upsert_all :: "(bucket_db \<Rightarrow> bucket_row) list \<Rightarrow> bucket_db \<Rightarrow> bucket_row list \<times> bucket_db" where
  "upsert_all [] db = ([], db)"
| "upsert_all (f # fs) db =
     (case upsert_bucket (f db) db of
        (r, db1) \<Rightarrow> (case upsert_all fs db1 of
           (rs, db2) \<Rightarrow> ((case r of None \<Rightarrow> rs | Some b \<Rightarrow> b # rs), db2)))"

section \<open>Rollup\<close>

text \<open>The first entry for every key, as a map filled in order keeps it.\<close>
fun first_per :: "('a \<Rightarrow> 'k) \<Rightarrow> 'k list \<Rightarrow> 'a list \<Rightarrow> 'a list" where
  "first_per f seen [] = []"
| "first_per f seen (x # xs) = (if f x \<in> set seen then first_per f seen xs else x # first_per f (f x # seen) xs)"

text \<open>The last millisecond of a bucket.\<close>
definition bucket_last :: "hour_bucket \<Rightarrow> ms" where
  "bucket_last w = \<lfloor>of_int (hb_start w) + hb_duration w * 1000 - 1\<rfloor>"

definition affected_shifts :: "shift_db \<Rightarrow> uuid \<Rightarrow> uuid \<Rightarrow> hour_bucket list \<Rightarrow> shift_window list" where
  "affected_shifts db st site ws =
     first_per sw_start []
       (List.map_filter (\<lambda>t. query_shift_for_entity db Station st site t)
         (concat (map (\<lambda>w. [hb_start w, bucket_last w]) ws)))"

definition affected_days :: "tz_offset \<Rightarrow> hour_bucket list \<Rightarrow> hour_bucket list" where
  "affected_days tz ws =
     map (\<lambda>t. \<lparr>hb_start = t, hb_duration = 86400\<rparr>)
       (first_per (\<lambda>t. t) [] (concat (map (\<lambda>w. [local_midnight_utc tz (hb_start w), local_midnight_utc tz (bucket_last w)]) ws)))"

definition shift_bucket :: "shift_window \<Rightarrow> hour_bucket" where
  "shift_bucket s = \<lparr>hb_start = sw_start s, hb_duration = sw_duration s\<rparr>"

text \<open>The label \<open>shift.shiftName ?? "Shift"\<close> is the name, which the table requires.\<close>
record rollup_target =
  rt_gran :: granularity
  rt_gran_name :: string
  rt_window :: hour_bucket
  rt_shift :: "uuid option"
  rt_date :: "ms option"
  rt_shift_name :: "string option"

definition with_cycle :: "bucket_kpis \<Rightarrow> rat option \<Rightarrow> bucket_kpis" where
  "with_cycle k c = k\<lparr>bk_standard_cycle := c\<rparr>"

text \<open>The bucket of an entity over a window, summed from its own hour buckets.\<close>
definition time_rollup ::
  "uuid \<Rightarrow> entity_type \<Rightarrow> uuid \<Rightarrow> string \<Rightarrow> string \<Rightarrow> rollup_target \<Rightarrow> bucket_db \<Rightarrow> bucket_row" where
  "time_rollup site et eid name path t db =
     (let s = sum_window db et eid Hour (rt_window t)
      in \<lparr>bu_site = site, bu_type = et, bu_entity = eid, bu_name = name, bu_path = path, bu_gran = rt_gran t,
          bu_gran_name = rt_gran_name t, bu_start = hb_start (rt_window t), bu_duration = hb_duration (rt_window t),
          bu_kpis = with_cycle (ws_kpis s) (ws_cycle s), bu_shift = rt_shift t, bu_date = rt_date t,
          bu_shift_name = rt_shift_name t, bu_job = ws_job s, bu_job_name = ws_job_name s\<rparr>)"

definition shift_target :: "shift_db \<Rightarrow> tz_offset \<Rightarrow> shift_window \<Rightarrow> rollup_target" where
  "shift_target db tz s =
     \<lparr>rt_gran = ShiftGranularity, rt_gran_name = sw_name s, rt_window = shift_bucket s, rt_shift = Some (sw_instance s),
      rt_date = Some (resolve_business_date db tz (sw_start s) (Some (sw_instance s))), rt_shift_name = Some (sw_name s)\<rparr>"

definition day_target :: "ms option \<Rightarrow> hour_bucket \<Rightarrow> rollup_target" where
  "day_target date d =
     \<lparr>rt_gran = Day, rt_gran_name = ''Day'', rt_window = d, rt_shift = None, rt_date = date, rt_shift_name = None\<rparr>"

definition hour_target :: "shift_db \<Rightarrow> uuid \<Rightarrow> uuid \<Rightarrow> ms option \<Rightarrow> string option \<Rightarrow> hour_bucket \<Rightarrow> rollup_target" where
  "hour_target db st site date shift_name w =
     \<lparr>rt_gran = Hour, rt_gran_name = ''Hour'', rt_window = w,
      rt_shift = map_option sw_instance (query_shift_for_entity db Station st site (hb_start w)),
      rt_date = date, rt_shift_name = shift_name\<rparr>"

text \<open>The bucket of a work center or the site, summed from its stations at the same instant.\<close>
definition entity_rollup :: "uuid \<Rightarrow> increment_target \<Rightarrow> uuid list \<Rightarrow> rollup_target \<Rightarrow> bucket_db \<Rightarrow> bucket_row" where
  "entity_rollup site p ids t db =
     \<lparr>bu_site = site, bu_type = tg_type p, bu_entity = tg_entity p, bu_name = tg_name p, bu_path = tg_path p,
      bu_gran = rt_gran t, bu_gran_name = rt_gran_name t, bu_start = hb_start (rt_window t),
      bu_duration = hb_duration (rt_window t), bu_kpis = sum_entities db ids (rt_gran t) (hb_start (rt_window t)),
      bu_shift = (case rt_shift t of None \<Rightarrow> None
                  | Some _ \<Rightarrow> map_option sw_instance
                      (query_shift_for_entity (bd_shifts db) (tg_type p) (tg_entity p) site (hb_start (rt_window t)))),
      bu_date = rt_date t, bu_shift_name = rt_shift_name t, bu_job = None, bu_job_name = None\<rparr>"

record rollup_input =
  ri_station :: uuid
  ri_site :: uuid
  ri_windows :: "hour_bucket list"
  ri_date :: "ms option"
  ri_shift_name :: "string option"
  ri_entity :: "(string \<times> string) option"
  ri_job :: "(uuid \<times> string \<times> string) option"
  ri_skip_parents :: bool

text \<open>The targets of a rollup: the windows themselves, their shifts and their days.\<close>
definition time_targets :: "tz_offset \<Rightarrow> rollup_input \<Rightarrow> shift_db \<Rightarrow> rollup_target list" where
  "time_targets tz inp db =
     map (shift_target db tz) (affected_shifts db (ri_station inp) (ri_site inp) (ri_windows inp))
     @ map (day_target (ri_date inp)) (affected_days tz (ri_windows inp))"

definition rollup_targets :: "tz_offset \<Rightarrow> rollup_input \<Rightarrow> shift_db \<Rightarrow> rollup_target list" where
  "rollup_targets tz inp db =
     map (hour_target db (ri_station inp) (ri_site inp) (ri_date inp) (ri_shift_name inp)) (ri_windows inp)
     @ time_targets tz inp db"

text \<open>All writes for the parents, in the order of the two loops.\<close>
fun parent_writes :: "uuid \<Rightarrow> rollup_target list \<Rightarrow> increment_target list \<Rightarrow> bucket_db \<Rightarrow> (bucket_db \<Rightarrow> bucket_row) list option" where
  "parent_writes site ts [] db = Some []"
| "parent_writes site ts (p # ps) db =
     (case child_stations db (tg_type p) (tg_entity p) of
        None \<Rightarrow> None
      | Some ids \<Rightarrow> map_option (\<lambda>ws. map (entity_rollup site p ids) ts @ ws) (parent_writes site ts ps db))"

text \<open>None when a recursive query over the work centers does not end.\<close>
definition rollup_station_buckets :: "tz_offset \<Rightarrow> rollup_input \<Rightarrow> bucket_db \<Rightarrow> (bucket_row list \<times> bucket_db) option" where
  "rollup_station_buckets tz inp db =
     (case (case ri_entity inp of
              Some e \<Rightarrow> Some e
            | None \<Rightarrow> map_option (Pair (resolve_entity_name db Station (ri_station inp)))
                        (station_entity_path db (ri_station inp) (ri_site inp))) of
        None \<Rightarrow> None
      | Some (name, path) \<Rightarrow>
          (case upsert_all (map (time_rollup (ri_site inp) Station (ri_station inp) name path)
                  (time_targets tz inp (bd_shifts db))) db of
             (changes, db1) \<Rightarrow>
               if ri_skip_parents inp then Some (changes, db1)
               else (case increment_targets db1 (ri_station inp) (ri_site inp) of
                       None \<Rightarrow> None
                     | Some targets \<Rightarrow>
                         (case parent_writes (ri_site inp) (rollup_targets tz inp (bd_shifts db))
                                 (filter (\<lambda>p. tg_type p \<noteq> Station) targets) db1 of
                            None \<Rightarrow> None
                          | Some ws \<Rightarrow> (case upsert_all ws db1 of (others, db2) \<Rightarrow> Some (changes @ others, db2))))))"

definition rollup_job_buckets ::
  "(uuid \<Rightarrow> uuid \<Rightarrow> uuid) \<Rightarrow> tz_offset \<Rightarrow> rollup_input \<Rightarrow> uuid \<times> string \<times> string \<Rightarrow> bucket_db \<Rightarrow> bucket_row list \<times> bucket_db" where
  "rollup_job_buckets hash tz inp job db =
     (case job of (j, name, path) \<Rightarrow>
        upsert_all (map (time_rollup (ri_site inp) JobEntity (hash (ri_station inp) j) name path)
          (time_targets tz inp (bd_shifts db))) db)"

text \<open>The changed rows are published.\<close>
definition rollup_buckets ::
  "(uuid \<Rightarrow> uuid \<Rightarrow> uuid) \<Rightarrow> tz_offset \<Rightarrow> rollup_input \<Rightarrow> bucket_db \<Rightarrow> (bucket_row list \<times> bucket_db) option" where
  "rollup_buckets hash tz inp db =
     (if ri_windows inp = [] then Some ([], db)
      else (case ri_job inp of
              Some j \<Rightarrow> Some (rollup_job_buckets hash tz inp j db)
            | None \<Rightarrow> rollup_station_buckets tz inp db))"

section \<open>Empty buckets\<close>

record ensure_input =
  en_site :: uuid
  en_type :: entity_type
  en_entity :: uuid
  en_at :: ms
  en_name :: "string option"
  en_path :: "string option"

text \<open>\<open>INSERT ... ON CONFLICT DO NOTHING\<close>, row by row; the inserted rows are returned.\<close>
fun insert_absent :: "bucket_row list \<Rightarrow> bucket_row list \<Rightarrow> bucket_row list \<times> bucket_row list" where
  "insert_absent [] live = ([], live)"
| "insert_absent (b # bs) live =
     (if bucket_key b \<in> bucket_key ` set live then insert_absent bs live
      else (case insert_absent bs (live @ [b]) of (new, live') \<Rightarrow> (b # new, live')))"

definition empty_buckets :: "tz_offset \<Rightarrow> ensure_input \<Rightarrow> string \<Rightarrow> string \<Rightarrow> bucket_db \<Rightarrow> bucket_row list" where
  "empty_buckets tz inp name path db =
     (let shift = query_shift_for_entity (bd_shifts db) (en_type inp) (en_entity inp) (en_site inp) (en_at inp);
          job = (if en_type inp = Station then Option.bind (find_station (en_entity inp) db) st_job else None);
          row = (\<lambda>g label start dur.
             \<lparr>bu_site = en_site inp, bu_type = en_type inp, bu_entity = en_entity inp, bu_name = name, bu_path = path,
              bu_gran = g, bu_gran_name = label, bu_start = start, bu_duration = dur, bu_kpis = zero_kpis,
              bu_shift = map_option sw_instance shift,
              bu_date = Some (resolve_business_date (bd_shifts db) tz (en_at inp) (map_option sw_instance shift)),
              bu_shift_name = map_option sw_name shift, bu_job = job,
              bu_job_name = Option.bind job (map_of (bd_jobs db))\<rparr>)
      in (case shift of None \<Rightarrow> [] | Some s \<Rightarrow> [row ShiftGranularity (sw_name s) (sw_start s) (sw_duration s)])
         @ map (\<lambda>w. row Hour ''Hour'' (hb_start w) (hb_duration w))
             (hour_buckets_for_entity (bd_shifts db) tz (en_type inp) (en_entity inp) (en_site inp) (en_at inp)))"

text \<open>
  The created rows, which are published, whether the next shift boundary is scheduled, and the
  tables; None when the path of the entity cannot be computed.
\<close>
definition ensure_buckets ::
  "(uuid \<Rightarrow> uuid \<Rightarrow> uuid) \<Rightarrow> tz_offset \<Rightarrow> ensure_input \<Rightarrow> bucket_db \<Rightarrow> (bucket_row list \<times> bool \<times> bucket_db) option" where
  "ensure_buckets hash tz inp db =
     (let name = (case en_name inp of Some n \<Rightarrow> n | None \<Rightarrow> resolve_entity_name db (en_type inp) (en_entity inp))
      in case (case en_path inp of
                 Some p \<Rightarrow> if p \<noteq> [] then Some p else resolve_entity_path hash db (en_type inp) (en_entity inp) (en_site inp)
               | None \<Rightarrow> resolve_entity_path hash db (en_type inp) (en_entity inp) (en_site inp)) of
           None \<Rightarrow> None
         | Some path \<Rightarrow>
             (let rows = empty_buckets tz inp name path db
              in case insert_absent rows (bd_live db) of
                   (new, live) \<Rightarrow>
                     Some (new, rows \<noteq> []
                        \<and> query_shift_for_entity (bd_shifts db) (en_type inp) (en_entity inp) (en_site inp) (en_at inp) \<noteq> None,
                       db\<lparr>bd_live := live\<rparr>)))"

fun ensure_batch ::
  "(uuid \<Rightarrow> uuid \<Rightarrow> uuid) \<Rightarrow> (uuid \<Rightarrow> tz_offset) \<Rightarrow> ensure_input list \<Rightarrow> bucket_db \<Rightarrow> bucket_db option" where
  "ensure_batch hash tzs [] db = Some db"
| "ensure_batch hash tzs (i # is) db =
     (case ensure_buckets hash (tzs (en_site i)) i db of
        None \<Rightarrow> None | Some (_, _, db') \<Rightarrow> ensure_batch hash tzs is db')"

section \<open>Archival\<close>

definition elapsed_bucket :: "ms \<Rightarrow> uuid \<Rightarrow> bucket_row \<Rightarrow> bool" where
  "elapsed_bucket now site b =
     (bu_site b = site \<and> bu_start b < now - 86400000 \<and> of_int (bu_start b) + bu_duration b * 1000 \<le> of_int now)"

text \<open>The recomputed durations of a station bucket; the items per cycle are taken to be 1.\<close>
definition freeze_bucket :: "metric_db \<Rightarrow> ms \<Rightarrow> bucket_row \<Rightarrow> bucket_row" where
  "freeze_bucket mdb now b =
     (let d = compute_durations_for_bucket mdb (bu_entity b) (bu_start b) (bu_duration b)
                (bk_standard_cycle (bu_kpis b)) 1 now
      in b\<lparr>bu_kpis := (bu_kpis b)\<lparr>bk_run := bk_run d, bk_down := bk_down d, bk_planned_down := bk_planned_down d,
             bk_unplanned_down := bk_unplanned_down d, bk_elapsed_planned := bk_elapsed_planned d,
             bk_expected_cycles := bk_expected_cycles d, bk_expected_items := bk_expected_items d,
             bk_elapsed_cycles := bk_elapsed_cycles d, bk_elapsed_items := bk_elapsed_items d\<rparr>\<rparr>)"

text \<open>The frozen windows of every station, in the order in which the stations are met.\<close>
definition frozen_windows :: "bucket_row list \<Rightarrow> (uuid \<times> hour_bucket list) list" where
  "frozen_windows rows =
     map (\<lambda>e. (e, map (\<lambda>b. \<lparr>hb_start = bu_start b, hb_duration = bu_duration b\<rparr>) (filter (\<lambda>b. bu_entity b = e) rows)))
       (first_per (\<lambda>e. e) [] (map bu_entity rows))"

definition freeze_rollup :: "tz_offset \<Rightarrow> uuid \<Rightarrow> uuid \<times> hour_bucket list \<Rightarrow> bucket_db \<Rightarrow> rollup_input" where
  "freeze_rollup tz site f db =
     (let t = (case first_asc hb_start (snd f) of Some w \<Rightarrow> hb_start w | None \<Rightarrow> 0);
          shift = query_shift_for_entity (bd_shifts db) Station (fst f) site t
      in \<lparr>ri_station = fst f, ri_site = site, ri_windows = snd f,
          ri_date = Some (resolve_business_date (bd_shifts db) tz t (map_option sw_instance shift)),
          ri_shift_name = map_option sw_name shift, ri_entity = None, ri_job = None, ri_skip_parents = False\<rparr>)"

fun rollup_frozen :: "tz_offset \<Rightarrow> uuid \<Rightarrow> (uuid \<times> hour_bucket list) list \<Rightarrow> bucket_db \<Rightarrow> bucket_db option" where
  "rollup_frozen tz site [] db = Some db"
| "rollup_frozen tz site (f # fs) db =
     (case rollup_station_buckets tz (freeze_rollup tz site f db) db of
        None \<Rightarrow> None | Some (_, db') \<Rightarrow> rollup_frozen tz site fs db')"

text \<open>Rows are copied unless the archive has their key, and then deleted.\<close>
definition move_rows :: "(entity_type \<times> uuid \<times> granularity \<times> ms) list \<Rightarrow> bucket_db \<Rightarrow> nat \<times> bucket_db" where
  "move_rows ks db =
     (let rows = filter (\<lambda>b. bucket_key b \<in> set ks) (bd_live db);
          new = filter (\<lambda>b. bucket_key b \<notin> bucket_key ` set (bd_log db)) rows
      in (length new, db\<lparr>bd_live := filter (\<lambda>b. bucket_key b \<notin> set ks) (bd_live db), bd_log := bd_log db @ new\<rparr>))"

definition archive_site :: "metric_db \<Rightarrow> tz_offset \<Rightarrow> ms \<Rightarrow> uuid \<Rightarrow> bucket_db \<Rightarrow> (nat \<times> bucket_db) option" where
  "archive_site mdb tz now site db =
     (let old = filter (elapsed_bucket now site) (bd_live db);
          stations = filter (\<lambda>b. bu_type b = Station) old;
          db1 = db\<lparr>bd_live := update_where (\<lambda>b. elapsed_bucket now site b \<and> bu_type b = Station) (freeze_bucket mdb now) (bd_live db)\<rparr>
      in if old = [] then Some (0, db)
         else map_option (move_rows (map bucket_key old)) (rollup_frozen tz site (frozen_windows stations) db1))"

fun archive_each :: "metric_db \<Rightarrow> (uuid \<Rightarrow> tz_offset) \<Rightarrow> ms \<Rightarrow> uuid list \<Rightarrow> bucket_db \<Rightarrow> (nat \<times> bucket_db) option" where
  "archive_each mdb tzs now [] db = Some (0, db)"
| "archive_each mdb tzs now (s # ss) db =
     (case archive_site mdb (tzs s) now s db of
        None \<Rightarrow> None
      | Some (n, db1) \<Rightarrow> map_option (\<lambda>(k, db2). (n + k, db2)) (archive_each mdb tzs now ss db1))"

definition archive_old_buckets :: "metric_db \<Rightarrow> (uuid \<Rightarrow> tz_offset) \<Rightarrow> ms \<Rightarrow> bucket_db \<Rightarrow> (nat \<times> bucket_db) option" where
  "archive_old_buckets mdb tzs now db = archive_each mdb tzs now (remdups (map bu_site (bd_live db))) db"

section \<open>The hierarchy seen from both ends\<close>

text \<open>The parent links among the rows of work centers.\<close>
definition parent_of :: "center_info list \<Rightarrow> (uuid \<times> uuid) set" where
  "parent_of ws = {(wk_id w, p) |w p. w \<in> set ws \<and> wk_parent w = Some p}"

lemma find_unique:
  assumes "distinct (map f xs)" "x \<in> set xs"
  shows "find (\<lambda>y. f y = f x) xs = Some x"
  using assms by (induction xs) (auto simp: image_iff)

lemma parent_of_unique:
  "distinct (map wk_id ws) \<Longrightarrow> (i, p) \<in> parent_of ws \<longleftrightarrow> (\<exists>w. find (\<lambda>w. wk_id w = i) ws = Some w \<and> wk_parent w = Some p)"
  unfolding parent_of_def using find_unique[of wk_id ws] by (auto dest!: find_Some_in)

lemma parent_of_source: "(i, p) \<in> parent_of ws \<Longrightarrow> i \<in> wk_id ` set ws"
  by (auto simp: parent_of_def)

lemma parents_unique:
  assumes "distinct (map wk_id ws)" "find (\<lambda>w. wk_id w = i) ws = Some w"
  shows "{j. (i, j) \<in> (parent_of ws)\<^sup>*} =
    insert i (case wk_parent w of None \<Rightarrow> {} | Some p \<Rightarrow> {j. (p, j) \<in> (parent_of ws)\<^sup>*})"
  using parent_of_unique[OF assms(1), of i] assms(2)
  by (auto split: option.splits elim: converse_rtranclE intro: converse_rtrancl_into_rtrancl)

lemma centers_up_set:
  assumes "centers_up ws i = Some ch" "distinct (map wk_id ws)"
  shows "wk_id ` set ch = {j. (i, j) \<in> (parent_of ws)\<^sup>*} \<inter> wk_id ` set ws"
proof -
  have "distinct (map wk_id ws) \<longrightarrow> wk_id ` set ch = {j. (i, j) \<in> (parent_of ws)\<^sup>*} \<inter> wk_id ` set ws"
  proof (rule centers_up.raw_induct[OF _ assms(1)], intro impI)
    fix f ws i ch
    assume IH: "\<And>ws i ch. f ws i = Some ch \<Longrightarrow> distinct (map wk_id ws) \<longrightarrow>
        wk_id ` set ch = {j. (i, j) \<in> (parent_of ws)\<^sup>*} \<inter> wk_id ` set ws"
      and body: "(case find (\<lambda>w. wk_id w = i) ws of None \<Rightarrow> Some [] | Some w \<Rightarrow>
        (case wk_parent w of None \<Rightarrow> Some [w] | Some p \<Rightarrow> Option.bind (f ws p) (\<lambda>up. Some (w # up)))) = Some ch"
      and d: "distinct (map wk_id ws)"
    show "wk_id ` set ch = {j. (i, j) \<in> (parent_of ws)\<^sup>*} \<inter> wk_id ` set ws"
    proof (cases "find (\<lambda>w. wk_id w = i) ws")
      case None
      then have "i \<notin> wk_id ` set ws" by (auto simp: find_None_iff)
      then have "{j. (i, j) \<in> (parent_of ws)\<^sup>*} \<inter> wk_id ` set ws = {}"
        by (auto elim: converse_rtranclE dest: parent_of_source)
      with None body show ?thesis by simp
    next
      case (Some w)
      then have w: "w \<in> set ws" "wk_id w = i" by (auto dest: find_Some_in)
      show ?thesis
      proof (cases "wk_parent w")
        case None
        then show ?thesis using body Some w unfolding parents_unique[OF d Some] by auto
      next
        case (Some p)
        with body \<open>find (\<lambda>w. wk_id w = i) ws = Some w\<close> obtain up where up: "f ws p = Some up" "ch = w # up"
          by (auto split: Option.bind_splits)
        have "wk_id ` set up = {j. (p, j) \<in> (parent_of ws)\<^sup>*} \<inter> wk_id ` set ws" using IH[OF up(1)] d by simp
        then show ?thesis unfolding parents_unique[OF d \<open>find (\<lambda>w. wk_id w = i) ws = Some w\<close>] Some up(2)
          using w by auto
      qed
    qed
  qed
  with assms(2) show ?thesis by simp
qed

lemma centers_below_set: "set (centers_below ws front) = {d. \<exists>x \<in> set front. (d, x) \<in> parent_of ws}"
  by (auto simp: centers_below_def parent_of_def)

lemma centers_down_set:
  assumes "centers_down ws front = Some ds"
  shows "set ds = {d. \<exists>x \<in> set front. (d, x) \<in> (parent_of ws)\<^sup>+}"
proof (rule centers_down.raw_induct[OF _ assms])
  fix f ws front ds
  assume IH: "\<And>ws front ds. f ws front = Some ds \<Longrightarrow> set ds = {d. \<exists>x \<in> set front. (d, x) \<in> (parent_of ws)\<^sup>+}"
    and body: "(if centers_below ws front = [] then Some []
      else Option.bind (f ws (centers_below ws front)) (\<lambda>ds. Some (centers_below ws front @ ds))) = Some ds"
  let ?below = "{d. \<exists>x \<in> set front. (d, x) \<in> parent_of ws}"
  have plus: "{d. \<exists>x \<in> set front. (d, x) \<in> (parent_of ws)\<^sup>+} = ?below \<union> {d. \<exists>x \<in> ?below. (d, x) \<in> (parent_of ws)\<^sup>+}"
    by (auto elim: tranclE intro: trancl_into_trancl)
  show "set ds = {d. \<exists>x \<in> set front. (d, x) \<in> (parent_of ws)\<^sup>+}"
  proof (cases "centers_below ws front = []")
    case True
    then have "?below = {}" using centers_below_set[of ws front] by simp
    with True body show ?thesis unfolding plus by simp
  next
    case False
    with body obtain ds' where ds: "f ws (centers_below ws front) = Some ds'" "ds = centers_below ws front @ ds'"
      by (auto split: Option.bind_splits)
    show ?thesis unfolding plus ds(2) set_append IH[OF ds(1)] centers_below_set ..
  qed
qed

lemma chain_targets_entities:
  "tg_entity ` set (chain_targets p ch) = wk_id ` set ch" "t \<in> set (chain_targets p ch) \<Longrightarrow> tg_type t = Workcenter"
  by (induction p ch rule: chain_targets.induct) auto

lemma increment_targets_centers:
  assumes "find_station st db = Some s" "map_of (bd_sites db) site = Some n" "increment_targets db st site = Some targets"
  obtains ch where "(case st_center s of None \<Rightarrow> Some [] | Some w \<Rightarrow> centers_up (bd_centers db) w) = Some ch"
    "\<And>w. (\<exists>t \<in> set targets. tg_type t = Workcenter \<and> tg_entity t = w) \<longleftrightarrow> w \<in> wk_id ` set ch"
proof -
  from assms obtain ch where ch: "(case st_center s of None \<Rightarrow> Some [] | Some w \<Rightarrow> centers_up (bd_centers db) w) = Some ch"
    and t: "\<exists>a b. targets = a # chain_targets (site_path site) ch @ [b] \<and> tg_type a = Station \<and> tg_type b = Site"
    by (cases "st_center s"; cases "centers_up (bd_centers db) (the (st_center s))")
      (auto simp: increment_targets_def Let_def)
  have "(\<exists>t \<in> set targets. tg_type t = Workcenter \<and> tg_entity t = w) \<longleftrightarrow> w \<in> wk_id ` set ch" for w
    unfolding chain_targets_entities(1)[symmetric, where p = "site_path site"]
      using t chain_targets_entities(2)[where p = "site_path site" and ch = ch] by auto
  with ch show ?thesis by (rule that)
qed

text \<open>
  C19: The walk up from a station, which chooses the buckets that its values are added to, and the
  walk down from a work center, which chooses the stations that are summed, agree: a live
  station is summed into a work center exactly when the work center is among its increment
  targets, and always into its site.
\<close>
theorem parents_sum_their_stations:
  assumes "distinct (map wk_id (bd_centers db))" "distinct (map st_id (bd_stations db))"
    and "find_station st db = Some s" "st_deleted s = None" "map_of (bd_sites db) (st_site s) = Some n"
    and "increment_targets db st (st_site s) = Some targets" "child_stations db Workcenter w = Some ids"
    and "w \<in> wk_id ` set (bd_centers db)"
  shows "(st \<in> set ids \<longleftrightarrow> (\<exists>t \<in> set targets. tg_type t = Workcenter \<and> tg_entity t = w))
    \<and> (\<exists>sts. child_stations db Site (st_site s) = Some sts \<and> st \<in> set sts)"
proof -
  have s: "s \<in> set (bd_stations db)" "st_id s = st"
    using assms(3) by (auto simp: find_station_def dest: find_Some_in)
  have only: "x = s" if "x \<in> set (bd_stations db)" "st_id x = st" for x
    using find_unique[OF assms(2) that(1)] find_unique[OF assms(2) s(1)] that(2) s(2) by simp
  from assms(7) obtain ds where ds: "centers_down (bd_centers db) [w] = Some ds"
      "ids = map st_id (filter (\<lambda>s. st_center s \<in> Some ` set (ds @ [w]) \<and> st_deleted s = None) (bd_stations db))"
    by (auto simp: child_stations_def)
  have down: "set (ds @ [w]) = {d. (d, w) \<in> (parent_of (bd_centers db))\<^sup>*}"
    using centers_down_set[OF ds(1)] by (auto simp: rtrancl_eq_or_trancl)
  obtain ch where ch: "(case st_center s of None \<Rightarrow> Some [] | Some w \<Rightarrow> centers_up (bd_centers db) w) = Some ch"
    and entities: "\<And>w. (\<exists>t \<in> set targets. tg_type t = Workcenter \<and> tg_entity t = w) \<longleftrightarrow> w \<in> wk_id ` set ch"
    using increment_targets_centers[OF assms(3,5,6)] by metis
  have "st \<in> set ids \<longleftrightarrow> st_center s \<in> Some ` set (ds @ [w])"
  proof
    assume "st \<in> set ids"
    then obtain x where x: "x \<in> set (bd_stations db)" "st_center x \<in> Some ` set (ds @ [w])" "st = st_id x"
      unfolding ds(2) set_map set_filter by blast
    with only[of x] show "st_center s \<in> Some ` set (ds @ [w])" by simp
  next
    assume "st_center s \<in> Some ` set (ds @ [w])"
    then show "st \<in> set ids"
      unfolding ds(2) set_map set_filter using s assms(4) by blast
  qed
  also have "\<dots> \<longleftrightarrow> (\<exists>t \<in> set targets. tg_type t = Workcenter \<and> tg_entity t = w)"
    using ch centers_up_set[OF _ assms(1)] assms(8) unfolding entities down by (cases "st_center s") auto
  finally show ?thesis using s(1) assms(4) by (auto simp: child_stations_def s(2)[symmetric])
qed

definition sample_bucket_db :: bucket_db where
  "sample_bucket_db =
     \<lparr>bd_live = [], bd_log = [],
      bd_stations = [\<lparr>st_id = ''p'', st_site = ''s'', st_name = ''Press'', st_center = Some ''w'', st_job = None, st_deleted = None\<rparr>,
                     \<lparr>st_id = ''q'', st_site = ''s'', st_name = ''Saw'', st_center = None, st_job = None, st_deleted = None\<rparr>],
      bd_centers = [\<lparr>wk_id = ''w'', wk_parent = Some ''v'', wk_name = ''Line''\<rparr>, \<lparr>wk_id = ''v'', wk_parent = None, wk_name = ''Hall''\<rparr>],
      bd_sites = [(''s'', ''Plant'')], bd_jobs = [], bd_shifts = \<lparr>sd_instances = [], sd_assignments = [], sd_stations = []\<rparr>\<rparr>"

lemma centers_up_eval:
  "find (\<lambda>w. wk_id w = i) ws = None \<Longrightarrow> centers_up ws i = Some []"
  "find (\<lambda>w. wk_id w = i) ws = Some w \<Longrightarrow> wk_parent w = None \<Longrightarrow> centers_up ws i = Some [w]"
  "find (\<lambda>w. wk_id w = i) ws = Some w \<Longrightarrow> wk_parent w = Some p \<Longrightarrow>
     centers_up ws i = Option.bind (centers_up ws p) (\<lambda>up. Some (w # up))"
  by (subst centers_up.simps; simp)+

lemma centers_down_eval:
  "centers_below ws front = [] \<Longrightarrow> centers_down ws front = Some []"
  "centers_below ws front = x # xs \<Longrightarrow>
     centers_down ws front = Option.bind (centers_down ws (x # xs)) (\<lambda>ds. Some ((x # xs) @ ds))"
  by (subst centers_down.simps; simp)+

lemma sample_targets:
  "increment_targets sample_bucket_db ''p'' ''s'' = Some
     [\<lparr>tg_type = Station, tg_entity = ''p'', tg_name = ''Press'', tg_path = ''site.s.workcenter.v.workcenter.w.station.p''\<rparr>,
      \<lparr>tg_type = Workcenter, tg_entity = ''w'', tg_name = ''Line'', tg_path = ''site.s.workcenter.v.workcenter.w''\<rparr>,
      \<lparr>tg_type = Workcenter, tg_entity = ''v'', tg_name = ''Hall'', tg_path = ''site.s.workcenter.v''\<rparr>,
      \<lparr>tg_type = Site, tg_entity = ''s'', tg_name = ''Plant'', tg_path = ''site.s''\<rparr>]"
  unfolding increment_targets_def sample_bucket_db_def
  by (simp add: find_station_def centers_up_eval center_path_def site_path_def opt_name_def)

lemma sample_children: "child_stations sample_bucket_db Workcenter ''v'' = Some [''p'']"
  unfolding child_stations_def sample_bucket_db_def by (simp add: centers_down_eval centers_below_def)

theorem parents_sum_their_stations_witness:
  "\<exists>sts. child_stations sample_bucket_db Site ''s'' = Some sts \<and> ''p'' \<in> set sts"
proof -
  have f: "find_station ''p'' sample_bucket_db = Some (hd (bd_stations sample_bucket_db))"
    and d: "st_site (hd (bd_stations sample_bucket_db)) = ''s''" "st_deleted (hd (bd_stations sample_bucket_db)) = None"
    by (simp_all add: sample_bucket_db_def find_station_def)
  show ?thesis
    using parents_sum_their_stations[OF _ _ f d(2) _ sample_targets[folded d(1)] sample_children]
    by (simp only: d(1)) (simp add: sample_bucket_db_def)
qed

section \<open>What an upsert leaves alone\<close>

text \<open>The tables beside the buckets.\<close>
definition fixed_tables where
  "fixed_tables db = (bd_stations db, bd_centers db, bd_sites db, bd_jobs db, bd_shifts db)"

lemma fixed_tables_fields:
  assumes "fixed_tables d = fixed_tables db"
  shows "bd_stations d = bd_stations db" "bd_centers d = bd_centers db" "bd_sites d = bd_sites db"
    "bd_jobs d = bd_jobs db" "bd_shifts d = bd_shifts db"
  using assms by (auto simp: fixed_tables_def)

lemma key_simps [simp]:
  "bucket_key (stored_row b) = bucket_key b" "bucket_key (overwrite_row b old) = bucket_key old"
  by (simp_all add: bucket_key_def stored_row_def overwrite_row_def)

lemma upsert_fixed [simp]: "fixed_tables (snd (upsert_bucket b db)) = fixed_tables db"
  by (auto simp: upsert_bucket_def fixed_tables_def Let_def split: option.splits)

lemma filter_update_where:
  assumes "\<And>x. P x \<Longrightarrow> \<not> Q x \<and> \<not> Q (f x)"
  shows "filter Q (update_where P f xs) = filter Q xs"
  using assms by (induction xs) (auto simp: update_where_def)

lemma filter_upsert:
  assumes "\<And>x. bucket_key x = bucket_key b \<Longrightarrow> \<not> Q x"
  shows "filter Q (bd_live (snd (upsert_bucket b db))) = filter Q (bd_live db)"
    "filter Q (bd_log (snd (upsert_bucket b db))) = filter Q (bd_log db)"
  using assms by (auto simp: upsert_bucket_def Let_def filter_update_where split: option.splits)

lemma sum_window_upsert:
  assumes "(bu_type b, bu_entity b, bu_gran b) \<noteq> (et, eid, g)"
  shows "sum_window (snd (upsert_bucket b db)) et eid g w = sum_window db et eid g w"
proof -
  have no: "\<not> in_window et eid g w x" if "bucket_key x = bucket_key b" for x
    using that assms by (auto simp: bucket_key_def in_window_def)
  show ?thesis by (simp add: sum_window_def window_rows_def filter_upsert[where b = b and Q = "in_window et eid g w", OF no])
qed

lemma sum_entities_upsert:
  assumes "bu_type b \<noteq> Station"
  shows "sum_entities (snd (upsert_bucket b db)) ids g t = sum_entities db ids g t"
proof -
  have no: "\<not> at_start ids Station g t x" if "bucket_key x = bucket_key b" for x
    using that assms by (auto simp: bucket_key_def at_start_def)
  show ?thesis by (simp add: sum_entities_def filter_upsert[where b = b and Q = "at_start ids Station g t", OF no])
qed

text \<open>The row of a key, live or archived.\<close>
definition bucket_at :: "entity_type \<times> uuid \<times> granularity \<times> ms \<Rightarrow> bucket_db \<Rightarrow> bucket_row option" where
  "bucket_at k db = (case find_key k (bd_live db) of Some r \<Rightarrow> Some r | None \<Rightarrow> find_key k (bd_log db))"

text \<open>The row that an upsert compares with has the values of the row to write.\<close>
definition up_to_date :: "bucket_row \<Rightarrow> bucket_db \<Rightarrow> bool" where
  "up_to_date b db = (case bucket_at (bucket_key b) db of Some r \<Rightarrow> same_values r b | None \<Rightarrow> False)"

text \<open>Rows that differ in the columns that are written once only.\<close>
definition alike :: "bucket_row \<Rightarrow> bucket_row \<Rightarrow> bool" where
  "alike a b = (a\<lparr>bu_site := bu_site b, bu_gran_name := bu_gran_name b, bu_duration := bu_duration b\<rparr> = b)"

lemma same_values_refl [simp]: "same_values b b"
  by (simp add: same_values_def)

lemma find_key_filter: "find_key k rows = (case filter (\<lambda>r. bucket_key r = k) rows of [] \<Rightarrow> None | r # _ \<Rightarrow> Some r)"
  by (induction rows) (auto simp: find_key_def)

lemma find_key_update:
  "(\<And>x. bucket_key (f x) = bucket_key x) \<Longrightarrow>
    find_key k (update_where (\<lambda>b. bucket_key b = k) f rows) = map_option f (find_key k rows)"
  by (induction rows) (auto simp: update_where_def find_key_def)

lemma find_key_append: "find_key k (xs @ ys) = (case find_key k xs of Some r \<Rightarrow> Some r | None \<Rightarrow> find_key k ys)"
  by (simp add: find_key_def find_append split: option.split)

lemma find_key_one: "find_key k [b] = (if bucket_key b = k then Some b else None)"
  by (simp add: find_key_def)

lemma up_to_date_skips: "up_to_date b db \<Longrightarrow> upsert_bucket b db = (None, db)"
  by (auto simp: up_to_date_def bucket_at_def upsert_bucket_def Let_def split: option.splits)

lemma up_to_date_at: "up_to_date b db \<Longrightarrow> \<exists>r. bucket_at (bucket_key b) db = Some r \<and> same_values r b"
  by (auto simp: up_to_date_def split: option.splits)

lemma up_to_date_other:
  assumes "bucket_key g \<noteq> bucket_key b"
  shows "up_to_date b (snd (upsert_bucket g db)) = up_to_date b db"
proof -
  have f: "filter (\<lambda>r. bucket_key r = bucket_key b) (bd_live (snd (upsert_bucket g db))) = filter (\<lambda>r. bucket_key r = bucket_key b) (bd_live db)"
    "filter (\<lambda>r. bucket_key r = bucket_key b) (bd_log (snd (upsert_bucket g db))) = filter (\<lambda>r. bucket_key r = bucket_key b) (bd_log db)"
    using assms by (auto intro!: filter_upsert)
  show ?thesis by (simp only: up_to_date_def bucket_at_def find_key_filter f)
qed

lemma alike_same:
  assumes "alike g b"
  shows "bucket_key g = bucket_key b" "same_values r g = same_values r b" "overwrite_row g = overwrite_row b"
  using arg_cong[OF assms[unfolded alike_def], of bu_kpis] arg_cong[OF assms[unfolded alike_def], of bu_job]
    arg_cong[OF assms[unfolded alike_def], of bu_job_name] arg_cong[OF assms[unfolded alike_def], of bu_name]
    arg_cong[OF assms[unfolded alike_def], of bu_path] arg_cong[OF assms[unfolded alike_def], of bu_type]
    arg_cong[OF assms[unfolded alike_def], of bu_entity] arg_cong[OF assms[unfolded alike_def], of bu_gran]
    arg_cong[OF assms[unfolded alike_def], of bu_start] arg_cong[OF assms[unfolded alike_def], of bu_shift]
    arg_cong[OF assms[unfolded alike_def], of bu_date] arg_cong[OF assms[unfolded alike_def], of bu_shift_name]
  by (auto simp: bucket_key_def same_values_def overwrite_row_def[abs_def])

lemma alike_refl [simp]: "alike b b"
  by (simp add: alike_def)

lemma up_to_date_upsert:
  assumes "stored_row g = g" "alike g b"
  shows "up_to_date b (snd (upsert_bucket g db))"
proof -
  have "same_values (overwrite_row b r) b" for r by (simp add: same_values_def overwrite_row_def)
  moreover have "same_values g b" using alike_same(2)[OF assms(2), of g] by simp
  ultimately show ?thesis
    using assms by (auto simp: up_to_date_def bucket_at_def upsert_bucket_def Let_def alike_same find_key_update find_key_append find_key_one split: option.splits)
qed

section \<open>A sequence of upserts\<close>

lemma upsert_all_snd: "snd (upsert_all (f # fs) db) = snd (upsert_all fs (snd (upsert_bucket (f db) db)))"
  by (simp split: prod.splits)

lemma upsert_all_fixed [simp]: "fixed_tables (snd (upsert_all fs db)) = fixed_tables db"
proof (induction fs arbitrary: db)
  case (Cons f fs)
  show ?case unfolding upsert_all_snd Cons.IH by simp
qed simp

text \<open>
  When the rows do not depend on what the sequence itself writes and rows with one key agree,
  every row is found afterwards.
\<close>
lemma upsert_all_reads:
  assumes "\<And>g d. g \<in> W \<Longrightarrow> f (snd (upsert_bucket (g d) d)) = f d" "set fs \<subseteq> W"
  shows "f (snd (upsert_all fs db)) = f db"
  using assms(2)
proof (induction fs arbitrary: db)
  case (Cons g fs)
  then have "f (snd (upsert_all fs (snd (upsert_bucket (g db) db)))) = f db" using assms(1) by simp
  then show ?case unfolding upsert_all_snd .
qed simp

lemma upsert_all_rows:
  assumes reads: "\<And>h g d. h \<in> insert f W \<Longrightarrow> g \<in> W \<Longrightarrow> h (snd (upsert_bucket (g d) d)) = h d"
    and "set fs \<subseteq> W" "\<And>g. g \<in> W \<Longrightarrow> stored_row (g db) = g db"
    and "\<And>g. g \<in> W \<Longrightarrow> bucket_key (g db) = bucket_key (f db) \<Longrightarrow> alike (g db) (f db)"
    and "f \<in> set fs \<or> up_to_date (f db) db"
  shows "up_to_date (f db) (snd (upsert_all fs db))"
  using assms(2-)
proof (induction fs arbitrary: db)
  case (Cons g fs)
  let ?d = "snd (upsert_bucket (g db) db)"
  have same: "h ?d = h db" if "h \<in> insert f W" for h using Cons.prems(1) reads that by auto
  note f = insertI1[of f W]
  have "up_to_date (f ?d) (snd (upsert_all fs ?d))"
  proof (rule Cons.IH)
    show "f \<in> set fs \<or> up_to_date (f ?d) ?d"
    proof (cases "bucket_key (f db) = bucket_key (g db)")
      case True
      then show ?thesis using Cons.prems(1-3) same[OF f] by (auto intro!: up_to_date_upsert)
    next
      case False
      then show ?thesis using Cons.prems(4) same[OF f] by (auto simp: up_to_date_other)
    qed
  next
    show "stored_row (h ?d) = h ?d" if "h \<in> W" for h unfolding same[OF insertI2[OF that]] using Cons.prems(2) that .
    show "alike (h ?d) (f ?d)" if "h \<in> W" "bucket_key (h ?d) = bucket_key (f ?d)" for h
      using that(2) unfolding same[OF insertI2[OF that(1)]] same[OF f] using Cons.prems(3) that(1) by simp
  qed (use Cons.prems(1) in simp)
  then show ?case unfolding upsert_all_snd same[OF f] .
qed simp

lemma upsert_all_settled: "(\<And>f. f \<in> set fs \<Longrightarrow> up_to_date (f db) db) \<Longrightarrow> upsert_all fs db = ([], db)"
  by (induction fs) (auto simp: up_to_date_skips)

section \<open>A rollup leaves sums and settles\<close>

lemma first_per_unique:
  "x \<in> set (first_per f seen xs) \<Longrightarrow> f x \<notin> set seen"
  "x \<in> set (first_per f seen xs) \<Longrightarrow> y \<in> set (first_per f seen xs) \<Longrightarrow> f x = f y \<Longrightarrow> x = y"
proof (induction f seen xs arbitrary: x y rule: first_per.induct)
  case (2 f seen z xs)
  { case 1 then show ?case using "2.IH"(1)[of x] "2.IH"(3)[of x] by (auto split: if_splits) next
    case 2 then show ?case using "2.IH"(2)[of x y] "2.IH"(4)[of x y] "2.IH"(3)[of x] "2.IH"(3)[of y] by (auto split: if_splits) }
qed simp_all

lemma time_targets_unique:
  assumes "t \<in> set (time_targets tz inp db)" "t' \<in> set (time_targets tz inp db)"
    and "rt_gran t = rt_gran t'" "hb_start (rt_window t) = hb_start (rt_window t')"
  shows "t = t'"
  using assms
  by (auto simp: time_targets_def shift_target_def day_target_def affected_shifts_def affected_days_def shift_bucket_def
      dest: first_per_unique(2)[where f = sw_start])

lemma time_targets_gran: "t \<in> set (time_targets tz inp db) \<Longrightarrow> rt_gran t \<noteq> Hour"
  by (auto simp: time_targets_def shift_target_def day_target_def)

lemma rollup_targets_same:
  assumes "u \<in> set (rollup_targets tz inp db)" "v \<in> set (rollup_targets tz inp db)"
    and "rt_gran u = rt_gran v" "hb_start (rt_window u) = hb_start (rt_window v)"
  shows "rt_shift u = rt_shift v" "rt_date u = rt_date v" "rt_shift_name u = rt_shift_name v"
proof -
  have "rt_shift u = rt_shift v \<and> rt_date u = rt_date v \<and> rt_shift_name u = rt_shift_name v"
  proof (cases "rt_gran u = Hour")
    case True
    then have "u \<notin> set (time_targets tz inp db)" "v \<notin> set (time_targets tz inp db)"
      using time_targets_gran assms(3) by auto
    with assms show ?thesis by (auto simp: rollup_targets_def hour_target_def)
  next
    case False
    with assms have "u \<in> set (time_targets tz inp db)" "v \<in> set (time_targets tz inp db)"
      by (auto simp: rollup_targets_def hour_target_def)
    with time_targets_unique assms(3,4) show ?thesis by blast
  qed
  then show "rt_shift u = rt_shift v" "rt_date u = rt_date v" "rt_shift_name u = rt_shift_name v" by auto
qed

lemma sum_kpis_cycle: "bk_standard_cycle (sum_kpis ks) = None"
  by (induction ks rule: rev_induct) (simp_all add: sum_kpis_def zero_kpis_def add_kpis_def)

lemma entity_rollup_stored: "stored_row (entity_rollup site p ids t db) = entity_rollup site p ids t db"
  by (simp add: stored_row_def entity_rollup_def sum_entities_def sum_kpis_cycle Let_def)

lemma time_rollup_stored:
  assumes "\<And>b. b \<in> set (bd_live db) \<union> set (bd_log db) \<Longrightarrow> stored_row b = b"
  shows "stored_row (time_rollup site et eid name path t db) = time_rollup site et eid name path t db"
proof -
  let ?rows = "window_rows db et eid Hour (rt_window t)"
  have "round2 c = c" if "b \<in> set ?rows" "bk_standard_cycle (bu_kpis b) = Some c" for b c
  proof -
    have "stored_row b = b" using that(1) by (intro assms) (auto simp: window_rows_def Let_def)
    then have "bk_standard_cycle (bu_kpis (stored_row b)) = bk_standard_cycle (bu_kpis b)" by simp
    then show ?thesis using that(2) by (simp add: stored_row_def)
  qed
  then have "map_option round2 (ws_cycle (sum_window db et eid Hour (rt_window t))) = ws_cycle (sum_window db et eid Hour (rt_window t))"
    by (cases "find (\<lambda>b. bk_standard_cycle (bu_kpis b) \<noteq> None) (rev ?rows)")
      (auto simp: sum_window_def Let_def dest!: find_Some_in)
  then show ?thesis by (simp add: stored_row_def time_rollup_def with_cycle_def Let_def)
qed

text \<open>The chain of a work center has no repetition: it ends.\<close>
lemma centers_up_suffix:
  "centers_up ws i = Some ch \<Longrightarrow> x \<in> set ch \<Longrightarrow> \<exists>ch'. centers_up ws (wk_id x) = Some ch' \<and> length ch' \<le> length ch"
proof (induction ch arbitrary: i)
  case (Cons y ys)
  then obtain w where w: "find (\<lambda>w. wk_id w = i) ws = Some w" "y = w" "wk_id w = i"
      "ys = [] \<or> (\<exists>p. centers_up ws p = Some ys)"
    by (subst (asm) (2) centers_up.simps) (auto split: option.splits Option.bind_splits dest: find_Some_in)
  show ?case
  proof (cases "x = y")
    case True
    then show ?thesis using Cons.prems(1) w by auto
  next
    case False
    then obtain p where "x \<in> set ys" "centers_up ws p = Some ys" using Cons.prems(2) w(4) by auto
    with Cons.IH show ?thesis by fastforce
  qed
qed simp

lemma centers_up_distinct: "centers_up ws i = Some ch \<Longrightarrow> distinct (map wk_id ch)"
proof (induction ch arbitrary: i)
  case (Cons y ys)
  then have y: "wk_id y = i" "ys = [] \<or> (\<exists>p. centers_up ws p = Some ys)"
    by (subst (asm) (2) centers_up.simps; auto split: option.splits Option.bind_splits dest: find_Some_in)+
  have "wk_id y \<notin> wk_id ` set ys"
  proof
    assume "wk_id y \<in> wk_id ` set ys"
    then obtain x p where "x \<in> set ys" "wk_id x = i" "centers_up ws p = Some ys" using y by auto
    with centers_up_suffix[of ws p ys x] Cons.prems show False by auto
  qed
  with y(2) Cons.IH show ?case by auto
qed simp

lemma chain_targets_map: "map tg_entity (chain_targets p ch) = map wk_id ch"
  by (induction p ch rule: chain_targets.induct) auto

lemma increment_targets_chain:
  assumes "increment_targets db st site = Some targets"
  obtains ch a b where "targets = a # chain_targets (site_path site) ch @ [b]" "tg_type a = Station" "tg_type b = Site"
    "distinct (map wk_id ch)"
proof -
  let ?row = "case map_of (bd_sites db) site of None \<Rightarrow> None | Some n \<Rightarrow> map_option (\<lambda>s. (s, n)) (find_station st db)"
  let ?chain = "case Option.bind ?row (\<lambda>r. st_center (fst r)) of None \<Rightarrow> Some [] | Some w \<Rightarrow> centers_up (bd_centers db) w"
  obtain ch where ch: "?chain = Some ch" using assms unfolding increment_targets_def Let_def by (cases ?chain) simp_all
  have d: "distinct (map wk_id ch)"
    using ch centers_up_distinct[of "bd_centers db"] by (cases "Option.bind ?row (\<lambda>r. st_center (fst r))") simp_all
  show ?thesis
    by (rule that[OF _ _ _ d]) (use assms in \<open>unfold increment_targets_def Let_def ch option.case(2) option.inject, auto\<close>)
qed

lemma parents_distinct:
  assumes "increment_targets db st site = Some targets" "p \<in> set targets" "q \<in> set targets"
    and "tg_type p = tg_type q" "tg_entity p = tg_entity q" "tg_type p \<noteq> Station"
  shows "p = q"
proof -
  obtain ch a b where t: "targets = a # chain_targets (site_path site) ch @ [b]" "tg_type a = Station" "tg_type b = Site"
    and d: "distinct (map wk_id ch)" by (rule increment_targets_chain[OF assms(1)])
  have "distinct (map tg_entity (chain_targets (site_path site) ch))" using d by (simp add: chain_targets_map)
  moreover have "tg_type x = Workcenter" if "x \<in> set (chain_targets (site_path site) ch)" for x
    using chain_targets_entities(2) that .
  ultimately show ?thesis using assms(2-) t by (auto simp: distinct_map dest: inj_onD)
qed

text \<open>The two sequences of writes of a station rollup; they depend on the other tables only.\<close>
definition station_plan ::
  "tz_offset \<Rightarrow> rollup_input \<Rightarrow> bucket_db \<Rightarrow> ((bucket_db \<Rightarrow> bucket_row) list \<times> (bucket_db \<Rightarrow> bucket_row) list) option" where
  "station_plan tz inp db =
     Option.bind (case ri_entity inp of
              Some e \<Rightarrow> Some e
            | None \<Rightarrow> map_option (Pair (resolve_entity_name db Station (ri_station inp)))
                        (station_entity_path db (ri_station inp) (ri_site inp)))
       (\<lambda>(name, path).
          (let fs = map (time_rollup (ri_site inp) Station (ri_station inp) name path) (time_targets tz inp (bd_shifts db))
           in if ri_skip_parents inp then Some (fs, [])
              else Option.bind (increment_targets db (ri_station inp) (ri_site inp))
                     (\<lambda>targets. map_option (Pair fs)
                        (parent_writes (ri_site inp) (rollup_targets tz inp (bd_shifts db))
                           (filter (\<lambda>p. tg_type p \<noteq> Station) targets) db))))"

lemma fixed_reads:
  assumes "fixed_tables d = fixed_tables db"
  shows "find_station st d = find_station st db" "increment_targets d st site = increment_targets db st site"
    "child_stations d et eid = child_stations db et eid" "station_entity_path d st site = station_entity_path db st site"
    "resolve_entity_name d Station st = resolve_entity_name db Station st"
  unfolding find_station_def increment_targets_def child_stations_def station_entity_path_def center_entity_path_def
    resolve_entity_name_def fixed_tables_fields[OF assms] by simp_all

lemma parent_writes_fixed:
  assumes "fixed_tables d = fixed_tables db"
  shows "parent_writes site ts ps d = parent_writes site ts ps db"
  by (induction ps) (simp_all add: fixed_reads(3)[OF assms] cong: option.case_cong)

lemma station_plan_fixed:
  assumes "fixed_tables d = fixed_tables db"
  shows "station_plan tz inp d = station_plan tz inp db"
  unfolding station_plan_def fixed_reads[OF assms] fixed_tables_fields(5)[OF assms] parent_writes_fixed[OF assms] ..

lemma rollup_station_plan:
  "rollup_station_buckets tz inp db =
     map_option (\<lambda>(fs, ws). case upsert_all fs db of (a, d) \<Rightarrow> (case upsert_all ws d of (b, d') \<Rightarrow> (a @ b, d'))) (station_plan tz inp db)"
proof -
  have f: "fixed_tables d = fixed_tables db" if "upsert_all fs db = (a, d)" for fs a d
    using upsert_all_fixed[of fs db] that by simp
  show ?thesis
    by (cases "case ri_entity inp of Some e \<Rightarrow> Some e
            | None \<Rightarrow> map_option (Pair (resolve_entity_name db Station (ri_station inp)))
                        (station_entity_path db (ri_station inp) (ri_site inp))")
      (auto simp: rollup_station_buckets_def station_plan_def Let_def fixed_reads[OF f] parent_writes_fixed[OF f]
        split: prod.splits option.splits Option.bind_splits)
qed

lemma parent_writes_set:
  assumes "parent_writes site ts ps db = Some ws"
  shows "set ws = {entity_rollup site p ids t |p ids t. p \<in> set ps \<and> t \<in> set ts \<and> child_stations db (tg_type p) (tg_entity p) = Some ids}"
  using assms
proof (induction ps arbitrary: ws)
  case (Cons p ps)
  then obtain ids ws' where c: "child_stations db (tg_type p) (tg_entity p) = Some ids"
      and ws': "parent_writes site ts ps db = Some ws'" "ws = map (entity_rollup site p ids) ts @ ws'"
    by (auto split: option.splits)
  show ?case unfolding ws'(2) set_append Cons.IH[OF ws'(1)] using c by auto
qed simp

lemma parent_writes_children:
  assumes "parent_writes site ts ps db = Some ws" "p \<in> set ps"
  shows "\<exists>ids. child_stations db (tg_type p) (tg_entity p) = Some ids"
  using assms by (induction site ts ps db arbitrary: ws rule: parent_writes.induct) (auto split: option.splits)

lemma station_plan_parts:
  assumes "station_plan tz inp db = Some (fs, ws)"
  obtains name path where "fs = map (time_rollup (ri_site inp) Station (ri_station inp) name path) (time_targets tz inp (bd_shifts db))"
    "if ri_skip_parents inp then ws = [] else \<exists>targets. increment_targets db (ri_station inp) (ri_site inp) = Some targets \<and>
       parent_writes (ri_site inp) (rollup_targets tz inp (bd_shifts db)) (filter (\<lambda>p. tg_type p \<noteq> Station) targets) db = Some ws"
proof -
  from assms obtain name path where "(case ri_entity inp of
              Some e \<Rightarrow> Some e
            | None \<Rightarrow> map_option (Pair (resolve_entity_name db Station (ri_station inp)))
                        (station_entity_path db (ri_station inp) (ri_site inp))) = Some (name, path)"
    unfolding station_plan_def by (auto split: Option.bind_splits)
  with assms show ?thesis
    by (intro that[of name path]) (auto simp: station_plan_def Let_def split: if_splits Option.bind_splits)
qed

lemma time_rollup_reads:
  assumes "rt_gran t' \<noteq> Hour"
  shows "time_rollup site et eid name path t (snd (upsert_bucket (time_rollup site et eid name path t' d') d))
    = time_rollup site et eid name path t d"
  using assms by (simp add: time_rollup_def sum_window_upsert Let_def)

lemma parent_reads:
  assumes "tg_type p \<noteq> Station"
  shows "time_rollup s Station eid name path t (snd (upsert_bucket (entity_rollup site p ids t' d') d)) = time_rollup s Station eid name path t d"
    "entity_rollup s q ids' t (snd (upsert_bucket (entity_rollup site p ids t' d') d)) = entity_rollup s q ids' t d"
proof -
  let ?d = "snd (upsert_bucket (entity_rollup site p ids t' d') d)"
  have ty: "bu_type (entity_rollup site p ids t' d') \<noteq> Station" using assms by (simp add: entity_rollup_def)
  have f: "fixed_tables ?d = fixed_tables d" by simp
  show "time_rollup s Station eid name path t ?d = time_rollup s Station eid name path t d"
    using sum_window_upsert[of "entity_rollup site p ids t' d'" Station eid Hour d] ty by (simp add: time_rollup_def Let_def)
  show "entity_rollup s q ids' t ?d = entity_rollup s q ids' t d"
    unfolding entity_rollup_def[of s q ids' t] sum_entities_upsert[OF ty] fixed_tables_fields[OF f] ..
qed

lemma time_rollup_same_key:
  assumes "t \<in> set (time_targets tz inp sd)" "t' \<in> set (time_targets tz inp sd)"
    and "bucket_key (time_rollup site et eid name path t d) = bucket_key (time_rollup site et eid name path t' d)"
  shows "t = t'"
  using assms(3) by (intro time_targets_unique[OF assms(1,2)]) (auto simp: bucket_key_def time_rollup_def Let_def)

lemma station_rollup_rows:
  assumes plan: "station_plan tz inp db = Some (fs, ws)"
    and cols: "\<And>b. b \<in> set (bd_live db) \<union> set (bd_log db) \<Longrightarrow> stored_row b = b"
    and db': "db' = snd (upsert_all ws (snd (upsert_all fs db)))" and f: "f \<in> set fs \<union> set ws"
  shows "up_to_date (f db') db'"
proof -
  let ?d = "snd (upsert_all fs db)"
  let ?ts = "time_targets tz inp (bd_shifts db)"
  obtain name path where fs: "fs = map (time_rollup (ri_site inp) Station (ri_station inp) name path) ?ts"
    and parents: "if ri_skip_parents inp then ws = [] else \<exists>targets. increment_targets db (ri_station inp) (ri_site inp) = Some targets \<and>
       parent_writes (ri_site inp) (rollup_targets tz inp (bd_shifts db)) (filter (\<lambda>p. tg_type p \<noteq> Station) targets) db = Some ws"
    by (rule station_plan_parts[OF plan])
  have w: "\<exists>p ids t. g = entity_rollup (ri_site inp) p ids t \<and> tg_type p \<noteq> Station" if "g \<in> set ws" for g
    using parents that parent_writes_set by (cases "ri_skip_parents inp") (simp, fastforce)
  have w_same: "alike (g ?d) (h ?d)" if gh: "g \<in> set ws" "h \<in> set ws" and key: "bucket_key (g ?d) = bucket_key (h ?d)" for g h
  proof -
    from gh(1) have "\<not> ri_skip_parents inp" using parents by auto
    with parents obtain targets where t: "increment_targets db (ri_station inp) (ri_site inp) = Some targets"
      "parent_writes (ri_site inp) (rollup_targets tz inp (bd_shifts db)) (filter (\<lambda>p. tg_type p \<noteq> Station) targets) db = Some ws" by auto
    from gh[unfolded parent_writes_set[OF t(2)]] obtain p ids u q ids' v
      where g: "g = entity_rollup (ri_site inp) p ids u" "p \<in> set targets" "tg_type p \<noteq> Station"
          "child_stations db (tg_type p) (tg_entity p) = Some ids" "u \<in> set (rollup_targets tz inp (bd_shifts db))"
        and h: "h = entity_rollup (ri_site inp) q ids' v" "q \<in> set targets"
          "child_stations db (tg_type q) (tg_entity q) = Some ids'" "v \<in> set (rollup_targets tz inp (bd_shifts db))" by auto
    have k: "tg_type p = tg_type q" "tg_entity p = tg_entity q" "rt_gran u = rt_gran v"
        "hb_start (rt_window u) = hb_start (rt_window v)"
      using key by (auto simp: g(1) h(1) bucket_key_def entity_rollup_def)
    note uv = rollup_targets_same[OF g(5) h(4) k(3,4)]
    have "p = q" by (rule parents_distinct[OF t(1) g(2) h(2) k(1,2) g(3)])
    moreover from this g(4) h(3) have "ids = ids'" by simp
    ultimately show ?thesis using k uv by (simp add: g(1) h(1) alike_def entity_rollup_def cong: option.case_cong)
  qed
  have f_reads: "h (snd (upsert_bucket (g d) d)) = h d" if "g \<in> set fs" "h \<in> set fs" for g h d
    using that time_targets_gran by (auto simp: fs time_rollup_reads)
  have w_reads: "h (snd (upsert_bucket (g d) d)) = h d" if "g \<in> set ws" "h \<in> set fs \<union> set ws" for g h d
    using w[OF that(1)] that(2) w[of h] by (auto simp: fs parent_reads)
  have stored: "stored_row (g db) = g db" if "g \<in> set fs" for g
    using that cols by (auto simp: fs intro!: time_rollup_stored)
  have first: "up_to_date (g db) ?d" "g ?d = g db" if "g \<in> set fs" for g
  proof -
    show "up_to_date (g db) ?d"
    proof (rule upsert_all_rows[where W = "set fs"])
      show "alike (h db) (g db)" if "h \<in> set fs" "bucket_key (h db) = bucket_key (g db)" for h
        using that \<open>g \<in> set fs\<close> by (auto simp: fs dest: time_rollup_same_key)
    qed (use that f_reads stored in auto)
    show "g ?d = g db" using f_reads that by (intro upsert_all_reads[where W = "set fs"]) auto
  qed
  have date: "up_to_date (f ?d) db'"
    unfolding db'
  proof (rule upsert_all_rows[where W = "set ws"])
    show "stored_row (h ?d) = h ?d" if "h \<in> set ws" for h using w[OF that] entity_rollup_stored by auto
    show "alike (h ?d) (f ?d)" if "h \<in> set ws" "bucket_key (h ?d) = bucket_key (f ?d)" for h
    proof (cases "f \<in> set ws")
      case True with that w_same show ?thesis by blast
    next
      case False
      with f obtain t where "f = time_rollup (ri_site inp) Station (ri_station inp) name path t" by (auto simp: fs)
      with w[OF that(1)] that(2) show ?thesis by (auto simp: bucket_key_def time_rollup_def entity_rollup_def Let_def)
    qed
    show "f \<in> set ws \<or> up_to_date (f ?d) ?d"
      using f first[of f] by (cases "f \<in> set fs") auto
  qed (use f w_reads in auto)
  have reads: "f db' = f ?d" unfolding db' using f w_reads by (intro upsert_all_reads[where W = "set ws"]) auto
  from date reads show ?thesis by simp
qed

text \<open>
  C11: After the rollup of a station, the bucket of each affected shift and day holds the sum of
  the hour buckets in its window, live or archived, and the job of the last of them that has one,
  and, for every work center above the station and the site, the bucket of each hour, shift and
  day holds the sum over its child stations.
\<close>
theorem rollup_sums:
  assumes "rollup_station_buckets tz inp db = Some (changed, db')"
    and "\<And>b. b \<in> set (bd_live db) \<union> set (bd_log db) \<Longrightarrow> stored_row b = b"
  shows "(\<forall>t. t \<in> set (time_targets tz inp (bd_shifts db)) \<longrightarrow>
      (\<exists>r. bucket_at (Station, ri_station inp, rt_gran t, hb_start (rt_window t)) db' = Some r
        \<and> row_kpis r = ws_kpis (sum_window db' Station (ri_station inp) Hour (rt_window t))
        \<and> bu_job r = ws_job (sum_window db' Station (ri_station inp) Hour (rt_window t))))
    \<and> (\<not> ri_skip_parents inp \<longrightarrow>
        (\<exists>targets. increment_targets db (ri_station inp) (ri_site inp) = Some targets
          \<and> (\<forall>p t. p \<in> set targets \<and> tg_type p \<noteq> Station \<and> t \<in> set (rollup_targets tz inp (bd_shifts db)) \<longrightarrow>
              (\<exists>ids r. child_stations db (tg_type p) (tg_entity p) = Some ids
                \<and> bucket_at (tg_type p, tg_entity p, rt_gran t, hb_start (rt_window t)) db' = Some r
                \<and> row_kpis r = sum_entities db' ids (rt_gran t) (hb_start (rt_window t))))))"
proof -
  obtain fs ws where plan: "station_plan tz inp db = Some (fs, ws)" and db': "db' = snd (upsert_all ws (snd (upsert_all fs db)))"
    using assms(1) by (auto simp: rollup_station_plan case_prod_beta)
  obtain name path where fs: "fs = map (time_rollup (ri_site inp) Station (ri_station inp) name path) (time_targets tz inp (bd_shifts db))"
    and parents: "if ri_skip_parents inp then ws = [] else \<exists>targets. increment_targets db (ri_station inp) (ri_site inp) = Some targets \<and>
       parent_writes (ri_site inp) (rollup_targets tz inp (bd_shifts db)) (filter (\<lambda>p. tg_type p \<noteq> Station) targets) db = Some ws"
    by (rule station_plan_parts[OF plan])
  note rows = station_rollup_rows[OF plan assms(2) db', THEN up_to_date_at]
  have "\<exists>r. bucket_at (Station, ri_station inp, rt_gran t, hb_start (rt_window t)) db' = Some r
        \<and> row_kpis r = ws_kpis (sum_window db' Station (ri_station inp) Hour (rt_window t))
        \<and> bu_job r = ws_job (sum_window db' Station (ri_station inp) Hour (rt_window t))"
    if "t \<in> set (time_targets tz inp (bd_shifts db))" for t
    using rows[of "time_rollup (ri_site inp) Station (ri_station inp) name path t"] that
    by (auto simp: fs bucket_key_def time_rollup_def same_values_def row_kpis_def with_cycle_def sum_window_def sum_kpis_cycle Let_def)
  moreover have "\<exists>ids r. child_stations db (tg_type p) (tg_entity p) = Some ids
        \<and> bucket_at (tg_type p, tg_entity p, rt_gran t, hb_start (rt_window t)) db' = Some r
        \<and> row_kpis r = sum_entities db' ids (rt_gran t) (hb_start (rt_window t))"
    if "parent_writes (ri_site inp) (rollup_targets tz inp (bd_shifts db)) (filter (\<lambda>p. tg_type p \<noteq> Station) targets) db = Some ws"
      "p \<in> set targets" "tg_type p \<noteq> Station" "t \<in> set (rollup_targets tz inp (bd_shifts db))" for targets p t
  proof -
    note t = that
    obtain ids where "child_stations db (tg_type p) (tg_entity p) = Some ids"
      using parent_writes_children[OF t(1)] t(2,3) by auto
    with t(2-) show ?thesis
      using rows[of "entity_rollup (ri_site inp) p ids t"] unfolding parent_writes_set[OF t(1)]
      by (fastforce simp: bucket_key_def entity_rollup_def same_values_def row_kpis_def sum_entities_def sum_kpis_cycle Let_def)
  qed
  ultimately show ?thesis using parents by (auto split: if_splits)
qed

lemma job_rollup_rows:
  assumes "\<And>b. b \<in> set (bd_live db) \<union> set (bd_log db) \<Longrightarrow> stored_row b = b"
    and fs: "fs = map (time_rollup site JobEntity eid name path) (time_targets tz inp (bd_shifts db))" and f: "f \<in> set fs"
  shows "up_to_date (f (snd (upsert_all fs db))) (snd (upsert_all fs db))"
proof -
  have reads: "h (snd (upsert_bucket (g d) d)) = h d" if "g \<in> set fs" "h \<in> set fs" for g h d
    using that time_targets_gran by (auto simp: fs time_rollup_reads)
  have stored: "stored_row (h db) = h db" if "h \<in> set fs" for h using that assms(1) by (auto simp: fs intro!: time_rollup_stored)
  have "up_to_date (f db) (snd (upsert_all fs db))"
  proof (rule upsert_all_rows[where W = "set fs"])
    show "alike (h db) (f db)" if "h \<in> set fs" "bucket_key (h db) = bucket_key (f db)" for h
      using that f by (auto simp: fs dest: time_rollup_same_key)
  qed (use f reads stored in auto)
  moreover have "f (snd (upsert_all fs db)) = f db" using reads f by (intro upsert_all_reads[where W = "set fs"]) auto
  ultimately show ?thesis by simp
qed

text \<open>
  C36: A rollup run again on the tables that it left changes nothing and reports no bucket as
  changed.  The rows in the tables are taken to have the precision of their columns.
\<close>
theorem rollup_idempotent:
  assumes "rollup_buckets hash tz inp db = Some (changed, db')"
    and "\<And>b. b \<in> set (bd_live db) \<union> set (bd_log db) \<Longrightarrow> stored_row b = b"
  shows "rollup_buckets hash tz inp db' = Some ([], db')"
proof (cases "ri_windows inp = []")
  case False
  show ?thesis
  proof (cases "ri_job inp")
    case None
    then have "rollup_station_buckets tz inp db = Some (changed, db')" using assms(1) False by (simp add: rollup_buckets_def)
    then obtain fs ws where plan: "station_plan tz inp db = Some (fs, ws)" and db': "db' = snd (upsert_all ws (snd (upsert_all fs db)))"
      by (auto simp: rollup_station_plan case_prod_beta)
    have fixed: "fixed_tables db' = fixed_tables db" by (simp add: db')
    note rows = station_rollup_rows[OF plan assms(2) db']
    have "upsert_all fs db' = ([], db')" "upsert_all ws db' = ([], db')" by (intro upsert_all_settled rows; simp)+
    then show ?thesis
      using None False by (simp add: rollup_buckets_def rollup_station_plan station_plan_fixed[OF fixed] plan)
  next
    case (Some j)
    obtain i name path where j: "j = (i, name, path)" by (cases j) auto
    let ?fs = "map (time_rollup (ri_site inp) JobEntity (hash (ri_station inp) i) name path) (time_targets tz inp (bd_shifts db))"
    have db': "db' = snd (upsert_all ?fs db)" using assms(1) False Some by (auto simp: rollup_buckets_def rollup_job_buckets_def j)
    have fixed: "fixed_tables db' = fixed_tables db" by (simp add: db')
    have "upsert_all ?fs db' = ([], db')"
      unfolding db' by (intro upsert_all_settled job_rollup_rows[OF assms(2) refl])
    then show ?thesis
      using Some False by (simp add: rollup_buckets_def rollup_job_buckets_def j fixed_tables_fields[OF fixed])
  qed
qed (use assms(1) in \<open>simp add: rollup_buckets_def\<close>)

text \<open>Two hours of counts on a station below two work centers, for the checks of the sequel.\<close>
definition sample_hour :: "ms \<Rightarrow> int \<Rightarrow> bucket_row" where
  "sample_hour t n =
     \<lparr>bu_site = ''s'', bu_type = Station, bu_entity = ''p'', bu_name = ''Press'', bu_path = ''x'', bu_gran = Hour,
      bu_gran_name = ''Hour'', bu_start = t, bu_duration = 3600, bu_kpis = zero_kpis\<lparr>bk_run := n\<rparr>, bu_shift = None,
      bu_date = None, bu_shift_name = None, bu_job = None, bu_job_name = None\<rparr>"

definition sample_rollup_db :: bucket_db where
  "sample_rollup_db = sample_bucket_db\<lparr>bd_live := [sample_hour 3600000 5], bd_log := [sample_hour 0 7]\<rparr>"

definition sample_input :: rollup_input where
  "sample_input =
     \<lparr>ri_station = ''p'', ri_site = ''s'', ri_windows = [\<lparr>hb_start = 3600000, hb_duration = 3600\<rparr>], ri_date = None,
      ri_shift_name = None, ri_entity = None, ri_job = None, ri_skip_parents = False\<rparr>"

lemma sample_rollup:
  "(case rollup_buckets (\<lambda>s j. j) (\<lambda>_. 0) sample_input sample_rollup_db of None \<Rightarrow> 0 | Some (ch, _) \<Rightarrow> length ch) = 7"
  by code_simp

lemma sample_rollup_runs:
  obtains ch db' where "rollup_buckets (\<lambda>s j. j) (\<lambda>_. 0) sample_input sample_rollup_db = Some (ch, db')" "length ch = 7"
    "rollup_station_buckets (\<lambda>_. 0) sample_input sample_rollup_db = Some (ch, db')"
  using sample_rollup
  by (auto split: option.splits prod.splits simp: rollup_buckets_def sample_input_def)

lemma sample_rows_stored: "b \<in> set (bd_live sample_rollup_db) \<union> set (bd_log sample_rollup_db) \<Longrightarrow> stored_row b = b"
  by (auto simp: sample_rollup_db_def sample_hour_def stored_row_def zero_kpis_def)

theorem rollup_idempotent_witness:
  "\<exists>ch db'. rollup_buckets (\<lambda>s j. j) (\<lambda>_. 0) sample_input sample_rollup_db = Some (ch, db') \<and> length ch = 7
    \<and> rollup_buckets (\<lambda>s j. j) (\<lambda>_. 0) sample_input db' = Some ([], db')"
  by (rule sample_rollup_runs) (use rollup_idempotent[OF _ sample_rows_stored] in blast)

lemma sample_rollup_targets:
  "increment_targets sample_rollup_db ''p'' ''s'' = increment_targets sample_bucket_db ''p'' ''s''"
  "child_stations sample_rollup_db Site ''s'' = Some [''p'', ''q'']"
  by (rule fixed_reads(2)) (simp_all add: fixed_tables_def sample_rollup_db_def child_stations_def sample_bucket_db_def)

theorem rollup_sums_witness:
  "\<exists>ch db' r. rollup_station_buckets (\<lambda>_. 0) sample_input sample_rollup_db = Some (ch, db')
    \<and> bucket_at (Site, ''s'', Hour, 3600000) db' = Some r \<and> row_kpis r = sum_entities db' [''p'', ''q''] Hour 3600000"
proof -
  obtain ch db' where run: "rollup_station_buckets (\<lambda>_. 0) sample_input sample_rollup_db = Some (ch, db')"
    by (rule sample_rollup_runs)
  let ?t = "hour_target (bd_shifts sample_rollup_db) ''p'' ''s'' None None \<lparr>hb_start = 3600000, hb_duration = 3600\<rparr>"
  have t: "?t \<in> set (rollup_targets (\<lambda>_. 0) sample_input (bd_shifts sample_rollup_db))"
    by (simp add: rollup_targets_def sample_input_def)
  have i: "\<not> ri_skip_parents sample_input" "ri_station sample_input = ''p''" "ri_site sample_input = ''s''"
    by (simp_all add: sample_input_def)
  from rollup_sums[OF run sample_rows_stored] i(1)
  obtain targets where targets: "increment_targets sample_rollup_db ''p'' ''s'' = Some targets"
    and sums: "\<And>p t. p \<in> set targets \<and> tg_type p \<noteq> Station \<and> t \<in> set (rollup_targets (\<lambda>_. 0) sample_input (bd_shifts sample_rollup_db)) \<Longrightarrow>
      \<exists>ids r. child_stations sample_rollup_db (tg_type p) (tg_entity p) = Some ids
        \<and> bucket_at (tg_type p, tg_entity p, rt_gran t, hb_start (rt_window t)) db' = Some r
        \<and> row_kpis r = sum_entities db' ids (rt_gran t) (hb_start (rt_window t))"
    unfolding i by blast
  let ?p = "\<lparr>tg_type = Site, tg_entity = ''s'', tg_name = ''Plant'', tg_path = ''site.s''\<rparr>"
  have "?p \<in> set targets" using targets unfolding sample_rollup_targets(1) sample_targets by auto
  with sums[of ?p ?t] t run show ?thesis by (auto simp: hour_target_def sample_rollup_targets(2))
qed

section \<open>Archival does not show\<close>

lemma window_rows_eq:
  assumes "mset (filter (in_window et eid g w) (bd_live d)
        @ filter (\<lambda>r. in_window et eid g w r \<and> bu_start r \<notin> bu_start ` set (filter (in_window et eid g w) (bd_live d))) (bd_log d))
      = mset rows" "inj_on bu_start (set rows)"
  shows "window_rows d et eid g w = sort_key bu_start rows"
proof -
  let ?l = "filter (in_window et eid g w) (bd_live d)"
  let ?all = "sort_key bu_start ?l @ filter (\<lambda>r. bu_start r \<notin> bu_start ` set (sort_key bu_start ?l)) (sort_key bu_start (filter (in_window et eid g w) (bd_log d)))"
  have m: "mset ?all = mset rows"
    unfolding assms(1)[symmetric] by (simp add: mset_filter filter_filter_mset)
  then have "inj_on bu_start (set ?all)" using assms(2) mset_eq_setD by metis
  moreover have "mset ?all = mset (sort_key bu_start rows)" unfolding m by simp
  ultimately show ?thesis unfolding window_rows_def Let_def by (intro sort_key_inj_key_eq) simp_all
qed

text \<open>
  C32: Moving rows to the archive changes no sum over a window: the sums read both tables.  It
  needs the keys to be unique in each table, which their indexes ensure, and that no archived
  key has become live again.
\<close>
theorem archive_does_not_show:
  assumes "distinct (map bucket_key (bd_live db))" "distinct (map bucket_key (bd_log db))"
    and "\<And>k. k \<in> set ks \<Longrightarrow> k \<in> bucket_key ` set (bd_live db) \<Longrightarrow> k \<notin> bucket_key ` set (bd_log db)"
  shows "sum_window (snd (move_rows ks db)) et eid g w = sum_window db et eid g w"
proof -
  let ?in = "in_window et eid g w" and ?moved = "\<lambda>b. bucket_key b \<in> set ks"
  let ?live = "filter ?in (bd_live db)" and ?db = "snd (move_rows ks db)"
  let ?rows = "?live @ filter (\<lambda>r. ?in r \<and> bu_start r \<notin> bu_start ` set ?live) (bd_log db)"
  have key: "bucket_key x = bucket_key y \<longleftrightarrow> bu_start x = bu_start y" if "?in x" "?in y" for x y
    using that by (auto simp: in_window_def bucket_key_def)
  have inj: "inj_on bu_start (set ?rows)"
  proof (rule inj_onI)
    fix x y
    assume "x \<in> set ?rows" "y \<in> set ?rows" and eq: "bu_start x = bu_start y"
    then have "x \<in> set (bd_live db) \<and> y \<in> set (bd_live db) \<or> x \<in> set (bd_log db) \<and> y \<in> set (bd_log db)"
      and "bucket_key x = bucket_key y" using key[of x y] by (auto simp: image_iff)
    then show "x = y" using assms(1,2) by (auto simp: distinct_map dest: inj_onD)
  qed
  have gone: "bucket_key b \<notin> bucket_key ` set (bd_log db)" if "b \<in> set (bd_live db)" "?moved b" for b
    using assms(3) that by blast
  have db: "bd_live ?db = filter (\<lambda>b. \<not> ?moved b) (bd_live db)" "bd_log ?db = bd_log db @ filter ?moved (bd_live db)"
    using gone by (auto simp: move_rows_def Let_def intro!: filter_cong)
  have "window_rows db et eid g w = sort_key bu_start ?rows" by (rule window_rows_eq[OF refl inj])
  moreover have "window_rows ?db et eid g w = sort_key bu_start ?rows"
  proof (rule window_rows_eq[OF _ inj])
    let ?new = "filter ?in (bd_live ?db)"
    have moved: "?moved x \<longleftrightarrow> ?moved y" if "?in x" "?in y" "bu_start x = bu_start y" for x y
      using that key by metis
    have a: "filter (\<lambda>r. ?in r \<and> bu_start r \<notin> bu_start ` set ?new) (filter ?moved (bd_live db)) = filter (\<lambda>r. ?in r \<and> ?moved r) (bd_live db)"
      unfolding filter_filter db using moved by (intro filter_cong refl) auto
    have "r \<notin> set (bd_log db)" if "?in r" "x \<in> set ?live" "?moved x" "bu_start r = bu_start x" for r x
      using that gone[of x] key[of r x] by (force simp: image_iff)
    then have b: "filter (\<lambda>r. ?in r \<and> bu_start r \<notin> bu_start ` set ?new) (bd_log db) = filter (\<lambda>r. ?in r \<and> bu_start r \<notin> bu_start ` set ?live) (bd_log db)"
      unfolding db by (intro filter_cong refl) fastforce
    have c: "mset (filter (\<lambda>r. ?in r \<and> \<not> ?moved r) (bd_live db)) + mset (filter (\<lambda>r. ?in r \<and> ?moved r) (bd_live db)) = mset ?live"
      using multiset_partition[of "mset ?live" ?moved] by (simp add: filter_filter_mset conj_commute add.commute)
    show "mset (?new @ filter (\<lambda>r. ?in r \<and> bu_start r \<notin> bu_start ` set ?new) (bd_log ?db)) = mset ?rows"
      unfolding db(2) filter_append mset_append a b c[symmetric] by (simp add: db(1) conj_commute)
  qed
  ultimately show ?thesis by (simp add: sum_window_def Let_def)
qed

theorem archive_does_not_show_witness:
  "ws_kpis (sum_window (snd (move_rows [bucket_key (sample_hour 3600000 5)] sample_rollup_db)) Station ''p'' Hour
      \<lparr>hb_start = 0, hb_duration = 86400\<rparr>)
    = ws_kpis (sum_window sample_rollup_db Station ''p'' Hour \<lparr>hb_start = 0, hb_duration = 86400\<rparr>)
    \<and> bd_live (snd (move_rows [bucket_key (sample_hour 3600000 5)] sample_rollup_db)) = []"
proof -
  have "sum_window (snd (move_rows [bucket_key (sample_hour 3600000 5)] sample_rollup_db)) Station ''p'' Hour \<lparr>hb_start = 0, hb_duration = 86400\<rparr>
      = sum_window sample_rollup_db Station ''p'' Hour \<lparr>hb_start = 0, hb_duration = 86400\<rparr>"
    by (rule archive_does_not_show) (auto simp: sample_rollup_db_def sample_hour_def bucket_key_def)
  then show ?thesis by (simp add: move_rows_def sample_rollup_db_def)
qed

end
