(* ===== verification/Cascade.thy ===== *)
theory Cascade
  imports Buckets "HOL-Library.Product_Lexorder"
begin

text \<open>
  The periodic computation of the live metric buckets by single SQL statements
  (\<open>packages/services/src/metrics/cascade.ts\<close>) and the tick that runs them every five seconds
  (\<open>batcher.ts\<close>).  A statement reads the tables as they were before it, also where it writes
  them.  Durations come from the state log, counts of jobs from the cycles.  The window of a
  local day is a parameter, as are the instant and the hash that names the buckets of a job.
  The lemmas compare the statements with the other two ways to compute the same values, from
  the events and by the rollup.
\<close>

section \<open>Tables\<close>

text \<open>An entry of the job log of a station, with the standard cycle at the assignment.\<close>
record job_run =
  jr_station :: uuid
  jr_job :: uuid
  jr_blob :: uuid
  jr_start :: ms
  jr_end :: "ms option"
  jr_cycle :: "rat option"

text \<open>
  The buckets, the events, and of the jobs: the names of their blobs, the summed quantity of
  their active products when they have one, and the standard cycle of their current blob.
\<close>
record tick_db =
  tk_buckets :: bucket_db
  tk_events :: metric_db
  tk_runs :: "job_run list"
  tk_blob_names :: "(uuid \<times> string) list"
  tk_quantities :: "(uuid \<times> int) list"
  tk_cycles :: "(uuid \<times> rat) list"

definition set_buckets :: "bucket_db \<Rightarrow> tick_db \<Rightarrow> tick_db" where
  "set_buckets b db = db\<lparr>tk_buckets := b\<rparr>"

definition items_of_job :: "tick_db \<Rightarrow> uuid option \<Rightarrow> int" where
  "items_of_job db j = (case Option.bind j (map_of (tk_quantities db)) of Some q \<Rightarrow> q | None \<Rightarrow> 1)"

text \<open>A cast of a numeric to an integer rounds halves away from zero, \<open>ROUND\<close> of a float to even.\<close>
definition sql_int :: "rat \<Rightarrow> int" where
  "sql_int x = (if 0 \<le> x then \<lfloor>x + 1 / 2\<rfloor> else - \<lfloor>- x + 1 / 2\<rfloor>)"

definition float_round :: "rat \<Rightarrow> int" where
  "float_round x = (let f = \<lfloor>x + 1 / 2\<rfloor> in if of_int f = x + 1 / 2 \<and> odd f then f - 1 else f)"

section \<open>Buckets that contain an instant\<close>

definition hour_at :: "entity_type \<Rightarrow> uuid \<Rightarrow> ms \<Rightarrow> bucket_row \<Rightarrow> bool" where
  "hour_at et eid t b =
     (bu_type b = et \<and> bu_entity b = eid \<and> bu_gran b = Hour \<and> bu_start b \<le> t
      \<and> of_int (bu_start b) + bu_duration b * 1000 > of_int t)"

definition bucket_end :: "bucket_row \<Rightarrow> rat" where
  "bucket_end b = of_int (bu_start b) + bu_duration b * 1000"

text \<open>\<open>UPDATE ... RETURNING\<close> on the live buckets.\<close>
definition update_returning :: "(bucket_row \<Rightarrow> bool) \<Rightarrow> (bucket_row \<Rightarrow> bucket_row) \<Rightarrow> bucket_db \<Rightarrow> bucket_row list \<times> bucket_db" where
  "update_returning p f db =
     (map (\<lambda>b. stored_row (f b)) (filter p (bd_live db)), db\<lparr>bd_live := update_where p (\<lambda>b. stored_row (f b)) (bd_live db)\<rparr>)"

section \<open>Counts of a cycle\<close>

definition add_counts :: "int \<Rightarrow> int \<Rightarrow> int \<Rightarrow> int \<Rightarrow> bucket_kpis \<Rightarrow> bucket_kpis" where
  "add_counts cycles items ideal secs k =
     k\<lparr>bk_total_cycles := bk_total_cycles k + cycles, bk_total_items := bk_total_items k + items,
       bk_ideal_cycle := bk_ideal_cycle k + ideal, bk_total_cycle := bk_total_cycle k + secs\<rparr>"

definition increment_hour_counts ::
  "uuid \<Rightarrow> ms \<Rightarrow> int \<Rightarrow> int \<Rightarrow> int \<Rightarrow> int \<Rightarrow> bucket_db \<Rightarrow> bucket_row list \<times> bucket_db" where
  "increment_hour_counts st t cycles items ideal secs db =
     update_returning (hour_at Station st t) (\<lambda>b. b\<lparr>bu_kpis := add_counts cycles items ideal secs (bu_kpis b)\<rparr>) db"

section \<open>Durations of the current hour\<close>

text \<open>The open stations with a standard cycle and the items of a cycle, from the counts of the hour or else the job.\<close>
record open_station =
  os_station :: uuid
  os_site_id :: uuid
  os_cycle :: "rat option"
  os_items :: int

definition open_station_of :: "ms \<Rightarrow> tick_db \<Rightarrow> station_info \<Rightarrow> open_station" where
  "open_station_of t db s =
     (let job = Option.bind (st_job s) (map_of (tk_cycles db));
          hour = find (hour_at Station (st_id s) t) (bd_live (tk_buckets db))
      in \<lparr>os_station = st_id s, os_site_id = st_site s,
          os_cycle = (case hour of
             Some b \<Rightarrow> if bk_total_cycles (bu_kpis b) > 0 \<and> bk_ideal_cycle (bu_kpis b) > 0
                       then Some (of_int (bk_ideal_cycle (bu_kpis b)) / of_int (bk_total_cycles (bu_kpis b))) else job
           | None \<Rightarrow> job),
          os_items = (case hour of
             Some b \<Rightarrow> if bk_total_cycles (bu_kpis b) > 0 \<and> bk_total_items (bu_kpis b) > 0
                       then float_round (of_int (bk_total_items (bu_kpis b)) / of_int (bk_total_cycles (bu_kpis b)))
                       else items_of_job db (st_job s)
           | None \<Rightarrow> items_of_job db (st_job s))\<rparr>)"

definition open_stations :: "ms \<Rightarrow> tick_db \<Rightarrow> open_station list" where
  "open_stations t db =
     map (open_station_of t db)
       (filter (\<lambda>s. list_ex (open_log (st_id s)) (md_logs (tk_events db))) (bd_stations (tk_buckets db)))"

text \<open>\<open>LEAST\<close> and \<open>GREATEST\<close> over a window that ends now at the latest.\<close>
definition slice_ms :: "rat \<Rightarrow> rat \<Rightarrow> ms \<Rightarrow> state_log \<Rightarrow> rat" where
  "slice_ms a b now r =
     min (case sl_end r of Some e \<Rightarrow> of_int e | None \<Rightarrow> of_int now) (min b (of_int now)) - max (of_int (sl_start r)) a"

definition state_slice :: "metric_db \<Rightarrow> uuid \<Rightarrow> rat \<Rightarrow> rat \<Rightarrow> ms \<Rightarrow> state_log list" where
  "state_slice db st a b now =
     filter (\<lambda>r. live_log st r \<and> of_int (sl_start r) < min b (of_int now)
         \<and> (case sl_end r of None \<Rightarrow> True | Some e \<Rightarrow> of_int e > a))
       (md_logs db)"

definition slice_seconds :: "(state_log \<Rightarrow> bool) \<Rightarrow> metric_db \<Rightarrow> uuid \<Rightarrow> rat \<Rightarrow> rat \<Rightarrow> ms \<Rightarrow> int" where
  "slice_seconds p db st a b now =
     sql_int (sum_list (map (\<lambda>r. if p r then slice_ms a b now r / 1000 else 0) (state_slice db st a b now)))"

definition floor_count :: "rat \<Rightarrow> rat \<Rightarrow> int" where
  "floor_count secs c = (if c > 0 then \<lfloor>secs / c\<rfloor> else 0)"

text \<open>The duration columns of a window, the span from which the planned downtime is taken given.\<close>
definition duration_kpis ::
  "metric_db \<Rightarrow> uuid \<Rightarrow> rat \<Rightarrow> rat \<Rightarrow> ms \<Rightarrow> rat \<Rightarrow> rat \<Rightarrow> int \<Rightarrow> bucket_kpis \<Rightarrow> bucket_kpis" where
  "duration_kpis db st a b now secs c items k =
     (let run = slice_seconds (\<lambda>r. sl_state r = Up) db st a b now;
          down = slice_seconds (\<lambda>r. sl_state r = Down) db st a b now;
          planned = slice_seconds (\<lambda>r. sl_state r = Down \<and> planned_reason db r) db st a b now;
          unplanned = slice_seconds (\<lambda>r. sl_state r = Down \<and> \<not> planned_reason db r) db st a b now;
          expected = floor_count (secs - of_int planned) c;
          elapsed = floor_count (of_int (run + unplanned)) c
      in k\<lparr>bk_run := run, bk_down := down, bk_planned_down := planned, bk_unplanned_down := unplanned,
           bk_elapsed_planned := run + unplanned, bk_expected_cycles := expected, bk_expected_items := expected * items,
           bk_elapsed_cycles := elapsed, bk_elapsed_items := elapsed * items\<rparr>)"

text \<open>The hour of a station; a missing standard cycle is stored as 0.\<close>
definition write_durations :: "ms \<Rightarrow> ms \<Rightarrow> open_station \<Rightarrow> tick_db \<Rightarrow> bucket_row list \<times> tick_db" where
  "write_durations t now s db =
     (case find (hour_at Station (os_station s) t) (bd_live (tk_buckets db)) of
        None \<Rightarrow> ([], db)
      | Some h \<Rightarrow>
          (let c = (case os_cycle s of Some c \<Rightarrow> c | None \<Rightarrow> 0);
               f = (\<lambda>b. b\<lparr>bu_kpis := (duration_kpis (tk_events db) (os_station s) (of_int (bu_start h)) (bucket_end h) now
                                          (bu_duration h) c (os_items s) (bu_kpis b))\<lparr>bk_standard_cycle := Some c\<rparr>\<rparr>)
           in case update_returning (\<lambda>b. bu_type b = Station \<and> bu_entity b = os_station s \<and> bu_gran b = Hour \<and> bu_start b = bu_start h)
                     f (tk_buckets db) of
                (rows, b) \<Rightarrow> (rows, set_buckets b db)))"

fun write_all_durations :: "ms \<Rightarrow> ms \<Rightarrow> open_station list \<Rightarrow> tick_db \<Rightarrow> bucket_row list \<times> tick_db" where
  "write_all_durations t now [] db = ([], db)"
| "write_all_durations t now (s # ss) db =
     (case write_durations t now s db of
        (rows, db1) \<Rightarrow> (case write_all_durations t now ss db1 of (rest, db2) \<Rightarrow> (rows @ rest, db2)))"

definition batch_duration_rollup :: "ms \<Rightarrow> ms \<Rightarrow> tick_db \<Rightarrow> (uuid \<times> uuid) list \<times> bucket_row list \<times> tick_db" where
  "batch_duration_rollup t now db =
     (let ss = open_stations t db in (map (\<lambda>s. (os_station s, os_site_id s)) ss, write_all_durations t now ss db))"

section \<open>Buckets of the job\<close>

text \<open>The run that started last among those that overlap the hour.\<close>
definition active_run :: "uuid \<Rightarrow> rat \<Rightarrow> rat \<Rightarrow> tick_db \<Rightarrow> job_run option" where
  "active_run st a b db =
     first_desc jr_start
       (filter (\<lambda>r. jr_station r = st \<and> of_int (jr_start r) < b \<and> (case jr_end r of None \<Rightarrow> True | Some e \<Rightarrow> of_int e > a))
         (tk_runs db))"

text \<open>
  The shift at an instant, of the work center or else of the site; the assignment with the
  latest start comes first, an instance without one last.
\<close>
definition cascade_shift :: "shift_db \<Rightarrow> uuid \<Rightarrow> uuid \<Rightarrow> ms \<Rightarrow> shift_instance option" where
  "cascade_shift db st site t =
     (let wc = Option.bind (map_of (sd_stations db) st) id;
          here = filter (\<lambda>i. active_at t i \<and> ir_site i = site) (sd_instances db);
          own = filter (\<lambda>i. wc \<noteq> None \<and> ir_work_center i = wc) here;
          start = (\<lambda>i. map_option sa_start (find (\<lambda>a. sa_id a = ir_assignment i) (sd_assignments db)))
      in first_asc (\<lambda>i. (start i = None, case start i of Some s \<Rightarrow> - s | None \<Rightarrow> 0))
           (own @ (if own = [] then filter (\<lambda>i. ir_work_center i = None) here else [])))"

text \<open>Cycles of any version of the job that end in the hour; deleted ones are not left out.\<close>
definition job_cycles :: "metric_db \<Rightarrow> uuid \<Rightarrow> uuid \<Rightarrow> rat \<Rightarrow> rat \<Rightarrow> cycle_row list" where
  "job_cycles db st j a b =
     filter (\<lambda>c. cy_station c = st \<and> map_option jb_job (blob_of db (cy_blob c)) = Some j
         \<and> (case cy_end c of None \<Rightarrow> False | Some e \<Rightarrow> a \<le> of_int e \<and> of_int e < b))
       (md_cycles db)"

definition job_bad_items :: "metric_db \<Rightarrow> uuid \<Rightarrow> uuid \<Rightarrow> rat \<Rightarrow> rat \<Rightarrow> int" where
  "job_bad_items db st j a b =
     sum_list (map dr_quantity
       (filter (\<lambda>d. dr_station d = st \<and> dr_deleted d = None \<and> a \<le> of_int (dr_created d) \<and> of_int (dr_created d) < b
            \<and> disposition_job db d = Some j)
         (md_dispositions db)))"

definition job_counts :: "metric_db \<Rightarrow> uuid \<Rightarrow> uuid \<Rightarrow> rat \<Rightarrow> rat \<Rightarrow> rat option \<Rightarrow> bucket_kpis \<Rightarrow> bucket_kpis" where
  "job_counts db st j a b c k =
     (let cs = job_cycles db st j a b;
          ideal = (case c of Some s \<Rightarrow> if s > 0 then float_round s else 0 | None \<Rightarrow> 0)
      in k\<lparr>bk_total_cycles := int (length cs),
           bk_total_items := sum_list (map (\<lambda>x. int (count_where (\<lambda>i. i = Some (cy_id x)) (md_items db))) cs),
           bk_bad_items := job_bad_items db st j a b,
           bk_ideal_cycle := int (length cs) * ideal,
           bk_total_cycle := sum_list (map (\<lambda>x. sql_int (of_int (the (cy_end x) - cy_start x) / 1000)) cs)\<rparr>)"

text \<open>The window of the run in the hour: the durations use it from its clipped start on.\<close>
definition job_values :: "tick_db \<Rightarrow> job_run \<Rightarrow> rat \<Rightarrow> rat \<Rightarrow> ms \<Rightarrow> bucket_kpis" where
  "job_values db r a b now =
     (let ev = tk_events db; st = jr_station r; s = max a (of_int (jr_start r));
          e = min b (case jr_end r of Some x \<Rightarrow> of_int x | None \<Rightarrow> of_int now);
          c = (case jr_cycle r of Some c \<Rightarrow> c | None \<Rightarrow> 0);
          secs = of_int (sql_int ((min e (of_int now) - s) / 1000))
      in (duration_kpis ev st s e now secs c (items_of_job db (Some (jr_job r)))
            (job_counts ev st (jr_job r) a b (jr_cycle r) zero_kpis))\<lparr>bk_standard_cycle := jr_cycle r\<rparr>)"

text \<open>
  \<open>INSERT ... ON CONFLICT DO UPDATE\<close> of a bucket of a job: name, path, duration, shift and
  date are those of the insert.  The hour keeps its bad cycles, the shift does not.
\<close>
definition job_overwrite :: "bool \<Rightarrow> bucket_row \<Rightarrow> bucket_row \<Rightarrow> bucket_row" where
  "job_overwrite bad new old =
     old\<lparr>bu_kpis := (bu_kpis new)\<lparr>bk_bad_cycles := (if bad then bk_bad_cycles (bu_kpis new) else bk_bad_cycles (bu_kpis old))\<rparr>,
         bu_job := bu_job new, bu_job_name := bu_job_name new\<rparr>"

definition job_upsert :: "bool \<Rightarrow> bucket_row \<Rightarrow> bucket_db \<Rightarrow> bucket_row \<times> bucket_db" where
  "job_upsert bad inp db =
     (let new = stored_row inp
      in case find_key (bucket_key new) (bd_live db) of
           None \<Rightarrow> (new, db\<lparr>bd_live := bd_live db @ [new]\<rparr>)
         | Some old \<Rightarrow> (job_overwrite bad new old,
                         db\<lparr>bd_live := update_where (\<lambda>b. bucket_key b = bucket_key new) (job_overwrite bad new) (bd_live db)\<rparr>))"

definition hour_of_job ::
  "(uuid \<Rightarrow> uuid \<Rightarrow> uuid) \<Rightarrow> uuid \<Rightarrow> bucket_row \<Rightarrow> job_run \<Rightarrow> ms \<Rightarrow> tick_db \<Rightarrow> bucket_row" where
  "hour_of_job hash site h r now db =
     (let st = bu_entity h; name = opt_name (map_of (tk_blob_names db) (jr_blob r));
          shift = cascade_shift (bd_shifts (tk_buckets db)) st site (bu_start h)
      in \<lparr>bu_site = site, bu_type = JobEntity, bu_entity = hash st (jr_job r), bu_name = name,
          bu_path = bu_path h @ ''.job.'' @ jr_job r, bu_gran = Hour, bu_gran_name = ''Hour'', bu_start = bu_start h,
          bu_duration = bu_duration h, bu_kpis = job_values db r (of_int (bu_start h)) (bucket_end h) now,
          bu_shift = map_option in_id shift, bu_date = map_option ir_business_date shift,
          bu_shift_name = map_option ir_name shift, bu_job = Some (jr_job r), bu_job_name = Some name\<rparr>)"

text \<open>The shift of the job sums the hours in the tables before the statement.\<close>
definition shift_of_job :: "bucket_row \<Rightarrow> shift_instance \<Rightarrow> bucket_db \<Rightarrow> bucket_row option" where
  "shift_of_job h s db =
     (let rows = filter (\<lambda>b. bu_type b = JobEntity \<and> bu_entity b = bu_entity h \<and> bu_gran b = Hour
                         \<and> ir_start s \<le> bu_start b \<and> bu_start b < ir_end s) (bd_live db)
      in if rows = [] then None
         else Some (h\<lparr>bu_gran := ShiftGranularity, bu_gran_name := ir_name s, bu_start := ir_start s,
                     bu_duration := of_int (sql_int (of_int (ir_end s - ir_start s) / 1000)),
                     bu_kpis := with_cycle (sum_kpis (map row_kpis rows)) (bk_standard_cycle (bu_kpis h))\<rparr>))"

definition cascade_job_rollup ::
  "(uuid \<Rightarrow> uuid \<Rightarrow> uuid) \<Rightarrow> uuid \<Rightarrow> uuid \<Rightarrow> ms \<Rightarrow> ms \<Rightarrow> tick_db \<Rightarrow> bucket_row list \<times> tick_db" where
  "cascade_job_rollup hash st site t now db =
     (case find (hour_at Station st t) (bd_live (tk_buckets db)) of
        None \<Rightarrow> ([], db)
      | Some h \<Rightarrow>
          (case active_run st (of_int (bu_start h)) (bucket_end h) db of
             None \<Rightarrow> ([], db)
           | Some r \<Rightarrow>
               (let hour = hour_of_job hash site h r now db;
                    shift = cascade_shift (bd_shifts (tk_buckets db)) st site (bu_start h)
                in case job_upsert False hour (tk_buckets db) of
                     (row, b1) \<Rightarrow>
                       (case Option.bind shift (\<lambda>s. shift_of_job hour s (tk_buckets db)) of
                          None \<Rightarrow> ([row], set_buckets b1 db)
                        | Some inp \<Rightarrow>
                            (case job_upsert True inp b1 of (row2, b2) \<Rightarrow> ([row, row2], set_buckets b2 db))))))"

section \<open>Expected cycles from the jobs\<close>

text \<open>The pairs of a bucket of a job and a run of that job, as the join forms them.\<close>
definition job_bucket_runs :: "(uuid \<Rightarrow> uuid \<Rightarrow> uuid) \<Rightarrow> uuid \<Rightarrow> uuid \<Rightarrow> ms \<Rightarrow> tick_db \<Rightarrow> (bucket_row \<times> job_run) list" where
  "job_bucket_runs hash st site start db =
     filter (\<lambda>(b, r). jr_station r = st \<and> bu_job b = Some (jr_job r) \<and> jr_start r < start + 3600000
         \<and> (case jr_end r of None \<Rightarrow> True | Some e \<Rightarrow> e > start) \<and> bu_entity b = hash st (jr_job r))
       (List.product
         (filter (\<lambda>b. bu_type b = JobEntity \<and> bu_gran b = Hour \<and> bu_start b = start \<and> bu_site b = site) (bd_live (tk_buckets db)))
         (tk_runs db))"

definition current_job_cycle :: "(uuid \<Rightarrow> uuid \<Rightarrow> uuid) \<Rightarrow> uuid \<Rightarrow> uuid \<Rightarrow> ms \<Rightarrow> tick_db \<Rightarrow> rat option" where
  "current_job_cycle hash st site start db =
     (case Option.bind (find_station st (tk_buckets db)) st_job of
        None \<Rightarrow> None
      | Some j \<Rightarrow>
          Option.bind (find (\<lambda>b. bu_type b = JobEntity \<and> bu_gran b = Hour \<and> bu_start b = start \<and> bu_site b = site
              \<and> bu_entity b = hash st j) (bd_live (tk_buckets db)))
            (\<lambda>b. bk_standard_cycle (bu_kpis b)))"

definition sync_expected :: "(uuid \<Rightarrow> uuid \<Rightarrow> uuid) \<Rightarrow> uuid \<Rightarrow> uuid \<Rightarrow> ms \<Rightarrow> tick_db \<Rightarrow> tick_db" where
  "sync_expected hash st site t db =
     (case find (hour_at Station st t) (bd_live (tk_buckets db)) of
        None \<Rightarrow> db
      | Some h \<Rightarrow>
          (let ks = map (\<lambda>x. bu_kpis (fst x)) (job_bucket_runs hash st site (bu_start h) db);
               c = current_job_cycle hash st site (bu_start h) db;
               f = (\<lambda>k. k\<lparr>bk_expected_cycles := sum_list (map bk_expected_cycles ks),
                          bk_expected_items := sum_list (map bk_expected_items ks),
                          bk_elapsed_cycles := sum_list (map bk_elapsed_cycles ks),
                          bk_elapsed_items := sum_list (map bk_elapsed_items ks),
                          bk_standard_cycle := (case c of Some x \<Rightarrow> Some x | None \<Rightarrow> bk_standard_cycle k)\<rparr>)
           in set_buckets (snd (update_returning (hour_at Station st t) (\<lambda>b. b\<lparr>bu_kpis := f (bu_kpis b)\<rparr>) (tk_buckets db))) db))"

section \<open>Shifts and days of a station\<close>

definition station_hours :: "uuid \<Rightarrow> ms \<Rightarrow> ms \<Rightarrow> bucket_db \<Rightarrow> bucket_row list" where
  "station_hours st a b db =
     filter (\<lambda>r. bu_type r = Station \<and> bu_entity r = st \<and> bu_gran r = Hour \<and> a \<le> bu_start r \<and> bu_start r < b) (bd_live db)"

text \<open>The summed values and the summed duration replace those that differ.\<close>
definition resum :: "bucket_row list \<Rightarrow> bucket_row \<Rightarrow> bucket_row" where
  "resum hours b =
     b\<lparr>bu_kpis := with_cycle (sum_kpis (map row_kpis hours)) (bk_standard_cycle (bu_kpis b)),
       bu_duration := sum_list (map bu_duration hours)\<rparr>"

definition resum_target :: "uuid \<Rightarrow> granularity \<Rightarrow> ms \<Rightarrow> bucket_row \<Rightarrow> bool" where
  "resum_target st g start b = (bu_type b = Station \<and> bu_entity b = st \<and> bu_gran b = g \<and> bu_start b = start)"

text \<open>Without hours every sum is null, and the columns do not admit null: the statement fails.\<close>
definition resum_fails :: "uuid \<Rightarrow> granularity \<Rightarrow> ms \<Rightarrow> bucket_row list \<Rightarrow> bucket_db \<Rightarrow> bool" where
  "resum_fails st g start hours db = (hours = [] \<and> list_ex (resum_target st g start) (bd_live db))"

text \<open>\<open>day\<close> gives the start and the end of the local day of an instant.\<close>
definition cascade_station_shift_day ::
  "(ms \<Rightarrow> ms \<times> ms) \<Rightarrow> uuid \<Rightarrow> uuid \<Rightarrow> ms \<Rightarrow> bucket_db \<Rightarrow> (bucket_row list \<times> bucket_db) option" where
  "cascade_station_shift_day day st site t db =
     (let shift = cascade_shift (bd_shifts db) st site t;
          day_hours = station_hours st (fst (day t)) (snd (day t)) db;
          shift_hours = (case shift of None \<Rightarrow> [] | Some s \<Rightarrow> station_hours st (ir_start s) (ir_end s) db);
          in_shift = (\<lambda>b. case shift of None \<Rightarrow> False | Some s \<Rightarrow> resum_target st ShiftGranularity (ir_start s) b \<and> resum shift_hours b \<noteq> b);
          in_day = (\<lambda>b. resum_target st Day (fst (day t)) b \<and> resum day_hours b \<noteq> b)
      in if (case shift of None \<Rightarrow> False | Some s \<Rightarrow> resum_fails st ShiftGranularity (ir_start s) shift_hours db)
             \<or> resum_fails st Day (fst (day t)) day_hours db then None
         else Some (map (resum shift_hours) (filter in_shift (bd_live db)) @ map (resum day_hours) (filter in_day (bd_live db)),
                db\<lparr>bd_live := update_where in_day (resum day_hours) (update_where in_shift (resum shift_hours) (bd_live db))\<rparr>))"

section \<open>Work centers and the site\<close>

text \<open>The work centers above a station, its own first; None when the recursion does not end.\<close>
partial_function (option) ancestor_ids :: "center_info list \<Rightarrow> uuid \<Rightarrow> uuid list option" where
  "ancestor_ids ws i =
     (case Option.bind (find (\<lambda>w. wk_id w = i) ws) wk_parent of
        None \<Rightarrow> Some [i]
      | Some p \<Rightarrow> Option.bind (ancestor_ids ws p) (\<lambda>up. Some (i # up)))"

declare ancestor_ids.simps [code]

text \<open>The pairs of a station of the site and a work center above it.\<close>
fun station_ancestors :: "center_info list \<Rightarrow> station_info list \<Rightarrow> (uuid \<times> uuid) list option" where
  "station_ancestors ws [] = Some []"
| "station_ancestors ws (s # ss) =
     (case st_center s of
        None \<Rightarrow> station_ancestors ws ss
      | Some w \<Rightarrow>
          (case ancestor_ids ws w of
             None \<Rightarrow> None
           | Some up \<Rightarrow> map_option (\<lambda>rest. map (Pair (st_id s)) up @ rest) (station_ancestors ws ss)))"

definition parent_children :: "uuid \<Rightarrow> (uuid \<times> uuid) list \<Rightarrow> uuid list \<Rightarrow> bucket_row \<Rightarrow> uuid list" where
  "parent_children site pairs all b =
     (case bu_type b of
        Workcenter \<Rightarrow> map fst (filter (\<lambda>p. snd p = bu_entity b) pairs)
      | Site \<Rightarrow> if bu_entity b = site then all else []
      | _ \<Rightarrow> [])"

text \<open>The rows of the join: a row counts as often as its station is paired with the parent.\<close>
definition child_rows :: "uuid list \<Rightarrow> granularity \<Rightarrow> ms \<Rightarrow> ms \<Rightarrow> bucket_db \<Rightarrow> bucket_row list" where
  "child_rows ids g start from db =
     concat (map (\<lambda>i. filter (\<lambda>r. bu_type r = Station \<and> bu_entity r = i \<and> bu_gran r = g \<and> bu_start r = start \<and> from \<le> start) (bd_live db)) ids)"

definition clear_job :: "bucket_row \<Rightarrow> bucket_row" where
  "clear_job b = b\<lparr>bu_job := None, bu_job_name := None\<rparr>"

text \<open>A parent without child rows in the window is not touched.\<close>
definition resum_parent :: "uuid \<Rightarrow> (uuid \<times> uuid) list \<Rightarrow> uuid list \<Rightarrow> ms \<Rightarrow> bucket_db \<Rightarrow> bucket_row \<Rightarrow> bucket_row" where
  "resum_parent site pairs all from db b =
     (let rows = child_rows (parent_children site pairs all b) (bu_gran b) (bu_start b) from db
      in if rows = [] then b else (clear_job b)\<lparr>bu_kpis := sum_kpis (map row_kpis rows)\<rparr>)"

definition cascade_parent_rollup :: "uuid \<Rightarrow> ms \<Rightarrow> bucket_db \<Rightarrow> (bucket_row list \<times> bucket_db) option" where
  "cascade_parent_rollup site t db =
     (let ss = filter (\<lambda>s. st_site s = site \<and> st_deleted s = None) (bd_stations db);
          from = t div 3600000 * 3600000 - 86400000
      in map_option
           (\<lambda>pairs. let f = resum_parent site pairs (map st_id ss) from db
                    in (map f (filter (\<lambda>b. f b \<noteq> b) (bd_live db)), db\<lparr>bd_live := map f (bd_live db)\<rparr>))
           (station_ancestors (bd_centers db) ss))"

section \<open>The tick\<close>

fun each_station :: "(uuid \<Rightarrow> uuid \<Rightarrow> tick_db \<Rightarrow> tick_db) \<Rightarrow> (uuid \<times> uuid) list \<Rightarrow> tick_db \<Rightarrow> tick_db" where
  "each_station f [] db = db"
| "each_station f ((st, site) # ss) db = each_station f ss (f st site db)"

text \<open>A failed statement is logged; the phase goes on with the tables as they were.\<close>
definition shift_day_phase :: "(uuid \<Rightarrow> ms \<Rightarrow> ms \<times> ms) \<Rightarrow> ms \<Rightarrow> uuid \<Rightarrow> uuid \<Rightarrow> tick_db \<Rightarrow> tick_db" where
  "shift_day_phase day t st site db =
     (case cascade_station_shift_day (day site) st site t (tk_buckets db) of
        None \<Rightarrow> db | Some (_, b) \<Rightarrow> set_buckets b db)"

fun parent_phase :: "ms \<Rightarrow> uuid list \<Rightarrow> tick_db \<Rightarrow> tick_db option" where
  "parent_phase t [] db = Some db"
| "parent_phase t (s # ss) db =
     (case cascade_parent_rollup s t (tk_buckets db) of
        None \<Rightarrow> None | Some (_, b) \<Rightarrow> parent_phase t ss (set_buckets b db))"

definition combined_tick ::
  "(uuid \<Rightarrow> uuid \<Rightarrow> uuid) \<Rightarrow> (uuid \<Rightarrow> ms \<Rightarrow> ms \<times> ms) \<Rightarrow> ms \<Rightarrow> tick_db \<Rightarrow> tick_db option" where
  "combined_tick hash day now db =
     (case batch_duration_rollup now now db of
        (stations, _, db1) \<Rightarrow>
          (let db2 = each_station (\<lambda>st site d. snd (cascade_job_rollup hash st site now now d)) stations db1;
               db3 = each_station (\<lambda>st site. sync_expected hash st site now) stations db2;
               db4 = each_station (shift_day_phase day now) stations db3
           in parent_phase now (first_per (\<lambda>s. s) [] (map snd stations)) db4))"

record metrics_request =
  mq_station :: uuid
  mq_site :: uuid
  mq_time :: ms
  mq_closed :: "(ms \<times> ms) option"

text \<open>The entries pushed to the list of dirty buckets: the hour of the cycle and that of the closed entry.\<close>
definition batched_metrics_update :: "metrics_request \<Rightarrow> (uuid \<times> uuid \<times> ms) list" where
  "batched_metrics_update q =
     (mq_station q, mq_site q, mq_time q)
     # (case mq_closed q of None \<Rightarrow> [] | Some (s, _) \<Rightarrow> [(mq_station q, mq_site q, s)])"

text \<open>A tick that finds the previous one running is skipped.\<close>
record ticker =
  ti_running :: bool
  ti_started :: "ms option"

definition begin_tick :: "ms \<Rightarrow> ticker \<Rightarrow> ticker option" where
  "begin_tick now t = (if ti_running t then None else Some \<lparr>ti_running = True, ti_started = Some now\<rparr>)"

definition end_tick :: "ticker \<Rightarrow> ticker" where
  "end_tick t = \<lparr>ti_running = False, ti_started = None\<rparr>"

section \<open>The duration phase computes what the events give\<close>

lemma sql_int_nonneg: "0 \<le> x \<Longrightarrow> sql_int x = js_round x"
  by (simp add: sql_int_def js_round_def)

lemma slice_entry:
  assumes "of_int (sl_start r) < min b (of_int now)" "a < b" "a < of_int now"
    and "case sl_end r of None \<Rightarrow> True | Some e \<Rightarrow> of_int e > a \<and> e \<le> now"
    and "case sl_end r of None \<Rightarrow> True | Some e \<Rightarrow> sl_start r \<le> e"
  shows "slice_ms a b now r = entry_ms a b now r"
  using assms by (auto simp: slice_ms_def entry_ms_def clip_ms_def max_def min_def split: option.splits if_splits)

lemma entry_outside:
  assumes "\<not> (of_int (sl_start r) < min b (of_int now) \<and> (case sl_end r of None \<Rightarrow> True | Some e \<Rightarrow> of_int e > a))"
    and "case sl_end r of None \<Rightarrow> True | Some e \<Rightarrow> e \<le> now"
  shows "entry_ms a b now r = 0"
  using assms by (auto simp: entry_ms_def clip_ms_def max_def min_def split: option.splits if_splits)

lemma tally_entries:
  "foldl (tally_log db a b now) t rs =
     \<lparr>sm_run = sm_run t + sum_list (map (\<lambda>r. if sl_state r = Up then entry_ms a b now r else 0) rs),
      sm_down = sm_down t + sum_list (map (\<lambda>r. if sl_state r = Down then entry_ms a b now r else 0) rs),
      sm_planned = sm_planned t + sum_list (map (\<lambda>r. if sl_state r = Down \<and> planned_reason db r then entry_ms a b now r else 0) rs),
      sm_unplanned = sm_unplanned t + sum_list (map (\<lambda>r. if sl_state r = Down \<and> \<not> planned_reason db r then entry_ms a b now r else 0) rs)\<rparr>"
proof (induction rs arbitrary: t)
  case (Cons r rs)
  show ?case unfolding foldl.simps Cons.IH
    by (cases "sl_state r") (auto simp: tally_log_def Let_def intro!: state_times.equality)
qed simp

text \<open>Entries of a station that have not ended after now, each with a length that is not negative.\<close>
definition ended_logs :: "ms \<Rightarrow> uuid \<Rightarrow> state_log list \<Rightarrow> bool" where
  "ended_logs now st rows =
     list_all (\<lambda>r. live_log st r \<longrightarrow> (case sl_end r of None \<Rightarrow> True | Some e \<Rightarrow> sl_start r \<le> e \<and> e \<le> now)) rows"

lemma slice_sum:
  assumes "ended_logs now st (md_logs db)" "a < b" "a < of_int now" "b = of_int k" "a = of_int l"
  shows "sum_list (map (\<lambda>r. if p r then slice_ms a b now r / 1000 else 0) (state_slice db st a b now))
    = sum_list (map (\<lambda>r. if p r then entry_ms a b now r else 0)
        (window_logs db st l k)) / 1000"
  using assms(1)
proof (induction "md_logs db" arbitrary: db)
  case Nil
  then show ?case by (simp add: state_slice_def window_logs_def)
next
  case (Cons r rs)
  have IH: "sum_list (map (\<lambda>r. if p r then slice_ms a b now r / 1000 else 0) (state_slice (db\<lparr>md_logs := rs\<rparr>) st a b now))
    = sum_list (map (\<lambda>r. if p r then entry_ms a b now r else 0)
        (window_logs (db\<lparr>md_logs := rs\<rparr>) st l k)) / 1000"
    using Cons.hyps(1)[of "db\<lparr>md_logs := rs\<rparr>"] Cons.prems Cons.hyps(2)[symmetric] by (simp add: ended_logs_def)
  let ?in = "\<lambda>r. of_int (sl_start r) < min b (of_int now) \<and> (case sl_end r of None \<Rightarrow> True | Some e \<Rightarrow> of_int e > a)"
  have e: "case sl_end r of None \<Rightarrow> True | Some e \<Rightarrow> sl_start r \<le> e \<and> e \<le> now" if "live_log st r"
    using Cons.prems Cons.hyps(2)[symmetric] that by (simp add: ended_logs_def)
  have "slice_ms a b now r = entry_ms a b now r" if "live_log st r" "?in r"
    using e[OF that(1)] that(2) assms(2,3) by (intro slice_entry) (auto split: option.splits)
  moreover have "entry_ms a b now r = 0" if "live_log st r" "\<not> ?in r"
    using e[OF that(1)] that(2) by (intro entry_outside) (auto split: option.splits)
  moreover have "?in r \<longrightarrow> sl_start r < k" using assms(4) by (auto simp: min_def split: if_splits)
  ultimately show ?case
    using IH Cons.hyps(2)[symmetric] assms(4,5)
    by (auto simp: state_slice_def window_logs_def add_divide_distrib split: option.splits)
qed

text \<open>The duration columns of a set of values.\<close>
definition duration_columns :: "bucket_kpis \<Rightarrow> (int \<times> int \<times> int \<times> int) \<times> int \<times> (int \<times> int) \<times> int \<times> int" where
  "duration_columns k =
     ((bk_run k, bk_down k, bk_planned_down k, bk_unplanned_down k), bk_elapsed_planned k,
      (bk_expected_cycles k, bk_expected_items k), bk_elapsed_cycles k, bk_elapsed_items k)"

lemma slice_seconds_entries:
  assumes "ended_logs now st (md_logs db)" "0 < d" "a < now"
  shows "slice_seconds p db st (of_int a) (of_int (a + d * 1000)) now
    = round_seconds (sum_list (map (\<lambda>r. if p r then entry_ms (of_int a) (of_int (a + d * 1000)) now r else 0)
        (window_logs db st a (a + d * 1000))))"
proof -
  have sum: "sum_list (map (\<lambda>r. if p r then slice_ms (of_int a) (of_int (a + d * 1000)) now r / 1000 else 0)
        (state_slice db st (of_int a) (of_int (a + d * 1000)) now))
      = sum_list (map (\<lambda>r. if p r then entry_ms (of_int a) (of_int (a + d * 1000)) now r else 0) (window_logs db st a (a + d * 1000))) / 1000"
    using assms(2,3) by (intro slice_sum[OF assms(1)]) auto
  have "0 \<le> sum_list (map (\<lambda>r. if p r then entry_ms (of_int a) (of_int (a + d * 1000)) now r else 0) (window_logs db st a (a + d * 1000)))"
    by (intro sum_list_nonneg) (auto simp: entry_ms_def)
  then show ?thesis unfolding slice_seconds_def sum round_seconds_def by (simp add: sql_int_nonneg)
qed

lemma duration_columns_agree:
  assumes "ended_logs now st (md_logs db)" "0 < d" "a < now"
  shows "duration_columns (duration_kpis db st (of_int a) (of_int (a + d * 1000)) now (of_int d) (case c of Some x \<Rightarrow> x | None \<Rightarrow> 0) items k)
    = duration_columns (compute_durations_for_bucket db st a (of_int d) c items now)"
proof -
  have b: "of_int a + of_int d * 1000 = (of_int (a + d * 1000) :: rat)" by simp
  have fl: "\<lfloor>of_int (a + d * 1000) :: rat\<rfloor> = a + d * 1000" by (rule floor_of_int)
  have cnt: "floor_count x (case c of Some y \<Rightarrow> y | None \<Rightarrow> 0) = expected_count x c" for x
    by (cases c) (auto simp: floor_count_def expected_count_def)
  show ?thesis
    unfolding duration_kpis_def compute_durations_for_bucket_def Let_def b tally_state_logs_def fl option.case prod.case
      tally_entries slice_seconds_entries[OF assms] cnt
    by (simp add: duration_columns_def zero_times_def)
qed

text \<open>
  C26: The duration phase of the tick writes into the hour of a station exactly what the
  computation from the events gives for that bucket: the SQL statement and the TypeScript code
  agree.  The bucket must have started, and no entry may end later than now.
\<close>
theorem tick_durations_agree:
  assumes "write_durations t now s db = (rows, db')" "r \<in> set rows"
    and "ended_logs now (os_station s) (md_logs (tk_events db))" "bu_start r < now" "bu_duration r = of_int d" "0 < d"
    and "distinct (map bucket_key (bd_live (tk_buckets db)))"
  shows "duration_columns (bu_kpis r)
    = duration_columns (compute_durations_for_bucket (tk_events db) (os_station s) (bu_start r) (bu_duration r) (os_cycle s) (os_items s) now)"
proof -
  obtain h where h: "find (hour_at Station (os_station s) t) (bd_live (tk_buckets db)) = Some h"
    using assms(1,2) by (auto simp: write_durations_def split: option.splits)
  then have hin: "h \<in> set (bd_live (tk_buckets db))" "hour_at Station (os_station s) t h" by (auto dest: find_Some_in)
  let ?f = "\<lambda>b. b\<lparr>bu_kpis := (duration_kpis (tk_events db) (os_station s) (of_int (bu_start h)) (bucket_end h) now
      (bu_duration h) (case os_cycle s of Some c \<Rightarrow> c | None \<Rightarrow> 0) (os_items s) (bu_kpis b))
        \<lparr>bk_standard_cycle := Some (case os_cycle s of Some c \<Rightarrow> c | None \<Rightarrow> 0)\<rparr>\<rparr>"
  from assms(1,2) h obtain b where b: "b \<in> set (bd_live (tk_buckets db))" "bu_type b = Station" "bu_entity b = os_station s"
      "bu_gran b = Hour" "bu_start b = bu_start h" "r = stored_row (?f b)"
    by (auto simp: write_durations_def Let_def update_returning_def split: prod.splits)
  have "bucket_key b = bucket_key h" using b(2-5) hin(2) by (auto simp: bucket_key_def hour_at_def)
  with assms(7) b(1) hin(1) have "b = h" by (auto simp: distinct_map dest: inj_onD)
  with b(6) have r: "bu_start h = bu_start r" "bu_duration h = bu_duration r"
    and k: "duration_columns (bu_kpis r) = duration_columns (bu_kpis (?f h))"
    by (auto simp: stored_row_def duration_columns_def)
  have e: "bucket_end h = of_int (bu_start r + d * 1000)" by (simp add: bucket_end_def r assms(5))
  have "duration_columns (bu_kpis (?f h))
      = duration_columns (duration_kpis (tk_events db) (os_station s) (of_int (bu_start r)) (of_int (bu_start r + d * 1000)) now
          (of_int d) (case os_cycle s of Some c \<Rightarrow> c | None \<Rightarrow> 0) (os_items s) (bu_kpis h))"
    unfolding e r assms(5) by (simp add: duration_columns_def)
  then show ?thesis unfolding k assms(5) using duration_columns_agree[OF assms(3,6,4)] by simp
qed

section \<open>Sums do not depend on the order\<close>

lemma add_kpis_commute: "add_kpis (add_kpis k a) b = add_kpis (add_kpis k b) a"
  by (simp add: add_kpis_def)

lemma sum_kpis_mset: "mset xs = mset ys \<Longrightarrow> sum_kpis xs = sum_kpis ys"
  unfolding sum_kpis_def foldl_conv_fold
  by (rule fun_cong[OF fold_multiset_equiv]) (auto simp: add_kpis_commute)

lemma sum_row_kpis_mset: "mset xs = mset ys \<Longrightarrow> sum_kpis (map row_kpis xs) = sum_kpis (map row_kpis ys)"
  by (rule sum_kpis_mset) (metis mset_map)

section \<open>Shifts and days settle on the sum of the hours\<close>

lemma resum_key [simp]: "bucket_key (resum hs b) = bucket_key b"
  by (simp add: resum_def bucket_key_def)

lemma resum_twice [simp]: "resum hs (resum hs b) = resum hs b"
  by (simp add: resum_def with_cycle_def)

lemma key_target: "bucket_key b = bucket_key b' \<Longrightarrow> resum_target st g start b = resum_target st g start b'"
  by (auto simp: bucket_key_def resum_target_def)

lemma resum_target_resum [simp]: "resum_target st g start (resum hs b) = resum_target st g start b"
  by (rule key_target) simp

lemma resum_row_kpis: "row_kpis (resum hs b) = sum_kpis (map row_kpis hs)"
  by (simp add: resum_def row_kpis_def with_cycle_def sum_kpis_cycle)

text \<open>The rows after the statement: each shift and day row is summed, other rows are as before.\<close>
definition shift_day_row :: "(ms \<Rightarrow> ms \<times> ms) \<Rightarrow> uuid \<Rightarrow> uuid \<Rightarrow> ms \<Rightarrow> bucket_db \<Rightarrow> bucket_row \<Rightarrow> bucket_row" where
  "shift_day_row day st site t db b =
     (if resum_target st Day (fst (day t)) b then resum (station_hours st (fst (day t)) (snd (day t)) db) b
      else (case cascade_shift (bd_shifts db) st site t of
              None \<Rightarrow> b
            | Some s \<Rightarrow> if resum_target st ShiftGranularity (ir_start s) b
                       then resum (station_hours st (ir_start s) (ir_end s) db) b else b))"

lemma shift_day_rows:
  assumes "cascade_station_shift_day day st site t db = Some (rows, db')"
  shows "db' = db\<lparr>bd_live := map (shift_day_row day st site t db) (bd_live db)\<rparr>"
proof -
  have "db' = db\<lparr>bd_live := bd_live db'\<rparr>" "bd_live db' = map (shift_day_row day st site t db) (bd_live db)"
    using assms
    by (auto simp: cascade_station_shift_day_def shift_day_row_def Let_def update_where_def split: if_splits option.splits)
      (auto simp: resum_target_def)
  then show ?thesis by metis
qed

lemma hours_kept:
  assumes "\<And>b. b \<in> set (bd_live db) \<Longrightarrow> bu_gran b = Hour \<or> bu_gran (f b) = Hour \<Longrightarrow> f b = b"
  shows "station_hours st a e (db\<lparr>bd_live := map f (bd_live db)\<rparr>) = station_hours st a e db"
proof -
  have k: "filter p (map f xs) = filter p xs"
    if "\<And>b. b \<in> set xs \<Longrightarrow> bu_gran b = Hour \<or> bu_gran (f b) = Hour \<Longrightarrow> f b = b" "\<And>b. p b \<Longrightarrow> bu_gran b = Hour" for xs p
    using that by (induction xs) (auto, metis+)
  have live: "bd_live (db\<lparr>bd_live := map f (bd_live db)\<rparr>) = map f (bd_live db)" by simp
  show ?thesis unfolding station_hours_def live by (rule k) (use assms in auto)
qed

lemma resum_gran [simp]: "bu_gran (resum hs b) = bu_gran b"
  by (simp add: resum_def)

lemma shift_day_hour: "bu_gran b = Hour \<or> bu_gran (shift_day_row day st site t db b) = Hour \<Longrightarrow> shift_day_row day st site t db b = b"
  by (auto simp: shift_day_row_def resum_target_def split: option.splits if_splits)

lemma shift_day_hours:
  assumes "cascade_station_shift_day day st site t db = Some (rows, db')"
  shows "station_hours st' a e db' = station_hours st' a e db"
  by (subst shift_day_rows[OF assms]) (rule hours_kept, erule shift_day_hour)

text \<open>
  C27: After the phase the shift row and the day row of the station hold the sums of the hours of
  their window.  Run again on its own result it writes nothing and reports nothing, so the
  stream stays quiet.
\<close>
theorem shift_day_settles:
  assumes "cascade_station_shift_day day st site t db = Some (rows, db')"
  shows "cascade_station_shift_day day st site t db' = Some ([], db')
    \<and> (\<forall>b. b \<in> set (bd_live db') \<and> resum_target st Day (fst (day t)) b \<longrightarrow>
          row_kpis b = sum_kpis (map row_kpis (station_hours st (fst (day t)) (snd (day t)) db')))
    \<and> (\<forall>b s. b \<in> set (bd_live db') \<and> cascade_shift (bd_shifts db') st site t = Some s \<and> resum_target st ShiftGranularity (ir_start s) b \<longrightarrow>
          row_kpis b = sum_kpis (map row_kpis (station_hours st (ir_start s) (ir_end s) db')))"
proof -
  note hours = shift_day_hours[OF assms] and rows = shift_day_rows[OF assms]
  let ?f = "shift_day_row day st site t db"
  have shifts: "bd_shifts db' = bd_shifts db" and live: "bd_live db' = map ?f (bd_live db)" unfolding rows by simp_all
  have f: "bucket_key (?f b) = bucket_key b" "?f (?f b) = ?f b" for b
    by (auto simp: shift_day_row_def resum_target_def resum_def with_cycle_def bucket_key_def split: option.splits)
  have day_sum: "?f b = resum (station_hours st (fst (day t)) (snd (day t)) db) b" if "resum_target st Day (fst (day t)) b" for b
    using that by (simp add: shift_day_row_def)
  have shift_sum: "?f b = resum (station_hours st (ir_start s) (ir_end s) db) b"
    if "cascade_shift (bd_shifts db) st site t = Some s" "resum_target st ShiftGranularity (ir_start s) b" for b s
    using that by (auto simp: shift_day_row_def resum_target_def)
  have fails: "resum_fails st g x hs db' = resum_fails st g x hs db" for g x hs
    by (simp add: resum_fails_def live list_ex_iff key_target[OF f(1)])
  have fixed: "?f b = b" if "b \<in> set (bd_live db')" for b using that f(2) by (auto simp: live)
  have day_fixed: "resum (station_hours st (fst (day t)) (snd (day t)) db) b = b"
    if "b \<in> set (bd_live db')" "resum_target st Day (fst (day t)) b" for b
    using day_sum[OF that(2)] fixed[OF that(1)] by simp
  have shift_fixed: "resum (station_hours st (ir_start s) (ir_end s) db) b = b"
    if "cascade_shift (bd_shifts db) st site t = Some s" "b \<in> set (bd_live db')" "resum_target st ShiftGranularity (ir_start s) b" for b s
    using shift_sum[OF that(1,3)] fixed[OF that(2)] by simp
  have keep: "filter p (bd_live db') = [] \<and> update_where p g (bd_live db') = bd_live db'"
    if "\<And>b. b \<in> set (bd_live db') \<Longrightarrow> \<not> p b" for p g
    using that by (auto simp: update_where_def filter_empty_conv intro!: map_idI)
  have "cascade_station_shift_day day st site t db' = Some ([], db')"
  proof (cases "cascade_shift (bd_shifts db) st site t")
    case None
    with assms day_fixed show ?thesis
      by (auto simp: cascade_station_shift_day_def Let_def hours shifts fails keep split: if_splits)
  next
    case (Some s)
    with assms day_fixed shift_fixed[OF Some] show ?thesis
      by (auto simp: cascade_station_shift_day_def Let_def hours shifts fails keep split: if_splits)
  qed
  moreover have "row_kpis b = sum_kpis (map row_kpis (station_hours st (fst (day t)) (snd (day t)) db'))"
    if "b \<in> set (bd_live db')" "resum_target st Day (fst (day t)) b" for b
    using resum_row_kpis[of "station_hours st (fst (day t)) (snd (day t)) db" b] day_fixed[OF that] by (simp add: hours)
  moreover have "row_kpis b = sum_kpis (map row_kpis (station_hours st (ir_start s) (ir_end s) db'))"
    if "b \<in> set (bd_live db')" "cascade_shift (bd_shifts db') st site t = Some s" "resum_target st ShiftGranularity (ir_start s) b" for b s
    using resum_row_kpis[of "station_hours st (ir_start s) (ir_end s) db" b] shift_fixed[OF _ that(1,3)] that(2) by (simp add: hours shifts)
  ultimately show ?thesis by blast
qed

section \<open>Parents sum the same stations as the rollup\<close>

lemma parent_step:
  assumes "distinct (map wk_id ws)"
  shows "{j. (i, j) \<in> (parent_of ws)\<^sup>*} =
    insert i (case Option.bind (find (\<lambda>w. wk_id w = i) ws) wk_parent of None \<Rightarrow> {} | Some p \<Rightarrow> {j. (p, j) \<in> (parent_of ws)\<^sup>*})"
  using parent_of_unique[OF assms, of i]
  by (cases "find (\<lambda>w. wk_id w = i) ws")
    (auto split: option.splits elim: converse_rtranclE intro: converse_rtrancl_into_rtrancl)

lemma ancestor_ids_cases:
  assumes "ancestor_ids ws i = Some up"
  obtains "Option.bind (find (\<lambda>w. wk_id w = i) ws) wk_parent = None" "up = [i]"
  | p rest where "Option.bind (find (\<lambda>w. wk_id w = i) ws) wk_parent = Some p" "ancestor_ids ws p = Some rest" "up = i # rest"
  using assms by (subst (asm) ancestor_ids.simps) (auto split: option.splits Option.bind_splits)

lemma ancestor_ids_set:
  "ancestor_ids ws i = Some up \<Longrightarrow> distinct (map wk_id ws) \<Longrightarrow> set up = {j. (i, j) \<in> (parent_of ws)\<^sup>*}"
proof (induction up arbitrary: i)
  case Nil
  then show ?case by (auto elim: ancestor_ids_cases)
next
  case (Cons x xs)
  from Cons.prems(1) show ?case
  proof (cases rule: ancestor_ids_cases)
    case 1
    then show ?thesis unfolding parent_step[OF Cons.prems(2), of i] by simp
  next
    case (2 p rest)
    then show ?thesis unfolding parent_step[OF Cons.prems(2), of i] using Cons.IH[of p] Cons.prems(2) by simp
  qed
qed

lemma ancestor_ids_suffix:
  "ancestor_ids ws i = Some up \<Longrightarrow> x \<in> set up \<Longrightarrow> \<exists>up'. ancestor_ids ws x = Some up' \<and> length up' \<le> length up"
proof (induction up arbitrary: i)
  case (Cons y ys)
  from Cons.prems(1) show ?case
  proof (cases rule: ancestor_ids_cases)
    case 1
    then show ?thesis using Cons.prems by auto
  next
    case (2 p rest)
    then show ?thesis using Cons.prems Cons.IH[of p] by (cases "x = y") (auto intro: le_SucI)
  qed
qed simp

lemma ancestor_ids_distinct: "ancestor_ids ws i = Some up \<Longrightarrow> distinct up"
proof (induction up arbitrary: i)
  case (Cons y ys)
  from Cons.prems(1) show ?case
  proof (cases rule: ancestor_ids_cases)
    case (2 p rest)
    have "i \<notin> set rest" using ancestor_ids_suffix[OF 2(2), of i] Cons.prems 2(3) by auto
    then show ?thesis using 2 Cons.IH[of p] by simp
  qed simp
qed simp

lemma station_ancestors_set:
  assumes "station_ancestors ws ss = Some pairs" "distinct (map wk_id ws)"
  shows "set pairs = {(st_id s, w) |s w. s \<in> set ss \<and> (\<exists>c. st_center s = Some c \<and> (c, w) \<in> (parent_of ws)\<^sup>*)}"
  using assms(1)
proof (induction ss arbitrary: pairs)
  case (Cons s ss)
  show ?case
  proof (cases "st_center s")
    case None
    then show ?thesis using Cons.IH[of pairs] Cons.prems by auto
  next
    case (Some c)
    then obtain up rest where "ancestor_ids ws c = Some up" "station_ancestors ws ss = Some rest" "pairs = map (Pair (st_id s)) up @ rest"
      using Cons.prems by (auto split: option.splits)
    then show ?thesis using Cons.IH[of rest] ancestor_ids_set[OF _ assms(2)] Some by auto
  qed
qed simp

lemma station_ancestors_distinct:
  assumes "station_ancestors ws ss = Some pairs" "distinct (map wk_id ws)" "distinct (map st_id ss)"
  shows "distinct pairs"
  using assms(1,3)
proof (induction ss arbitrary: pairs)
  case (Cons s ss)
  show ?case
  proof (cases "st_center s")
    case None
    then show ?thesis using Cons by simp
  next
    case (Some c)
    then obtain up rest where p: "ancestor_ids ws c = Some up" "station_ancestors ws ss = Some rest" "pairs = map (Pair (st_id s)) up @ rest"
      using Cons.prems by (auto split: option.splits)
    have "distinct (map (Pair (st_id s)) up)" using ancestor_ids_distinct[OF p(1)] by (simp add: distinct_map inj_on_def)
    moreover have "set (map (Pair (st_id s)) up) \<inter> set rest = {}"
      using station_ancestors_set[OF p(2) assms(2)] Cons.prems(2) by auto
    ultimately show ?thesis using Cons.IH[OF p(2)] Cons.prems(2) p(3) by simp
  qed
qed simp

lemma child_rows_mset:
  assumes "distinct is"
  shows "mset (child_rows is g start from db)
    = mset (if from \<le> start then filter (at_start is Station g start) (bd_live db) else [])"
  using assms
proof (induction "is")
  case Nil
  then show ?case by (simp add: child_rows_def at_start_def)
next
  case (Cons i "is")
  have "mset (filter (\<lambda>r. bu_type r = Station \<and> bu_entity r = i \<and> bu_gran r = g \<and> bu_start r = start \<and> from \<le> start) xs)
      + mset (if from \<le> start then filter (at_start is Station g start) xs else [])
    = mset (if from \<le> start then filter (at_start (i # is) Station g start) xs else [])" for xs
    using Cons.prems by (induction xs) (auto simp: at_start_def)
  then show ?case using Cons by (simp add: child_rows_def)
qed

lemma at_start_cong: "set is = set js \<Longrightarrow> at_start is et g start = at_start js et g start"
  by (auto simp: at_start_def)

text \<open>The stations that the tick sums into a parent, as a set without repetition.\<close>
lemma parent_children_set:
  assumes "station_ancestors (bd_centers db) ss = Some pairs" "ss = filter (\<lambda>s. st_site s = site \<and> st_deleted s = None) (bd_stations db)"
    and d: "distinct (map wk_id (bd_centers db))" "distinct (map st_id (bd_stations db))"
    and kind: "bu_type b = Workcenter \<or> bu_type b = Site \<and> bu_entity b = site"
    and ids: "child_stations db (bu_type b) (bu_entity b) = Some ids"
    and own: "list_all (\<lambda>s. st_id s \<in> set ids \<longrightarrow> st_site s = site) (bd_stations db)"
  shows "distinct (parent_children site pairs (map st_id ss) b) \<and> set (parent_children site pairs (map st_id ss) b) = set ids"
proof -
  have ss: "distinct (map st_id ss)" using d(2) unfolding assms(2) by (rule distinct_map_filter)
  show ?thesis
  proof (cases "bu_type b = Site")
    case True
    then show ?thesis using kind ids ss by (auto simp: parent_children_def child_stations_def assms(2))
  next
    case False
    with kind have w: "bu_type b = Workcenter" by simp
    obtain ds where ds: "centers_down (bd_centers db) [bu_entity b] = Some ds"
      "ids = map st_id (filter (\<lambda>s. st_center s \<in> Some ` set (ds @ [bu_entity b]) \<and> st_deleted s = None) (bd_stations db))"
      using ids w by (auto simp: child_stations_def)
    have down: "set (ds @ [bu_entity b]) = {d. (d, bu_entity b) \<in> (parent_of (bd_centers db))\<^sup>*}"
      using centers_down_set[OF ds(1)] by (auto simp: rtrancl_eq_or_trancl)
    have "distinct (map fst (filter (\<lambda>p. snd p = bu_entity b) pairs))"
      using station_ancestors_distinct[OF assms(1) d(1) ss] by (auto simp: distinct_map inj_on_def)
    moreover have "i \<in> fst ` set (filter (\<lambda>p. snd p = bu_entity b) pairs) \<longleftrightarrow> i \<in> set ids" for i
    proof -
      have "i \<in> fst ` set (filter (\<lambda>p. snd p = bu_entity b) pairs) \<longleftrightarrow>
          (\<exists>s \<in> set ss. st_id s = i \<and> (\<exists>c. st_center s = Some c \<and> (c, bu_entity b) \<in> (parent_of (bd_centers db))\<^sup>*))"
        unfolding set_filter station_ancestors_set[OF assms(1) d(1)] by force
      also have "\<dots> \<longleftrightarrow> (\<exists>s \<in> set (bd_stations db). st_id s = i \<and> st_site s = site \<and> st_deleted s = None
          \<and> st_center s \<in> Some ` {d. (d, bu_entity b) \<in> (parent_of (bd_centers db))\<^sup>*})"
        by (auto simp: assms(2))
      also have "\<dots> \<longleftrightarrow> (\<exists>s \<in> set (bd_stations db). st_id s = i \<and> st_site s = site \<and> i \<in> set ids)"
        using down find_unique[OF d(2)] unfolding ds(2) by (auto simp: image_iff) (metis option.inject)+
      also have "\<dots> \<longleftrightarrow> i \<in> set ids"
      proof -
        have "\<exists>s \<in> set (bd_stations db). st_id s = i" if "i \<in> set ids" using that unfolding ds(2) by auto
        then show ?thesis using own by (auto simp: list_all_iff)
      qed
      finally show ?thesis .
    qed
    ultimately show ?thesis using w by (auto simp: parent_children_def)
  qed
qed

text \<open>
  C25: The parent phase of the tick and the rollup give a work center or the site the same values:
  after the phase, a bucket of the last 24 hours that has buckets of its stations holds the
  sum that the rollup takes over the child stations.  The stations below a work center must
  be of its site, and none of the summed buckets archived.
\<close>
theorem tick_parents_agree:
  assumes tick: "cascade_parent_rollup site t db = Some (rows, db')" "b \<in> set (bd_live db')"
    and d: "distinct (map wk_id (bd_centers db))" "distinct (map st_id (bd_stations db))"
    and kind: "bu_type b = Workcenter \<or> bu_type b = Site \<and> bu_entity b = site"
    and ids: "child_stations db (bu_type b) (bu_entity b) = Some ids"
    and own: "list_all (\<lambda>s. st_id s \<in> set ids \<longrightarrow> st_site s = site) (bd_stations db)"
    and live: "list_all (\<lambda>r. \<not> at_start ids Station (bu_gran b) (bu_start b) r) (bd_log db)"
      "t div 3600000 * 3600000 - 86400000 \<le> bu_start b"
      "list_ex (at_start ids Station (bu_gran b) (bu_start b)) (bd_live db)"
  shows "row_kpis b = sum_entities db' ids (bu_gran b) (bu_start b)"
proof -
  define ss where "ss = filter (\<lambda>s. st_site s = site \<and> st_deleted s = None) (bd_stations db)"
  define since where "since = t div 3600000 * 3600000 - 86400000"
  obtain pairs where pairs: "station_ancestors (bd_centers db) ss = Some pairs"
    and db': "db' = db\<lparr>bd_live := map (resum_parent site pairs (map st_id ss) since db) (bd_live db)\<rparr>"
    using tick(1) by (auto simp: cascade_parent_rollup_def Let_def ss_def since_def)
  let ?f = "resum_parent site pairs (map st_id ss) since db"
  have keeps: "bu_type (?f c) = bu_type c" "bu_entity (?f c) = bu_entity c" "bu_gran (?f c) = bu_gran c" "bu_start (?f c) = bu_start c" for c
    by (simp_all add: resum_parent_def Let_def clear_job_def)
  obtain c where c: "c \<in> set (bd_live db)" "b = ?f c" using tick(2) by (auto simp: db')
  have same: "bu_type b = bu_type c" "bu_entity b = bu_entity c" "bu_gran b = bu_gran c" "bu_start b = bu_start c"
    by (simp_all only: c(2) keeps)
  let ?kids = "parent_children site pairs (map st_id ss) c"
  have kids: "distinct ?kids" "set ?kids = set ids"
    using parent_children_set[OF pairs ss_def d _ _ own, of c] kind ids by (simp_all add: same)
  let ?own = "filter (at_start ids Station (bu_gran b) (bu_start b)) (bd_live db)"
  have rows: "mset (child_rows ?kids (bu_gran c) (bu_start c) since db) = mset ?own"
    using child_rows_mset[OF kids(1), of "bu_gran c" "bu_start c" since db] live(2)
    unfolding since_def[symmetric] same at_start_cong[OF kids(2)] by simp
  have "?own \<noteq> []" using live(3) by (auto simp: list_ex_iff filter_empty_conv)
  then have "child_rows ?kids (bu_gran c) (bu_start c) since db \<noteq> []" using rows by (metis mset_zero_iff)
  then have "row_kpis b = sum_kpis (map row_kpis (child_rows ?kids (bu_gran c) (bu_start c) since db))"
    by (simp add: c(2) resum_parent_def clear_job_def row_kpis_def sum_kpis_cycle)
  also have "\<dots> = sum_kpis (map row_kpis ?own)" by (rule sum_row_kpis_mset[OF rows])
  finally have sum: "row_kpis b = sum_kpis (map row_kpis ?own)" .
  have station: "?f r = r" if "bu_type r = Station" for r
    using that by (simp add: resum_parent_def parent_children_def child_rows_def)
  have "filter (at_start ids Station g start) (map ?f rs) = filter (at_start ids Station g start) rs" for g start rs
    using station by (induction rs) (auto simp: at_start_def keeps)
  moreover have "filter (at_start ids Station (bu_gran b) (bu_start b)) (bd_log db) = []"
    using live(1) by (auto simp: list_all_iff filter_empty_conv)
  ultimately show ?thesis unfolding sum by (simp add: sum_entities_def db')
qed

section \<open>Sample of a tick\<close>

text \<open>The station of the earlier sample runs since 0; its hour, the day, and the hour of its work center.\<close>
definition sample_tick_db :: tick_db where
  "sample_tick_db =
     \<lparr>tk_buckets = sample_bucket_db\<lparr>bd_live :=
        [sample_hour 0 5, (sample_hour 0 0)\<lparr>bu_gran := Day\<rparr>, (sample_hour 0 1)\<lparr>bu_type := Workcenter, bu_entity := ''v''\<rparr>]\<rparr>,
      tk_events = sample_metric_db\<lparr>md_logs := [\<lparr>sl_id = ''l'', sl_station = ''p'', sl_start = 0, sl_end = None, sl_state = Up,
        sl_status = None, sl_block = ''l'', sl_reason = None, sl_blob = None, sl_updated = 0, sl_deleted = None\<rparr>]\<rparr>,
      tk_runs = [], tk_blob_names = [], tk_quantities = [], tk_cycles = []\<rparr>"

definition sample_open :: open_station where
  "sample_open = \<lparr>os_station = ''p'', os_site_id = ''s'', os_cycle = Some 30, os_items = 2\<rparr>"

theorem tick_durations_agree_witness:
  "map (\<lambda>r. duration_columns (bu_kpis r)) (fst (write_durations 600000 600000 sample_open sample_tick_db))
    = [duration_columns (compute_durations_for_bucket (tk_events sample_tick_db) ''p'' 0 3600 (Some 30) 2 600000)]"
proof -
  have "map (\<lambda>r. (bu_start r, bu_duration r)) (fst (write_durations 600000 600000 sample_open sample_tick_db)) = [(0, 3600)]"
    by code_simp
  then obtain r db' where r: "write_durations 600000 600000 sample_open sample_tick_db = ([r], db')" "bu_start r = 0" "bu_duration r = 3600"
    by (cases "write_durations 600000 600000 sample_open sample_tick_db") auto
  have e: "ended_logs 600000 (os_station sample_open) (md_logs (tk_events sample_tick_db))"
    "distinct (map bucket_key (bd_live (tk_buckets sample_tick_db)))"
    "os_station sample_open = ''p'' \<and> os_cycle sample_open = Some 30 \<and> os_items sample_open = 2" by code_simp+
  show ?thesis using tick_durations_agree[OF r(1), of r 3600] r e by simp
qed

theorem shift_day_settles_witness:
  "\<exists>rows db'. cascade_station_shift_day (\<lambda>_. (0, 86400000)) ''p'' ''s'' 600000 (tk_buckets sample_tick_db) = Some (rows, db')
    \<and> length rows = 1 \<and> cascade_station_shift_day (\<lambda>_. (0, 86400000)) ''p'' ''s'' 600000 db' = Some ([], db')"
proof -
  have "map_option (\<lambda>x. length (fst x)) (cascade_station_shift_day (\<lambda>_. (0, 86400000)) ''p'' ''s'' 600000 (tk_buckets sample_tick_db)) = Some 1"
    by code_simp
  then obtain rows db' where r: "cascade_station_shift_day (\<lambda>_. (0, 86400000)) ''p'' ''s'' 600000 (tk_buckets sample_tick_db) = Some (rows, db')" "length rows = 1"
    by auto
  with shift_day_settles[OF r(1)] show ?thesis by blast
qed

theorem tick_parents_agree_witness:
  "\<exists>rows db'. cascade_parent_rollup ''s'' 600000 (tk_buckets sample_tick_db) = Some (rows, db')
    \<and> (\<exists>b \<in> set (bd_live db'). bu_entity b = ''v'' \<and> row_kpis b = sum_entities db' [''p''] Hour 0)"
proof -
  have "map_option (\<lambda>x. map (\<lambda>b. (bu_type b, bu_entity b, bu_gran b, bu_start b)) (bd_live (snd x)))
      (cascade_parent_rollup ''s'' 600000 (tk_buckets sample_tick_db))
    = Some [(Station, ''p'', Hour, 0), (Station, ''p'', Day, 0), (Workcenter, ''v'', Hour, 0)]" by code_simp
  then obtain rows db' where p: "cascade_parent_rollup ''s'' 600000 (tk_buckets sample_tick_db) = Some (rows, db')"
    "map (\<lambda>b. (bu_type b, bu_entity b, bu_gran b, bu_start b)) (bd_live db')
      = [(Station, ''p'', Hour, 0), (Station, ''p'', Day, 0), (Workcenter, ''v'', Hour, 0)]" by auto
  then have "list_ex (\<lambda>b. bu_type b = Workcenter \<and> bu_entity b = ''v'' \<and> bu_gran b = Hour \<and> bu_start b = 0) (bd_live db')"
    by auto
  then obtain b where b: "b \<in> set (bd_live db')" "bu_type b = Workcenter" "bu_entity b = ''v''" "bu_gran b = Hour" "bu_start b = 0"
    by (auto simp: list_ex_iff)
  have e: "distinct (map wk_id (bd_centers (tk_buckets sample_tick_db)))" "distinct (map st_id (bd_stations (tk_buckets sample_tick_db)))"
    "child_stations (tk_buckets sample_tick_db) Workcenter ''v'' = Some [''p'']"
    "list_all (\<lambda>s. st_id s \<in> set [''p''] \<longrightarrow> st_site s = ''s'') (bd_stations (tk_buckets sample_tick_db))"
    "list_all (\<lambda>r. \<not> at_start [''p''] Station Hour 0 r) (bd_log (tk_buckets sample_tick_db))"
    "list_ex (at_start [''p''] Station Hour 0) (bd_live (tk_buckets sample_tick_db))" by code_simp+
  have "row_kpis b = sum_entities db' [''p''] (bu_gran b) (bu_start b)"
    by (rule tick_parents_agree[OF p(1) b(1) e(1,2)]) (use b e in auto)
  then show ?thesis using p b by auto
qed

section \<open>Types of the columns\<close>

text \<open>A row as the columns hold it: two decimals of the standard cycle, whole seconds of the duration.\<close>
definition typed_row :: "bucket_row \<Rightarrow> bool" where
  "typed_row b =
     ((case bk_standard_cycle (bu_kpis b) of None \<Rightarrow> True | Some c \<Rightarrow> round2 c = c) \<and> bu_duration b = of_int \<lfloor>bu_duration b\<rfloor>)"

definition typed_rows :: "bucket_db \<Rightarrow> bool" where
  "typed_rows db = list_all typed_row (bd_live db)"

lemma round2_grid: "round2 (of_int n / 100) = of_int n / 100"
proof -
  have "\<lfloor>of_int m + 1 / 2 :: rat\<rfloor> = m" for m by (simp add: floor_eq_iff)
  from this[of n] this[of "- n"] show ?thesis by (simp add: round2_def)
qed

lemma round2_idem: "round2 (round2 x) = round2 x"
proof -
  have "\<exists>n. round2 x = of_int n / 100"
    unfolding round2_def by (cases "0 \<le> x") (auto intro: exI[of _ "- \<lfloor>- x * 100 + 1 / 2\<rfloor>"])
  then show ?thesis using round2_grid by metis
qed

lemma typed_stored: "typed_row (stored_row b) \<longleftrightarrow> bu_duration b = of_int \<lfloor>bu_duration b\<rfloor>"
  by (auto simp: typed_row_def stored_row_def round2_idem split: option.split)

lemma typed_where: "list_all typed_row bs \<Longrightarrow> (\<And>b. typed_row b \<Longrightarrow> typed_row (f b)) \<Longrightarrow> list_all typed_row (update_where q f bs)"
  by (induction bs) auto

lemma typed_update:
  assumes "update_returning q f db = (rows, db')" "typed_rows db" "\<And>b. bu_duration (f b) = bu_duration b"
  shows "typed_rows db'"
proof -
  have keep: "typed_row (stored_row (f b))" if "typed_row b" for b using that assms(3)[of b] unfolding typed_stored by (simp add: typed_row_def)
  have "list_all typed_row (update_where q (\<lambda>b. stored_row (f b)) (bd_live db))"
    by (rule typed_where[OF _ keep]) (use assms(2) in \<open>simp_all add: typed_rows_def\<close>)
  with assms(1) show ?thesis by (auto simp: update_returning_def typed_rows_def)
qed

lemma typed_resum:
  assumes "list_all typed_row rows" "typed_row b"
  shows "typed_row (resum rows b)"
proof -
  have "sum_list (map bu_duration rows) = of_int (sum_list (map (\<lambda>b. \<lfloor>bu_duration b\<rfloor>) rows))"
    using assms(1) by (induction rows) (simp_all add: typed_row_def)
  then have "bu_duration (resum rows b) = of_int \<lfloor>bu_duration (resum rows b)\<rfloor>" by (simp add: resum_def)
  with assms(2) show ?thesis by (simp add: typed_row_def resum_def with_cycle_def)
qed

lemma typed_write_durations:
  assumes "write_durations t now s db = (rows, db')" "typed_rows (tk_buckets db)"
  shows "typed_rows (tk_buckets db')"
  using assms by (auto simp: write_durations_def Let_def set_buckets_def split: option.splits prod.splits elim!: typed_update)

lemma typed_write_all:
  "write_all_durations t now ss db = (rows, db') \<Longrightarrow> typed_rows (tk_buckets db) \<Longrightarrow> typed_rows (tk_buckets db')"
  by (induction ss arbitrary: db rows) (auto split: prod.splits dest: typed_write_durations)

lemma typed_job_upsert:
  assumes "job_upsert bad inp db = (row, db')" "typed_rows db" "bu_duration inp = of_int \<lfloor>bu_duration inp\<rfloor>"
  shows "typed_rows db'"
proof -
  have keep: "typed_row (job_overwrite bad (stored_row inp) b)" if "typed_row b" for b
    using that by (auto simp: typed_row_def job_overwrite_def stored_row_def round2_idem split: option.split)
  have "list_all typed_row (update_where q (job_overwrite bad (stored_row inp)) (bd_live db))" for q
    by (rule typed_where[OF _ keep]) (use assms(2) in \<open>simp_all add: typed_rows_def\<close>)
  with assms show ?thesis
    by (auto simp: job_upsert_def Let_def typed_rows_def typed_stored split: option.splits)
qed

lemma typed_job_rollup:
  assumes "cascade_job_rollup hash st site t now db = (rows, db')" "typed_rows (tk_buckets db)"
  shows "typed_rows (tk_buckets db')"
proof -
  have h: "bu_duration (hour_of_job hash site h r now db) = of_int \<lfloor>bu_duration (hour_of_job hash site h r now db)\<rfloor>"
    if "find (hour_at Station st t) (bd_live (tk_buckets db)) = Some h" for h r
    using find_Some_in[OF that] assms(2) by (auto simp: hour_of_job_def Let_def typed_rows_def list_all_iff typed_row_def)
  have s: "bu_duration inp = of_int \<lfloor>bu_duration inp\<rfloor>" if "shift_of_job hour x b = Some inp" for hour x b inp
    using that by (auto simp: shift_of_job_def Let_def split: if_splits)
  show ?thesis using assms
    by (auto simp: cascade_job_rollup_def Let_def set_buckets_def bind_eq_Some_conv split: option.splits prod.splits
        elim!: typed_job_upsert h s)
qed

lemma typed_shift_day:
  assumes "cascade_station_shift_day day st site t db = Some (rows, db')" "typed_rows db"
  shows "typed_rows db'"
proof -
  have "list_all typed_row (station_hours st a e db)" for a e
    using assms(2) by (auto simp: station_hours_def typed_rows_def list_all_iff)
  then have "typed_row (shift_day_row day st site t db b)" if "typed_row b" for b
    using that by (auto simp: shift_day_row_def typed_resum split: option.split)
  with assms(2) show ?thesis unfolding shift_day_rows[OF assms(1)] by (auto simp: typed_rows_def list_all_iff)
qed

lemma typed_parent:
  assumes "cascade_parent_rollup site t db = Some (rows, db')" "typed_rows db"
  shows "typed_rows db'"
proof -
  have "typed_row (resum_parent site pairs ids since db b)" if "typed_row b" for b pairs ids since
    using that by (simp add: resum_parent_def typed_row_def clear_job_def sum_kpis_cycle Let_def)
  with assms show ?thesis by (auto simp: cascade_parent_rollup_def Let_def typed_rows_def list_all_iff)
qed

lemma typed_sync: "typed_rows (tk_buckets db) \<Longrightarrow> typed_rows (tk_buckets (sync_expected hash st site t db))"
  by (cases "find (hour_at Station st t) (bd_live (tk_buckets db))")
    (auto simp: sync_expected_def Let_def set_buckets_def intro: typed_update[OF prod.collapse[symmetric]])

lemma typed_each:
  "(\<And>st site d. typed_rows (tk_buckets d) \<Longrightarrow> typed_rows (tk_buckets (f st site d))) \<Longrightarrow> typed_rows (tk_buckets db)
    \<Longrightarrow> typed_rows (tk_buckets (each_station f ss db))"
  by (induction f ss db rule: each_station.induct) auto

lemma typed_parents: "parent_phase t ss db = Some db' \<Longrightarrow> typed_rows (tk_buckets db) \<Longrightarrow> typed_rows (tk_buckets db')"
  by (induction ss arbitrary: db) (auto simp: set_buckets_def split: option.splits dest: typed_parent)

text \<open>
  The whole tick keeps the types of the columns: when every live bucket has a standard cycle
  of two decimals and a duration of whole seconds, so has every bucket afterwards, whatever
  rows the phases rewrite or insert.
\<close>
theorem tick_keeps_types:
  assumes "combined_tick hash day now db = Some db'" "typed_rows (tk_buckets db)"
  shows "typed_rows (tk_buckets db')"
proof -
  obtain stations rows db1 where d: "batch_duration_rollup now now db = (stations, rows, db1)" by (cases "batch_duration_rollup now now db") auto
  let ?job = "\<lambda>st site d. snd (cascade_job_rollup hash st site now now d)"
  have "typed_rows (tk_buckets db1)" using d assms(2) by (auto simp: batch_duration_rollup_def Let_def intro: typed_write_all)
  moreover have "typed_rows (tk_buckets (?job st site d))" if "typed_rows (tk_buckets d)" for st site d
    by (rule typed_job_rollup[OF prod.collapse[symmetric] that])
  moreover have "typed_rows (tk_buckets (shift_day_phase day now st site d))" if "typed_rows (tk_buckets d)" for st site d
    using that by (auto simp: shift_day_phase_def set_buckets_def split: option.split dest: typed_shift_day)
  ultimately have "typed_rows (tk_buckets (each_station (shift_day_phase day now) stations
      (each_station (\<lambda>st site. sync_expected hash st site now) stations (each_station ?job stations db1))))"
    by (intro typed_each typed_sync)
  with assms(1) d show ?thesis by (auto simp: combined_tick_def Let_def intro: typed_parents)
qed

theorem tick_keeps_types_witness:
  "\<exists>db'. combined_tick (\<lambda>st j. j) (\<lambda>_ _. (0, 86400000)) 600000 sample_tick_db = Some db' \<and> typed_rows (tk_buckets db')"
proof -
  let ?hash = "\<lambda>st j. j :: uuid" and ?day = "\<lambda>_ _. (0, 86400000) :: ms \<times> ms"
  have "fst (batch_duration_rollup 600000 600000 sample_tick_db) = [(''p'', ''s'')]" by code_simp
  then have run: "combined_tick ?hash ?day 600000 sample_tick_db = parent_phase 600000 [''s'']
    (shift_day_phase ?day 600000 ''p'' ''s'' (sync_expected ?hash ''p'' ''s'' 600000
      (snd (cascade_job_rollup ?hash ''p'' ''s'' 600000 600000 (snd (snd (batch_duration_rollup 600000 600000 sample_tick_db)))))))"
    by (simp add: combined_tick_def Let_def case_prod_unfold)
  have "map_option (\<lambda>db. length (bd_live (tk_buckets db))) (combined_tick ?hash ?day 600000 sample_tick_db) = Some 3"
    unfolding run by code_simp
  moreover have "typed_rows (tk_buckets sample_tick_db)"
    by (simp add: typed_rows_def typed_row_def sample_tick_db_def sample_hour_def zero_kpis_def)
  ultimately show ?thesis
    using tick_keeps_types[of "\<lambda>st j. j" "\<lambda>_ _. (0, 86400000)" 600000 sample_tick_db] by auto
qed

end
