(* ===== verification/Cycles.thy ===== *)
theory Cycles
  imports Cascade Materials Orders
begin

text \<open>
  Completion of a cycle (\<open>packages/services/src/cycle/cycle.ts\<close>): the cycle row, the transition of
  the state log, the items it produced and their allocation to orders, the counts of the hour
  and the plan of the detection timers, all in one transaction.  A cycle of a replayed event
  writes only the row, the items and the allocation; \<open>replay.ts\<close> then repairs the state log over
  the window of the replayed events and brings archived buckets back.  The components meet
  here, so their tables form one state.
\<close>

section \<open>Tables\<close>

record job_row =
  jo_id :: uuid
  jo_site :: uuid
  jo_blob :: "uuid option"
  jo_cycle :: "rat option"

record job_tool_row =
  jt_id :: uuid
  jt_job :: uuid
  jt_tool_blob :: "uuid option"
  jt_active :: bool
  jt_deleted :: "ms option"

text \<open>The state log, inventory, orders and buckets; jobs with their tools, and the detection settings of the stations.\<close>
record plant =
  pl_state :: state_db
  pl_inv :: inv_db
  pl_orders :: order_db
  pl_buckets :: bucket_db
  pl_jobs :: "job_row list"
  pl_tools :: "job_tool_row list"
  pl_detect :: "(uuid \<times> detect_config) list"

datatype cycle_error =
    CycleStationNotFound
  | JobNoBlob
  | CycleSiteMismatch
  | StateWrite state_error
  | ItemWrite inventory_error

text \<open>Fresh ids: of the cycles, the state entry and its block, the items of each completed cycle, the allocations.\<close>
record fresh_ids =
  fi_cycle :: uuid
  fi_zero :: uuid
  fi_entry :: uuid
  fi_block :: uuid
  fi_items :: "nat \<Rightarrow> nat \<Rightarrow> uuid"
  fi_alloc :: "nat \<Rightarrow> uuid"

section \<open>Setup\<close>

record cycle_setup =
  cs_site :: uuid
  cs_job_site :: uuid
  cs_blob :: "uuid option"
  cs_cycle :: "rat option"
  cs_slow :: "rat option"
  cs_job_tools :: "uuid list"
  cs_tool_blobs :: "uuid list"

text \<open>No row comes back when the station or the job is missing.\<close>
definition cycle_setup_of :: "uuid \<Rightarrow> uuid \<Rightarrow> plant \<Rightarrow> cycle_setup option" where
  "cycle_setup_of st job p =
     (case (station_site st (pl_state p), find (\<lambda>j. jo_id j = job) (pl_jobs p)) of
        (Some site, Some j) \<Rightarrow>
          (let tools = filter (\<lambda>t. jt_job t = job \<and> jt_deleted t = None \<and> jt_active t) (pl_tools p)
           in Some \<lparr>cs_site = site, cs_job_site = jo_site j, cs_blob = jo_blob j, cs_cycle = jo_cycle j,
                    cs_slow = Option.bind (map_of (pl_detect p) st) dc_slow,
                    cs_job_tools = remdups (map jt_id tools),
                    cs_tool_blobs = remdups (List.map_filter jt_tool_blob tools)\<rparr>)
      | _ \<Rightarrow> None)"

definition slow_threshold :: "cycle_setup \<Rightarrow> rat option" where
  "slow_threshold s =
     (case (cs_cycle s, cs_slow s) of
        (Some c, Some f) \<Rightarrow> if c > 0 \<and> f > 0 then Some (c * (1 + f)) else None
      | _ \<Rightarrow> None)"

definition ideal_increment :: "cycle_setup \<Rightarrow> int" where
  "ideal_increment s = (case cs_cycle s of Some c \<Rightarrow> js_round c | None \<Rightarrow> 0)"

section \<open>Steps of the transaction\<close>

text \<open>The latest end of a cycle of the station, deleted cycles included.\<close>
definition previous_end :: "uuid \<Rightarrow> plant \<Rightarrow> ms option" where
  "previous_end st p =
     first_desc (\<lambda>e. e) (List.map_filter cy_end (filter (\<lambda>c. cy_station c = st) (iv_cycles (pl_inv p))))"

definition new_cycle :: "uuid \<Rightarrow> uuid \<Rightarrow> ms \<Rightarrow> ms option \<Rightarrow> uuid \<Rightarrow> cycle_setup \<Rightarrow> cycle" where
  "new_cycle i st start fin blob s =
     \<lparr>cy_id = i, cy_station = st, cy_start = start, cy_end = fin, cy_blob = blob, cy_deleted = None,
      cc_site = cs_site s, cc_job_tools = cs_job_tools s, cc_tool_blobs = cs_tool_blobs s\<rparr>"

definition add_cycle :: "cycle \<Rightarrow> plant \<Rightarrow> plant" where
  "add_cycle c p = p\<lparr>pl_inv := (pl_inv p)\<lparr>iv_cycles := iv_cycles (pl_inv p) @ [c]\<rparr>\<rparr>"

definition seconds_between :: "ms \<Rightarrow> ms \<Rightarrow> rat" where
  "seconds_between a b = of_int (b - a) / 1000"

text \<open>
  The transition of the immediate strategy: it closes every open entry of the station, takes
  the block of an entry that was up and marks the new entry when the cycle was slow.
\<close>
definition enter_up ::
  "fresh_ids \<Rightarrow> ms \<Rightarrow> uuid \<Rightarrow> ms \<Rightarrow> uuid \<Rightarrow> rat \<Rightarrow> rat option \<Rightarrow> state_db
     \<Rightarrow> state_error + (station_status \<times> closed_entry option \<times> state_db)" where
  "enter_up ids now st t blob dur slow db =
     (let cur = find (open_log st) (sd_logs db);
          closed = map_option (\<lambda>c. \<lparr>ce_start = sl_start c, ce_end = t, ce_state = sl_state c\<rparr>) cur;
          block = (case cur of Some c \<Rightarrow> if sl_state c = Up then sl_block c else fi_block ids | None \<Rightarrow> fi_block ids);
          is_slow = (case slow of Some x \<Rightarrow> dur > 0 \<and> x > 0 \<and> dur > x | None \<Rightarrow> False)
      in case insert_log (new_entry (fi_entry ids) st t Up StUp block (Some blob) now) (close_open st t now db) of
           Inl e \<Rightarrow> Inl e
         | Inr db2 \<Rightarrow>
             if is_slow
             then Inr (StSlow, closed, update_logs (\<lambda>r. sl_id r = fi_entry ids) (\<lambda>r. r\<lparr>sl_status := Some StSlow\<rparr>) now db2)
             else Inr (StUp, closed, db2))"

text \<open>The items of several cycles, one after the other.\<close>
fun create_items ::
  "ms \<Rightarrow> fresh_ids \<Rightarrow> nat \<Rightarrow> uuid \<Rightarrow> uuid list \<Rightarrow> inv_db \<Rightarrow> inventory_error + ((uuid \<times> uuid) list \<times> inv_db)" where
  "create_items now ids k job [] db = Inr ([], db)"
| "create_items now ids k job (c # cs) db =
     (case create_from_cycle now (fi_items ids k) c job db of
        Inl e \<Rightarrow> Inl e
      | Inr (xs, db1) \<Rightarrow>
          (case create_items now ids (Suc k) job cs db1 of
             Inl e \<Rightarrow> Inl e
           | Inr (ys, db2) \<Rightarrow> Inr (xs @ ys, db2)))"

fun allocate_items :: "fresh_ids \<Rightarrow> nat \<Rightarrow> uuid \<Rightarrow> (uuid \<times> uuid) list \<Rightarrow> order_db \<Rightarrow> order_db" where
  "allocate_items ids k site [] db = db"
| "allocate_items ids k site ((i, product) # xs) db =
     allocate_items ids (Suc k) site xs (allocate_inventory (fi_alloc ids k) site product i db)"

section \<open>Strategies\<close>

text \<open>What a strategy returns, with the buckets that the count changed.\<close>
record completion =
  cm_cycle :: cycle
  cm_items :: "(uuid \<times> uuid) list"
  cm_closed :: "closed_entry option"
  cm_status :: "station_status option"
  cm_context :: "metric_context option"
  cm_detection :: "detection option"
  cm_changed :: "bucket_row list"

type_synonym completed = "cycle_error + (completion \<times> plant)"

definition store_items :: "inv_db \<Rightarrow> plant \<Rightarrow> plant" where
  "store_items db p = p\<lparr>pl_inv := db\<rparr>"

definition allocate_cycle :: "fresh_ids \<Rightarrow> uuid \<Rightarrow> (uuid \<times> uuid) list \<Rightarrow> plant \<Rightarrow> plant" where
  "allocate_cycle ids site items p = p\<lparr>pl_orders := allocate_items ids 0 site items (pl_orders p)\<rparr>"

text \<open>
  The end of a live strategy: allocation, the reads for the publications and the timers, the
  counts of the hour.  None when the query for the path of the station does not end.
\<close>
definition finish_live ::
  "fresh_ids \<Rightarrow> ms \<Rightarrow> uuid \<Rightarrow> ms \<Rightarrow> uuid \<Rightarrow> cycle_setup \<Rightarrow> int \<Rightarrow> cycle \<Rightarrow> (uuid \<times> uuid) list
     \<Rightarrow> closed_entry option \<Rightarrow> station_status \<Rightarrow> plant \<Rightarrow> completed option" where
  "finish_live ids now st t job s secs c items ended status p =
     (let p1 = allocate_cycle ids (cs_site s) items p
      in case load_metric_context (pl_state p1) st of
           None \<Rightarrow> None
         | Some ctx \<Rightarrow>
             (let det = prepare_detection st (map_of (pl_detect p1) st)
                          (Option.bind (find (\<lambda>j. jo_id j = job) (pl_jobs p1)) (\<lambda>j. if jo_blob j = None then None else jo_cycle j)) now
              in case increment_hour_counts st t 1 (int (length items)) (ideal_increment s) secs (pl_buckets p1) of
                   (changed, b) \<Rightarrow>
                     Some (Inr (\<lparr>cm_cycle = c, cm_items = items, cm_closed = ended, cm_status = Some status,
                                 cm_context = ctx, cm_detection = Some det, cm_changed = changed\<rparr>,
                                p1\<lparr>pl_buckets := b\<rparr>))))"

text \<open>The cycle starts where the latest one ended.\<close>
definition immediate_cycle :: "fresh_ids \<Rightarrow> uuid \<Rightarrow> ms \<Rightarrow> uuid \<Rightarrow> cycle_setup \<Rightarrow> plant \<Rightarrow> cycle" where
  "immediate_cycle ids st t blob s p =
     new_cycle (fi_cycle ids) st (case previous_end st p of Some e \<Rightarrow> e | None \<Rightarrow> t) (Some t) blob s"

definition complete_immediate ::
  "fresh_ids \<Rightarrow> ms \<Rightarrow> uuid \<Rightarrow> ms \<Rightarrow> uuid \<Rightarrow> uuid \<Rightarrow> cycle_setup \<Rightarrow> plant \<Rightarrow> completed option" where
  "complete_immediate ids now st t job blob s p =
     (let c = immediate_cycle ids st t blob s p;
          dur = seconds_between (cy_start c) t;
          p1 = add_cycle c p
      in case enter_up ids now st t blob dur (slow_threshold s) (pl_state p1) of
           Inl e \<Rightarrow> Some (Inl (StateWrite e))
         | Inr (status, ended, sdb) \<Rightarrow>
             (case create_items now ids 0 job [cy_id c] (pl_inv p1) of
                Inl e \<Rightarrow> Some (Inl (ItemWrite e))
              | Inr (items, idb) \<Rightarrow>
                  finish_live ids now st t job s (js_round (max 0 dur)) c items ended status
                    (store_items idb (p1\<lparr>pl_state := sdb\<rparr>))))"

definition open_cycles :: "uuid \<Rightarrow> plant \<Rightarrow> cycle list" where
  "open_cycles st p = filter (\<lambda>c. cy_station c = st \<and> cy_end c = None) (iv_cycles (pl_inv p))"

text \<open>
  The first half of both open strategies: the items of the open cycles, which are then closed;
  a station without any cycle gets one of length zero.
\<close>
definition close_cycles ::
  "fresh_ids \<Rightarrow> ms \<Rightarrow> uuid \<Rightarrow> ms \<Rightarrow> uuid \<Rightarrow> uuid \<Rightarrow> cycle_setup \<Rightarrow> plant \<Rightarrow> inventory_error + ((uuid \<times> uuid) list \<times> plant)" where
  "close_cycles ids now st t job blob s p =
     (if open_cycles st p \<noteq> [] then
        (case create_items now ids 0 job (map cy_id (open_cycles st p)) (pl_inv p) of
           Inl e \<Rightarrow> Inl e
         | Inr (items, idb) \<Rightarrow>
             Inr (items, store_items (idb\<lparr>iv_cycles :=
               update_where (\<lambda>c. cy_station c = st \<and> cy_end c = None) (\<lambda>c. c\<lparr>cy_end := Some t\<rparr>) (iv_cycles idb)\<rparr>) p))
      else if list_ex (\<lambda>c. cy_station c = st) (iv_cycles (pl_inv p)) then Inr ([], p)
      else (let p1 = add_cycle (new_cycle (fi_zero ids) st t (Some t) blob s) p
            in case create_items now ids 0 job [fi_zero ids] (pl_inv p1) of
                 Inl e \<Rightarrow> Inl e
               | Inr (items, idb) \<Rightarrow> Inr (items, store_items idb p1)))"

text \<open>The duration is that of the first open cycle.\<close>
definition open_options :: "uuid \<Rightarrow> ms \<Rightarrow> uuid \<Rightarrow> cycle_setup \<Rightarrow> plant \<Rightarrow> up_options" where
  "open_options st t blob s p =
     \<lparr>uo_cycle = (case open_cycles st p of [] \<Rightarrow> None | c # _ \<Rightarrow> Some (seconds_between (cy_start c) t)),
      uo_slow = slow_threshold s, uo_blob = Some blob\<rparr>"

definition complete_open_close ::
  "fresh_ids \<Rightarrow> ms \<Rightarrow> uuid \<Rightarrow> ms \<Rightarrow> uuid \<Rightarrow> uuid \<Rightarrow> cycle_setup \<Rightarrow> plant \<Rightarrow> completed option" where
  "complete_open_close ids now st t job blob s p =
     (case close_cycles ids now st t job blob s p of
        Inl e \<Rightarrow> Some (Inl (ItemWrite e))
      | Inr (items, p1) \<Rightarrow>
          (case transition_to_up st t (open_options st t blob s p) (fi_entry ids) (fi_block ids) now (pl_state p1) of
             Inl e \<Rightarrow> Some (Inl (StateWrite e))
           | Inr (entry, ended, sdb) \<Rightarrow>
               (let c = new_cycle (fi_cycle ids) st t None blob s
                in finish_live ids now st t job s 0 c items ended (if sl_status entry = Some StSlow then StSlow else StUp)
                     (add_cycle c (p1\<lparr>pl_state := sdb\<rparr>)))))"

text \<open>The replayed variants.\<close>
definition replayed_completion :: "cycle \<Rightarrow> (uuid \<times> uuid) list \<Rightarrow> completion" where
  "replayed_completion c items =
     \<lparr>cm_cycle = c, cm_items = items, cm_closed = None, cm_status = None, cm_context = None, cm_detection = None,
      cm_changed = []\<rparr>"

definition complete_immediate_replay ::
  "fresh_ids \<Rightarrow> ms \<Rightarrow> uuid \<Rightarrow> ms \<Rightarrow> uuid \<Rightarrow> uuid \<Rightarrow> cycle_setup \<Rightarrow> plant \<Rightarrow> completed" where
  "complete_immediate_replay ids now st t job blob s p =
     (let c = immediate_cycle ids st t blob s p
      in case create_items now ids 0 job [cy_id c] (pl_inv (add_cycle c p)) of
           Inl e \<Rightarrow> Inl (ItemWrite e)
         | Inr (items, idb) \<Rightarrow>
             Inr (replayed_completion c items, allocate_cycle ids (cs_site s) items (store_items idb (add_cycle c p))))"

definition complete_open_close_replay ::
  "fresh_ids \<Rightarrow> ms \<Rightarrow> uuid \<Rightarrow> ms \<Rightarrow> uuid \<Rightarrow> uuid \<Rightarrow> cycle_setup \<Rightarrow> plant \<Rightarrow> completed" where
  "complete_open_close_replay ids now st t job blob s p =
     (case close_cycles ids now st t job blob s p of
        Inl e \<Rightarrow> Inl (ItemWrite e)
      | Inr (items, p1) \<Rightarrow>
          (let c = new_cycle (fi_cycle ids) st t None blob s
           in Inr (replayed_completion c items, allocate_cycle ids (cs_site s) items (add_cycle c p1))))"

text \<open>
  The whole completion.  A replayed one tracks its window, a live one sends the timers, the
  publications and the dirty buckets after the commit.
\<close>
datatype cycle_effect =
    TrackReplay uuid uuid ms
  | Enqueue detection
  | Live live_event
  | Dirty "(uuid \<times> uuid \<times> ms) list"

definition post_commit :: "uuid \<Rightarrow> ms \<Rightarrow> completion \<Rightarrow> cycle_effect list" where
  "post_commit st t r =
     (let c = cm_cycle r;
          fin = (case cy_end c of Some e \<Rightarrow> e | None \<Rightarrow> t);
          dur = max 0 (seconds_between (cy_start c) fin)
      in (case cm_detection r of Some d \<Rightarrow> [Enqueue d] | None \<Rightarrow> [])
         @ (case cm_context r of
              None \<Rightarrow> []
            | Some ctx \<Rightarrow>
                (case cm_status r of None \<Rightarrow> [] | Some x \<Rightarrow> [Live (status_event ctx x t), Live (reason_event ctx None t)])
                @ [Live (last_cycle_event ctx (Some dur) fin)])
         @ [Dirty (batched_metrics_update
              \<lparr>mq_station = st, mq_site = cc_site c, mq_time = fin,
               mq_closed = map_option (\<lambda>e. (ce_start e, ce_end e)) (cm_closed r)\<rparr>)])"

definition complete_cycle ::
  "fresh_ids \<Rightarrow> ms \<Rightarrow> uuid \<Rightarrow> ms \<Rightarrow> uuid \<Rightarrow> bool \<Rightarrow> bool \<Rightarrow> plant
     \<Rightarrow> (cycle_error + (cycle \<times> cycle_effect list \<times> plant)) option" where
  "complete_cycle ids now st t job keep_open replayed p =
     (case cycle_setup_of st job p of
        None \<Rightarrow> Some (Inl CycleStationNotFound)
      | Some s \<Rightarrow>
          (case cs_blob s of
             None \<Rightarrow> Some (Inl JobNoBlob)
           | Some blob \<Rightarrow>
               if cs_site s \<noteq> cs_job_site s then Some (Inl CycleSiteMismatch)
               else if replayed then
                 (case (if keep_open then complete_open_close_replay ids now st t job blob s p
                        else complete_immediate_replay ids now st t job blob s p) of
                    Inl e \<Rightarrow> Some (Inl e)
                  | Inr (r, p') \<Rightarrow> Some (Inr (cm_cycle r, [TrackReplay st (cs_site s) t], p')))
               else
                 (case (if keep_open then complete_open_close ids now st t job blob s p
                        else complete_immediate ids now st t job blob s p) of
                    None \<Rightarrow> None
                  | Some (Inl e) \<Rightarrow> Some (Inl e)
                  | Some (Inr (r, p')) \<Rightarrow> Some (Inr (cm_cycle r, post_commit st t r, p')))))"

section \<open>Replayed events\<close>

record replay_window =
  rw_min :: ms
  rw_max :: ms
  rw_site :: uuid
  rw_count :: nat

text \<open>The script on the store; instants are compared as ISO strings of one length, which is their order.\<close>
definition update_window :: "ms \<Rightarrow> uuid \<Rightarrow> replay_window option \<Rightarrow> replay_window" where
  "update_window t site w =
     (case w of
        None \<Rightarrow> \<lparr>rw_min = t, rw_max = t, rw_site = site, rw_count = 1\<rparr>
      | Some d \<Rightarrow> d\<lparr>rw_min := (if t < rw_min d then t else rw_min d), rw_max := (if t > rw_max d then t else rw_max d),
                     rw_count := rw_count d + 1\<rparr>)"

datatype reconcile_call = RemoveReconcile uuid | AddReconcile uuid ms

definition reconcile_debounce :: ms where "reconcile_debounce = 10000"

definition track_replayed :: "uuid \<Rightarrow> uuid \<Rightarrow> ms \<Rightarrow> (uuid \<rightharpoonup> replay_window) \<Rightarrow> reconcile_call list \<times> (uuid \<rightharpoonup> replay_window)" where
  "track_replayed st site t ws =
     ([RemoveReconcile st, AddReconcile st reconcile_debounce], ws(st \<mapsto> update_window t site (ws st)))"

text \<open>The windows left in the store at a start; \<open>known\<close> tells whether the queue still has the job.\<close>
definition recover_windows :: "(uuid \<Rightarrow> bool) \<Rightarrow> uuid list \<Rightarrow> reconcile_call list" where
  "recover_windows known stations = map (\<lambda>st. AddReconcile st reconcile_debounce) (filter (\<lambda>st. \<not> known st) stations)"

definition overlaps_replay :: "uuid \<Rightarrow> ms \<Rightarrow> ms \<Rightarrow> state_log \<Rightarrow> bool" where
  "overlaps_replay st a b r =
     (live_log st r \<and> ((sl_start r \<le> b \<and> (case sl_end r of Some e \<Rightarrow> e \<ge> a | None \<Rightarrow> True)) \<or> sl_end r = None))"

text \<open>The three statements on the state log; \<open>i\<close> and \<open>i'\<close> are the fresh ids of the entries, \<open>b\<close> of their block.\<close>
definition fix_state_entries ::
  "uuid \<Rightarrow> ms \<Rightarrow> ms \<Rightarrow> uuid \<Rightarrow> uuid \<Rightarrow> uuid \<Rightarrow> ms \<Rightarrow> state_db \<Rightarrow> state_error + state_db" where
  "fix_state_entries st a b i i' blk now db =
     (let db1 = update_logs (overlaps_replay st a b) (\<lambda>r. r\<lparr>sl_deleted := Some now\<rparr>) now db;
          blob = active_job_blob st db1
      in case insert_log ((new_entry i st a Up StUp blk blob now)\<lparr>sl_end := Some b\<rparr>) db1 of
           Inl e \<Rightarrow> Inl e
         | Inr db2 \<Rightarrow> insert_log (new_entry i' st b Up StUp blk blob now) db2)"

definition affected_entities :: "uuid \<Rightarrow> uuid \<Rightarrow> bucket_db \<Rightarrow> uuid list" where
  "affected_entities st site db =
     [st, site] @ (case find_station st db of
        None \<Rightarrow> []
      | Some s \<Rightarrow> (case st_center s of Some w \<Rightarrow> [w] | None \<Rightarrow> []) @ (case st_job s of Some j \<Rightarrow> [j] | None \<Rightarrow> []))"

definition restored_bucket :: "uuid list \<Rightarrow> uuid \<Rightarrow> ms \<Rightarrow> ms \<Rightarrow> bucket_row \<Rightarrow> bool" where
  "restored_bucket ids site a b r =
     (bu_site r = site \<and> bu_entity r \<in> set ids \<and> bu_start r < b \<and> of_int (bu_start r) + bu_duration r * 1000 > of_int a)"

definition unarchive_buckets :: "uuid \<Rightarrow> uuid \<Rightarrow> ms \<Rightarrow> ms \<Rightarrow> bucket_db \<Rightarrow> bucket_db" where
  "unarchive_buckets st site a b db =
     (let p = restored_bucket (affected_entities st site db) site a b;
          rows = filter p (bd_log db)
      in db\<lparr>bd_live := snd (insert_absent rows (bd_live db)), bd_log := filter (\<lambda>r. \<not> p r) (bd_log db)\<rparr>)"

text \<open>The reconciliation up to the recalculation of the metrics, with the timers that it sets.\<close>
definition reconcile_replay ::
  "uuid \<Rightarrow> uuid \<Rightarrow> uuid \<Rightarrow> uuid \<Rightarrow> ms \<Rightarrow> (uuid \<rightharpoonup> replay_window) \<Rightarrow> plant
     \<Rightarrow> (state_error + (detection option \<times> plant)) \<times> (uuid \<rightharpoonup> replay_window)" where
  "reconcile_replay st i i' blk now ws p =
     (case ws st of
        None \<Rightarrow> (Inr (None, p), ws)
      | Some w \<Rightarrow>
          (case fix_state_entries st (rw_min w) (rw_max w) i i' blk now (pl_state p) of
             Inl e \<Rightarrow> (Inl e, ws(st := None))
           | Inr sdb \<Rightarrow>
               (let det = map_option (\<lambda>job. prepare_detection st (map_of (pl_detect p) st)
                            (Option.bind (find (\<lambda>j. jo_id j = job) (pl_jobs p)) (\<lambda>j. if jo_blob j = None then None else jo_cycle j)) now)
                            (Option.bind (find_station st (pl_buckets p)) st_job)
                in (Inr (det, p\<lparr>pl_state := sdb,
                                 pl_buckets := unarchive_buckets st (rw_site w) (rw_min w) (rw_max w) (pl_buckets p)\<rparr>),
                    ws(st := None)))))"

section \<open>The state log of a completion\<close>

lemma finish_live_result:
  assumes "finish_live ids now st t job s secs c items ended status p = Some (Inr (r, p'))"
  shows "pl_state p' = pl_state p" "pl_inv p' = pl_inv p" "cm_cycle r = c" "cm_items r = items" "cm_closed r = ended"
    "cm_status r = Some status"
    "increment_hour_counts st t 1 (int (length items)) (ideal_increment s) secs (pl_buckets p) = (cm_changed r, pl_buckets p')"
  using assms by (auto simp: finish_live_def Let_def allocate_cycle_def split: option.splits prod.splits)

lemma find_as_filter: "find q xs = (case filter q xs of [] \<Rightarrow> None | x # _ \<Rightarrow> Some x)"
  by (induction xs) auto

lemma first_open:
  assumes "count_where (open_log st) rows \<le> 1"
  shows "first_desc sl_start (filter (open_log st) rows) = find (open_log st) rows"
proof -
  have "length (filter (open_log st) rows) \<le> 1" using assms by (simp add: count_where_def)
  then show ?thesis
    unfolding find_as_filter by (cases "filter (open_log st) rows") auto
qed

lemma close_none:
  assumes "find (open_log st) (sd_logs db) = None"
  shows "close_open st t now db = db"
  using assms by (auto simp: close_open_def update_logs_def update_where_def find_None_iff intro!: state_db.equality map_idI)

text \<open>The transition written into the immediate strategy is the shared one.\<close>
lemma enter_up_transition:
  assumes "count_where (open_log st) (sd_logs db) \<le> 1"
  shows "enter_up ids now st t blob dur slow db =
    (case transition_to_up st t \<lparr>uo_cycle = Some dur, uo_slow = slow, uo_blob = Some blob\<rparr> (fi_entry ids) (fi_block ids) now db of
       Inl e \<Rightarrow> Inl e
     | Inr (entry, ended, db') \<Rightarrow> Inr (if sl_status entry = Some StSlow then StSlow else StUp, ended, db'))"
proof -
  have cur: "find_open st db = find (open_log st) (sd_logs db)" unfolding find_open_def by (rule first_open[OF assms])
  have db1: "(case find (open_log st) (sd_logs db) of None \<Rightarrow> db | Some _ \<Rightarrow> close_open st t now db) = close_open st t now db"
    using close_none[of st db t now] by (cases "find (open_log st) (sd_logs db)") simp_all
  show ?thesis
    unfolding enter_up_def transition_to_up_def Let_def cur db1
    by (cases slow) (auto simp: exceeds_slow_def new_entry_def split: sum.split)
qed

lemma complete_immediate_result:
  assumes "complete_immediate ids now st t job blob s p = Some (Inr (r, p'))"
  defines "c \<equiv> immediate_cycle ids st t blob s p"
  obtains status ended sdb items idb where
    "enter_up ids now st t blob (seconds_between (cy_start c) t) (slow_threshold s) (pl_state p) = Inr (status, ended, sdb)"
    "create_from_cycle now (fi_items ids 0) (cy_id c) job (pl_inv (add_cycle c p)) = Inr (items, idb)"
    "finish_live ids now st t job s (js_round (max 0 (seconds_between (cy_start c) t))) c items ended status
       (store_items idb ((add_cycle c p)\<lparr>pl_state := sdb\<rparr>)) = Some (Inr (r, p'))"
  using assms by (auto simp: complete_immediate_def Let_def add_cycle_def split: sum.splits prod.splits)

lemma complete_open_close_result:
  assumes "complete_open_close ids now st t job blob s p = Some (Inr (r, p'))"
  obtains items p1 entry ended sdb where
    "close_cycles ids now st t job blob s p = Inr (items, p1)"
    "transition_to_up st t (open_options st t blob s p) (fi_entry ids) (fi_block ids) now (pl_state p1) = Inr (entry, ended, sdb)"
    "finish_live ids now st t job s 0 (new_cycle (fi_cycle ids) st t None blob s) items ended
       (if sl_status entry = Some StSlow then StSlow else StUp)
       (add_cycle (new_cycle (fi_cycle ids) st t None blob s) (p1\<lparr>pl_state := sdb\<rparr>)) = Some (Inr (r, p'))"
  using assms by (auto simp: complete_open_close_def Let_def split: sum.splits prod.splits)

lemma plant_parts [simp]:
  "pl_state (add_cycle c p) = pl_state p" "pl_state (store_items db p) = pl_state p" "pl_inv (store_items db p) = db"
  "iv_cycles (pl_inv (add_cycle c p)) = iv_cycles (pl_inv p) @ [c]" "iv_items (pl_inv (add_cycle c p)) = iv_items (pl_inv p)"
  "pl_buckets (add_cycle c p) = pl_buckets p" "pl_buckets (store_items db p) = pl_buckets p"
  "pl_state (allocate_cycle ids site items p) = pl_state p" "pl_inv (allocate_cycle ids site items p) = pl_inv p"
  by (simp_all add: add_cycle_def store_items_def allocate_cycle_def)

lemma close_cycles_state: "close_cycles ids now st t job blob s p = Inr (items, p') \<Longrightarrow> pl_state p' = pl_state p \<and> pl_buckets p' = pl_buckets p"
  by (auto simp: close_cycles_def Let_def split: if_splits sum.splits)

lemma complete_cycle_cases:
  assumes "complete_cycle ids now st t job keep_open replayed p = Some (Inr (c, effs, p'))"
  obtains s blob r where "cycle_setup_of st job p = Some s" "cs_blob s = Some blob" "cs_site s = cs_job_site s" "c = cm_cycle r"
    "if replayed then (if keep_open then complete_open_close_replay ids now st t job blob s p
         else complete_immediate_replay ids now st t job blob s p) = Inr (r, p') \<and> effs = [TrackReplay st (cs_site s) t]
     else (if keep_open then complete_open_close ids now st t job blob s p
         else complete_immediate ids now st t job blob s p) = Some (Inr (r, p')) \<and> effs = post_commit st t r"
  using assms by (auto simp: complete_cycle_def split: option.splits sum.splits if_splits)

text \<open>
  C5: A live completion, by either strategy, acts on the state log as the transition to UP with
  the blob and the slow threshold of the job, which is one of the operations of the runs above;
  a replayed one leaves the log alone.  At most one entry of the station may be open.
\<close>
theorem completion_is_cycle_up:
  assumes "complete_cycle ids now st t job keep_open replayed p = Some (Inr (c, effs, p'))"
    and "count_where (open_log st) (sd_logs (pl_state p)) \<le> 1"
  shows "if replayed then pl_state p' = pl_state p
    else (\<exists>opts s. cycle_setup_of st job p = Some s \<and> uo_blob opts = cs_blob s \<and> uo_slow opts = slow_threshold s
      \<and> exec_state (CycleUp st t opts (fi_entry ids) (fi_block ids) now) (pl_state p) = Inr (pl_state p'))"
proof -
  from assms(1) obtain s blob r where s: "cycle_setup_of st job p = Some s" "cs_blob s = Some blob"
    and run: "if replayed then (if keep_open then complete_open_close_replay ids now st t job blob s p
         else complete_immediate_replay ids now st t job blob s p) = Inr (r, p') \<and> effs = [TrackReplay st (cs_site s) t]
     else (if keep_open then complete_open_close ids now st t job blob s p
         else complete_immediate ids now st t job blob s p) = Some (Inr (r, p')) \<and> effs = post_commit st t r"
    by (rule complete_cycle_cases)
  consider "replayed" | "\<not> replayed" "keep_open" | "\<not> replayed" "\<not> keep_open" by blast
  then show ?thesis
  proof cases
    case 1
    with run show ?thesis
      by (auto simp: complete_open_close_replay_def complete_immediate_replay_def Let_def split: if_splits sum.splits
          dest: close_cycles_state)
  next
    case 2
    then have "complete_open_close ids now st t job blob s p = Some (Inr (r, p'))" using run by simp
    then obtain items p1 entry ended sdb where o: "close_cycles ids now st t job blob s p = Inr (items, p1)"
        "transition_to_up st t (open_options st t blob s p) (fi_entry ids) (fi_block ids) now (pl_state p1) = Inr (entry, ended, sdb)"
      and f: "finish_live ids now st t job s 0 (new_cycle (fi_cycle ids) st t None blob s) items ended
         (if sl_status entry = Some StSlow then StSlow else StUp)
         (add_cycle (new_cycle (fi_cycle ids) st t None blob s) (p1\<lparr>pl_state := sdb\<rparr>)) = Some (Inr (r, p'))"
      by (rule complete_open_close_result)
    have "exec_state (CycleUp st t (open_options st t blob s p) (fi_entry ids) (fi_block ids) now) (pl_state p) = Inr (pl_state p')"
      using o(2) close_cycles_state[OF o(1)] finish_live_result(1)[OF f] by (simp add: new_db_def)
    with 2 s show ?thesis by (auto intro!: exI[of _ "open_options st t blob s p"] simp: open_options_def)
  next
    case 3
    then have "complete_immediate ids now st t job blob s p = Some (Inr (r, p'))" using run by simp
    then obtain status ended sdb items idb where o:
        "enter_up ids now st t blob (seconds_between (cy_start (immediate_cycle ids st t blob s p)) t) (slow_threshold s) (pl_state p)
           = Inr (status, ended, sdb)"
      and f: "finish_live ids now st t job s (js_round (max 0 (seconds_between (cy_start (immediate_cycle ids st t blob s p)) t)))
         (immediate_cycle ids st t blob s p) items ended status
         (store_items idb ((add_cycle (immediate_cycle ids st t blob s p) p)\<lparr>pl_state := sdb\<rparr>)) = Some (Inr (r, p'))"
      by (rule complete_immediate_result)
    let ?opts = "\<lparr>uo_cycle = Some (seconds_between (cy_start (immediate_cycle ids st t blob s p)) t),
        uo_slow = slow_threshold s, uo_blob = Some blob\<rparr>"
    have "exec_state (CycleUp st t ?opts (fi_entry ids) (fi_block ids) now) (pl_state p) = Inr (pl_state p')"
      using o enter_up_transition[OF assms(2), of ids now t blob "seconds_between (cy_start (immediate_cycle ids st t blob s p)) t"
          "slow_threshold s"] finish_live_result(1)[OF f]
      by (auto simp: new_db_def split: sum.splits)
    with 3 s show ?thesis by (auto intro!: exI[of _ ?opts])
  qed
qed

section \<open>Items and counts\<close>

text \<open>The items that a step adds for some cycles.\<close>
definition adds_items :: "uuid list \<Rightarrow> (uuid \<times> uuid) list \<Rightarrow> inv_db \<Rightarrow> inv_db \<Rightarrow> bool" where
  "adds_items cs items db db' =
     (iv_cycles db' = iv_cycles db
      \<and> (\<exists>new. iv_items db' = iv_items db @ new \<and> map ii_id new = map fst items \<and> set (map ii_cycle new) \<subseteq> set cs))"

lemma create_from_cycle_adds:
  assumes "create_from_cycle now fresh cyc job db = Inr (items, db')"
  shows "adds_items [cyc] items db db'"
proof (cases "job_item_specs db job = []")
  case True
  with assms show ?thesis by (simp add: create_from_cycle_def adds_items_def)
next
  case False
  let ?flat = "flat_specs (job_item_specs db job)"
  let ?ids = "map fresh [0 ..< length ?flat]"
  have "iv_cycles db' = iv_cycles db" "iv_items db' = iv_items db @ map (\<lambda>(i, s). item_of now i cyc s) (zip ?ids ?flat)"
    "items = zip ?ids (map is_product ?flat)"
    using assms False by (auto simp: create_from_cycle_def Let_def split: if_splits option.splits prod.splits)
  moreover have "map ii_id (map (\<lambda>(i, s). item_of now i cyc s) (zip ?ids ?flat)) = ?ids"
    by (rule nth_equalityI) (simp_all add: item_of_def)
  moreover have "map fst (zip ?ids (map is_product ?flat)) = ?ids" by simp
  ultimately show ?thesis unfolding adds_items_def
    by (intro conjI exI[of _ "map (\<lambda>(i, s). item_of now i cyc s) (zip ?ids ?flat)"]) (auto simp: item_of_def)
qed

lemma create_items_adds:
  "create_items now ids k job cs db = Inr (items, db') \<Longrightarrow> adds_items cs items db db'"
proof (induction cs arbitrary: k db items)
  case Nil
  then show ?case by (simp add: adds_items_def)
next
  case (Cons c cs)
  then obtain xs db1 ys where x: "create_from_cycle now (fi_items ids k) c job db = Inr (xs, db1)"
    "create_items now ids (Suc k) job cs db1 = Inr (ys, db')" "items = xs @ ys"
    by (auto split: sum.splits)
  obtain new where new: "iv_cycles db1 = iv_cycles db" "iv_items db1 = iv_items db @ new" "map ii_id new = map fst xs" "set (map ii_cycle new) \<subseteq> {c}"
    using create_from_cycle_adds[OF x(1)] unfolding adds_items_def by auto
  obtain new' where "iv_cycles db' = iv_cycles db1" "iv_items db' = iv_items db1 @ new'" "map ii_id new' = map fst ys" "set (map ii_cycle new') \<subseteq> set cs"
    using Cons.IH[OF x(2)] unfolding adds_items_def by auto
  with new x(3) show ?case unfolding adds_items_def by (intro conjI exI[of _ "new @ new'"]) auto
qed

lemma adds_items_length: "adds_items cs items db db' \<Longrightarrow> length (iv_items db') = length (iv_items db) + length items"
  unfolding adds_items_def by (metis length_append length_map)

lemma create_items_one: "create_items now ids 0 job [c] db = Inr (items, db') \<longleftrightarrow> create_from_cycle now (fi_items ids 0) c job db = Inr (items, db')"
  by (auto split: sum.splits)

lemma map_result:
  "(case x of Inl e \<Rightarrow> Inl e | Inr (a, b) \<Rightarrow> Inr (a, g a b)) = Inr (u, v) \<longleftrightarrow> (\<exists>b. x = Inr (u, b) \<and> v = g u b)"
  by (auto split: sum.splits)

text \<open>The cycles after a completion; the items of an open strategy are those of the cycles that it closes.\<close>
lemma close_cycles_items:
  assumes "close_cycles ids now st t job blob s p = Inr (items, p')"
  shows "length (iv_items (pl_inv p')) = length (iv_items (pl_inv p)) + length items"
    "\<forall>c \<in> set (iv_cycles (pl_inv p')). cy_station c = st \<longrightarrow> cy_end c \<noteq> None"
proof -
  let ?close = "update_where (\<lambda>c. cy_station c = st \<and> cy_end c = None) (\<lambda>c. c\<lparr>cy_end := Some t\<rparr>)"
  let ?zero = "add_cycle (new_cycle (fi_zero ids) st t (Some t) blob s) p"
  have "length (iv_items (pl_inv p')) = length (iv_items (pl_inv p)) + length items
    \<and> (\<forall>c \<in> set (iv_cycles (pl_inv p')). cy_station c = st \<longrightarrow> cy_end c \<noteq> None)"
  proof (cases "open_cycles st p = []")
    case False
    have "\<exists>idb. create_items now ids 0 job (map cy_id (open_cycles st p)) (pl_inv p) = Inr (items, idb)
        \<and> p' = store_items (idb\<lparr>iv_cycles := ?close (iv_cycles idb)\<rparr>) p"
      using assms unfolding close_cycles_def if_P[OF False] map_result .
    then obtain idb where r: "create_items now ids 0 job (map cy_id (open_cycles st p)) (pl_inv p) = Inr (items, idb)"
      "p' = store_items (idb\<lparr>iv_cycles := ?close (iv_cycles idb)\<rparr>) p"
      by (elim exE conjE)
    have "\<forall>c \<in> set (?close cs). cy_station c = st \<longrightarrow> cy_end c \<noteq> None" for cs :: "cycle list"
      by (induction cs) simp_all
    then show ?thesis using adds_items_length[OF create_items_adds[OF r(1)]] by (simp add: r(2))
  next
    case none: True
    show ?thesis
    proof (cases "list_ex (\<lambda>c. cy_station c = st) (iv_cycles (pl_inv p))")
      case True
      then have "items = []" "p' = p" using assms none by (simp_all add: close_cycles_def)
      then show ?thesis using none by (simp add: open_cycles_def filter_empty_conv)
    next
      case False
      have "\<not> open_cycles st p \<noteq> []" using none by simp
      note pick = if_not_P[OF this] if_not_P[OF False]
      have "\<exists>idb. create_items now ids 0 job [fi_zero ids] (pl_inv ?zero) = Inr (items, idb) \<and> p' = store_items idb ?zero"
        using assms unfolding close_cycles_def Let_def pick map_result .
      then obtain idb where r: "create_items now ids 0 job [fi_zero ids] (pl_inv ?zero) = Inr (items, idb)" "p' = store_items idb ?zero"
        by (elim exE conjE)
      note a = create_items_adds[OF r(1)]
      from a have "iv_cycles idb = iv_cycles (pl_inv p) @ [new_cycle (fi_zero ids) st t (Some t) blob s]"
        unfolding adds_items_def by simp
      with False adds_items_length[OF a] show ?thesis unfolding r(2) by (auto simp: list_ex_iff new_cycle_def)
    qed
  qed
  then show "length (iv_items (pl_inv p')) = length (iv_items (pl_inv p)) + length items"
    "\<forall>c \<in> set (iv_cycles (pl_inv p')). cy_station c = st \<longrightarrow> cy_end c \<noteq> None" by blast+
qed

text \<open>
  A live completion counts one cycle into the hour, the items that it adds to the inventory and
  the rounded duration of an immediate cycle; a replayed one leaves the buckets alone.
\<close>
lemma completion_buckets:
  assumes "complete_cycle ids now st t job keep_open False p = Some (Inr (c, effs, p'))"
  obtains s rows where "cycle_setup_of st job p = Some s"
    "length (iv_items (pl_inv p)) \<le> length (iv_items (pl_inv p'))"
    "increment_hour_counts st t 1 (int (length (iv_items (pl_inv p')) - length (iv_items (pl_inv p)))) (ideal_increment s)
      (if keep_open then 0 else js_round (max 0 (seconds_between (cy_start c) t))) (pl_buckets p) = (rows, pl_buckets p')"
proof -
  note t = that
  from assms obtain s blob r where s: "cycle_setup_of st job p = Some s" "c = cm_cycle r"
    and run: "(if keep_open then complete_open_close ids now st t job blob s p
         else complete_immediate ids now st t job blob s p) = Some (Inr (r, p'))"
    by (rule complete_cycle_cases) auto
  show ?thesis
  proof (cases keep_open)
    case True
    with run have "complete_open_close ids now st t job blob s p = Some (Inr (r, p'))" by simp
    then obtain items p1 entry ended sdb where o: "close_cycles ids now st t job blob s p = Inr (items, p1)"
        "transition_to_up st t (open_options st t blob s p) (fi_entry ids) (fi_block ids) now (pl_state p1) = Inr (entry, ended, sdb)"
      and f: "finish_live ids now st t job s 0 (new_cycle (fi_cycle ids) st t None blob s) items ended
         (if sl_status entry = Some StSlow then StSlow else StUp)
         (add_cycle (new_cycle (fi_cycle ids) st t None blob s) (p1\<lparr>pl_state := sdb\<rparr>)) = Some (Inr (r, p'))"
      by (rule complete_open_close_result)
    show ?thesis
      using t[OF s(1)] True close_cycles_items(1)[OF o(1)] close_cycles_state[OF o(1)] finish_live_result(2,7)[OF f] by simp
  next
    case False
    with run have "complete_immediate ids now st t job blob s p = Some (Inr (r, p'))" by simp
    then obtain status ended sdb items idb where
        "enter_up ids now st t blob (seconds_between (cy_start (immediate_cycle ids st t blob s p)) t) (slow_threshold s) (pl_state p)
           = Inr (status, ended, sdb)"
      and o: "create_from_cycle now (fi_items ids 0) (cy_id (immediate_cycle ids st t blob s p)) job
           (pl_inv (add_cycle (immediate_cycle ids st t blob s p) p)) = Inr (items, idb)"
      and f: "finish_live ids now st t job s (js_round (max 0 (seconds_between (cy_start (immediate_cycle ids st t blob s p)) t)))
         (immediate_cycle ids st t blob s p) items ended status
         (store_items idb ((add_cycle (immediate_cycle ids st t blob s p) p)\<lparr>pl_state := sdb\<rparr>)) = Some (Inr (r, p'))"
      by (rule complete_immediate_result)
    show ?thesis
      using t[OF s(1)] False adds_items_length[OF create_from_cycle_adds[OF o]] finish_live_result(2,3,7)[OF f] by (simp add: s(2))
  qed
qed

text \<open>Live completions of a station with instants in a window, by either strategy.\<close>
inductive live_run :: "uuid \<Rightarrow> ms \<Rightarrow> rat \<Rightarrow> nat \<Rightarrow> plant \<Rightarrow> plant \<Rightarrow> bool" for st a b where
  none: "live_run st a b 0 p p"
| more_cycles: "live_run st a b n p p1 \<Longrightarrow> complete_cycle ids now st t job keep_open False p1 = Some (Inr (c, effs, p2))
    \<Longrightarrow> a \<le> t \<Longrightarrow> of_int t < b \<Longrightarrow> live_run st a b (Suc n) p p2"

definition is_hour :: "uuid \<Rightarrow> ms \<Rightarrow> rat \<Rightarrow> bucket_row \<Rightarrow> bool" where
  "is_hour st a b h = (bu_type h = Station \<and> bu_entity h = st \<and> bu_gran h = Hour \<and> bu_start h = a \<and> bucket_end h = b)"

lemma increment_hour:
  assumes "increment_hour_counts st t n k ideal secs db = (rows, db')" "is_hour st a b h" "h \<in> set (bd_live db)" "a \<le> t" "of_int t < b"
  shows "\<exists>h' \<in> set (bd_live db'). is_hour st a b h'
    \<and> bk_total_cycles (bu_kpis h') = bk_total_cycles (bu_kpis h) + n \<and> bk_total_items (bu_kpis h') = bk_total_items (bu_kpis h) + k"
proof (intro bexI conjI)
  let ?h = "stored_row (h\<lparr>bu_kpis := add_counts n k ideal secs (bu_kpis h)\<rparr>)"
  have "hour_at Station st t h" using assms(2,4,5) by (auto simp: is_hour_def hour_at_def bucket_end_def)
  then show "?h \<in> set (bd_live db')"
    using assms(1,3) by (auto simp: increment_hour_counts_def update_returning_def set_update_where)
  show "is_hour st a b ?h" using assms(2) by (simp add: is_hour_def bucket_end_def stored_row_def)
  show "bk_total_cycles (bu_kpis ?h) = bk_total_cycles (bu_kpis h) + n" "bk_total_items (bu_kpis ?h) = bk_total_items (bu_kpis h) + k"
    by (simp_all add: stored_row_def add_counts_def)
qed

text \<open>
  C6: Whatever live completions of a station fall into an hour, with open cycles or without, its
  bucket then counts one more cycle for each of them and one more item for each item that was
  added to the inventory meanwhile.
\<close>
theorem hour_counts_follow:
  assumes "live_run st a b n p p'" "h \<in> set (bd_live (pl_buckets p))" "is_hour st a b h"
  shows "length (iv_items (pl_inv p)) \<le> length (iv_items (pl_inv p'))
    \<and> (\<exists>h' \<in> set (bd_live (pl_buckets p')). is_hour st a b h'
      \<and> bk_total_cycles (bu_kpis h') = bk_total_cycles (bu_kpis h) + int n
      \<and> bk_total_items (bu_kpis h') = bk_total_items (bu_kpis h) + int (length (iv_items (pl_inv p')) - length (iv_items (pl_inv p))))"
  using assms
proof (induction rule: live_run.induct)
  case (none p)
  then show ?case by auto
next
  case (more_cycles n p p1 ids now t job keep_open c effs p2)
  then obtain h1 where h1: "h1 \<in> set (bd_live (pl_buckets p1))" "is_hour st a b h1"
      "bk_total_cycles (bu_kpis h1) = bk_total_cycles (bu_kpis h) + int n"
      "bk_total_items (bu_kpis h1) = bk_total_items (bu_kpis h) + int (length (iv_items (pl_inv p1)) - length (iv_items (pl_inv p)))"
    by blast
  obtain s rows where grow: "length (iv_items (pl_inv p1)) \<le> length (iv_items (pl_inv p2))"
    and inc: "increment_hour_counts st t 1 (int (length (iv_items (pl_inv p2)) - length (iv_items (pl_inv p1)))) (ideal_increment s)
      (if keep_open then 0 else js_round (max 0 (seconds_between (cy_start c) t))) (pl_buckets p1) = (rows, pl_buckets p2)"
    using completion_buckets[OF more_cycles.hyps(2)] by metis
  obtain h2 where h2: "h2 \<in> set (bd_live (pl_buckets p2))" "is_hour st a b h2"
      "bk_total_cycles (bu_kpis h2) = bk_total_cycles (bu_kpis h1) + 1"
      "bk_total_items (bu_kpis h2) = bk_total_items (bu_kpis h1) + int (length (iv_items (pl_inv p2)) - length (iv_items (pl_inv p1)))"
    using increment_hour[OF inc h1(2,1) more_cycles.hyps(3,4)] by blast
  have "length (iv_items (pl_inv p)) \<le> length (iv_items (pl_inv p1))" using more_cycles by blast
  with grow h1 h2 show ?case by (intro conjI bexI[OF _ h2(1)]) simp_all
qed

section \<open>The cycles of a station\<close>

lemma complete_immediate_cycles:
  assumes "complete_cycle ids now st t job False replayed p = Some (Inr (c, effs, p'))"
  shows "iv_cycles (pl_inv p') = iv_cycles (pl_inv p) @ [c]"
    "cy_station c = st" "cy_start c = (case previous_end st p of Some e \<Rightarrow> e | None \<Rightarrow> t)" "cy_end c = Some t"
proof -
  from assms obtain s blob r where s: "c = cm_cycle r"
    and run: "if replayed then complete_immediate_replay ids now st t job blob s p = Inr (r, p')
      else complete_immediate ids now st t job blob s p = Some (Inr (r, p'))"
    by (rule complete_cycle_cases) (auto split: if_splits)
  have c: "c = immediate_cycle ids st t blob s p \<and> iv_cycles (pl_inv p') = iv_cycles (pl_inv p) @ [c]"
  proof (cases replayed)
    case True
    with run show ?thesis unfolding s
      by (auto simp: complete_immediate_replay_def Let_def replayed_completion_def adds_items_def simp del: create_items.simps
          split: sum.splits dest!: create_items_adds)
  next
    case False
    with run have "complete_immediate ids now st t job blob s p = Some (Inr (r, p'))" by simp
    then obtain status ended sdb items idb where
        "enter_up ids now st t blob (seconds_between (cy_start (immediate_cycle ids st t blob s p)) t) (slow_threshold s) (pl_state p)
           = Inr (status, ended, sdb)"
      and o: "create_from_cycle now (fi_items ids 0) (cy_id (immediate_cycle ids st t blob s p)) job
           (pl_inv (add_cycle (immediate_cycle ids st t blob s p) p)) = Inr (items, idb)"
      and f: "finish_live ids now st t job s (js_round (max 0 (seconds_between (cy_start (immediate_cycle ids st t blob s p)) t)))
         (immediate_cycle ids st t blob s p) items ended status
         (store_items idb ((add_cycle (immediate_cycle ids st t blob s p) p)\<lparr>pl_state := sdb\<rparr>)) = Some (Inr (r, p'))"
      by (rule complete_immediate_result)
    show ?thesis using finish_live_result(2,3)[OF f] create_from_cycle_adds[OF o] unfolding s adds_items_def by simp
  qed
  then show "iv_cycles (pl_inv p') = iv_cycles (pl_inv p) @ [c]" "cy_station c = st"
    "cy_start c = (case previous_end st p of Some e \<Rightarrow> e | None \<Rightarrow> t)" "cy_end c = Some t"
    by (simp_all add: immediate_cycle_def new_cycle_def)
qed

text \<open>Completions without open cycles, live or replayed, of any station, in the order of their instants.\<close>
inductive ordered_run :: "plant \<Rightarrow> plant \<Rightarrow> bool" where
  start: "ordered_run p p"
| step: "ordered_run p p1 \<Longrightarrow> complete_cycle ids now st t job False replayed p1 = Some (Inr (c, effs, p2))
    \<Longrightarrow> (case previous_end st p1 of Some e \<Rightarrow> e \<le> t | None \<Rightarrow> True) \<Longrightarrow> ordered_run p p2"

definition station_cycles :: "uuid \<Rightarrow> plant \<Rightarrow> cycle list" where
  "station_cycles st p = filter (\<lambda>c. cy_station c = st) (iv_cycles (pl_inv p))"

definition cycle_span :: "cycle \<Rightarrow> ms \<times> ms" where
  "cycle_span c = (cy_start c, the (cy_end c))"

lemma consecutive_snoc: "consecutive a b ws \<Longrightarrow> b \<le> e \<Longrightarrow> consecutive a e (ws @ [(b, e)])"
  by (induction a b ws rule: consecutive.induct) auto

lemma first_desc_max: "first_desc (\<lambda>e. e) xs = (if xs = [] then None else Some (Max (set xs)))" for xs :: "int list"
proof (induction xs)
  case (Cons x xs)
  show ?case
  proof (cases "xs = []")
    case False
    define q where "q = Max (set xs)"
    have "first_desc (\<lambda>e. e) xs = Some q" "Max (set (x # xs)) = max x q" using Cons.IH False by (simp_all add: q_def)
    then show ?thesis by (simp add: max_def del: set_simps)
  qed simp
qed simp

lemma previous_end_add:
  assumes "iv_cycles (pl_inv p') = iv_cycles (pl_inv p) @ [c]" "cy_end c = Some t"
    and "case previous_end (cy_station c) p of Some e \<Rightarrow> e \<le> t | None \<Rightarrow> True"
  shows "previous_end st p' = (if st = cy_station c then Some t else previous_end st p)"
proof (cases "st = cy_station c")
  case True
  let ?ends = "List.map_filter cy_end (filter (\<lambda>x. cy_station x = cy_station c) (iv_cycles (pl_inv p)))"
  have "?ends \<noteq> [] \<Longrightarrow> Max (set ?ends) \<le> t" using assms(3) by (simp only: previous_end_def first_desc_max if_False option.case)
  then have "Max (insert t (set ?ends)) = t" by (cases "?ends = []") (simp_all add: max_absorb1)
  then show ?thesis using True assms(1,2) by (simp add: previous_end_def first_desc_max map_filter_def)
next
  case False
  then show ?thesis using assms(1) by (simp add: previous_end_def map_filter_def)
qed

definition tiled :: "uuid \<Rightarrow> plant \<Rightarrow> bool" where
  "tiled st p =
     (station_cycles st p = [] \<or>
      (\<exists>a b. consecutive a b (map cycle_span (station_cycles st p)) \<and> previous_end st p = Some b
        \<and> list_all (\<lambda>c. cy_end c \<noteq> None) (station_cycles st p)))"

lemma tiled_step:
  assumes "complete_cycle ids now st' t job False replayed p = Some (Inr (c, effs, p'))"
    and "case previous_end st' p of Some e \<Rightarrow> e \<le> t | None \<Rightarrow> True" "tiled st p"
  shows "tiled st p'"
proof -
  note c = complete_immediate_cycles[OF assms(1)]
  have late: "case previous_end (cy_station c) p of Some e \<Rightarrow> e \<le> t | None \<Rightarrow> True" using assms(2) unfolding c(2) .
  note e = previous_end_add[OF c(1) c(4) late, unfolded c(2)]
  show ?thesis
  proof (cases "st = st'")
    case False
    then have "station_cycles st p' = station_cycles st p" by (simp add: station_cycles_def c)
    with False assms(3) e show ?thesis by (simp add: tiled_def)
  next
    case True
    have cs: "station_cycles st p' = station_cycles st p @ [c]" using True by (simp add: station_cycles_def c)
    show ?thesis
    proof (cases "station_cycles st p = []")
      case True
      then have "previous_end st p = None" by (simp add: previous_end_def station_cycles_def map_filter_def)
      then have "cycle_span c = (t, t)" using c(3,4) \<open>st = st'\<close> by (simp add: cycle_span_def)
      with True cs e \<open>st = st'\<close> c(4) show ?thesis by (auto simp: tiled_def)
    next
      case False
      then obtain a b where ab: "consecutive a b (map cycle_span (station_cycles st p))" "previous_end st p = Some b"
        "list_all (\<lambda>c. cy_end c \<noteq> None) (station_cycles st p)" using assms(3) by (auto simp: tiled_def)
      have "cycle_span c = (b, t)" "b \<le> t" using c(3,4) ab(2) assms(2) True by (simp_all add: cycle_span_def)
      with consecutive_snoc[OF ab(1), of t] cs ab(3) e True c(4) show ?thesis by (auto simp: tiled_def)
    qed
  qed
qed

text \<open>
  C28: Completions without open cycles that arrive in the order of their instants tile the time of
  each station: every cycle starts where the one before it ended, the first one is of length
  zero, and so the durations add up to the time between the first and the latest instant.
\<close>
theorem cycles_tile:
  assumes "ordered_run p p'" "station_cycles st p = []" "station_cycles st p' \<noteq> []"
  shows "\<exists>a b. consecutive a b (map cycle_span (station_cycles st p')) \<and> previous_end st p' = Some b
    \<and> list_all (\<lambda>c. cy_end c \<noteq> None) (station_cycles st p')
    \<and> sum_list (map (\<lambda>c. the (cy_end c) - cy_start c) (station_cycles st p')) = b - a"
proof -
  have "tiled st p'" using assms(1,2)
  proof (induction rule: ordered_run.induct)
    case (start p)
    then show ?case by (simp add: tiled_def)
  next
    case (step p p1 ids now st' t job replayed c effs p2)
    then show ?case by (blast intro: tiled_step)
  qed
  then obtain a b where ab: "consecutive a b (map cycle_span (station_cycles st p'))" "previous_end st p' = Some b"
    "list_all (\<lambda>c. cy_end c \<noteq> None) (station_cycles st p')" using assms(3) by (auto simp: tiled_def)
  have "consecutive a b (map cycle_span cs) \<Longrightarrow> sum_list (map (\<lambda>c. the (cy_end c) - cy_start c) cs) = b - a" for cs :: "cycle list" and a b
    by (induction cs arbitrary: a) (auto simp: cycle_span_def)
  with ab show ?thesis by blast
qed

text \<open>
  C31: After a completion with open cycles, live or replayed, the new cycle is the only open one of
  its station and begins at the instant of the event.
\<close>
theorem one_open_cycle:
  assumes "complete_cycle ids now st t job True replayed p = Some (Inr (c, effs, p'))"
  shows "open_cycles st p' = [c] \<and> cy_start c = t"
proof -
  from assms obtain s blob r where s: "c = cm_cycle r"
    and run: "if replayed then complete_open_close_replay ids now st t job blob s p = Inr (r, p')
      else complete_open_close ids now st t job blob s p = Some (Inr (r, p'))"
    by (rule complete_cycle_cases) (auto split: if_splits)
  let ?c = "new_cycle (fi_cycle ids) st t None blob s"
  obtain items p1 where p1: "close_cycles ids now st t job blob s p = Inr (items, p1)" and c: "c = ?c"
    and cs: "iv_cycles (pl_inv p') = iv_cycles (pl_inv p1) @ [?c]"
  proof (cases replayed)
    case True
    with run that show ?thesis unfolding s
      by (auto simp: complete_open_close_replay_def Let_def replayed_completion_def split: sum.splits)
  next
    case False
    with run have "complete_open_close ids now st t job blob s p = Some (Inr (r, p'))" by simp
    then obtain items p1 entry ended sdb where o: "close_cycles ids now st t job blob s p = Inr (items, p1)"
        "transition_to_up st t (open_options st t blob s p) (fi_entry ids) (fi_block ids) now (pl_state p1) = Inr (entry, ended, sdb)"
      and f: "finish_live ids now st t job s 0 ?c items ended (if sl_status entry = Some StSlow then StSlow else StUp)
         (add_cycle ?c (p1\<lparr>pl_state := sdb\<rparr>)) = Some (Inr (r, p'))"
      by (rule complete_open_close_result)
    show ?thesis by (rule that[OF o(1)]) (use finish_live_result(2,3)[OF f] s in simp_all)
  qed
  have "filter (\<lambda>c. cy_station c = st \<and> cy_end c = None) (iv_cycles (pl_inv p1)) = []"
    using close_cycles_items(2)[OF p1] by (auto simp: filter_empty_conv)
  then show ?thesis unfolding open_cycles_def cs c by (simp add: new_cycle_def)
qed

section \<open>Replay\<close>










lemma tracked: "snd (track_replayed st site t ws) st = Some (update_window t site (ws st))"
  by (simp add: track_replayed_def)

text \<open>
  Tracking replayed cycles keeps the earliest and the latest instant and the number of cycles,
  in whatever order they arrive.
\<close>
theorem replay_window_spans:
  assumes "ws st = None" "ts \<noteq> []"
  shows "\<exists>w. foldl (\<lambda>ws t. snd (track_replayed st site t ws)) ws ts st = Some w
    \<and> rw_min w = Min (set ts) \<and> rw_max w = Max (set ts) \<and> rw_count w = length ts \<and> rw_site w = site"
  using assms(2)
proof (induction ts rule: rev_nonempty_induct)
  case (single t)
  then show ?case using assms(1) by (simp add: track_replayed_def update_window_def)
next
  case (snoc t ts)
  then obtain w where w: "foldl (\<lambda>ws t. snd (track_replayed st site t ws)) ws ts st = Some w"
    "rw_min w = Min (set ts)" "rw_max w = Max (set ts)" "rw_count w = length ts" "rw_site w = site" by auto
  have "Min (set (ts @ [t])) = min t (rw_min w)" "Max (set (ts @ [t])) = max t (rw_max w)"
    using snoc.hyps by (simp_all add: w)
  moreover have "foldl (\<lambda>ws t. snd (track_replayed st site t ws)) ws (ts @ [t]) st = Some (update_window t site (Some w))"
    using w(1) unfolding foldl_append foldl.simps by (simp only: tracked)
  ultimately show ?case using w(4,5) by (simp add: update_window_def min_def max_def del: set_append foldl_append)
qed



section \<open>Samples\<close>

text \<open>A station with its hour bucket, a job of two items and an order for its product.\<close>
definition sample_plant :: plant where
  "sample_plant =
     \<lparr>pl_state = \<lparr>sd_logs = [], sd_stations = [\<lparr>sr_id = ''st'', sr_site = ''s'', sr_name = ''Press'', sr_workcenter = None\<rparr>],
        sd_workcenters = [], sd_job_logs = [], sd_reasons = []\<rparr>,
      pl_inv = sample_inv_db\<lparr>iv_cycles := []\<rparr>, pl_orders = sample_orders,
      pl_buckets = sample_bucket_db\<lparr>bd_live := [(sample_hour 0 0)\<lparr>bu_entity := ''st''\<rparr>]\<rparr>,
      pl_jobs = [\<lparr>jo_id = ''j'', jo_site = ''s'', jo_blob = Some ''jb'', jo_cycle = Some 50\<rparr>], pl_tools = [],
      pl_detect = [(''st'', \<lparr>dc_slow = Some (1 / 5), dc_down = Some 60\<rparr>)]\<rparr>"

definition sample_fresh :: "string \<Rightarrow> fresh_ids" where
  "sample_fresh x =
     \<lparr>fi_cycle = ''c'' @ x, fi_zero = ''z'' @ x, fi_entry = ''e'' @ x, fi_block = ''b'' @ x,
      fi_items = (\<lambda>n k. x @ sample_ids k), fi_alloc = (\<lambda>k. x @ sample_ids k)\<rparr>"

definition sample_complete :: "string \<Rightarrow> ms \<Rightarrow> bool \<Rightarrow> plant \<Rightarrow> (cycle_error + (cycle \<times> cycle_effect list \<times> plant)) option" where
  "sample_complete x t keep_open p = complete_cycle (sample_fresh x) t ''st'' t ''j'' keep_open False p"

definition plant_after :: "(cycle_error + (cycle \<times> cycle_effect list \<times> plant)) option \<Rightarrow> plant option" where
  "plant_after r = (case r of Some (Inr (c, effs, p)) \<Rightarrow> Some p | _ \<Rightarrow> None)"

lemma plant_after_Some: "plant_after r = Some p \<longleftrightarrow> (\<exists>c effs. r = Some (Inr (c, effs, p)))"
  by (auto simp: plant_after_def split: option.splits sum.splits)

lemma sample_first:
  "map_option (\<lambda>p. (map cycle_span (iv_cycles (pl_inv p)), length (iv_items (pl_inv p)), count_where (open_log ''st'') (sd_logs (pl_state p))))
     (plant_after (sample_complete ''1'' 60000 False sample_plant)) = Some ([(60000, 60000)], 2, 1)"
  by code_simp

lemma sample_second:
  "map_option (\<lambda>p. (map cycle_span (iv_cycles (pl_inv p)), length (iv_items (pl_inv p))))
     (Option.bind (plant_after (sample_complete ''1'' 60000 False sample_plant)) (\<lambda>p. plant_after (sample_complete ''2'' 130000 False p)))
   = Some ([(60000, 60000), (60000, 130000)], 4)"
  by code_simp

lemma sample_two_cycles:
  obtains c1 e1 p1 c2 e2 p2 where "sample_complete ''1'' 60000 False sample_plant = Some (Inr (c1, e1, p1))"
    "sample_complete ''2'' 130000 False p1 = Some (Inr (c2, e2, p2))"
    "map cycle_span (iv_cycles (pl_inv p1)) = [(60000, 60000)]"
    "map cycle_span (iv_cycles (pl_inv p2)) = [(60000, 60000), (60000, 130000)]" "length (iv_items (pl_inv p2)) = 4"
    "count_where (open_log ''st'') (sd_logs (pl_state p1)) = 1"
proof -
  note t = that
  from sample_second obtain p1 p2 where p: "plant_after (sample_complete ''1'' 60000 False sample_plant) = Some p1"
    "plant_after (sample_complete ''2'' 130000 False p1) = Some p2"
    "map cycle_span (iv_cycles (pl_inv p2)) = [(60000, 60000), (60000, 130000)]" "length (iv_items (pl_inv p2)) = 4"
    by (auto split: Option.bind_splits)
  with sample_first have "map cycle_span (iv_cycles (pl_inv p1)) = [(60000, 60000)]" "count_where (open_log ''st'') (sd_logs (pl_state p1)) = 1"
    by auto
  moreover obtain c1 e1 where "sample_complete ''1'' 60000 False sample_plant = Some (Inr (c1, e1, p1))"
    using p(1) unfolding plant_after_Some by blast
  moreover obtain c2 e2 where "sample_complete ''2'' 130000 False p1 = Some (Inr (c2, e2, p2))"
    using p(2) unfolding plant_after_Some by blast
  ultimately show ?thesis using p(3,4) by (intro t)
qed

theorem completion_is_cycle_up_witness:
  "\<exists>p1 p2 opts. plant_after (sample_complete ''2'' 130000 False p1) = Some p2 \<and> uo_blob opts = Some ''jb''
    \<and> exec_state (CycleUp ''st'' 130000 opts (fi_entry (sample_fresh ''2'')) (fi_block (sample_fresh ''2'')) 130000) (pl_state p1) = Inr (pl_state p2)"
proof -
  obtain c1 e1 p1 c2 e2 p2 where p: "sample_complete ''1'' 60000 False sample_plant = Some (Inr (c1, e1, p1))"
    "sample_complete ''2'' 130000 False p1 = Some (Inr (c2, e2, p2))" "count_where (open_log ''st'') (sd_logs (pl_state p1)) = 1"
    by (rule sample_two_cycles)
  have "map_option (\<lambda>s. cs_blob s) (Option.bind (plant_after (sample_complete ''1'' 60000 False sample_plant)) (cycle_setup_of ''st'' ''j'')) = Some (Some ''jb'')"
    by code_simp
  then have s: "map_option cs_blob (cycle_setup_of ''st'' ''j'' p1) = Some (Some ''jb'')" using p(1) by (simp add: plant_after_def)
  from completion_is_cycle_up[OF p(2)[unfolded sample_complete_def]] p(3) obtain opts s where
    "cycle_setup_of ''st'' ''j'' p1 = Some s" "uo_blob opts = cs_blob s"
    "exec_state (CycleUp ''st'' 130000 opts (fi_entry (sample_fresh ''2'')) (fi_block (sample_fresh ''2'')) 130000) (pl_state p1) = Inr (pl_state p2)"
    by auto
  then show ?thesis using s p(2)
    by (intro exI[of _ p1] exI[of _ p2] exI[of _ opts]) (auto simp: plant_after_def simp del: exec_state.simps)
qed

theorem cycles_tile_witness:
  "\<exists>p. map cycle_span (station_cycles ''st'' p) = [(60000, 60000), (60000, 130000)]
    \<and> sum_list (map (\<lambda>c. the (cy_end c) - cy_start c) (station_cycles ''st'' p)) = 70000"
proof -
  obtain c1 e1 p1 c2 e2 p2 where p: "sample_complete ''1'' 60000 False sample_plant = Some (Inr (c1, e1, p1))"
    "sample_complete ''2'' 130000 False p1 = Some (Inr (c2, e2, p2))"
    "map cycle_span (iv_cycles (pl_inv p1)) = [(60000, 60000)]"
    "map cycle_span (iv_cycles (pl_inv p2)) = [(60000, 60000), (60000, 130000)]"
    by (rule sample_two_cycles)
  note c1 = complete_immediate_cycles[OF p(1)[unfolded sample_complete_def]] and c2 = complete_immediate_cycles[OF p(2)[unfolded sample_complete_def]]
  have n: "iv_cycles (pl_inv sample_plant) = []" by (simp add: sample_plant_def)
  then have e0: "previous_end ''st'' sample_plant = None" by (simp add: previous_end_def map_filter_def)
  have e1: "previous_end ''st'' p1 = Some 60000" using c1 n by (simp add: previous_end_def map_filter_def)
  have "ordered_run sample_plant p1" by (rule ordered_run.step[OF ordered_run.start p(1)[unfolded sample_complete_def]]) (simp add: e0)
  then have run: "ordered_run sample_plant p2" by (rule ordered_run.step[OF _ p(2)[unfolded sample_complete_def]]) (simp add: e1)
  have cs: "station_cycles ''st'' p2 = iv_cycles (pl_inv p2)" using c1 c2 n by (simp add: station_cycles_def)
  have "station_cycles ''st'' sample_plant = []" "station_cycles ''st'' p2 \<noteq> []"
    using p(4) unfolding cs by (auto simp: station_cycles_def n)
  then obtain a b where t: "consecutive a b (map cycle_span (station_cycles ''st'' p2))"
    "sum_list (map (\<lambda>c. the (cy_end c) - cy_start c) (station_cycles ''st'' p2)) = b - a"
    using cycles_tile[OF run] by blast
  then have "b - a = 70000" using p(4) unfolding cs by simp
  with t(2) p(4) show ?thesis unfolding cs[symmetric] by (intro exI[of _ p2]) simp
qed

theorem hour_counts_follow_witness:
  "\<exists>(p :: plant) h. h \<in> set (bd_live (pl_buckets p)) \<and> is_hour ''st'' 0 3600000 h \<and> length (iv_items (pl_inv p)) = 4
    \<and> bk_total_cycles (bu_kpis h) = 2 \<and> bk_total_items (bu_kpis h) = 4"
proof -
  obtain c1 e1 p1 c2 e2 p2 where p: "sample_complete ''1'' 60000 False sample_plant = Some (Inr (c1, e1, p1))"
    "sample_complete ''2'' 130000 False p1 = Some (Inr (c2, e2, p2))" "length (iv_items (pl_inv p2)) = 4"
    by (rule sample_two_cycles)
  have "live_run ''st'' 0 3600000 1 sample_plant p1"
    using live_run.more_cycles[OF live_run.none p(1)[unfolded sample_complete_def], of 0 3600000] by simp
  then have run: "live_run ''st'' 0 3600000 2 sample_plant p2"
    using live_run.more_cycles[OF _ p(2)[unfolded sample_complete_def], of 0 3600000 1 sample_plant] by (simp add: numeral_2_eq_2)
  let ?h = "(sample_hour 0 0)\<lparr>bu_entity := ''st''\<rparr>"
  have h: "?h \<in> set (bd_live (pl_buckets sample_plant))" "is_hour ''st'' 0 3600000 ?h" "iv_items (pl_inv sample_plant) = []"
    "bk_total_cycles (bu_kpis ?h) = 0" "bk_total_items (bu_kpis ?h) = 0"
    by (simp_all add: sample_plant_def is_hour_def sample_hour_def bucket_end_def sample_inv_db_def zero_kpis_def)
  obtain h' where "h' \<in> set (bd_live (pl_buckets p2))" "is_hour ''st'' 0 3600000 h'"
    "bk_total_cycles (bu_kpis h') = 2" "bk_total_items (bu_kpis h') = 4"
    using hour_counts_follow[OF run h(1,2)] p(3) h(3-5) by auto
  with p(3) show ?thesis by (intro exI[of _ p2] exI[of _ h']) simp
qed

theorem one_open_cycle_witness:
  "\<exists>c p. plant_after (sample_complete ''1'' 60000 True sample_plant) = Some p \<and> open_cycles ''st'' p = [c] \<and> cy_start c = 60000"
proof -
  have "map_option (\<lambda>p. length (iv_cycles (pl_inv p))) (plant_after (sample_complete ''1'' 60000 True sample_plant)) = Some 2"
    by code_simp
  then obtain c effs p where p: "sample_complete ''1'' 60000 True sample_plant = Some (Inr (c, effs, p))"
    by (auto simp: plant_after_Some)
  from one_open_cycle[OF p[unfolded sample_complete_def]] p show ?thesis by (auto simp: plant_after_def)
qed





theorem replay_window_spans_witness:
  "\<exists>w. foldl (\<lambda>ws t. snd (track_replayed ''st'' ''s'' t ws)) (\<lambda>_. None) [5, 3, 9] ''st'' = Some w \<and> rw_min w = 3 \<and> rw_max w = 9 \<and> rw_count w = 3"
proof -
  obtain w where "foldl (\<lambda>ws t. snd (track_replayed ''st'' ''s'' t ws)) (\<lambda>_. None) [5, 3, 9] ''st'' = Some w"
    "rw_min w = Min (set [5, 3, 9])" "rw_max w = Max (set [5, 3, 9])" "rw_count w = length [5, 3, 9 :: ms]"
    using replay_window_spans[of "\<lambda>_. None" "''st''" "[5, 3, 9]" "''s''"] by auto
  then show ?thesis by (intro exI[of _ w] conjI) simp_all
qed


end
