(* ===== verification/Recalc.thy ===== *)
theory Recalc
  imports Cascade
begin

text \<open>
  The recomputation of the station buckets from events and its entry points
  (\<open>packages/services/src/metrics/recalc.ts\<close>), with the notices that every write sends
  (\<open>sync.ts\<close>).  The tables are those of the tick.  A result of None stands for a recursive query
  that does not end, Inl for a thrown error.  The lemmas show which windows a range is split into,
  what the writes leave in the tables, and when a further run finds nothing to do.
\<close>

section \<open>Results\<close>

type_synonym 'a run = "(string + 'a) option"

definition bind_run :: "'a run \<Rightarrow> ('a \<Rightarrow> 'b run) \<Rightarrow> 'b run" where
  "bind_run m f = (case m of None \<Rightarrow> None | Some (Inl e) \<Rightarrow> Some (Inl e) | Some (Inr x) \<Rightarrow> f x)"

lemma bind_run_Inr [simp]: "bind_run (Some (Inr x)) f = f x"
  by (simp add: bind_run_def)

lemma bind_run_result:
  assumes "bind_run m f = Some (Inr y)"
  obtains x where "m = Some (Inr x)" "f x = Some (Inr y)"
  using assms by (auto simp: bind_run_def split: option.splits sum.splits)

definition ended :: "'a option \<Rightarrow> 'a run" where
  "ended m = map_option Inr m"

lemma ended_Some [simp]: "ended m = Some (Inr x) \<longleftrightarrow> m = Some x"
  by (auto simp: ended_def)

section \<open>Windows of a range\<close>

definition window_end :: "hour_bucket \<Rightarrow> ms" where
  "window_end w = \<lfloor>of_int (hb_start w) + hb_duration w * 1000\<rfloor>"

text \<open>The walk from the cursor, with the starts that were seen.\<close>
partial_function (option) base_walk ::
  "shift_db \<Rightarrow> tz_offset \<Rightarrow> uuid \<Rightarrow> uuid \<Rightarrow> ms \<Rightarrow> ms list \<Rightarrow> ms \<Rightarrow> (string + hour_bucket list) option" where
  "base_walk db tz st site stop seen cursor =
     (if cursor < stop then
        (case resolve_hour_bucket db tz Station st site cursor of
           Inl e \<Rightarrow> Some (Inl e)
         | Inr w \<Rightarrow>
             Option.bind (base_walk db tz st site stop (hb_start w # seen) (window_end w))
               (\<lambda>r. Some (map_sum id (\<lambda>ws. if hb_start w \<in> set seen then ws else w # ws) r)))
      else Some (Inr []))"

declare base_walk.simps [code]

definition base_buckets :: "shift_db \<Rightarrow> tz_offset \<Rightarrow> uuid \<Rightarrow> uuid \<Rightarrow> ms \<Rightarrow> ms \<Rightarrow> (string + hour_bucket list) option" where
  "base_buckets db tz st site from_ms to_ms = base_walk db tz st site to_ms [] from_ms"

section \<open>Buckets of the jobs\<close>

definition query_items_per_cycle :: "tick_db \<Rightarrow> uuid \<Rightarrow> int" where
  "query_items_per_cycle db j = (case map_of (tk_quantities db) j of Some q \<Rightarrow> if q > 0 then q else 1 | None \<Rightarrow> 1)"

text \<open>The runs that overlap a range, by start.\<close>
definition active_job_logs :: "tick_db \<Rightarrow> uuid \<Rightarrow> ms \<Rightarrow> ms \<Rightarrow> job_run list" where
  "active_job_logs db st from_ms to_ms =
     sort_key jr_start
       (filter (\<lambda>r. jr_station r = st \<and> jr_start r < to_ms \<and> (case jr_end r of None \<Rightarrow> True | Some e \<Rightarrow> e > from_ms)) (tk_runs db))"

definition to_job_filter :: "tick_db \<Rightarrow> job_run \<Rightarrow> job_filter" where
  "to_job_filter db r =
     \<lparr>jf_job = jr_job r, jf_blob = jr_blob r, jf_start = jr_start r, jf_end = jr_end r, jf_cycle = jr_cycle r,
      jf_items = query_items_per_cycle db (jr_job r)\<rparr>"

definition run_overlaps :: "ms \<Rightarrow> job_run \<Rightarrow> hour_bucket \<Rightarrow> bool" where
  "run_overlaps now r w =
     (of_int (jr_start r) < of_int (hb_start w) + hb_duration w * 1000
      \<and> (case jr_end r of Some e \<Rightarrow> e | None \<Rightarrow> now) > hb_start w)"

record job_context =
  jx_hash :: "uuid \<Rightarrow> uuid \<Rightarrow> uuid"
  jx_station :: uuid
  jx_site :: uuid
  jx_path :: string
  jx_date :: "ms option"
  jx_shift_name :: "string option"
  jx_now :: ms

definition job_hour :: "job_context \<Rightarrow> tick_db \<Rightarrow> job_run \<Rightarrow> string \<Rightarrow> hour_bucket \<Rightarrow> bucket_row" where
  "job_hour x db r name w =
     \<lparr>bu_site = jx_site x, bu_type = JobEntity, bu_entity = jx_hash x (jx_station x) (jr_job r), bu_name = name,
      bu_path = jx_path x @ ''.job.'' @ jr_job r, bu_gran = Hour, bu_gran_name = ''Hour'', bu_start = hb_start w,
      bu_duration = hb_duration w,
      bu_kpis = compute_bucket_from_events (tk_events db) (jx_station x) (hb_start w) (hb_duration w)
                  (Some (to_job_filter db r)) (jx_now x),
      bu_shift = map_option sw_instance
                   (query_shift_for_entity (bd_shifts (tk_buckets db)) Station (jx_station x) (jx_site x) (hb_start w)),
      bu_date = jx_date x, bu_shift_name = jx_shift_name x, bu_job = Some (jr_job r), bu_job_name = Some name\<rparr>"

definition kpi_unchanged :: "bucket_row \<Rightarrow> bucket_kpis \<Rightarrow> bool" where
  "kpi_unchanged old k = (bu_kpis old = k)"

text \<open>An unchanged row is left alone; else the row is inserted or overwritten, the archive is not asked.\<close>
definition write_job_hour :: "bucket_row \<Rightarrow> bucket_db \<Rightarrow> bucket_row option \<times> bucket_db" where
  "write_job_hour inp db =
     (let k = bucket_key inp; new = stored_row inp
      in case find_key k (bd_live db) of
           None \<Rightarrow> (Some new, db\<lparr>bd_live := bd_live db @ [new]\<rparr>)
         | Some old \<Rightarrow>
             if kpi_unchanged old (bu_kpis inp) then (None, db)
             else (Some (overwrite_row new old),
                   db\<lparr>bd_live := update_where (\<lambda>b. bucket_key b = k) (overwrite_row new) (bd_live db)\<rparr>))"

text \<open>The windows of one run: the written rows and their windows.\<close>
fun job_hours ::
  "job_context \<Rightarrow> job_run \<Rightarrow> string \<Rightarrow> hour_bucket list \<Rightarrow> tick_db \<Rightarrow> (bucket_row \<times> hour_bucket) list \<times> tick_db" where
  "job_hours x r name [] db = ([], db)"
| "job_hours x r name (w # ws) db =
     (if run_overlaps (jx_now x) r w then
        (case write_job_hour (job_hour x db r name w) (tk_buckets db) of
           (c, b) \<Rightarrow> (case job_hours x r name ws (set_buckets b db) of
              (cs, db') \<Rightarrow> ((case c of None \<Rightarrow> cs | Some row \<Rightarrow> (row, w) # cs), db')))
      else job_hours x r name ws db)"

text \<open>All runs, with the map from a job to its changed windows: a later run of a job replaces the entry of an earlier one.\<close>
fun job_passes ::
  "job_context \<Rightarrow> job_run list \<Rightarrow> hour_bucket list \<Rightarrow> (uuid \<times> string \<times> hour_bucket list) list \<Rightarrow> tick_db
     \<Rightarrow> bucket_row list \<times> (uuid \<times> string \<times> hour_bucket list) list \<times> tick_db" where
  "job_passes x [] ws m db = ([], m, db)"
| "job_passes x (r # rs) ws m db =
     (let name = resolve_entity_name (tk_buckets db) JobEntity (jr_job r)
      in case job_hours x r name ws db of
           (cs, db1) \<Rightarrow>
             (case job_passes x rs ws (if cs = [] then m else jm_set (jr_job r) (name, map snd cs) m) db1 of
                (rows, m', db2) \<Rightarrow> (map fst cs @ rows, m', db2)))"

fun rollup_jobs ::
  "job_context \<Rightarrow> tz_offset \<Rightarrow> (uuid \<times> string \<times> hour_bucket list) list \<Rightarrow> bucket_db \<Rightarrow> (bucket_row list \<times> bucket_db) option" where
  "rollup_jobs x tz [] db = Some ([], db)"
| "rollup_jobs x tz ((j, name, ws) # m) db =
     (case rollup_buckets (jx_hash x) tz
             \<lparr>ri_station = jx_station x, ri_site = jx_site x, ri_windows = ws, ri_date = jx_date x,
              ri_shift_name = jx_shift_name x, ri_entity = None,
              ri_job = Some (j, name, jx_path x @ ''.job.'' @ j), ri_skip_parents = False\<rparr> db of
        None \<Rightarrow> None
      | Some (cs, db1) \<Rightarrow> map_option (\<lambda>(ds, db2). (cs @ ds, db2)) (rollup_jobs x tz m db1))"

definition range_start :: "hour_bucket list \<Rightarrow> ms" where
  "range_start ws = Min (set (map hb_start ws))"

definition range_end :: "hour_bucket list \<Rightarrow> ms" where
  "range_end ws = Max (set (map window_end ws))"

definition recompute_job_buckets ::
  "(uuid \<Rightarrow> uuid \<Rightarrow> uuid) \<Rightarrow> tz_offset \<Rightarrow> ms \<Rightarrow> uuid \<Rightarrow> uuid \<Rightarrow> hour_bucket list \<Rightarrow> ms option \<Rightarrow> string option
     \<Rightarrow> tick_db \<Rightarrow> (bucket_row list \<times> tick_db) option" where
  "recompute_job_buckets hash tz now st site ws date shift_name db =
     (if ws = [] \<or> active_job_logs db st (range_start ws) (range_end ws) = [] then Some ([], db)
      else (case station_entity_path (tk_buckets db) st site of
              None \<Rightarrow> None
            | Some path \<Rightarrow>
                (let x = \<lparr>jx_hash = hash, jx_station = st, jx_site = site, jx_path = path, jx_date = date,
                          jx_shift_name = shift_name, jx_now = now\<rparr>
                 in case job_passes x (active_job_logs db st (range_start ws) (range_end ws)) ws [] db of
                      (rows, m, db1) \<Rightarrow>
                        map_option (\<lambda>(cs, b). (rows @ cs, set_buckets b db1)) (rollup_jobs x tz m (tk_buckets db1)))))"

section \<open>The hour of a station\<close>

definition hour_key :: "uuid \<Rightarrow> hour_bucket \<Rightarrow> entity_type \<times> uuid \<times> granularity \<times> ms" where
  "hour_key st w = (Station, st, Hour, hb_start w)"

text \<open>The row of a key changes, as the columns keep it.\<close>
definition write_key ::
  "entity_type \<times> uuid \<times> granularity \<times> ms \<Rightarrow> (bucket_row \<Rightarrow> bucket_row) \<Rightarrow> bucket_row list \<Rightarrow> bucket_row list" where
  "write_key k f rows = update_where (\<lambda>b. bucket_key b = k) (\<lambda>b. stored_row (f b)) rows"

definition station_job :: "uuid \<Rightarrow> bucket_db \<Rightarrow> uuid option \<times> string option" where
  "station_job st db =
     (let job = Option.bind (find_station st db) st_job in (job, Option.bind job (map_of (bd_jobs db))))"

text \<open>The durations, the expected counts and the standard cycle replace those of a row.\<close>
definition extract_durations :: "bucket_kpis \<Rightarrow> bucket_kpis \<Rightarrow> bucket_kpis" where
  "extract_durations d k =
     k\<lparr>bk_run := bk_run d, bk_down := bk_down d, bk_planned_down := bk_planned_down d,
       bk_unplanned_down := bk_unplanned_down d, bk_elapsed_planned := bk_elapsed_planned d,
       bk_elapsed_cycles := bk_elapsed_cycles d, bk_elapsed_items := bk_elapsed_items d,
       bk_expected_cycles := bk_expected_cycles d, bk_expected_items := bk_expected_items d,
       bk_standard_cycle := bk_standard_cycle d\<rparr>"

definition duration_unchanged :: "bucket_row \<Rightarrow> bucket_kpis \<Rightarrow> bool" where
  "duration_unchanged old d = (extract_durations d (bu_kpis old) = bu_kpis old)"

definition put_durations :: "uuid option \<times> string option \<Rightarrow> bucket_kpis \<Rightarrow> bucket_row \<Rightarrow> bucket_row" where
  "put_durations job d b = b\<lparr>bu_kpis := extract_durations d (bu_kpis b), bu_job := fst job, bu_job_name := snd job\<rparr>"

definition emit_base :: "uuid \<Rightarrow> hour_bucket list \<Rightarrow> bucket_db \<Rightarrow> bucket_row list" where
  "emit_base st ws db =
     (if ws = [] then [] else filter (\<lambda>b. bucket_key b \<in> hour_key st ` set ws) (bd_live db))"

record pipeline =
  pp_date :: "ms option"
  pp_shift_name :: "string option"

text \<open>The shift at an instant gives the date and the name of the shift.\<close>
definition pipeline_at :: "tz_offset \<Rightarrow> uuid \<Rightarrow> uuid \<Rightarrow> ms \<Rightarrow> shift_db \<Rightarrow> pipeline" where
  "pipeline_at tz st site t db =
     (let shift = query_shift_for_entity db Station st site t
      in \<lparr>pp_date = Some (resolve_business_date db tz t (map_option sw_instance shift)), pp_shift_name = map_option sw_name shift\<rparr>)"

definition rollup_of ::
  "pipeline \<Rightarrow> uuid \<Rightarrow> uuid \<Rightarrow> hour_bucket list \<Rightarrow> (string \<times> string) option \<Rightarrow> bool \<Rightarrow> rollup_input" where
  "rollup_of p st site ws entity skip =
     \<lparr>ri_station = st, ri_site = site, ri_windows = ws, ri_date = pp_date p, ri_shift_name = pp_shift_name p,
      ri_entity = entity, ri_job = None, ri_skip_parents = skip\<rparr>"

definition target_entity :: "increment_target list \<Rightarrow> string \<times> string" where
  "target_entity ts = (case find (\<lambda>t. tg_type t = Station) ts of Some t \<Rightarrow> (tg_name t, tg_path t) | None \<Rightarrow> ([], []))"

definition ensure_station :: "(uuid \<Rightarrow> uuid \<Rightarrow> uuid) \<Rightarrow> tz_offset \<Rightarrow> uuid \<Rightarrow> uuid \<Rightarrow> ms \<Rightarrow> bucket_db \<Rightarrow> (bucket_row list \<times> bucket_db) option" where
  "ensure_station hash tz st site t db =
     map_option (\<lambda>(rows, _, b). (rows, b))
       (ensure_buckets hash tz \<lparr>en_site = site, en_type = Station, en_entity = st, en_at = t, en_name = None, en_path = None\<rparr> db)"

section \<open>Counts of a cycle\<close>

record cycle_increment =
  ci_items :: int
  ci_cycle :: "rat option"
  ci_items_per_cycle :: int
  ci_seconds :: rat

definition apply_increment :: "cycle_increment \<Rightarrow> bucket_row \<Rightarrow> bucket_row" where
  "apply_increment i b =
     b\<lparr>bu_kpis := add_counts 1 (ci_items i) (case ci_cycle i of Some c \<Rightarrow> js_round c | None \<Rightarrow> 0) (js_round (ci_seconds i)) (bu_kpis b)\<rparr>"

text \<open>The changed rows are the created ones; the start of the bucket is returned.\<close>
definition increment_count_based ::
  "(uuid \<Rightarrow> uuid \<Rightarrow> uuid) \<Rightarrow> tz_offset \<Rightarrow> uuid \<Rightarrow> uuid \<Rightarrow> ms \<Rightarrow> cycle_increment \<Rightarrow> tick_db \<Rightarrow> (bucket_row list \<times> ms \<times> tick_db) run" where
  "increment_count_based hash tz st site t i db =
     (case resolve_hour_bucket (bd_shifts (tk_buckets db)) tz Station st site t of
        Inl e \<Rightarrow> Some (Inl e)
      | Inr w \<Rightarrow>
          bind_run (ended (ensure_station hash tz st site t (tk_buckets db)))
            (\<lambda>(rows, b). Some (Inr (rows, hb_start w,
               set_buckets (b\<lparr>bd_live := write_key (hour_key st w) (apply_increment i) (bd_live b)\<rparr>) db))))"

section \<open>Deferred recomputation\<close>

definition job_cycle :: "tick_db \<Rightarrow> uuid \<Rightarrow> rat option" where
  "job_cycle db st = Option.bind (fst (station_job st (tk_buckets db))) (map_of (tk_cycles db))"

definition job_items :: "tick_db \<Rightarrow> uuid \<Rightarrow> int" where
  "job_items db st = (case fst (station_job st (tk_buckets db)) of Some j \<Rightarrow> query_items_per_cycle db j | None \<Rightarrow> 1)"

text \<open>The durations of one hour of a station are written, and the written rows come with the tables.\<close>
definition write_hour_durations ::
  "ms \<Rightarrow> uuid \<Rightarrow> rat option \<Rightarrow> int \<Rightarrow> hour_bucket \<Rightarrow> tick_db \<Rightarrow> bucket_row list \<times> tick_db" where
  "write_hour_durations now st c items w db =
     (let d = compute_durations_for_bucket (tk_events db) st (hb_start w) (hb_duration w) c items now;
          b = tk_buckets db;
          b1 = b\<lparr>bd_live := write_key (hour_key st w) (put_durations (station_job st b) d) (bd_live b)\<rparr>
      in (emit_base st [w] b1, set_buckets b1 db))"

definition rollup_tick ::
  "(uuid \<Rightarrow> uuid \<Rightarrow> uuid) \<Rightarrow> tz_offset \<Rightarrow> rollup_input \<Rightarrow> tick_db \<Rightarrow> (bucket_row list \<times> tick_db) option" where
  "rollup_tick hash tz inp db =
     map_option (\<lambda>(cs, b). (cs, set_buckets b db)) (rollup_buckets hash tz inp (tk_buckets db))"

text \<open>A station whose hour is up to date, waiting for the rollup of its parents.\<close>
record rolled =
  ro_station :: uuid
  ro_window :: hour_bucket
  ro_pipeline :: pipeline
  ro_entity :: "string \<times> string"

text \<open>One dirty bucket: an error is logged and leaves the tables.\<close>
definition dirty_step ::
  "(uuid \<Rightarrow> uuid \<Rightarrow> uuid) \<Rightarrow> tz_offset \<Rightarrow> ms \<Rightarrow> uuid \<Rightarrow> uuid \<Rightarrow> ms \<Rightarrow> tick_db
     \<Rightarrow> (bucket_row list \<times> rolled option \<times> tick_db) option" where
  "dirty_step hash tz now site st t db =
     (case resolve_hour_bucket (bd_shifts (tk_buckets db)) tz Station st site t of
        Inl e \<Rightarrow> Some ([], None, db)
      | Inr w \<Rightarrow>
          Option.bind (increment_targets (tk_buckets db) st site) (\<lambda>ts.
            let p = pipeline_at tz st site t (bd_shifts (tk_buckets db)); e = target_entity ts
            in case write_hour_durations now st (job_cycle db st) (job_items db st) w db of
                 (rows1, db1) \<Rightarrow>
                   Option.bind (rollup_tick hash tz (rollup_of p st site [w] (Some e) True) db1) (\<lambda>(rows2, db2).
                     map_option (\<lambda>(rows3, db3).
                         (rows1 @ rows2 @ rows3, Some \<lparr>ro_station = st, ro_window = w, ro_pipeline = p, ro_entity = e\<rparr>, db3))
                       (recompute_job_buckets hash tz now st site [w] (pp_date p) (pp_shift_name p) db2))))"

text \<open>The last station of every work center is kept for the parents; the key None holds those without one.\<close>
fun dirty_pass ::
  "(uuid \<Rightarrow> uuid \<Rightarrow> uuid) \<Rightarrow> tz_offset \<Rightarrow> ms \<Rightarrow> uuid \<Rightarrow> (uuid \<times> ms) list \<Rightarrow> (uuid option, rolled) jsmap \<Rightarrow> tick_db
     \<Rightarrow> (bucket_row list \<times> (uuid option, rolled) jsmap \<times> tick_db) option" where
  "dirty_pass hash tz now site [] m db = Some ([], m, db)"
| "dirty_pass hash tz now site ((st, t) # ds) m db =
     Option.bind (dirty_step hash tz now site st t db) (\<lambda>(rows, r, db1).
       let wc = Option.bind (find_station st (tk_buckets db1)) st_center
       in map_option (\<lambda>(rest, m', db2). (rows @ rest, m', db2))
            (dirty_pass hash tz now site ds (case r of None \<Rightarrow> m | Some x \<Rightarrow> jm_set wc x m) db1))"

fun parent_pass ::
  "(uuid \<Rightarrow> uuid \<Rightarrow> uuid) \<Rightarrow> tz_offset \<Rightarrow> uuid \<Rightarrow> rolled list \<Rightarrow> tick_db \<Rightarrow> (bucket_row list \<times> tick_db) option" where
  "parent_pass hash tz site [] db = Some ([], db)"
| "parent_pass hash tz site (r # rs) db =
     Option.bind (rollup_tick hash tz (rollup_of (ro_pipeline r) (ro_station r) site [ro_window r] (Some (ro_entity r)) False) db)
       (\<lambda>(rows, db1). map_option (\<lambda>(rest, db2). (rows @ rest, db2)) (parent_pass hash tz site rs db1))"

definition dirty_site ::
  "(uuid \<Rightarrow> uuid \<Rightarrow> uuid) \<Rightarrow> (uuid \<Rightarrow> tz_offset) \<Rightarrow> ms \<Rightarrow> uuid \<Rightarrow> (uuid \<times> ms) list \<Rightarrow> tick_db
     \<Rightarrow> (bucket_row list \<times> tick_db) option" where
  "dirty_site hash tzs now site ds db =
     Option.bind (dirty_pass hash (tzs site) now site ds [] db) (\<lambda>(rows, m, db1).
       map_option (\<lambda>(rest, db2). (rows @ rest, db2)) (parent_pass hash (tzs site) site (map snd m) db1))"

text \<open>Dirty buckets as (station, site, start), processed site by site.\<close>
fun dirty_sites ::
  "(uuid \<Rightarrow> uuid \<Rightarrow> uuid) \<Rightarrow> (uuid \<Rightarrow> tz_offset) \<Rightarrow> ms \<Rightarrow> uuid list \<Rightarrow> (uuid \<times> uuid \<times> ms) list \<Rightarrow> tick_db
     \<Rightarrow> (bucket_row list \<times> tick_db) option" where
  "dirty_sites hash tzs now [] ds db = Some ([], db)"
| "dirty_sites hash tzs now (s # ss) ds db =
     Option.bind (dirty_site hash tzs now s (map (\<lambda>(st, _, t). (st, t)) (filter (\<lambda>(_, s', _). s' = s) ds)) db)
       (\<lambda>(rows, db1). map_option (\<lambda>(rest, db2). (rows @ rest, db2)) (dirty_sites hash tzs now ss ds db1))"

definition process_dirty_buckets ::
  "(uuid \<Rightarrow> uuid \<Rightarrow> uuid) \<Rightarrow> (uuid \<Rightarrow> tz_offset) \<Rightarrow> ms \<Rightarrow> (uuid \<times> uuid \<times> ms) list \<Rightarrow> tick_db
     \<Rightarrow> (bucket_row list \<times> tick_db) option" where
  "process_dirty_buckets hash tzs now ds db = dirty_sites hash tzs now (first_per id [] (map (\<lambda>(_, s, _). s) ds)) ds db"

section \<open>The entry points\<close>

definition update_count_based ::
  "(uuid \<Rightarrow> uuid \<Rightarrow> uuid) \<Rightarrow> tz_offset \<Rightarrow> ms \<Rightarrow> uuid \<Rightarrow> uuid \<Rightarrow> ms \<Rightarrow> cycle_increment \<Rightarrow> tick_db \<Rightarrow> (bucket_row list \<times> tick_db) run" where
  "update_count_based hash tz now st site t i db =
     (case resolve_hour_bucket (bd_shifts (tk_buckets db)) tz Station st site t of
        Inl e \<Rightarrow> Some (Inl e)
      | Inr w \<Rightarrow> ended
          (Option.bind (ensure_station hash tz st site t (tk_buckets db)) (\<lambda>(rows0, b).
           Option.bind (increment_targets b st site) (\<lambda>ts.
             let p = pipeline_at tz st site t (bd_shifts b);
                 b1 = b\<lparr>bd_live := write_key (hour_key st w) (apply_increment i) (bd_live b)\<rparr>
             in case write_hour_durations now st (ci_cycle i) (ci_items_per_cycle i) w (set_buckets b1 db) of
                  (rows1, db1) \<Rightarrow>
                    Option.bind (rollup_tick hash tz (rollup_of p st site [w] (Some (target_entity ts)) False) db1) (\<lambda>(rows2, db2).
                      map_option (\<lambda>(rows3, db3). (rows0 @ rows1 @ rows2 @ rows3, db3))
                        (recompute_job_buckets hash tz now st site [w] (pp_date p) (pp_shift_name p) db2))))))"

definition add_bad_items :: "int \<Rightarrow> bucket_row \<Rightarrow> bucket_row" where
  "add_bad_items q b = b\<lparr>bu_kpis := (bu_kpis b)\<lparr>bk_bad_items := bk_bad_items (bu_kpis b) + q\<rparr>\<rparr>"

text \<open>The archive is written when the live rows do not have the key.\<close>
definition write_bad_items :: "uuid \<Rightarrow> hour_bucket \<Rightarrow> int \<Rightarrow> bucket_db \<Rightarrow> bucket_db" where
  "write_bad_items st w q b =
     (if list_ex (\<lambda>r. bucket_key r = hour_key st w) (bd_live b)
      then b\<lparr>bd_live := write_key (hour_key st w) (add_bad_items q) (bd_live b)\<rparr>
      else b\<lparr>bd_log := write_key (hour_key st w) (add_bad_items q) (bd_log b)\<rparr>)"

definition update_disposition_bad_items ::
  "(uuid \<Rightarrow> uuid \<Rightarrow> uuid) \<Rightarrow> tz_offset \<Rightarrow> uuid \<Rightarrow> uuid \<Rightarrow> ms \<Rightarrow> int \<Rightarrow> bucket_db \<Rightarrow> (bucket_row list \<times> bucket_db) run" where
  "update_disposition_bad_items hash tz st site t q db =
     (case resolve_hour_bucket (bd_shifts db) tz Station st site t of
        Inl e \<Rightarrow> Some (Inl e)
      | Inr w \<Rightarrow> ended
          (Option.bind (ensure_station hash tz st site t db) (\<lambda>(rows0, b).
           Option.bind (increment_targets b st site) (\<lambda>ts.
             let b1 = write_bad_items st w q b
             in map_option (\<lambda>(rows, b2). (rows0 @ emit_base st [w] b1 @ rows, b2))
                  (rollup_buckets hash tz (rollup_of (pipeline_at tz st site t (bd_shifts b)) st site [w] (Some (target_entity ts)) False) b1)))))"

section \<open>Ranges\<close>

text \<open>The live row of a key, or else the archived one.\<close>
definition existing_row :: "uuid \<Rightarrow> hour_bucket \<Rightarrow> bucket_db \<Rightarrow> bucket_row option" where
  "existing_row st w b =
     (case find_key (hour_key st w) (bd_live b) of Some r \<Rightarrow> Some r | None \<Rightarrow> find_key (hour_key st w) (bd_log b))"

text \<open>The standard cycle and the items of a cycle that the caller gave, or else those of the row.\<close>
definition resolve_cycle :: "rat option \<Rightarrow> bucket_row option \<Rightarrow> rat option" where
  "resolve_cycle c old = (case c of Some x \<Rightarrow> Some x | None \<Rightarrow> Option.bind old (\<lambda>r. bk_standard_cycle (bu_kpis r)))"

definition resolve_items :: "int option \<Rightarrow> bucket_row option \<Rightarrow> int" where
  "resolve_items n old =
     (case (n, old) of
        (Some x, _) \<Rightarrow> x
      | (None, Some r) \<Rightarrow> if bk_total_cycles (bu_kpis r) > 0
                          then js_round (of_int (bk_total_items (bu_kpis r)) / of_int (bk_total_cycles (bu_kpis r))) else 1
      | (None, None) \<Rightarrow> 1)"

text \<open>
  One window: an archived row is updated in the archive and a live row of its key is deleted;
  else the live row is updated.  An unchanged row, or none, leaves the tables.
\<close>
definition time_step ::
  "metric_db \<Rightarrow> ms \<Rightarrow> uuid \<Rightarrow> uuid option \<times> string option \<Rightarrow> rat option \<Rightarrow> int option \<Rightarrow> hour_bucket \<Rightarrow> bucket_db \<Rightarrow> bool \<times> bucket_db" where
  "time_step ev now st job c n w b =
     (let k = hour_key st w; old = existing_row st w b;
          d = compute_durations_for_bucket ev st (hb_start w) (hb_duration w) (resolve_cycle c old) (resolve_items n old) now
      in case (find_key k (bd_log b), find_key k (bd_live b)) of
           (Some a, live) \<Rightarrow>
             if duration_unchanged a d then (False, b)
             else (True, b\<lparr>bd_log := write_key k (put_durations job d) (bd_log b),
                           bd_live := filter (\<lambda>r. bucket_key r \<noteq> k) (bd_live b)\<rparr>)
         | (None, Some l) \<Rightarrow>
             if duration_unchanged l d then (False, b)
             else (True, b\<lparr>bd_live := write_key k (put_durations job d) (bd_live b)\<rparr>)
         | (None, None) \<Rightarrow> (False, b))"

fun time_steps ::
  "metric_db \<Rightarrow> ms \<Rightarrow> uuid \<Rightarrow> uuid option \<times> string option \<Rightarrow> rat option \<Rightarrow> int option \<Rightarrow> hour_bucket list \<Rightarrow> bucket_db
     \<Rightarrow> hour_bucket list \<times> bucket_db" where
  "time_steps ev now st job c n [] b = ([], b)"
| "time_steps ev now st job c n (w # ws) b =
     (case time_step ev now st job c n w b of
        (ch, b1) \<Rightarrow> (case time_steps ev now st job c n ws b1 of (rest, b2) \<Rightarrow> (if ch then w # rest else rest, b2)))"

text \<open>Whether the archive has an hour of the station from the first window on.\<close>
definition archived_exists :: "uuid \<Rightarrow> ms \<Rightarrow> hour_bucket list \<Rightarrow> bucket_db \<Rightarrow> bool" where
  "archived_exists st from_ms ws b =
     list_ex (\<lambda>r. bu_type r = Station \<and> bu_entity r = st \<and> bu_gran r = Hour
                  \<and> bu_start r \<ge> (case ws of [] \<Rightarrow> from_ms | w # _ \<Rightarrow> hb_start w)) (bd_log b)"

definition ensure_unless_archived ::
  "(uuid \<Rightarrow> uuid \<Rightarrow> uuid) \<Rightarrow> tz_offset \<Rightarrow> uuid \<Rightarrow> uuid \<Rightarrow> ms \<Rightarrow> hour_bucket list \<Rightarrow> bucket_db \<Rightarrow> (bucket_row list \<times> bucket_db) option" where
  "ensure_unless_archived hash tz st site from_ms ws b =
     (if archived_exists st from_ms ws b then Some ([], b) else ensure_station hash tz st site from_ms b)"

text \<open>The end of both range updates: notices, rollup of the given windows, then the buckets of the jobs.\<close>
definition cascade_range ::
  "(uuid \<Rightarrow> uuid \<Rightarrow> uuid) \<Rightarrow> tz_offset \<Rightarrow> ms \<Rightarrow> uuid \<Rightarrow> uuid \<Rightarrow> pipeline \<Rightarrow> hour_bucket list \<Rightarrow> hour_bucket list \<Rightarrow> tick_db
     \<Rightarrow> (bucket_row list \<times> tick_db) option" where
  "cascade_range hash tz now st site p changed ws db =
     Option.bind (rollup_tick hash tz (rollup_of p st site changed None False) db) (\<lambda>(rows, db1).
       map_option (\<lambda>(rest, db2). (emit_base st changed (tk_buckets db) @ rows @ rest, db2))
         (recompute_job_buckets hash tz now st site ws (pp_date p) (pp_shift_name p) db1))"

definition update_time_based ::
  "(uuid \<Rightarrow> uuid \<Rightarrow> uuid) \<Rightarrow> tz_offset \<Rightarrow> ms \<Rightarrow> uuid \<Rightarrow> uuid \<Rightarrow> ms \<Rightarrow> ms \<Rightarrow> rat option \<Rightarrow> int option \<Rightarrow> tick_db
     \<Rightarrow> (bucket_row list \<times> tick_db) run" where
  "update_time_based hash tz now st site from_ms to_ms c n db =
     bind_run (base_buckets (bd_shifts (tk_buckets db)) tz st site from_ms to_ms) (\<lambda>ws. ended
       (Option.bind (ensure_unless_archived hash tz st site from_ms ws (tk_buckets db)) (\<lambda>(rows0, b).
         case time_steps (tk_events db) now st (station_job st b) c n ws b of
           (changed, b1) \<Rightarrow>
             if changed = [] then Some (rows0, set_buckets b1 db)
             else map_option (\<lambda>(rows, db2). (rows0 @ rows, db2))
                    (cascade_range hash tz now st site (pipeline_at tz st site from_ms (bd_shifts b)) changed ws (set_buckets b1 db)))))"

definition put_kpis :: "uuid option \<times> string option \<Rightarrow> bucket_kpis \<Rightarrow> bucket_row \<Rightarrow> bucket_row" where
  "put_kpis job k b = b\<lparr>bu_kpis := k, bu_job := fst job, bu_job_name := snd job\<rparr>"

definition recalc_hour :: "metric_db \<Rightarrow> ms \<Rightarrow> uuid \<Rightarrow> uuid option \<times> string option \<Rightarrow> hour_bucket \<Rightarrow> bucket_db \<Rightarrow> bucket_db" where
  "recalc_hour ev now st job w b =
     b\<lparr>bd_live := write_key (hour_key st w)
         (put_kpis job (compute_bucket_from_events ev st (hb_start w) (hb_duration w) None now)) (bd_live b)\<rparr>"

definition recalc_hours ::
  "metric_db \<Rightarrow> ms \<Rightarrow> uuid \<Rightarrow> uuid option \<times> string option \<Rightarrow> hour_bucket list \<Rightarrow> bucket_db \<Rightarrow> bucket_db" where
  "recalc_hours ev now st job ws b = fold (recalc_hour ev now st job) ws b"

definition recalc_all ::
  "(uuid \<Rightarrow> uuid \<Rightarrow> uuid) \<Rightarrow> tz_offset \<Rightarrow> ms \<Rightarrow> uuid \<Rightarrow> uuid \<Rightarrow> ms \<Rightarrow> ms \<Rightarrow> tick_db \<Rightarrow> (bucket_row list \<times> tick_db) run" where
  "recalc_all hash tz now st site from_ms to_ms db =
     bind_run (base_buckets (bd_shifts (tk_buckets db)) tz st site from_ms to_ms) (\<lambda>ws. ended
       (let b = tk_buckets db
        in cascade_range hash tz now st site (pipeline_at tz st site from_ms (bd_shifts b)) ws ws
             (set_buckets (recalc_hours (tk_events db) now st (station_job st b) ws b) db)))"

section \<open>The windows of a range\<close>

lemma tiles_whole: "tiles a b hs \<Longrightarrow> b \<in> \<int> \<Longrightarrow> h \<in> set hs \<Longrightarrow> hb_duration h * 1000 \<in> \<int>"
proof (induction hs arbitrary: a)
  case (Cons g gs)
  have t: "tiles (a + hb_duration g * 1000) b gs" "of_int (hb_start g) = a" using Cons.prems(1) by auto
  have "a + hb_duration g * 1000 \<in> \<int>"
    using t(1) Cons.prems(2) by (cases gs) (simp, metis Ints_of_int tiles.simps(2))
  then have "hb_duration g * 1000 \<in> \<int>"
    using t(2) Ints_diff[of "a + hb_duration g * 1000" a] by (auto simp: Ints_def)
  with Cons.IH[OF t(1) Cons.prems(2)] Cons.prems(3) show ?case by auto
qed simp

text \<open>Every instant has a window, which covers it and is a whole number of milliseconds long.\<close>
lemma resolve_station_hour:
  obtains w where "resolve_hour_bucket db tz Station st site t = Inr w" "hb_start w \<le> t" "t < window_end w"
    "of_int (window_end w) = of_int (hb_start w) + hb_duration w * 1000"
proof -
  have "\<exists>w. resolve_hour_bucket db tz Station st site t = Inr w \<and> bucket_covers w t \<and> hb_duration w * 1000 \<in> \<int>"
  proof (cases "query_shift_for_entity db Station st site t")
    case None
    then show ?thesis
      using clock_hour_covers[of tz t] by (simp add: resolve_hour_bucket_def) (simp add: resolve_clock_hour_def Let_def)
  next
    case (Some s)
    let ?a = "anchor_time db s site (resolve_workcenter db Station st)"
    note act = query_shift_active[OF Some]
    from find_hour_bucket_total[OF conjunct1[OF act] conjunct2[OF act], of ?a] obtain w where
      w: "find_hour_bucket s ?a t = Inr w" "bucket_covers w t" "w \<in> set (hour_buckets_for_shift s ?a)" by blast
    have "(of_int (sw_start s) :: rat) \<le> of_int t" using act by simp
    with act have pos: "0 < sw_duration s" by auto
    from Some obtain i where "s = window_of i"
      by (auto simp: query_shift_for_entity_def Let_def split: option.splits bind_splits)
    then have "of_int (sw_start s) + sw_duration s * 1000 = of_int (ir_end i)" by (simp add: window_of_def field_simps)
    then have "of_int (sw_start s) + sw_duration s * 1000 \<in> \<int>" by (metis Ints_of_int)
    from tiles_whole[OF conjunct1[OF hour_buckets_tile[OF pos]] this w(3)] w(1,2) Some show ?thesis
      by (simp add: resolve_hour_bucket_def)
  qed
  then obtain w where w: "resolve_hour_bucket db tz Station st site t = Inr w" "bucket_covers w t" "hb_duration w * 1000 \<in> \<int>"
    by blast
  then have e: "of_int (window_end w) = of_int (hb_start w) + hb_duration w * 1000"
    by (auto simp: window_end_def Ints_def)
  with w(2) have "(of_int t :: rat) < of_int (window_end w)" by (simp add: bucket_covers_def)
  then have "t < window_end w" by simp
  with that[OF w(1) _ _ e] w(2) show thesis by (simp add: bucket_covers_def)
qed

lemma base_walk_ends:
  "\<exists>ws. base_walk db tz st site stop seen cur = Some (Inr ws) \<and> distinct (map hb_start ws)
     \<and> set (map hb_start ws) \<inter> set seen = {}
     \<and> (\<forall>w \<in> set ws. \<exists>t. cur \<le> t \<and> t < stop \<and> resolve_hour_bucket db tz Station st site t = Inr w)"
proof (induction "nat (stop - cur)" arbitrary: cur seen rule: less_induct)
  case less
  show ?case
  proof (cases "cur < stop")
    case True
    obtain w where w: "resolve_hour_bucket db tz Station st site cur = Inr w" "hb_start w \<le> cur" "cur < window_end w"
      using resolve_station_hour by blast
    from less[of "window_end w" "hb_start w # seen"] w(3) True obtain ws where
      ws: "base_walk db tz st site stop (hb_start w # seen) (window_end w) = Some (Inr ws)" "distinct (map hb_start ws)"
        "set (map hb_start ws) \<inter> set (hb_start w # seen) = {}"
        "\<forall>v \<in> set ws. \<exists>t. window_end w \<le> t \<and> t < stop \<and> resolve_hour_bucket db tz Station st site t = Inr v"
      by auto
    have "base_walk db tz st site stop seen cur = Some (Inr (if hb_start w \<in> set seen then ws else w # ws))"
      using True by (subst base_walk.simps) (simp add: w(1) ws(1))
    moreover have "\<forall>v \<in> set ws. \<exists>t. cur \<le> t \<and> t < stop \<and> resolve_hour_bucket db tz Station st site t = Inr v"
      using ws(4) w(3) by (meson order_trans less_imp_le)
    ultimately show ?thesis using ws(2,3) w(1) True by auto
  next
    case False
    then show ?thesis by (subst base_walk.simps) simp
  qed
qed

text \<open>Where the window of every instant is that of the other instants in it, no window is left out.\<close>
lemma base_walk_complete:
  assumes steady: "\<And>t t' w. a \<le> t \<Longrightarrow> t < stop \<Longrightarrow> a \<le> t' \<Longrightarrow> t' < stop
      \<Longrightarrow> resolve_hour_bucket db tz Station st site t = Inr w \<Longrightarrow> hb_start w \<le> t' \<Longrightarrow> t' < window_end w
      \<Longrightarrow> resolve_hour_bucket db tz Station st site t' = Inr w"
  shows "a \<le> cur \<Longrightarrow> \<forall>s \<in> set seen. \<exists>t v. a \<le> t \<and> t < stop \<and> t < cur \<and> resolve_hour_bucket db tz Station st site t = Inr v
            \<and> hb_start v = s \<and> s \<le> t \<and> window_end v \<le> cur
    \<Longrightarrow> base_walk db tz st site stop seen cur = Some (Inr ws)
    \<Longrightarrow> cur \<le> t \<Longrightarrow> t < stop \<Longrightarrow> resolve_hour_bucket db tz Station st site t = Inr w \<Longrightarrow> w \<in> set ws"
proof (induction "nat (stop - cur)" arbitrary: cur seen ws rule: less_induct)
  case less
  have c: "cur < stop" using less.prems(4,5) by simp
  obtain v where v: "resolve_hour_bucket db tz Station st site cur = Inr v" "hb_start v \<le> cur" "cur < window_end v"
    using resolve_station_hour by blast
  have new: "hb_start v \<notin> set seen"
  proof
    assume "hb_start v \<in> set seen"
    with less.prems(2) obtain t0 v0 where o: "a \<le> t0" "t0 < stop" "t0 < cur"
      "resolve_hour_bucket db tz Station st site t0 = Inr v0" "hb_start v \<le> t0" "window_end v0 \<le> cur" by fastforce
    have "resolve_hour_bucket db tz Station st site t0 = Inr v"
      using steady[OF less.prems(1) c o(1,2) v(1)] o(3,5) v(3) by simp
    with o(4,6) v(3) show False by simp
  qed
  obtain rest where r: "base_walk db tz st site stop (hb_start v # seen) (window_end v) = Some (Inr rest)"
    using base_walk_ends by blast
  have ws: "ws = v # rest"
    using less.prems(3) c by (subst (asm) base_walk.simps) (simp add: v(1) r new)
  show ?case
  proof (cases "t < window_end v")
    case True
    then have "resolve_hour_bucket db tz Station st site t = Inr v"
      using steady[OF less.prems(1) c _ less.prems(5) v(1)] less.prems(1,4) v(2) by simp
    with less.prems(6) ws show ?thesis by simp
  next
    case False
    have old: "\<forall>s \<in> set (hb_start v # seen). \<exists>t v'. a \<le> t \<and> t < stop \<and> t < window_end v
        \<and> resolve_hour_bucket db tz Station st site t = Inr v' \<and> hb_start v' = s \<and> s \<le> t \<and> window_end v' \<le> window_end v"
      using less.prems(1,2) c v by (force intro: order_trans[OF _ less_imp_le])
    have "nat (stop - window_end v) < nat (stop - cur)" using c v(3) by simp
    from less.hyps[OF this _ old r _ less.prems(5,6)] less.prems(1) v(3) False have "w \<in> set rest" by simp
    with ws show ?thesis by simp
  qed
qed

lemma tiles_later: "tiles a b hs \<Longrightarrow> h \<in> set hs \<Longrightarrow> a \<le> of_int (hb_start h)"
  by (induction hs arbitrary: a) fastforce+

lemma tiles_one:
  "tiles a b hs \<Longrightarrow> h \<in> set hs \<Longrightarrow> g \<in> set hs \<Longrightarrow> bucket_covers h t \<Longrightarrow> bucket_covers g t \<Longrightarrow> h = g"
proof (induction hs arbitrary: a)
  case (Cons x xs)
  have t: "tiles (a + hb_duration x * 1000) b xs" "of_int (hb_start x) = a" using Cons.prems(1) by auto
  have apart: False if "bucket_covers x t" "bucket_covers y t" "y \<in> set xs" for y
  proof -
    have "of_int (hb_start y) \<le> (of_int t :: rat)" using that(2) by (simp add: bucket_covers_def)
    with that(1) tiles_later[OF t(1) that(3)] t(2) show False by (simp add: bucket_covers_def)
  qed
  from Cons.prems(2-5) Cons.IH[OF t(1)] apart show ?case by auto
qed simp

text \<open>Within one shift the instants of a window have this window.\<close>
lemma shift_steady:
  assumes "query_shift_for_entity db Station st site t = Some s" "query_shift_for_entity db Station st site t' = Some s"
    "resolve_hour_bucket db tz Station st site t = Inr w" "hb_start w \<le> t'" "t' < window_end w"
  shows "resolve_hour_bucket db tz Station st site t' = Inr w"
proof -
  let ?a = "anchor_time db s site (resolve_workcenter db Station st)"
  let ?hs = "hour_buckets_for_shift s ?a"
  note act = query_shift_active[OF assms(1)]
  have "(of_int (sw_start s) :: rat) \<le> of_int t" using act by simp
  with act have pos: "0 < sw_duration s" by auto
  have w: "find (\<lambda>b. bucket_covers b t) ?hs = Some w"
    using assms(1,3) by (simp add: resolve_hour_bucket_def find_hour_bucket_def split: option.splits)
  obtain v where v: "resolve_hour_bucket db tz Station st site t = Inr v"
      "of_int (window_end v) = of_int (hb_start v) + hb_duration v * 1000"
    using resolve_station_hour by blast
  have "(of_int t' :: rat) < of_int (window_end w)" using assms(5) by simp
  with v assms(3,4) have c: "bucket_covers w t'" by (simp add: bucket_covers_def)
  note act' = query_shift_active[OF assms(2)]
  from find_hour_bucket_total[OF conjunct1[OF act'] conjunct2[OF act'], of ?a] obtain u where
    u: "find_hour_bucket s ?a t' = Inr u" "bucket_covers u t'" "u \<in> set ?hs" by blast
  have "u = w"
    using tiles_one[OF conjunct1[OF hour_buckets_tile[OF pos, of ?a]] u(3) _ u(2) c] find_Some_in[OF w] by blast
  with u(1) assms(2) show ?thesis by (simp add: resolve_hour_bucket_def)
qed

text \<open>
  C20: a recomputation always finds its windows.  For every range the walk ends without an
  error, whatever the tables hold; the windows have distinct starts, and each is the hour bucket
  of an instant of the range.  In a range within one shift no window is left out: the hour bucket
  of every instant is among them.
\<close>
theorem range_windows:
  "\<exists>ws. base_buckets db tz st site a b = Some (Inr ws) \<and> distinct (map hb_start ws)
     \<and> (\<forall>w \<in> set ws. \<exists>t. a \<le> t \<and> t < b \<and> resolve_hour_bucket db tz Station st site t = Inr w)
     \<and> ((\<forall>t. a \<le> t \<and> t < b \<longrightarrow> query_shift_for_entity db Station st site t = Some s) \<longrightarrow>
          (\<forall>t. a \<le> t \<and> t < b \<longrightarrow> (\<exists>w \<in> set ws. resolve_hour_bucket db tz Station st site t = Inr w)))"
proof -
  obtain ws where ws: "base_walk db tz st site b [] a = Some (Inr ws)" "distinct (map hb_start ws)"
      "\<forall>w \<in> set ws. \<exists>t. a \<le> t \<and> t < b \<and> resolve_hour_bucket db tz Station st site t = Inr w"
    using base_walk_ends[of db tz st site b "[]" a] by blast
  have "\<exists>w \<in> set ws. resolve_hour_bucket db tz Station st site t = Inr w"
    if one: "\<forall>t. a \<le> t \<and> t < b \<longrightarrow> query_shift_for_entity db Station st site t = Some s" and t: "a \<le> t" "t < b" for t
  proof -
    obtain w where w: "resolve_hour_bucket db tz Station st site t = Inr w" using resolve_station_hour by blast
    have steady: "resolve_hour_bucket db tz Station st site v = Inr x"
      if "a \<le> u" "u < b" "a \<le> v" "v < b" "resolve_hour_bucket db tz Station st site u = Inr x" "hb_start x \<le> v" "v < window_end x"
      for u v x
      using shift_steady[OF _ _ that(5-7)] one that(1-4) by blast
    have "w \<in> set ws"
      by (rule base_walk_complete[of a b db tz st site a "[]" ws t w, OF _ _ _ ws(1) t w]) (rule steady, assumption+, simp_all)
    with w show ?thesis by blast
  qed
  with ws show ?thesis by (auto simp: base_buckets_def)
qed

text \<open>Two shifts of one day, the later one starting in the middle of a clock hour.\<close>
definition gap_shift :: "string \<Rightarrow> ms \<Rightarrow> ms \<Rightarrow> shift_instance" where
  "gap_shift name s e =
     \<lparr>ir_assignment = ''old'', ir_definition = ''d'', ir_site = ''s'', ir_work_center = None,
      ir_name = name, ir_business_date = 0, ir_start = s, ir_end = e, in_id = name\<rparr>"

definition gap_shifts :: shift_db where
  "gap_shifts = \<lparr>sd_instances = [gap_shift ''Early'' 0 3600000, gap_shift ''Late'' 9000000 14400000],
                 sd_assignments = [old_assignment_row], sd_stations = []\<rparr>"

lemma gap_resolves:
  "resolve_hour_bucket gap_shifts (\<lambda>_. 0) Station ''p'' ''s'' 7200000 = Inr \<lparr>hb_start = 7200000, hb_duration = 3600\<rparr>"
  "resolve_hour_bucket gap_shifts (\<lambda>_. 0) Station ''p'' ''s'' 9000000 = Inr \<lparr>hb_start = 9000000, hb_duration = 1800\<rparr>"
  "resolve_hour_bucket gap_shifts (\<lambda>_. 0) Station ''p'' ''s'' 10800000 = Inr \<lparr>hb_start = 10800000, hb_duration = 3600\<rparr>"
  by code_simp+

lemma gap_late:
  assumes "9000000 \<le> t" "t < 14400000"
  shows "query_shift_for_entity gap_shifts Station ''p'' ''s'' t
     = Some \<lparr>sw_name = ''Late'', sw_start = 9000000, sw_duration = 5400, sw_instance = ''Late''\<rparr>"
  using assms
  by (simp add: query_shift_for_entity_def resolve_workcenter_def newest_instance_def joined_def gap_shifts_def gap_shift_def
      active_at_def old_assignment_row_def new_assignment_def window_of_def)

theorem range_windows_witness:
  "\<exists>ws. base_buckets gap_shifts (\<lambda>_. 0) ''p'' ''s'' 9000000 14400000 = Some (Inr ws)
     \<and> \<lparr>hb_start = 9000000, hb_duration = 1800\<rparr> \<in> set ws \<and> \<lparr>hb_start = 10800000, hb_duration = 3600\<rparr> \<in> set ws"
proof -
  from range_windows[of gap_shifts "\<lambda>_. 0" "''p''" "''s''" 9000000 14400000] gap_late obtain ws where
    "base_buckets gap_shifts (\<lambda>_. 0) ''p'' ''s'' 9000000 14400000 = Some (Inr ws)"
    "\<forall>t. 9000000 \<le> t \<and> t < 14400000 \<longrightarrow> (\<exists>w \<in> set ws. resolve_hour_bucket gap_shifts (\<lambda>_. 0) Station ''p'' ''s'' t = Inr w)"
    by blast
  moreover from this(2)[rule_format, of 9000000] this(2)[rule_format, of 10800000]
  have "\<lparr>hb_start = 9000000, hb_duration = 1800\<rparr> \<in> set ws" "\<lparr>hb_start = 10800000, hb_duration = 3600\<rparr> \<in> set ws"
    by (auto simp: gap_resolves)
  ultimately show ?thesis by blast
qed

text \<open>A range over the gap leaves out the first, partial hour of the later shift, and with it the cycles that end in it.\<close>
lemma range_misses_partial_hour:
  "base_buckets gap_shifts (\<lambda>_. 0) ''p'' ''s'' 7200000 14400000
     = Some (Inr [\<lparr>hb_start = 7200000, hb_duration = 3600\<rparr>, \<lparr>hb_start = 10800000, hb_duration = 3600\<rparr>])"
  by (simp add: base_buckets_def base_walk.simps gap_resolves window_end_def)

section \<open>What a rollup leaves alone\<close>

definition station_hour :: "bucket_row \<Rightarrow> bool" where
  "station_hour b = (bu_type b = Station \<and> bu_gran b = Hour)"

text \<open>The hours of the stations, and the tables beside the buckets.\<close>
definition hours_in :: "bucket_db \<Rightarrow> bucket_row list \<times> bucket_row list" where
  "hours_in b = (filter station_hour (bd_live b), filter station_hour (bd_log b))"

text \<open>The second tables hold the same station hours, and every live key of the first.\<close>
definition hours_kept :: "bucket_db \<Rightarrow> bucket_db \<Rightarrow> bool" where
  "hours_kept b b' =
     (hours_in b' = hours_in b \<and> fixed_tables b' = fixed_tables b \<and> bucket_key ` set (bd_live b) \<subseteq> bucket_key ` set (bd_live b'))"

lemma hours_kept_refl [simp]: "hours_kept b b"
  by (simp add: hours_kept_def)

lemma hours_kept_trans: "hours_kept a b \<Longrightarrow> hours_kept b c \<Longrightarrow> hours_kept a c"
  by (auto simp: hours_kept_def)

lemma update_where_keys:
  "(\<And>b. P b \<Longrightarrow> bucket_key (f b) = bucket_key b) \<Longrightarrow> map bucket_key (update_where P f rows) = map bucket_key rows"
  by (induction rows) simp_all

lemma upsert_live_keys: "bucket_key ` set (bd_live db) \<subseteq> bucket_key ` set (bd_live (snd (upsert_bucket b db)))"
proof -
  have "set (map bucket_key (bd_live db)) \<subseteq> set (map bucket_key (bd_live (snd (upsert_bucket b db))))"
    by (auto simp: upsert_bucket_def Let_def update_where_keys simp del: set_map split: option.splits)
  then show ?thesis by simp
qed

lemma upsert_hours:
  assumes "\<not> station_hour b"
  shows "hours_kept db (snd (upsert_bucket b db))"
proof -
  have no: "\<not> station_hour x" if "bucket_key x = bucket_key b" for x
    using that assms by (auto simp: bucket_key_def station_hour_def)
  show ?thesis
    by (simp add: hours_kept_def hours_in_def filter_upsert[where b = b and Q = station_hour, OF no] upsert_live_keys)
qed

lemma upsert_all_hours:
  "(\<And>f d. f \<in> set fs \<Longrightarrow> \<not> station_hour (f d)) \<Longrightarrow> hours_kept db (snd (upsert_all fs db))"
proof (induction fs arbitrary: db)
  case (Cons f fs)
  from Cons.prems[of f] have "hours_kept db (snd (upsert_bucket (f db) db))" by (intro upsert_hours) simp
  moreover have "hours_kept (snd (upsert_bucket (f db) db)) (snd (upsert_all fs (snd (upsert_bucket (f db) db))))"
    using Cons.prems by (intro Cons.IH) simp
  ultimately show ?case unfolding upsert_all_snd by (rule hours_kept_trans)
qed simp

lemma rollup_keeps_hours:
  assumes "rollup_buckets hash tz inp db = Some (rows, db')"
  shows "hours_kept db db'"
proof (cases "ri_windows inp = []")
  case False
  have time: "\<not> station_hour (time_rollup s et eid name path t d)" if "t \<in> set (time_targets tz inp (bd_shifts db))" for s et eid name path t d
    using time_targets_gran[OF that] by (simp add: station_hour_def time_rollup_def Let_def)
  show ?thesis
  proof (cases "ri_job inp")
    case None
    then have "rollup_station_buckets tz inp db = Some (rows, db')" using assms False by (simp add: rollup_buckets_def)
    then obtain fs ws where plan: "station_plan tz inp db = Some (fs, ws)" and db': "db' = snd (upsert_all ws (snd (upsert_all fs db)))"
      by (auto simp: rollup_station_plan case_prod_beta)
    obtain name path where fs: "fs = map (time_rollup (ri_site inp) Station (ri_station inp) name path) (time_targets tz inp (bd_shifts db))"
      and parents: "if ri_skip_parents inp then ws = [] else \<exists>targets. increment_targets db (ri_station inp) (ri_site inp) = Some targets \<and>
         parent_writes (ri_site inp) (rollup_targets tz inp (bd_shifts db)) (filter (\<lambda>p. tg_type p \<noteq> Station) targets) db = Some ws"
      by (rule station_plan_parts[OF plan])
    have "\<not> station_hour (w d)" if "w \<in> set ws" for w d
      using parents that by (auto simp: station_hour_def entity_rollup_def split: if_splits dest!: parent_writes_set)
    moreover have "\<not> station_hour (f d)" if "f \<in> set fs" for f d using that time by (auto simp: fs)
    ultimately show ?thesis unfolding db' by (intro hours_kept_trans[OF upsert_all_hours upsert_all_hours])
  next
    case (Some j)
    then obtain i name path where j: "ri_job inp = Some (i, name, path)" by (cases j) auto
    have "db' = snd (upsert_all (map (time_rollup (ri_site inp) JobEntity (hash (ri_station inp) i) name path)
            (time_targets tz inp (bd_shifts db))) db)"
      using assms False j by (simp add: rollup_buckets_def rollup_job_buckets_def)
    then show ?thesis using time by (auto intro!: upsert_all_hours)
  qed
qed (use assms in \<open>simp add: rollup_buckets_def\<close>)

text \<open>The buckets of the jobs.\<close>
lemma write_job_hour_hours:
  assumes "bu_type inp = JobEntity"
  shows "hours_kept db (snd (write_job_hour inp db))"
proof -
  have no: "\<not> station_hour x" if "bucket_key x = bucket_key inp" for x
    using that assms by (auto simp: bucket_key_def station_hour_def)
  have up: "set (map bucket_key (update_where (\<lambda>b. bucket_key b = bucket_key inp) (overwrite_row r) rows)) = set (map bucket_key rows)"
    for r rows by (simp add: update_where_keys del: set_map)
  show ?thesis
    using no up by (auto simp: hours_kept_def hours_in_def write_job_hour_def Let_def fixed_tables_def filter_update_where image_image
        split: option.splits)
qed

lemma set_buckets_simps [simp]:
  "tk_buckets (set_buckets b db) = b" "set_buckets c (set_buckets b db) = set_buckets c db"
    "set_buckets (tk_buckets db) db = db" "tk_events (set_buckets b db) = tk_events db"
  by (simp_all add: set_buckets_def)

text \<open>Only the buckets change, and of them no hour of a station.\<close>
definition tick_kept :: "tick_db \<Rightarrow> tick_db \<Rightarrow> bool" where
  "tick_kept db db' = (hours_kept (tk_buckets db) (tk_buckets db') \<and> set_buckets (tk_buckets db') db = db')"

lemma tick_kept_refl [simp]: "tick_kept db db"
  by (simp add: tick_kept_def)

lemma tick_kept_trans: "tick_kept a b \<Longrightarrow> tick_kept b c \<Longrightarrow> tick_kept a c"
  unfolding tick_kept_def by (metis hours_kept_trans set_buckets_simps(2))

lemma tick_kept_set: "hours_kept (tk_buckets db) b \<Longrightarrow> tick_kept db (set_buckets b db)"
  by (simp add: tick_kept_def)

lemma job_hours_kept: "tick_kept db (snd (job_hours x r name ws db))"
proof (induction ws arbitrary: db)
  case (Cons w ws)
  obtain c b where c: "write_job_hour (job_hour x db r name w) (tk_buckets db) = (c, b)" by fastforce
  then have "hours_kept (tk_buckets db) b"
    using write_job_hour_hours[of "job_hour x db r name w" "tk_buckets db"] by (simp add: job_hour_def)
  from tick_kept_trans[OF tick_kept_set[OF this] Cons.IH] Cons.IH[of db] c show ?case by (auto split: prod.split)
qed simp

lemma job_passes_kept: "tick_kept db (snd (snd (job_passes x rs ws m db)))"
proof (induction rs arbitrary: m db)
  case (Cons r rs)
  obtain cs db1 where j: "job_hours x r (resolve_entity_name (tk_buckets db) JobEntity (jr_job r)) ws db = (cs, db1)" by fastforce
  have "tick_kept db db1" using job_hours_kept[of db x r "resolve_entity_name (tk_buckets db) JobEntity (jr_job r)" ws] j by simp
  then have "tick_kept db (snd (snd (job_passes x rs ws n db1)))" for n by (rule tick_kept_trans[OF _ Cons.IH])
  with j show ?case by (auto simp: Let_def split: prod.split) (metis snd_conv)+
qed simp

lemma rollup_jobs_kept: "rollup_jobs x tz m db = Some (rows, db') \<Longrightarrow> hours_kept db db'"
proof (induction x tz m db arbitrary: rows db' rule: rollup_jobs.induct)
  case (2 x tz j name ws m db)
  then show ?case by (auto split: option.splits dest!: rollup_keeps_hours intro: hours_kept_trans)
qed simp

lemma recompute_job_buckets_kept:
  assumes "recompute_job_buckets hash tz now st site ws date shift_name db = Some (rows, db')"
  shows "tick_kept db db'"
proof -
  have *: "tick_kept db (set_buckets b db1)" if "job_passes x rs ws [] db = (cs, m, db1)" "rollup_jobs x tz m (tk_buckets db1) = Some (ds, b)"
    for x rs cs m db1 ds b
    using tick_kept_trans[OF _ tick_kept_set[OF rollup_jobs_kept[OF that(2)]]] job_passes_kept[of db x rs ws "[]"] that(1) by simp
  show ?thesis
    using assms * by (fastforce simp: recompute_job_buckets_def Let_def split: if_splits option.splits prod.splits)
qed

lemma cascade_range_kept:
  assumes "cascade_range hash tz now st site p changed ws db = Some (rows, db')"
  shows "tick_kept db db'"
proof -
  obtain r1 b db1 r2 where r: "rollup_buckets hash tz (rollup_of p st site changed None False) (tk_buckets db) = Some (r1, b)"
      "db1 = set_buckets b db" "recompute_job_buckets hash tz now st site ws (pp_date p) (pp_shift_name p) db1 = Some (r2, db')"
    using assms by (auto simp: cascade_range_def rollup_tick_def split: Option.bind_splits)
  from tick_kept_trans[OF tick_kept_set[OF rollup_keeps_hours[OF r(1)]]] r(2) recompute_job_buckets_kept[OF r(3)]
  show ?thesis by simp
qed

section \<open>A further run over a range\<close>

lemma find_write_key:
  assumes "\<And>b. bucket_key (f b) = bucket_key b"
  shows "find_key k (write_key k' f rows)
    = (if k = k' then map_option (\<lambda>b. stored_row (f b)) (find_key k rows) else find_key k rows)"
  unfolding find_key_def write_key_def by (induction rows) (auto simp: assms)

lemma find_key_deleted: "find_key k (filter (\<lambda>r. bucket_key r \<noteq> k') rows) = (if k = k' then None else find_key k rows)"
  unfolding find_key_def by (induction rows) auto

lemma write_key_keys:
  assumes "\<And>b. bucket_key (f b) = bucket_key b"
  shows "map bucket_key (write_key k f rows) = map bucket_key rows"
  unfolding write_key_def by (rule update_where_keys) (simp add: assms)

lemma key_updates [simp]:
  "bucket_key (put_durations job d b) = bucket_key b" "bucket_key (add_bad_items q b) = bucket_key b"
  "bucket_key (put_kpis job k b) = bucket_key b" "bucket_key (apply_increment i b) = bucket_key b"
  by (simp_all add: bucket_key_def put_durations_def add_bad_items_def put_kpis_def apply_increment_def)

lemma find_key_Some: "find_key k rows = Some r \<Longrightarrow> bucket_key r = k \<and> r \<in> set rows"
  by (auto simp: find_key_def dest: find_Some_in)

lemma find_key_None: "find_key k rows = None \<longleftrightarrow> k \<notin> bucket_key ` set rows"
  by (auto simp: find_key_def find_None_iff)

text \<open>The rows of the hour before and after: an archived row or a live one, with the precision of the columns.\<close>
definition hour_ok :: "uuid \<Rightarrow> bucket_db \<Rightarrow> hour_bucket \<Rightarrow> bool" where
  "hour_ok st b w =
     ((find_key (hour_key st w) (bd_live b) = None \<or> find_key (hour_key st w) (bd_log b) = None)
      \<and> (case existing_row st w b of None \<Rightarrow> True | Some r \<Rightarrow> stored_row r = r))"

lemma extract_simps [simp]:
  "extract_durations d (extract_durations d' k) = extract_durations d k"
  "bk_total_cycles (extract_durations d k) = bk_total_cycles k" "bk_total_items (extract_durations d k) = bk_total_items k"
  "bk_standard_cycle (extract_durations d k) = bk_standard_cycle d"
  by (simp_all add: extract_durations_def)

lemma durations_cycle [simp]: "bk_standard_cycle (compute_durations_for_bucket ev st a dur c n now) = c"
  by (simp add: compute_durations_for_bucket_def Let_def)

lemma stored_put:
  assumes "map_option round2 (bk_standard_cycle d) = bk_standard_cycle d"
  shows "stored_row (put_durations job d b) = put_durations job d b"
  using assms by (simp add: stored_row_def put_durations_def extract_durations_def)

lemma resolve_again:
  assumes "bk_standard_cycle d = resolve_cycle c old" "old = Some r"
  shows "resolve_cycle c (Some (put_durations job d r)) = resolve_cycle c old"
    "resolve_items n (Some (put_durations job d r)) = resolve_items n old"
  using assms by (auto simp: resolve_cycle_def resolve_items_def put_durations_def split: option.split)

lemma resolved_precision:
  assumes "\<forall>x. c = Some x \<longrightarrow> round2 x = x" "stored_row r = r"
  shows "map_option round2 (resolve_cycle c (Some r)) = resolve_cycle c (Some r)"
proof (cases c)
  case None
  from assms(2) have "bk_standard_cycle (bu_kpis (stored_row r)) = bk_standard_cycle (bu_kpis r)" by simp
  with None show ?thesis by (simp add: resolve_cycle_def stored_row_def)
qed (use assms(1) in \<open>simp add: resolve_cycle_def\<close>)

text \<open>Whether a step changes anything depends on the two rows of the hour alone.\<close>
lemma time_step_reads:
  assumes "find_key (hour_key st w) (bd_live b') = find_key (hour_key st w) (bd_live b)"
    "find_key (hour_key st w) (bd_log b') = find_key (hour_key st w) (bd_log b)"
  shows "fst (time_step ev now st job' c n w b') = fst (time_step ev now st job c n w b)"
  using assms by (simp add: time_step_def existing_row_def Let_def split: option.split)

lemma time_step_quiet: "\<not> fst (time_step ev now st job c n w b) \<Longrightarrow> time_step ev now st job c n w b = (False, b)"
  by (auto simp: time_step_def Let_def split: option.splits if_splits)

lemma time_step_settles:
  assumes "\<forall>x. c = Some x \<longrightarrow> round2 x = x" "hour_ok st b w"
  shows "\<not> fst (time_step ev now st job' c n w (snd (time_step ev now st job c n w b)))"
proof (cases "fst (time_step ev now st job c n w b)")
  case False
  then show ?thesis using time_step_quiet[OF False] time_step_reads[of st w b b ev now job' c n job] by simp
next
  case True
  let ?k = "hour_key st w"
  let ?d = "compute_durations_for_bucket ev st (hb_start w) (hb_duration w) (resolve_cycle c (existing_row st w b))
              (resolve_items n (existing_row st w b)) now"
  from True obtain r where r: "existing_row st w b = Some r"
    by (auto simp: time_step_def existing_row_def Let_def split: option.splits if_splits)
  with assms(2) have "stored_row r = r" by (simp add: hour_ok_def)
  from resolved_precision[OF assms(1) this] r have st: "stored_row (put_durations job ?d r) = put_durations job ?d r"
    by (intro stored_put) simp
  have rows: "existing_row st w (snd (time_step ev now st job c n w b)) = Some (put_durations job ?d r)"
      "find_key ?k (bd_log (snd (time_step ev now st job c n w b))) = None \<or> find_key ?k (bd_log (snd (time_step ev now st job c n w b))) = Some (put_durations job ?d r)"
    using True r assms(2) st
    by (auto simp: time_step_def existing_row_def hour_ok_def Let_def find_write_key find_key_deleted split: option.splits if_splits)
  have "duration_unchanged (put_durations job ?d r) ?d" by (simp add: duration_unchanged_def put_durations_def)
  with rows show ?thesis
    using resolve_again(1)[of ?d c "existing_row st w b" r job] resolve_again(2)[of ?d c "existing_row st w b" r n job] r
    by (auto simp: time_step_def[of ev now st job'] existing_row_def Let_def split: option.splits)
qed

lemma time_step_other:
  assumes "hb_start v \<noteq> hb_start w"
  shows "find_key (hour_key st v) (bd_live (snd (time_step ev now st job c n w b))) = find_key (hour_key st v) (bd_live b)"
    "find_key (hour_key st v) (bd_log (snd (time_step ev now st job c n w b))) = find_key (hour_key st v) (bd_log b)"
  using assms by (auto simp: time_step_def Let_def find_write_key find_key_deleted hour_key_def split: option.splits)

lemma time_step_ok:
  assumes "hb_start v \<noteq> hb_start w"
  shows "hour_ok st (snd (time_step ev now st job c n w b)) v = hour_ok st b v"
  unfolding hour_ok_def existing_row_def by (simp only: time_step_other[OF assms])

lemma time_step_rest_ok:
  assumes "distinct (map hb_start (v # ws))" "\<forall>w \<in> set (v # ws). hour_ok st b w"
  shows "\<forall>u \<in> set ws. hour_ok st (snd (time_step ev now st job c n v b)) u"
proof
  fix u
  assume u: "u \<in> set ws"
  then have "hb_start u \<in> hb_start ` set ws" by (rule imageI)
  with assms(1) have "hb_start u \<noteq> hb_start v" by auto
  with assms(2) u show "hour_ok st (snd (time_step ev now st job c n v b)) u" by (simp add: time_step_ok)
qed

lemma time_steps_other:
  assumes "hb_start v \<notin> hb_start ` set ws"
  shows "find_key (hour_key st v) (bd_live (snd (time_steps ev now st job c n ws b))) = find_key (hour_key st v) (bd_live b)
    \<and> find_key (hour_key st v) (bd_log (snd (time_steps ev now st job c n ws b))) = find_key (hour_key st v) (bd_log b)"
  using assms by (induction ws arbitrary: b) (auto simp: case_prod_beta time_step_other)

lemma time_steps_settle:
  assumes "\<forall>x. c = Some x \<longrightarrow> round2 x = x" "distinct (map hb_start ws)" "\<forall>w \<in> set ws. hour_ok st b w" "w \<in> set ws"
  shows "\<not> fst (time_step ev now st job' c n w (snd (time_steps ev now st job c n ws b)))"
  using assms(2-)
proof (induction ws arbitrary: b)
  case (Cons v ws)
  let ?b = "snd (time_step ev now st job c n v b)"
  have s: "snd (time_steps ev now st job c n (v # ws) b) = snd (time_steps ev now st job c n ws ?b)" by (simp add: case_prod_beta)
  show ?case
  proof (cases "w = v")
    case True
    have "\<not> fst (time_step ev now st job' c n v ?b)" using Cons.prems(2) by (intro time_step_settles[OF assms(1)]) simp
    moreover have "hb_start v \<notin> hb_start ` set ws" using Cons.prems(1) by simp
    ultimately show ?thesis
      unfolding s True using time_steps_other[of v ws st ev now job c n ?b] time_step_reads by blast
  next
    case False
    have "\<forall>u \<in> set ws. hour_ok st ?b u" by (rule time_step_rest_ok[OF Cons.prems(1,2)])
    with Cons.IH[of ?b] Cons.prems False show ?thesis unfolding s by simp
  qed
qed simp

lemma time_steps_quiet:
  "\<forall>w \<in> set ws. \<not> fst (time_step ev now st job c n w b) \<Longrightarrow> time_steps ev now st job c n ws b = ([], b)"
proof (induction ws)
  case (Cons w ws)
  then have "time_step ev now st job c n w b = (False, b)" by (intro time_step_quiet) simp
  with Cons show ?case by simp
qed simp

section \<open>Created rows\<close>

lemma insert_absent_result:
  "insert_absent rows live = (new, live') \<Longrightarrow>
     live' = live @ new \<and> set new \<subseteq> set rows \<and> bucket_key ` set rows \<subseteq> bucket_key ` set live'
     \<and> bucket_key ` set new \<inter> bucket_key ` set live = {}"
proof (induction rows arbitrary: live new)
  case (Cons b rows)
  show ?case
  proof (cases "bucket_key b \<in> bucket_key ` set live")
    case True
    then have "insert_absent rows live = (new, live')" using Cons.prems by simp
    from Cons.IH[OF this] True show ?thesis by auto
  next
    case False
    obtain n where n: "insert_absent rows (live @ [b]) = (n, live')" "new = b # n"
      using Cons.prems False by (auto split: prod.splits)
    note ih = Cons.IH[OF n(1)]
    then have "bucket_key ` set rows \<subseteq> bucket_key ` set live'" by blast
    moreover have "bucket_key b \<in> bucket_key ` set live'" using ih by (simp add: image_iff)
    moreover have "live' = live @ new" "set n \<subseteq> set rows" "bucket_key ` set n \<inter> bucket_key ` set live = {}" using ih n(2) by auto
    ultimately show ?thesis using n(2) False by auto
  qed
qed simp

lemma insert_absent_present: "bucket_key ` set rows \<subseteq> bucket_key ` set live \<Longrightarrow> insert_absent rows live = ([], live)"
  by (induction rows) auto

definition station_hours_at :: "tz_offset \<Rightarrow> uuid \<Rightarrow> uuid \<Rightarrow> ms \<Rightarrow> bucket_db \<Rightarrow> hour_bucket list" where
  "station_hours_at tz st site t b = hour_buckets_for_entity (bd_shifts b) tz Station st site t"

lemma empty_station_rows:
  assumes "r \<in> set (empty_buckets tz \<lparr>en_site = site, en_type = Station, en_entity = st, en_at = t, en_name = None, en_path = None\<rparr> name path b)"
  shows "stored_row r = r" "bu_kpis r = zero_kpis" "bu_type r = Station" "bu_entity r = st"
    "bu_gran r = Hour \<Longrightarrow> bucket_key r \<in> hour_key st ` set (station_hours_at tz st site t b)"
  using assms
  by (auto simp: empty_buckets_def Let_def stored_row_def zero_kpis_def bucket_key_def hour_key_def station_hours_at_def split: option.splits)

lemma empty_station_hours:
  assumes "w \<in> set (station_hours_at tz st site t b)"
  shows "hour_key st w \<in> bucket_key ` set (empty_buckets tz \<lparr>en_site = site, en_type = Station, en_entity = st, en_at = t, en_name = None, en_path = None\<rparr> name path b)"
  using assms by (force simp: empty_buckets_def Let_def bucket_key_def hour_key_def station_hours_at_def)

lemma ensure_station_eq:
  "ensure_station hash tz st site t b =
     map_option (\<lambda>path. case insert_absent
          (empty_buckets tz \<lparr>en_site = site, en_type = Station, en_entity = st, en_at = t, en_name = None, en_path = None\<rparr>
             (resolve_entity_name b Station st) path b) (bd_live b) of (new, live) \<Rightarrow> (new, b\<lparr>bd_live := live\<rparr>))
       (station_entity_path b st site)"
  by (simp add: ensure_station_def ensure_buckets_def Let_def resolve_entity_path_def split: option.split prod.split)

lemma empty_buckets_fixed:
  assumes "fixed_tables d = fixed_tables b"
  shows "empty_buckets tz inp name path d = empty_buckets tz inp name path b"
  unfolding empty_buckets_def fixed_tables_fields[OF assms] fixed_reads(1)[OF assms] ..

text \<open>The rows that are created, and that a further call with the same tables creates none.\<close>
lemma ensure_station_result:
  assumes "ensure_station hash tz st site t b = Some (rows, b')"
  shows "b' = b\<lparr>bd_live := bd_live b @ rows\<rparr>"
    "bucket_key ` set rows \<inter> bucket_key ` set (bd_live b) = {}"
    "\<And>r. r \<in> set rows \<Longrightarrow> stored_row r = r \<and> bu_kpis r = zero_kpis \<and> bu_type r = Station \<and> bu_entity r = st
        \<and> (bu_gran r = Hour \<longrightarrow> bucket_key r \<in> hour_key st ` set (station_hours_at tz st site t b))"
    "\<And>w. w \<in> set (station_hours_at tz st site t b) \<Longrightarrow> hour_key st w \<in> bucket_key ` set (bd_live b')"
    "\<And>d. fixed_tables d = fixed_tables b \<Longrightarrow> (\<And>k. k \<in> bucket_key ` set (bd_live b') \<Longrightarrow> fst k = Station \<Longrightarrow> k \<in> bucket_key ` set (bd_live d))
        \<Longrightarrow> ensure_station hash tz st site t d = Some ([], d)"
proof -
  let ?es = "empty_buckets tz \<lparr>en_site = site, en_type = Station, en_entity = st, en_at = t, en_name = None, en_path = None\<rparr>
             (resolve_entity_name b Station st)"
  obtain path where path: "station_entity_path b st site = Some path"
      and ins: "insert_absent (?es path b) (bd_live b) = (rows, bd_live b')" "b' = b\<lparr>bd_live := bd_live b'\<rparr>"
    using assms by (cases "station_entity_path b st site") (auto simp: ensure_station_eq split: prod.splits)
  note res = insert_absent_result[OF ins(1)]
  have live: "bd_live b' = bd_live b @ rows" and sub: "set rows \<subseteq> set (?es path b)"
    and keys: "bucket_key ` set (?es path b) \<subseteq> bucket_key ` set (bd_live b')"
    and new: "bucket_key ` set rows \<inter> bucket_key ` set (bd_live b) = {}"
    by (rule res[THEN conjunct1], rule res[THEN conjunct2, THEN conjunct1], rule res[THEN conjunct2, THEN conjunct2, THEN conjunct1],
        rule res[THEN conjunct2, THEN conjunct2, THEN conjunct2])
  show "b' = b\<lparr>bd_live := bd_live b @ rows\<rparr>" by (subst ins(2)) (simp only: live)
  show "bucket_key ` set rows \<inter> bucket_key ` set (bd_live b) = {}" by (rule new)
  show "stored_row r = r \<and> bu_kpis r = zero_kpis \<and> bu_type r = Station \<and> bu_entity r = st
        \<and> (bu_gran r = Hour \<longrightarrow> bucket_key r \<in> hour_key st ` set (station_hours_at tz st site t b))" if "r \<in> set rows" for r
    using empty_station_rows[OF subsetD[OF sub that]] by simp
  show "hour_key st w \<in> bucket_key ` set (bd_live b')" if "w \<in> set (station_hours_at tz st site t b)" for w
    by (rule subsetD[OF keys empty_station_hours[OF that]])
  show "ensure_station hash tz st site t d = Some ([], d)"
    if f: "fixed_tables d = fixed_tables b" and k: "\<And>k. k \<in> bucket_key ` set (bd_live b') \<Longrightarrow> fst k = Station \<Longrightarrow> k \<in> bucket_key ` set (bd_live d)" for d
  proof -
    have "fst (bucket_key r) = Station" if "r \<in> set (?es path b)" for r
      using empty_station_rows(3)[OF that] by (simp add: bucket_key_def)
    then have "bucket_key ` set (?es path b) \<subseteq> bucket_key ` set (bd_live d)" using keys k by blast
    then show ?thesis
      by (simp add: ensure_station_eq fixed_reads[OF f] path empty_buckets_fixed[OF f] insert_absent_present)
  qed
qed

section \<open>Settling\<close>

text \<open>The keys of both tables stay where no hour is in both.\<close>
lemma time_step_keys:
  assumes "hour_ok st b w"
  shows "map bucket_key (bd_live (snd (time_step ev now st job c n w b))) = map bucket_key (bd_live b)"
    "map bucket_key (bd_log (snd (time_step ev now st job c n w b))) = map bucket_key (bd_log b)"
    "fixed_tables (snd (time_step ev now st job c n w b)) = fixed_tables b"
proof -
  have del: "filter (\<lambda>r. bucket_key r \<noteq> hour_key st w) (bd_live b) = bd_live b" if "find_key (hour_key st w) (bd_log b) = Some r" for r
  proof -
    have "hour_key st w \<notin> bucket_key ` set (bd_live b)" using assms that by (auto simp: hour_ok_def find_key_None)
    then show ?thesis by (intro filter_True) force
  qed
  show "map bucket_key (bd_live (snd (time_step ev now st job c n w b))) = map bucket_key (bd_live b)"
    "map bucket_key (bd_log (snd (time_step ev now st job c n w b))) = map bucket_key (bd_log b)"
    "fixed_tables (snd (time_step ev now st job c n w b)) = fixed_tables b"
    by (simp_all add: time_step_def Let_def del write_key_keys fixed_tables_def split: option.split)
qed

lemma time_steps_keys:
  assumes "distinct (map hb_start ws)" "\<forall>w \<in> set ws. hour_ok st b w"
  shows "map bucket_key (bd_live (snd (time_steps ev now st job c n ws b))) = map bucket_key (bd_live b)
    \<and> map bucket_key (bd_log (snd (time_steps ev now st job c n ws b))) = map bucket_key (bd_log b)
    \<and> fixed_tables (snd (time_steps ev now st job c n ws b)) = fixed_tables b"
  using assms
proof (induction ws arbitrary: b)
  case (Cons w ws)
  have "\<forall>u \<in> set ws. hour_ok st (snd (time_step ev now st job c n w b)) u" by (rule time_step_rest_ok[OF Cons.prems])
  with Cons.IH[of "snd (time_step ev now st job c n w b)"] Cons.prems time_step_keys[of st b w ev now job c n] show ?case
    by (simp add: case_prod_beta)
qed simp

lemma archived_exists_keys:
  assumes "bucket_key ` set (filter station_hour (bd_log b')) = bucket_key ` set (filter station_hour (bd_log b))"
  shows "archived_exists st a ws b' = archived_exists st a ws b"
proof -
  have "archived_exists st a ws b =
      (\<exists>k \<in> bucket_key ` set (filter station_hour (bd_log b)). fst (snd k) = st
          \<and> snd (snd (snd k)) \<ge> (case ws of [] \<Rightarrow> a | w # _ \<Rightarrow> hb_start w))" for b
    by (auto simp: archived_exists_def list_ex_iff station_hour_def bucket_key_def)
  then show ?thesis by (simp only: assms)
qed

lemma station_hour_keys:
  assumes "map bucket_key rows' = map bucket_key rows"
  shows "bucket_key ` set (filter station_hour rows') = bucket_key ` set (filter station_hour rows)"
proof -
  have "station_hour r \<longleftrightarrow> fst (bucket_key r) = Station \<and> fst (snd (snd (bucket_key r))) = Hour" for r
    by (simp add: station_hour_def bucket_key_def)
  then have "bucket_key ` set (filter station_hour rows) = {k \<in> set (map bucket_key rows). fst k = Station \<and> fst (snd (snd k)) = Hour}" for rows
    by auto
  then show ?thesis by (simp only: assms)
qed

lemma find_hours_in:
  assumes "hours_in b' = hours_in b"
  shows "find_key (hour_key st w) (bd_live b') = find_key (hour_key st w) (bd_live b)"
    "find_key (hour_key st w) (bd_log b') = find_key (hour_key st w) (bd_log b)"
proof -
  have "find_key (hour_key st w) rows = find_key (hour_key st w) (filter station_hour rows)" for rows
    by (induction rows) (auto simp: find_key_def hour_key_def station_hour_def bucket_key_def)
  with assms show "find_key (hour_key st w) (bd_live b') = find_key (hour_key st w) (bd_live b)"
    "find_key (hour_key st w) (bd_log b') = find_key (hour_key st w) (bd_log b)" by (metis hours_in_def prod.inject)+
qed

text \<open>The creation of the hours of the range creates none that is archived.\<close>
definition no_shadow :: "tz_offset \<Rightarrow> uuid \<Rightarrow> uuid \<Rightarrow> ms \<Rightarrow> hour_bucket list \<Rightarrow> bucket_db \<Rightarrow> bool" where
  "no_shadow tz st site a ws b =
     (archived_exists st a ws b
      \<or> (\<forall>w \<in> set (station_hours_at tz st site a b). hour_key st w \<notin> bucket_key ` set (bd_log b)))"

lemma ensured_hours_ok:
  assumes "ensure_unless_archived hash tz st site a ws b = Some (rows, b')" "no_shadow tz st site a ws b"
    and cols: "\<forall>r \<in> set (bd_live b) \<union> set (bd_log b). stored_row r = r"
    and apart: "bucket_key ` set (bd_live b) \<inter> bucket_key ` set (bd_log b) = {}"
  shows "hour_ok st b' w" "bd_log b' = bd_log b" "fixed_tables b' = fixed_tables b"
proof -
  have "bd_log b' = bd_log b \<and> fixed_tables b' = fixed_tables b \<and> (\<forall>r \<in> set (bd_live b'). stored_row r = r)
      \<and> (hour_key st w \<in> bucket_key ` set (bd_live b') \<longrightarrow> hour_key st w \<notin> bucket_key ` set (bd_log b))"
  proof (cases "archived_exists st a ws b")
    case True
    with assms(1) cols apart show ?thesis by (auto simp: ensure_unless_archived_def)
  next
    case False
    then have e: "ensure_station hash tz st site a b = Some (rows, b')" using assms(1) by (simp add: ensure_unless_archived_def)
    note res = ensure_station_result[OF e]
    have "hour_key st w \<notin> bucket_key ` set (bd_log b)" if "r \<in> set rows" "bucket_key r = hour_key st w" for r
    proof -
      have "bu_gran r = Hour" using that(2) by (simp add: bucket_key_def hour_key_def)
      with res(3)[OF that(1)] that(2) obtain v where "v \<in> set (station_hours_at tz st site a b)" "hour_key st w = hour_key st v" by auto
      with assms(2) False show ?thesis by (simp add: no_shadow_def)
    qed
    moreover have "hour_key st w \<notin> bucket_key ` set (bd_log b)" if "hour_key st w \<in> bucket_key ` set (bd_live b)"
      using apart that by blast
    ultimately show ?thesis using res(1,3) cols by (auto simp: fixed_tables_def) (metis imageI)
  qed
  moreover from this have "stored_row r = r" if "existing_row st w b' = Some r" for r
    using that cols by (auto simp: existing_row_def split: option.splits dest!: find_key_Some)
  ultimately show "hour_ok st b' w" "bd_log b' = bd_log b" "fixed_tables b' = fixed_tables b"
    by (auto simp: hour_ok_def find_key_None split: option.split)
qed

lemma update_time_based_result:
  assumes "update_time_based hash tz now st site a e c n db = Some (Inr (rows, db'))"
  obtains ws rows0 b changed b1 where "base_buckets (bd_shifts (tk_buckets db)) tz st site a e = Some (Inr ws)" "distinct (map hb_start ws)"
    "ensure_unless_archived hash tz st site a ws (tk_buckets db) = Some (rows0, b)"
    "time_steps (tk_events db) now st (station_job st b) c n ws b = (changed, b1)" "tick_kept (set_buckets b1 db) db'"
proof -
  obtain ws where ws: "base_buckets (bd_shifts (tk_buckets db)) tz st site a e = Some (Inr ws)" "distinct (map hb_start ws)"
    using base_walk_ends[of "bd_shifts (tk_buckets db)" tz st site e "[]" a] unfolding base_buckets_def by blast
  from assms obtain rows0 b where b: "ensure_unless_archived hash tz st site a ws (tk_buckets db) = Some (rows0, b)"
    by (cases "ensure_unless_archived hash tz st site a ws (tk_buckets db)") (auto simp: update_time_based_def ws(1) ended_def)
  obtain changed b1 where s: "time_steps (tk_events db) now st (station_job st b) c n ws b = (changed, b1)" by fastforce
  have "tick_kept (set_buckets b1 db) db'"
    using assms s by (auto simp: update_time_based_def ws(1) b ended_def cascade_range_kept split: if_splits)
  from that[OF ws b s this] show thesis .
qed

text \<open>
  C21: recomputing the durations of a range a second time changes nothing.  When the same range
  is updated again at the same instant, with the same events, no row is created, written or
  deleted and nothing is published.  The rows have the precision of their columns, the standard
  cycle of the caller too; no hour is both live and archived, also after the missing hours were
  created.
\<close>
theorem time_update_settles:
  assumes "update_time_based hash tz now st site a e c n db = Some (Inr (rows, db'))"
    and "\<forall>x. c = Some x \<longrightarrow> round2 x = x"
    and "\<forall>r \<in> set (bd_live (tk_buckets db)) \<union> set (bd_log (tk_buckets db)). stored_row r = r"
    and "bucket_key ` set (bd_live (tk_buckets db)) \<inter> bucket_key ` set (bd_log (tk_buckets db)) = {}"
    and "\<forall>ws. base_buckets (bd_shifts (tk_buckets db)) tz st site a e = Some (Inr ws) \<longrightarrow> no_shadow tz st site a ws (tk_buckets db)"
  shows "update_time_based hash tz now st site a e c n db' = Some (Inr ([], db'))"
proof -
  obtain ws rows0 b changed b1 where ws: "base_buckets (bd_shifts (tk_buckets db)) tz st site a e = Some (Inr ws)" "distinct (map hb_start ws)"
    and en: "ensure_unless_archived hash tz st site a ws (tk_buckets db) = Some (rows0, b)"
    and steps: "time_steps (tk_events db) now st (station_job st b) c n ws b = (changed, b1)" and kept: "tick_kept (set_buckets b1 db) db'"
    by (rule update_time_based_result[OF assms(1)])
  let ?B = "tk_buckets db" and ?B' = "tk_buckets db'"
  note b = ensured_hours_ok[OF en assms(5)[rule_format, OF ws(1)] assms(3,4)]
  have keys: "map bucket_key (bd_live b1) = map bucket_key (bd_live b)" "map bucket_key (bd_log b1) = map bucket_key (bd_log b)"
      "fixed_tables b1 = fixed_tables b"
    using time_steps_keys[OF ws(2), of st b "tk_events db" now "station_job st b" c n] b(1) steps by simp_all
  have hk: "hours_kept b1 ?B'" and ev: "tk_events db' = tk_events db"
    using kept by (auto simp: tick_kept_def set_buckets_def dest: arg_cong[where f = tk_events])
  then have hi: "hours_in ?B' = hours_in b1" and fx: "fixed_tables ?B' = fixed_tables ?B"
    using keys(3) b(3) by (simp_all add: hours_kept_def)
  have ar: "archived_exists st a ws ?B' = archived_exists st a ws ?B"
  proof (rule archived_exists_keys)
    have "filter station_hour (bd_log ?B') = filter station_hour (bd_log b1)" using hi by (simp add: hours_in_def)
    with station_hour_keys[OF keys(2)] b(2)
    show "bucket_key ` set (filter station_hour (bd_log ?B')) = bucket_key ` set (filter station_hour (bd_log ?B))" by simp
  qed
  have en': "ensure_unless_archived hash tz st site a ws ?B' = Some ([], ?B')"
  proof (cases "archived_exists st a ws ?B")
    case True
    with ar show ?thesis by (simp add: ensure_unless_archived_def)
  next
    case False
    then have e: "ensure_station hash tz st site a ?B = Some (rows0, b)" using en by (simp add: ensure_unless_archived_def)
    have "set (map bucket_key (bd_live b)) \<subseteq> bucket_key ` set (bd_live ?B')"
      using hk unfolding keys(1)[symmetric] by (simp add: hours_kept_def)
    then have "ensure_station hash tz st site a ?B' = Some ([], ?B')" by (intro ensure_station_result(5)[OF e fx]) auto
    with False ar show ?thesis by (simp add: ensure_unless_archived_def)
  qed
  have "\<not> fst (time_step (tk_events db) now st (station_job st ?B') c n w ?B')" if "w \<in> set ws" for w
    using time_steps_settle[OF assms(2) ws(2) _ that, of st b "tk_events db" now "station_job st ?B'" n "station_job st b"] b(1)
      time_step_reads[OF find_hours_in(1,2)[OF hi, of st w], of "tk_events db" now "station_job st ?B'" c n "station_job st ?B'"] steps
    by simp
  then have "time_steps (tk_events db) now st (station_job st ?B') c n ws ?B' = ([], ?B')" by (intro time_steps_quiet) simp
  then show ?thesis
    using ws(1) by (simp add: update_time_based_def fixed_tables_fields(5)[OF fx] en' ev ended_def)
qed

definition archived_tick_db :: tick_db where
  "archived_tick_db = set_buckets (sample_bucket_db\<lparr>bd_log := [sample_hour 0 5]\<rparr>) sample_tick_db"

lemma archived_windows:
  "base_buckets (bd_shifts (tk_buckets archived_tick_db)) (\<lambda>_. 0) ''p'' ''s'' 0 600000 = Some (Inr [\<lparr>hb_start = 0, hb_duration = 3600\<rparr>])"
  by code_simp

lemma archived_run:
  "(case update_time_based (\<lambda>s j. j) (\<lambda>_. 0) 600000 ''p'' ''s'' 0 600000 None None archived_tick_db of
      Some (Inr (rows, db)) \<Rightarrow> map (\<lambda>b. (bk_run (bu_kpis b), bk_elapsed_planned (bu_kpis b))) (bd_log (tk_buckets db)) | _ \<Rightarrow> []) = [(600, 600)]"
  by code_simp

theorem time_update_settles_witness:
  "\<exists>rows db. update_time_based (\<lambda>s j. j) (\<lambda>_. 0) 600000 ''p'' ''s'' 0 600000 None None archived_tick_db = Some (Inr (rows, db))
     \<and> map (\<lambda>b. bk_run (bu_kpis b)) (bd_log (tk_buckets db)) = [600]
     \<and> update_time_based (\<lambda>s j. j) (\<lambda>_. 0) 600000 ''p'' ''s'' 0 600000 None None db = Some (Inr ([], db))"
proof -
  obtain rows db where r: "update_time_based (\<lambda>s j. j) (\<lambda>_. 0) 600000 ''p'' ''s'' 0 600000 None None archived_tick_db = Some (Inr (rows, db))"
      "map (\<lambda>b. bk_run (bu_kpis b)) (bd_log (tk_buckets db)) = [600]"
    using archived_run by (auto split: option.splits sum.splits)
  have rows: "bd_live (tk_buckets archived_tick_db) = []" "bd_log (tk_buckets archived_tick_db) = [sample_hour 0 5]"
    by (simp_all add: archived_tick_db_def sample_bucket_db_def)
  have s: "stored_row (sample_hour 0 5) = sample_hour 0 5" "archived_exists ''p'' 0 [\<lparr>hb_start = 0, hb_duration = 3600\<rparr>] (tk_buckets archived_tick_db)"
    by code_simp+
  have "update_time_based (\<lambda>s j. j) (\<lambda>_. 0) 600000 ''p'' ''s'' 0 600000 None None db = Some (Inr ([], db))"
    by (rule time_update_settles[OF r(1)]) (simp_all add: rows s no_shadow_def archived_windows)
  with r show ?thesis by (intro exI conjI)
qed

section \<open>Full recomputation\<close>

lemma recalc_hour_find:
  "find_key (hour_key st w) (bd_live (recalc_hour ev now st job v b)) = (if hb_start w = hb_start v
      then map_option (\<lambda>r. stored_row (put_kpis job (compute_bucket_from_events ev st (hb_start v) (hb_duration v) None now) r))
             (find_key (hour_key st w) (bd_live b)) else find_key (hour_key st w) (bd_live b))"
  by (simp add: recalc_hour_def find_write_key) (simp add: hour_key_def)

lemma recalc_hours_other:
  "bd_log (recalc_hours ev now st job ws b) = bd_log b \<and> fixed_tables (recalc_hours ev now st job ws b) = fixed_tables b
    \<and> (hb_start w \<notin> hb_start ` set ws \<longrightarrow>
         find_key (hour_key st w) (bd_live (recalc_hours ev now st job ws b)) = find_key (hour_key st w) (bd_live b))"
proof (induction ws arbitrary: b)
  case (Cons v ws)
  have "bd_log (recalc_hour ev now st job v b) = bd_log b" "fixed_tables (recalc_hour ev now st job v b) = fixed_tables b"
    by (simp_all add: recalc_hour_def fixed_tables_def)
  with Cons.IH[of "recalc_hour ev now st job v b"] show ?case by (simp add: recalc_hours_def recalc_hour_find)
qed (simp add: recalc_hours_def)

lemma recalc_hours_find:
  assumes "distinct (map hb_start ws)" "w \<in> set ws"
  shows "find_key (hour_key st w) (bd_live (recalc_hours ev now st job ws b)) =
      map_option (\<lambda>r. stored_row (put_kpis job (compute_bucket_from_events ev st (hb_start w) (hb_duration w) None now) r))
        (find_key (hour_key st w) (bd_live b))"
  using assms
proof (induction ws arbitrary: b)
  case (Cons v ws)
  let ?b = "recalc_hour ev now st job v b"
  have s: "recalc_hours ev now st job (v # ws) b = recalc_hours ev now st job ws ?b" by (simp add: recalc_hours_def)
  show ?case
  proof (cases "w = v")
    case True
    with Cons.prems(1) recalc_hours_other[where w = v and ws = ws and b = ?b and ev = ev and now = now and st = st and job = job]
    show ?thesis unfolding s by (simp add: recalc_hour_find)
  next
    case False
    with Cons.prems have w: "w \<in> set ws" by simp
    then have "hb_start w \<in> hb_start ` set ws" by (rule imageI)
    with Cons.prems(1) have "hb_start w \<noteq> hb_start v" by auto
    with Cons.IH[of ?b] Cons.prems(1) w show ?thesis unfolding s by (simp add: recalc_hour_find)
  qed
qed simp

text \<open>
  C22: a full recomputation takes the live hours back to the events.  Afterwards the row of every
  window of the range, if it is live, has exactly the values computed from the cycles, the state
  log and the dispositions of its hour (the standard cycle as the column keeps it), whatever it
  had before, with the job that the station has now; the archive keeps its hours as they were.
\<close>
theorem recalc_restores_events:
  assumes "recalc_all hash tz now st site a e db = Some (Inr (rows, db'))"
    and "base_buckets (bd_shifts (tk_buckets db)) tz st site a e = Some (Inr ws)" "w \<in> set ws"
  shows "find_key (hour_key st w) (bd_live (tk_buckets db')) =
      map_option (\<lambda>r. stored_row (put_kpis (station_job st (tk_buckets db))
          (compute_bucket_from_events (tk_events db) st (hb_start w) (hb_duration w) None now) r))
        (find_key (hour_key st w) (bd_live (tk_buckets db)))
    \<and> find_key (hour_key st w) (bd_log (tk_buckets db')) = find_key (hour_key st w) (bd_log (tk_buckets db))"
proof -
  let ?b = "recalc_hours (tk_events db) now st (station_job st (tk_buckets db)) ws (tk_buckets db)"
  have d: "distinct (map hb_start ws)"
    using base_walk_ends[of "bd_shifts (tk_buckets db)" tz st site e "[]" a] assms(2) by (auto simp: base_buckets_def)
  have "tick_kept (set_buckets ?b db) db'"
    using assms(1) by (auto simp: recalc_all_def assms(2) Let_def intro: cascade_range_kept)
  then have "hours_in (tk_buckets db') = hours_in ?b" by (simp add: tick_kept_def hours_kept_def)
  from find_hours_in[OF this, of st w] recalc_hours_other[of "tk_events db" now st "station_job st (tk_buckets db)" ws "tk_buckets db" w]
  show ?thesis by (simp add: recalc_hours_find[OF d assms(3)])
qed

lemma sample_recalc:
  "(case recalc_all (\<lambda>s j. j) (\<lambda>_. 0) 600000 ''p'' ''s'' 0 600000 sample_tick_db of
      Some (Inr (rows, db)) \<Rightarrow> map (\<lambda>b. (bu_type b, bu_start b, bk_run (bu_kpis b))) (filter station_hour (bd_live (tk_buckets db))) | _ \<Rightarrow> [])
    = [(Station, 0, 600)]"
  "base_buckets (bd_shifts (tk_buckets sample_tick_db)) (\<lambda>_. 0) ''p'' ''s'' 0 600000 = Some (Inr [\<lparr>hb_start = 0, hb_duration = 3600\<rparr>])"
  by code_simp+

theorem recalc_restores_events_witness:
  "\<exists>rows db. recalc_all (\<lambda>s j. j) (\<lambda>_. 0) 600000 ''p'' ''s'' 0 600000 sample_tick_db = Some (Inr (rows, db))
     \<and> map_option (\<lambda>b. bk_run (bu_kpis b)) (find_key (Station, ''p'', Hour, 0) (bd_live (tk_buckets db))) = Some 600"
proof -
  obtain rows db where r: "recalc_all (\<lambda>s j. j) (\<lambda>_. 0) 600000 ''p'' ''s'' 0 600000 sample_tick_db = Some (Inr (rows, db))"
    using sample_recalc(1) by (auto split: option.splits sum.splits)
  have k: "hour_key ''p'' \<lparr>hb_start = 0, hb_duration = 3600\<rparr> = (Station, ''p'', Hour, 0)" by (simp add: hour_key_def)
  have "map_option (\<lambda>r. bk_run (bu_kpis (stored_row (put_kpis (station_job ''p'' (tk_buckets sample_tick_db))
          (compute_bucket_from_events (tk_events sample_tick_db) ''p'' 0 3600 None 600000) r))))
        (find_key (Station, ''p'', Hour, 0) (bd_live (tk_buckets sample_tick_db))) = Some 600" by code_simp
  with recalc_restores_events[OF r sample_recalc(2), of "\<lparr>hb_start = 0, hb_duration = 3600\<rparr>"] k
  have "map_option (\<lambda>b. bk_run (bu_kpis b)) (find_key (Station, ''p'', Hour, 0) (bd_live (tk_buckets db))) = Some 600"
    by (simp add: option.map_comp comp_def)
  with r show ?thesis by (intro exI conjI)
qed

section \<open>Bad items\<close>

text \<open>The bad items of the hour of a station, live or archived.\<close>
definition hour_bad :: "uuid \<Rightarrow> ms \<Rightarrow> bucket_db \<Rightarrow> int" where
  "hour_bad st s b = (case bucket_at (Station, st, Hour, s) b of None \<Rightarrow> 0 | Some r \<Rightarrow> bk_bad_items (bu_kpis r))"

lemma bucket_at_hours:
  assumes "hours_in b' = hours_in b"
  shows "bucket_at (Station, st, Hour, s) b' = bucket_at (Station, st, Hour, s) b"
  using find_hours_in[OF assms, of st "\<lparr>hb_start = s, hb_duration = 0\<rparr>"]
  by (simp add: bucket_at_def hour_key_def cong: option.case_cong)

lemma update_bad_items_result:
  assumes "update_disposition_bad_items hash tz st site t q db = Some (Inr (rows, db'))"
  obtains w rows0 b where "resolve_hour_bucket (bd_shifts db) tz Station st site t = Inr w"
    "ensure_station hash tz st site t db = Some (rows0, b)" "hours_kept (write_bad_items st w q b) db'"
proof -
  obtain w where w: "resolve_hour_bucket (bd_shifts db) tz Station st site t = Inr w" using resolve_station_hour by blast
  from assms w obtain rows0 b where "ensure_station hash tz st site t db = Some (rows0, b)" "hours_kept (write_bad_items st w q b) db'"
    by (auto simp: update_disposition_bad_items_def Let_def split: Option.bind_splits dest!: rollup_keeps_hours)
  with that w show thesis by blast
qed

lemma write_bad_items_at:
  assumes "find_key (hour_key st w) (bd_live b) \<noteq> None"
  shows "bucket_at k (write_bad_items st w q b) =
    (if k = hour_key st w then map_option (\<lambda>r. stored_row (add_bad_items q r)) (bucket_at k b) else bucket_at k b)"
proof -
  have "list_ex (\<lambda>r. bucket_key r = hour_key st w) (bd_live b)"
    using assms by (auto simp: find_key_def list_ex_iff find_None_iff)
  with assms show ?thesis by (auto simp: write_bad_items_def bucket_at_def find_write_key split: option.split)
qed

text \<open>The hour of an instant is among the rows that are created for it.\<close>
lemma resolved_hour_ensured:
  assumes "\<forall>t. 1000 dvd t \<longrightarrow> 1000 dvd tz t" "resolve_hour_bucket (bd_shifts db) tz Station st site t = Inr w"
    and "ensure_station hash tz st site t db = Some (rows, b)"
  shows "find_key (hour_key st w) (bd_live b) \<noteq> None"
proof -
  have "w \<in> set (station_hours_at tz st site t db)"
    using hour_bucket_resolves[OF assms(1), of "bd_shifts db" Station st site t] assms(2) by (auto simp: station_hours_at_def)
  from ensure_station_result(4)[OF assms(3) this] show ?thesis by (simp add: find_key_None)
qed

text \<open>
  The disposition is counted once: where no hour of the shift (or of the local day) is archived,
  the bad items of the hour of the instant rise by the quantity, those of every other hour stay.
\<close>
lemma bad_items_counted:
  assumes run: "update_disposition_bad_items hash tz st site t q db = Some (Inr (rows, db'))"
    and tz: "\<forall>t. 1000 dvd t \<longrightarrow> 1000 dvd tz t"
    and w: "resolve_hour_bucket (bd_shifts db) tz Station st site t = Inr w"
    and clear: "\<forall>v \<in> set (station_hours_at tz st site t db). hour_key st v \<notin> bucket_key ` set (bd_log db)"
  shows "hour_bad st' s db' = hour_bad st' s db + (if st' = st \<and> s = hb_start w then q else 0)"
    "bucket_key ` set (filter station_hour (bd_log db')) = bucket_key ` set (filter station_hour (bd_log db))"
    "fixed_tables db' = fixed_tables db"
proof -
  obtain rows0 b where e: "ensure_station hash tz st site t db = Some (rows0, b)" and k: "hours_kept (write_bad_items st w q b) db'"
    using update_bad_items_result[OF run] w by (metis sum.inject(2))
  note res = ensure_station_result[OF e]
  note live = resolved_hour_ensured[OF tz w e]
  have old: "(case bucket_at (Station, st', Hour, s) b of None \<Rightarrow> 0 | Some r \<Rightarrow> bk_bad_items (bu_kpis r)) = hour_bad st' s db"
  proof (cases "find_key (Station, st', Hour, s) rows0")
    case None
    then show ?thesis using res(1) by (simp add: hour_bad_def bucket_at_def find_key_append split: option.split)
  next
    case (Some r)
    note r = find_key_Some[OF Some]
    then have "bu_gran r = Hour" by (simp add: bucket_key_def)
    with res(3)[of r] r have "bu_kpis r = zero_kpis" "bucket_key r \<in> hour_key st ` set (station_hours_at tz st site t db)" by blast+
    then obtain v where "v \<in> set (station_hours_at tz st site t db)" "bucket_key r = hour_key st v" by blast
    with clear r have "(Station, st', Hour, s) \<notin> bucket_key ` set (bd_log db)" by metis
    with \<open>bu_kpis r = zero_kpis\<close> have n: "find_key (Station, st', Hour, s) (bd_log db) = None" "bk_bad_items (bu_kpis r) = 0"
      by (simp_all add: find_key_None zero_kpis_def)
    have "find_key (Station, st', Hour, s) (bd_live db) = None" using res(2) r by (force simp: find_key_None)
    with n Some res(1) show ?thesis by (simp add: hour_bad_def bucket_at_def find_key_append)
  qed
  have some: "bucket_at (hour_key st w) b \<noteq> None" using live by (auto simp: bucket_at_def split: option.split)
  have "bucket_at (Station, st', Hour, s) db' = bucket_at (Station, st', Hour, s) (write_bad_items st w q b)"
    using k by (intro bucket_at_hours) (simp add: hours_kept_def)
  with old some show "hour_bad st' s db' = hour_bad st' s db + (if st' = st \<and> s = hb_start w then q else 0)"
    by (auto simp: hour_bad_def write_bad_items_at[OF live] hour_key_def stored_row_def add_bad_items_def split: option.splits)
  have "bd_log (write_bad_items st w q b) = bd_log db" "fixed_tables (write_bad_items st w q b) = fixed_tables db"
    using live res(1) by (auto simp: write_bad_items_def list_ex_iff find_key_None fixed_tables_def)
  with k show "bucket_key ` set (filter station_hour (bd_log db')) = bucket_key ` set (filter station_hour (bd_log db))"
    "fixed_tables db' = fixed_tables db" by (auto simp: hours_kept_def hours_in_def)
qed

text \<open>
  C23: a disposition of an archived hour hides the hour.  When the hour of the station is in the
  archive and no longer live, the update creates an empty live row for it, counts the quantity
  there and leaves the archived row alone: the branch that updates the archive is never taken.
  What the rollups then read of the hour are zero counts with the bad items of this call alone.
\<close>
theorem disposition_hides_archived_hour:
  assumes "update_disposition_bad_items hash tz st site t q db = Some (Inr (rows, db'))"
    and "\<forall>t. 1000 dvd t \<longrightarrow> 1000 dvd tz t"
    and "resolve_hour_bucket (bd_shifts db) tz Station st site t = Inr w"
    and "find_key (hour_key st w) (bd_live db) = None" "find_key (hour_key st w) (bd_log db) = Some old"
  shows "(\<exists>r. bucket_at (hour_key st w) db' = Some r \<and> bu_kpis r = zero_kpis\<lparr>bk_bad_items := q\<rparr>)
    \<and> find_key (hour_key st w) (bd_log db') = Some old"
proof -
  obtain rows0 b where e: "ensure_station hash tz st site t db = Some (rows0, b)" and k: "hours_kept (write_bad_items st w q b) db'"
    using update_bad_items_result[OF assms(1)] assms(3) by (metis sum.inject(2))
  note res = ensure_station_result[OF e]
  note live = resolved_hour_ensured[OF assms(2,3) e]
  then obtain r where r: "find_key (hour_key st w) rows0 = Some r" "find_key (hour_key st w) (bd_live b) = Some r"
    using assms(4) res(1) by (auto simp: find_key_append)
  have z: "bu_kpis r = zero_kpis" using res(3) find_key_Some[OF r(1)] by blast
  have "bucket_at (hour_key st w) db' = bucket_at (hour_key st w) (write_bad_items st w q b)"
    using k bucket_at_hours[of db' "write_bad_items st w q b"] by (simp add: hours_kept_def hour_key_def)
  then have "bucket_at (hour_key st w) db' = Some (stored_row (add_bad_items q r))"
    by (simp add: write_bad_items_at[OF live]) (simp add: bucket_at_def r)
  moreover have "bu_kpis (stored_row (add_bad_items q r)) = zero_kpis\<lparr>bk_bad_items := q\<rparr>"
    by (simp add: stored_row_def add_bad_items_def z zero_kpis_def)
  moreover have "find_key (hour_key st w) (bd_log db') = find_key (hour_key st w) (bd_log (write_bad_items st w q b))"
    using k find_hours_in(2)[of db' "write_bad_items st w q b"] by (simp add: hours_kept_def)
  moreover have "bd_log (write_bad_items st w q b) = bd_log db"
    using live res(1) by (auto simp: write_bad_items_def list_ex_iff find_key_None)
  ultimately show ?thesis using assms(5) by simp
qed

lemma archived_disposition:
  "(case update_disposition_bad_items (\<lambda>s j. j) (\<lambda>_. 0) ''p'' ''s'' 0 3 (tk_buckets archived_tick_db) of
      Some (Inr (rows, db)) \<Rightarrow> map (\<lambda>b. bk_run (bu_kpis b)) (bd_log db) | _ \<Rightarrow> []) = [5]"
  by code_simp

theorem disposition_hides_archived_hour_witness:
  "\<exists>rows db. update_disposition_bad_items (\<lambda>s j. j) (\<lambda>_. 0) ''p'' ''s'' 0 3 (tk_buckets archived_tick_db) = Some (Inr (rows, db))
     \<and> map_option bu_kpis (bucket_at (Station, ''p'', Hour, 0) db) = Some (zero_kpis\<lparr>bk_bad_items := 3\<rparr>)
     \<and> map_option (\<lambda>b. bk_run (bu_kpis b)) (find_key (Station, ''p'', Hour, 0) (bd_log db)) = Some 5"
proof -
  obtain rows db where r: "update_disposition_bad_items (\<lambda>s j. j) (\<lambda>_. 0) ''p'' ''s'' 0 3 (tk_buckets archived_tick_db) = Some (Inr (rows, db))"
    using archived_disposition by (auto split: option.splits sum.splits)
  have w: "resolve_hour_bucket (bd_shifts (tk_buckets archived_tick_db)) (\<lambda>_. 0) Station ''p'' ''s'' 0 = Inr \<lparr>hb_start = 0, hb_duration = 3600\<rparr>"
    by code_simp
  have k: "hour_key ''p'' \<lparr>hb_start = 0, hb_duration = 3600\<rparr> = (Station, ''p'', Hour, 0)" by (simp add: hour_key_def)
  have rows: "find_key (Station, ''p'', Hour, 0) (bd_live (tk_buckets archived_tick_db)) = None"
    "find_key (Station, ''p'', Hour, 0) (bd_log (tk_buckets archived_tick_db)) = Some (sample_hour 0 5)" "bk_run (bu_kpis (sample_hour 0 5)) = 5"
    by (simp_all add: archived_tick_db_def sample_bucket_db_def find_key_def bucket_key_def sample_hour_def)
  from disposition_hides_archived_hour[OF r _ w] rows k
  have "map_option bu_kpis (bucket_at (Station, ''p'', Hour, 0) db) = Some (zero_kpis\<lparr>bk_bad_items := 3\<rparr>)"
    "map_option (\<lambda>b. bk_run (bu_kpis b)) (find_key (Station, ''p'', Hour, 0) (bd_log db)) = Some 5" by auto
  with r show ?thesis by (intro exI conjI)
qed

end
