(* ===== verification/Dispositions.thy ===== *)
theory Dispositions
  imports Recalc Orders
begin

text \<open>
  Scrapped items (\<open>packages/services/src/inventory/\<close>): the catalogue of dispositions
  (\<open>disposition.ts\<close>) and of their reasons (\<open>disposition-reason.ts\<close>), and the log of disposed
  items (\<open>disposition-log.ts\<close>), which feeds the bad items of the metric buckets and the scrap
  of the orders.  Fresh ids, the clock, the offsets of the time zones and the rank of a
  name in the collation are arguments; the
  foreign keys to cycles, shifts, work centers, stations and blobs that the code does not look up are
  taken to exist.  The lemmas show that the log refers to live entries of its site and that the
  bad items of the hours follow the log.
\<close>

section \<open>Tables\<close>

record disposition =
  di_id :: uuid
  di_site :: uuid
  di_name :: string
  di_deleted :: "ms option"

record disposition_reason =
  dz_id :: uuid
  dz_site :: uuid
  dz_name :: string
  dz_links :: "uuid list"
  dz_process :: "uuid option"
  dz_deleted :: "ms option"

record process_type_row =
  py_id :: uuid
  py_site :: uuid
  py_deleted :: "ms option"

record scrap_product =
  sp_id :: uuid
  sp_blob :: "uuid option"
  sp_deleted :: "ms option"
  sp_materials :: "uuid option list"

record scrap_job_product =
  sj_job :: uuid
  sj_product :: uuid
  sj_blob :: "uuid option"
  sj_deleted :: "ms option"

record scrap_cavity =
  sv_id :: uuid
  sv_blob :: "uuid option"
  sv_deleted :: "ms option"
  sv_tool_blob :: "uuid option"

record disposition_log =
  dl_id :: uuid
  dl_site :: uuid
  dl_station :: uuid
  dl_center :: "uuid option"
  dl_quantity :: int
  dl_disposition :: "uuid option"
  dl_reason :: "uuid option"
  dl_cycle :: "uuid option"
  dl_shift :: "uuid option"
  dl_product_blob :: uuid
  dl_station_blob :: "uuid option"
  dl_job_blob :: "uuid option"
  dl_tool_blob :: "uuid option"
  dl_cavity_blob :: "uuid option"
  dl_materials :: "uuid list"
  dl_created :: ms
  dl_deleted :: "ms option"

text \<open>Blobs of products with their product, blobs of stations by station; the buckets hold the stations and sites.\<close>
record scrap_db =
  sc_dispositions :: "disposition list"
  sc_reasons :: "disposition_reason list"
  sc_processes :: "process_type_row list"
  sc_products :: "scrap_product list"
  sc_job_products :: "scrap_job_product list"
  sc_cavities :: "scrap_cavity list"
  sc_product_blobs :: "(uuid \<times> uuid) list"
  sc_station_blobs :: "(uuid \<times> uuid) list"
  sc_logs :: "disposition_log list"
  sc_buckets :: bucket_db
  sc_orders :: order_db

datatype scrap_error =
    DpSiteNotFound
  | DpDuplicateName
  | DpUnique
  | DpNotFound
  | DpHasLogs
  | DpHasReasons
  | DpSiteMismatch
  | DpReasonNotFound
  | DpNotLinked
  | DpPairRequired
  | DpProcessNotFound
  | DpStationNotFound
  | DpProductNotFound
  | DpNoBlob
  | DpJobProductNotFound
  | DpCavityNotFound
  | DpBlobNotFound
  | DpLogNotFound
  | DpBadId

section \<open>Dispositions\<close>

text \<open>A row that takes the name blocks it also when it is deleted: the index covers all rows.\<close>
definition create_disposition :: "uuid \<Rightarrow> string \<Rightarrow> uuid \<Rightarrow> scrap_db \<Rightarrow> scrap_error + (disposition \<times> scrap_db)" where
  "create_disposition i name site db =
     (if map_of (bd_sites (sc_buckets db)) site = None then Inl DpSiteNotFound
      else (case find (\<lambda>d. di_site d = site \<and> di_name d = name) (sc_dispositions db) of
              Some d \<Rightarrow> if di_deleted d = None then Inl DpDuplicateName else Inl DpUnique
            | None \<Rightarrow>
                (let d = \<lparr>di_id = i, di_site = site, di_name = name, di_deleted = None\<rparr>
                 in Inr (d, db\<lparr>sc_dispositions := sc_dispositions db @ [d]\<rparr>))))"

record catalogue_filter =
  cf_site :: uuid
  cf_disposition :: uuid
  cf_process :: uuid
  cf_name :: string
  cf_limit :: int
  cf_offset :: nat

definition page :: "catalogue_filter \<Rightarrow> 'a list \<Rightarrow> 'a list" where
  "page f rows = (let rest = drop (cf_offset f) rows in if cf_limit f > 0 then take (nat (cf_limit f)) rest else rest)"

definition disposition_matches :: "catalogue_filter \<Rightarrow> disposition \<Rightarrow> bool" where
  "disposition_matches f d =
     (di_deleted d = None \<and> (cf_site f = [] \<or> di_site d = cf_site f) \<and> (cf_name f = [] \<or> contains_ci (di_name d) (cf_name f)))"

definition list_dispositions :: "(string \<Rightarrow> nat) \<Rightarrow> catalogue_filter \<Rightarrow> scrap_db \<Rightarrow> disposition list \<times> nat" where
  "list_dispositions rank f db =
     (page f (sort_key (\<lambda>d. rank (di_name d)) (filter (disposition_matches f) (sc_dispositions db))),
      count_where (disposition_matches f) (sc_dispositions db))"

text \<open>A disposition with its live reasons and the number of all its reasons.\<close>
definition get_disposition :: "(string \<Rightarrow> nat) \<Rightarrow> uuid \<Rightarrow> scrap_db \<Rightarrow> (disposition \<times> disposition_reason list \<times> nat) option" where
  "get_disposition rank i db =
     (case find (\<lambda>d. di_id d = i) (sc_dispositions db) of
        None \<Rightarrow> None
      | Some d \<Rightarrow>
          if di_deleted d = None
          then Some (d, sort_key (\<lambda>r. rank (dz_name r)) (filter (\<lambda>r. i \<in> set (dz_links r) \<and> dz_deleted r = None) (sc_reasons db)),
                     count_where (\<lambda>r. i \<in> set (dz_links r)) (sc_reasons db))
          else None)"

definition update_disposition :: "uuid \<Rightarrow> string option \<Rightarrow> scrap_db \<Rightarrow> scrap_error + scrap_db" where
  "update_disposition i name db =
     (case find (\<lambda>d. di_id d = i) (sc_dispositions db) of
        None \<Rightarrow> Inl DpNotFound
      | Some d \<Rightarrow>
          if di_deleted d \<noteq> None then Inl DpNotFound
          else (case name of
                  None \<Rightarrow> Inr db
                | Some n \<Rightarrow>
                    (case find (\<lambda>x. di_site x = di_site d \<and> di_name x = n) (sc_dispositions db) of
                       Some x \<Rightarrow>
                         if di_id x = i then Inr db
                         else if di_deleted x = None then Inl DpDuplicateName else Inl DpUnique
                     | None \<Rightarrow> Inr (db\<lparr>sc_dispositions := update_where (\<lambda>x. di_id x = i) (\<lambda>x. x\<lparr>di_name := n\<rparr>) (sc_dispositions db)\<rparr>))))"

text \<open>Deleted logs and deleted reasons count too.\<close>
definition remove_disposition :: "ms \<Rightarrow> uuid \<Rightarrow> scrap_db \<Rightarrow> scrap_error + scrap_db" where
  "remove_disposition now i db =
     (case find (\<lambda>d. di_id d = i) (sc_dispositions db) of
        None \<Rightarrow> Inl DpNotFound
      | Some d \<Rightarrow>
          if di_deleted d \<noteq> None then Inl DpNotFound
          else if count_where (\<lambda>l. dl_disposition l = Some i) (sc_logs db) > 0 then Inl DpHasLogs
          else if count_where (\<lambda>r. i \<in> set (dz_links r)) (sc_reasons db) > 0 then Inl DpHasReasons
          else Inr (db\<lparr>sc_dispositions := update_where (\<lambda>x. di_id x = i) (\<lambda>x. x\<lparr>di_deleted := Some now\<rparr>) (sc_dispositions db)\<rparr>))"

section \<open>Reasons\<close>

definition validate_links :: "uuid list \<Rightarrow> uuid \<Rightarrow> scrap_db \<Rightarrow> scrap_error + uuid list" where
  "validate_links ids site db =
     (let uniq = first_per id [] ids;
          found = filter (\<lambda>d. di_id d \<in> set uniq \<and> di_deleted d = None) (sc_dispositions db)
      in if uniq = [] then Inr []
         else if length found \<noteq> length uniq then Inl DpNotFound
         else if list_ex (\<lambda>d. di_site d \<noteq> site) found then Inl DpSiteMismatch
         else Inr uniq)"

definition validate_process :: "uuid \<Rightarrow> uuid \<Rightarrow> scrap_db \<Rightarrow> scrap_error option" where
  "validate_process p site db =
     (case find (\<lambda>x. py_id x = p) (sc_processes db) of
        None \<Rightarrow> Some DpProcessNotFound
      | Some x \<Rightarrow>
          if py_deleted x \<noteq> None then Some DpProcessNotFound else if py_site x \<noteq> site then Some DpSiteMismatch else None)"

text \<open>An absent or empty id is falsy.\<close>
definition given :: "uuid option \<Rightarrow> uuid option" where
  "given i = (case i of Some x \<Rightarrow> if x = [] then None else Some x | None \<Rightarrow> None)"

definition create_reason ::
  "uuid \<Rightarrow> string \<Rightarrow> uuid \<Rightarrow> uuid list option \<Rightarrow> uuid option \<Rightarrow> scrap_db \<Rightarrow> scrap_error + (disposition_reason \<times> scrap_db)" where
  "create_reason i name site links process db =
     (if map_of (bd_sites (sc_buckets db)) site = None then Inl DpSiteNotFound
      else (let old = find (\<lambda>r. dz_site r = site \<and> dz_name r = name) (sc_reasons db)
            in if (case old of Some r \<Rightarrow> dz_deleted r = None | None \<Rightarrow> False) then Inl DpDuplicateName
               else (case (case links of None \<Rightarrow> Inr [] | Some ids \<Rightarrow> validate_links ids site db) of
                       Inl e \<Rightarrow> Inl e
                     | Inr ids \<Rightarrow>
                         (case Option.bind (given process) (\<lambda>p. validate_process p site db) of
                            Some e \<Rightarrow> Inl e
                          | None \<Rightarrow>
                              if old \<noteq> None then Inl DpUnique
                              else if process = Some [] then Inl DpBadId
                              else (let r = \<lparr>dz_id = i, dz_site = site, dz_name = name, dz_links = ids,
                                             dz_process = process, dz_deleted = None\<rparr>
                                    in Inr (r, db\<lparr>sc_reasons := sc_reasons db @ [r]\<rparr>))))))"

definition reason_matches :: "catalogue_filter \<Rightarrow> disposition_reason \<Rightarrow> bool" where
  "reason_matches f r =
     (dz_deleted r = None \<and> (cf_site f = [] \<or> dz_site r = cf_site f)
      \<and> (cf_disposition f = [] \<or> cf_disposition f \<in> set (dz_links r))
      \<and> (cf_process f = [] \<or> dz_process r = Some (cf_process f)) \<and> (cf_name f = [] \<or> contains_ci (dz_name r) (cf_name f)))"

definition list_reasons :: "(string \<Rightarrow> nat) \<Rightarrow> catalogue_filter \<Rightarrow> scrap_db \<Rightarrow> disposition_reason list \<times> nat" where
  "list_reasons rank f db =
     (page f (sort_key (\<lambda>r. rank (dz_name r)) (filter (reason_matches f) (sc_reasons db))), count_where (reason_matches f) (sc_reasons db))"

definition get_reason :: "uuid \<Rightarrow> scrap_db \<Rightarrow> disposition_reason option" where
  "get_reason i db =
     Option.bind (find (\<lambda>r. dz_id r = i) (sc_reasons db)) (\<lambda>r. if dz_deleted r = None then Some r else None)"

definition set_reason :: "string option \<Rightarrow> uuid list option \<Rightarrow> uuid option option \<Rightarrow> disposition_reason \<Rightarrow> disposition_reason" where
  "set_reason name links process r =
     r\<lparr>dz_name := (case name of Some n \<Rightarrow> n | None \<Rightarrow> dz_name r), dz_links := (case links of Some ids \<Rightarrow> ids | None \<Rightarrow> dz_links r),
       dz_process := (case process of Some p \<Rightarrow> given p | None \<Rightarrow> dz_process r)\<rparr>"

text \<open>The process type is \<open>None\<close> when the input has none, \<open>Some None\<close> when it is null.\<close>
definition update_reason ::
  "uuid \<Rightarrow> string option \<Rightarrow> uuid list option \<Rightarrow> uuid option option \<Rightarrow> scrap_db \<Rightarrow> scrap_error + scrap_db" where
  "update_reason i name links process db =
     (case find (\<lambda>r. dz_id r = i) (sc_reasons db) of
        None \<Rightarrow> Inl DpReasonNotFound
      | Some r \<Rightarrow>
          if dz_deleted r \<noteq> None then Inl DpReasonNotFound
          else (let old = Option.bind name (\<lambda>n. find (\<lambda>x. dz_site x = dz_site r \<and> dz_name x = n \<and> dz_id x \<noteq> i) (sc_reasons db))
                in if (case old of Some x \<Rightarrow> dz_deleted x = None | None \<Rightarrow> False) then Inl DpDuplicateName
                   else (case (case links of None \<Rightarrow> Inr None | Some ids \<Rightarrow> map_sum id Some (validate_links ids (dz_site r) db)) of
                           Inl e \<Rightarrow> Inl e
                         | Inr ids \<Rightarrow>
                             (case Option.bind (Option.bind process id) (\<lambda>p. if p = [] then Some DpBadId else validate_process p (dz_site r) db) of
                                Some e \<Rightarrow> Inl e
                              | None \<Rightarrow>
                                  if old \<noteq> None then Inl DpUnique
                                  else Inr (db\<lparr>sc_reasons := update_where (\<lambda>x. dz_id x = i) (set_reason name ids process) (sc_reasons db)\<rparr>)))))"

definition remove_reason :: "ms \<Rightarrow> uuid \<Rightarrow> scrap_db \<Rightarrow> scrap_error + scrap_db" where
  "remove_reason now i db =
     (case find (\<lambda>r. dz_id r = i) (sc_reasons db) of
        None \<Rightarrow> Inl DpReasonNotFound
      | Some r \<Rightarrow>
          if dz_deleted r \<noteq> None then Inl DpReasonNotFound
          else if count_where (\<lambda>l. dl_reason l = Some i) (sc_logs db) > 0 then Inl DpHasLogs
          else Inr (db\<lparr>sc_reasons := update_where (\<lambda>x. dz_id x = i) (\<lambda>x. x\<lparr>dz_deleted := Some now\<rparr>) (sc_reasons db)\<rparr>))"

section \<open>The log\<close>

text \<open>Both ids or neither; the disposition and its reason are live, of the site and linked.\<close>
definition validate_pair :: "uuid \<Rightarrow> uuid option \<Rightarrow> uuid option \<Rightarrow> scrap_db \<Rightarrow> scrap_error + (uuid option \<times> uuid option)" where
  "validate_pair site d r db =
     (case (given d, given r) of
        (None, None) \<Rightarrow> Inr (None, None)
      | (Some i, Some j) \<Rightarrow>
          (case find (\<lambda>x. di_id x = i) (sc_dispositions db) of
             None \<Rightarrow> Inl DpNotFound
           | Some x \<Rightarrow>
               if di_deleted x \<noteq> None then Inl DpNotFound
               else if di_site x \<noteq> site then Inl DpSiteMismatch
               else (case find (\<lambda>z. dz_id z = j) (sc_reasons db) of
                       None \<Rightarrow> Inl DpReasonNotFound
                     | Some z \<Rightarrow>
                         if dz_deleted z \<noteq> None then Inl DpReasonNotFound
                         else if dz_site z \<noteq> site then Inl DpSiteMismatch
                         else if i \<notin> set (dz_links z) then Inl DpNotLinked
                         else Inr (Some i, Some j)))
      | _ \<Rightarrow> Inl DpPairRequired)"

record log_input =
  lx_site :: uuid
  lx_station :: uuid
  lx_center :: "uuid option"
  lx_quantity :: "int option"
  lx_disposition :: "uuid option"
  lx_reason :: "uuid option"
  lx_cycle :: "uuid option"
  lx_shift :: "uuid option"
  lx_product_blob :: uuid
  lx_station_blob :: "uuid option"
  lx_job_blob :: "uuid option"
  lx_tool_blob :: "uuid option"
  lx_cavity_blob :: "uuid option"
  lx_materials :: "uuid list"

definition quantity_of :: "log_input \<Rightarrow> int" where
  "quantity_of x = (case lx_quantity x of Some q \<Rightarrow> q | None \<Rightarrow> 1)"

definition new_log :: "uuid \<Rightarrow> ms \<Rightarrow> log_input \<Rightarrow> uuid option \<times> uuid option \<Rightarrow> disposition_log" where
  "new_log i now x pair =
     \<lparr>dl_id = i, dl_site = lx_site x, dl_station = lx_station x, dl_center = lx_center x, dl_quantity = quantity_of x,
      dl_disposition = fst pair, dl_reason = snd pair, dl_cycle = lx_cycle x, dl_shift = lx_shift x,
      dl_product_blob = lx_product_blob x, dl_station_blob = lx_station_blob x, dl_job_blob = lx_job_blob x,
      dl_tool_blob = lx_tool_blob x, dl_cavity_blob = lx_cavity_blob x, dl_materials = lx_materials x,
      dl_created = now, dl_deleted = None\<rparr>"

text \<open>What the calls of the program outside this component need.\<close>
record scrap_env =
  se_hash :: "uuid \<Rightarrow> uuid \<Rightarrow> uuid"
  se_zone :: "uuid \<Rightarrow> tz_offset"
  se_now :: ms
  se_id :: uuid
  se_allocation :: uuid

text \<open>
  The update of the bad items, whose errors are only logged.  None when it does not end; the
  service itself does not wait for it.
\<close>
definition count_bad :: "scrap_env \<Rightarrow> uuid \<Rightarrow> uuid \<Rightarrow> ms \<Rightarrow> int \<Rightarrow> scrap_db \<Rightarrow> scrap_db option" where
  "count_bad v st site t q db =
     map_option (\<lambda>r. case r of Inl _ \<Rightarrow> db | Inr (_, b) \<Rightarrow> db\<lparr>sc_buckets := b\<rparr>)
       (update_disposition_bad_items (se_hash v) (se_zone v site) st site t q (sc_buckets db))"

definition create_log :: "scrap_env \<Rightarrow> log_input \<Rightarrow> scrap_db \<Rightarrow> (scrap_error + (disposition_log \<times> scrap_db)) option" where
  "create_log v x db =
     (case find_station (lx_station x) (sc_buckets db) of
        None \<Rightarrow> Some (Inl DpStationNotFound)
      | Some s \<Rightarrow>
          if st_site s \<noteq> lx_site x then Some (Inl DpSiteMismatch)
          else (case validate_pair (lx_site x) (lx_disposition x) (lx_reason x) db of
                  Inl e \<Rightarrow> Some (Inl e)
                | Inr pair \<Rightarrow>
                    (case map_of (sc_product_blobs db) (lx_product_blob x) of
                       None \<Rightarrow> Some (Inl DpBlobNotFound)
                     | Some product \<Rightarrow>
                         (let l = new_log (se_id v) (se_now v) x pair
                          in map_option (\<lambda>db1. Inr (l, db1\<lparr>sc_orders :=
                                 deduct_scrap (se_allocation v) (lx_site x) product (quantity_of x) (sc_orders db1)\<rparr>))
                               (count_bad v (lx_station x) (lx_site x) (dl_created l) (quantity_of x)
                                  (db\<lparr>sc_logs := sc_logs db @ [l]\<rparr>))))))"

text \<open>The same from the ids of the entities, with the blobs that are current.\<close>
record record_input =
  rx_site :: uuid
  rx_station :: uuid
  rx_center :: "uuid option"
  rx_product :: uuid
  rx_job :: "uuid option"
  rx_cavity :: "uuid option"
  rx_quantity :: "int option"
  rx_disposition :: "uuid option"
  rx_reason :: "uuid option"
  rx_cycle :: "uuid option"
  rx_shift :: "uuid option"

definition current_job_blob :: "record_input \<Rightarrow> scrap_db \<Rightarrow> scrap_error + uuid option" where
  "current_job_blob x db =
     (case given (rx_job x) of
        None \<Rightarrow> Inr None
      | Some j \<Rightarrow>
          (case find (\<lambda>p. sj_job p = j \<and> sj_product p = rx_product x \<and> sj_deleted p = None) (sc_job_products db) of
             None \<Rightarrow> Inl DpJobProductNotFound
           | Some p \<Rightarrow> (case given (sj_blob p) of None \<Rightarrow> Inl DpNoBlob | Some b \<Rightarrow> Inr (Some b))))"

text \<open>The blobs of the cavity and of its tool.\<close>
definition cavity_blobs :: "record_input \<Rightarrow> scrap_db \<Rightarrow> scrap_error + (uuid option \<times> uuid option)" where
  "cavity_blobs x db =
     (case given (rx_cavity x) of
        None \<Rightarrow> Inr (None, None)
      | Some c \<Rightarrow>
          (case find (\<lambda>p. sv_id p = c) (sc_cavities db) of
             None \<Rightarrow> Inl DpCavityNotFound
           | Some p \<Rightarrow>
               if sv_deleted p \<noteq> None then Inl DpCavityNotFound
               else (case given (sv_blob p) of None \<Rightarrow> Inl DpNoBlob | Some b \<Rightarrow> Inr (Some b, sv_tool_blob p))))"

definition record_log :: "scrap_env \<Rightarrow> record_input \<Rightarrow> scrap_db \<Rightarrow> (scrap_error + (disposition_log \<times> scrap_db)) option" where
  "record_log v x db =
     (case find_station (rx_station x) (sc_buckets db) of
        None \<Rightarrow> Some (Inl DpStationNotFound)
      | Some s \<Rightarrow>
          if st_site s \<noteq> rx_site x then Some (Inl DpSiteMismatch)
          else (case find (\<lambda>p. sp_id p = rx_product x) (sc_products db) of
                  None \<Rightarrow> Some (Inl DpProductNotFound)
                | Some p \<Rightarrow>
                    if sp_deleted p \<noteq> None then Some (Inl DpProductNotFound)
                    else (case given (sp_blob p) of
                            None \<Rightarrow> Some (Inl DpNoBlob)
                          | Some blob \<Rightarrow>
                              (case current_job_blob x db of
                                 Inl e \<Rightarrow> Some (Inl e)
                               | Inr job \<Rightarrow>
                                   (case cavity_blobs x db of
                                      Inl e \<Rightarrow> Some (Inl e)
                                    | Inr (cavity, tool) \<Rightarrow>
                                        create_log v
                                          \<lparr>lx_site = rx_site x, lx_station = rx_station x, lx_center = rx_center x,
                                           lx_quantity = rx_quantity x, lx_disposition = rx_disposition x, lx_reason = rx_reason x,
                                           lx_cycle = rx_cycle x, lx_shift = rx_shift x, lx_product_blob = blob,
                                           lx_station_blob = map_of (sc_station_blobs db) (rx_station x), lx_job_blob = job,
                                           lx_tool_blob = tool, lx_cavity_blob = cavity,
                                           lx_materials = List.map_filter id (sp_materials p)\<rparr> db)))))"

record log_query =
  lq_site :: uuid
  lq_station :: uuid
  lq_shift :: uuid
  lq_reason :: uuid
  lq_from :: "ms option"
  lq_to :: "ms option"
  lq_limit :: int
  lq_offset :: nat

definition query_matches :: "log_query \<Rightarrow> disposition_log \<Rightarrow> bool" where
  "query_matches f l =
     (dl_deleted l = None \<and> (lq_site f = [] \<or> dl_site l = lq_site f) \<and> (lq_station f = [] \<or> dl_station l = lq_station f)
      \<and> (lq_shift f = [] \<or> dl_shift l = Some (lq_shift f)) \<and> (lq_reason f = [] \<or> dl_reason l = Some (lq_reason f))
      \<and> (case lq_from f of None \<Rightarrow> True | Some a \<Rightarrow> dl_created l \<ge> a) \<and> (case lq_to f of None \<Rightarrow> True | Some b \<Rightarrow> dl_created l \<le> b))"

definition list_logs :: "log_query \<Rightarrow> scrap_db \<Rightarrow> disposition_log list \<times> nat" where
  "list_logs f db =
     (let rows = drop (lq_offset f) (sort_key (\<lambda>l. - dl_created l) (filter (query_matches f) (sc_logs db)))
      in (if lq_limit f > 0 then take (nat (lq_limit f)) rows else rows, count_where (query_matches f) (sc_logs db)))"

definition get_log :: "uuid \<Rightarrow> scrap_db \<Rightarrow> disposition_log option" where
  "get_log i db =
     Option.bind (find (\<lambda>l. dl_id l = i) (sc_logs db)) (\<lambda>l. if dl_deleted l = None then Some l else None)"

text \<open>A field of the input is \<open>None\<close> when it is absent and \<open>Some None\<close> when it is null.\<close>
record log_patch =
  px_quantity :: "int option"
  px_disposition :: "uuid option option"
  px_reason :: "uuid option option"

definition patch_log :: "log_patch \<Rightarrow> disposition_log \<Rightarrow> disposition_log" where
  "patch_log x l =
     l\<lparr>dl_quantity := (case px_quantity x of Some q \<Rightarrow> q | None \<Rightarrow> dl_quantity l),
       dl_disposition := (case px_disposition x of Some d \<Rightarrow> d | None \<Rightarrow> dl_disposition l),
       dl_reason := (case px_reason x of Some r \<Rightarrow> r | None \<Rightarrow> dl_reason l)\<rparr>"

text \<open>An empty id passes the validation of a cleared pair; the column refuses it.\<close>
definition update_log :: "scrap_env \<Rightarrow> uuid \<Rightarrow> log_patch \<Rightarrow> scrap_db \<Rightarrow> (scrap_error + (disposition_log \<times> scrap_db)) option" where
  "update_log v i x db =
     (case get_log i db of
        None \<Rightarrow> Some (Inl DpLogNotFound)
      | Some l \<Rightarrow>
          (let l' = patch_log x l
           in case validate_pair (dl_site l) (dl_disposition l') (dl_reason l') db of
                Inl e \<Rightarrow> Some (Inl e)
              | Inr _ \<Rightarrow>
                  if px_disposition x = Some (Some []) \<or> px_reason x = Some (Some []) then Some (Inl DpBadId)
                  else (let db1 = db\<lparr>sc_logs := update_where (\<lambda>r. dl_id r = i) (patch_log x) (sc_logs db)\<rparr>
                        in if dl_quantity l' \<noteq> dl_quantity l
                           then map_option (\<lambda>db2. Inr (l', db2))
                                  (count_bad v (dl_station l) (dl_site l) (dl_created l) (dl_quantity l' - dl_quantity l) db1)
                           else Some (Inr (l', db1)))))"

definition remove_log :: "scrap_env \<Rightarrow> uuid \<Rightarrow> scrap_db \<Rightarrow> (scrap_error + scrap_db) option" where
  "remove_log v i db =
     (case get_log i db of
        None \<Rightarrow> Some (Inl DpLogNotFound)
      | Some l \<Rightarrow>
          map_option Inr
            (count_bad v (dl_station l) (dl_site l) (dl_created l) (- dl_quantity l)
               (db\<lparr>sc_logs := update_where (\<lambda>r. dl_id r = i) (\<lambda>r. r\<lparr>dl_deleted := Some (se_now v)\<rparr>) (sc_logs db)\<rparr>)))"

section \<open>Steps\<close>

text \<open>The operations that succeed; the zones of the sites are fixed and new ids are fresh.\<close>
inductive scrap_step :: "(uuid \<Rightarrow> tz_offset) \<Rightarrow> scrap_db \<Rightarrow> scrap_db \<Rightarrow> bool" for z where
  add_disposition: "create_disposition i n site db = Inr (d, db') \<Longrightarrow> i \<notin> di_id ` set (sc_dispositions db) \<Longrightarrow> scrap_step z db db'"
| rename_disposition: "update_disposition i n db = Inr db' \<Longrightarrow> scrap_step z db db'"
| drop_disposition: "remove_disposition now i db = Inr db' \<Longrightarrow> scrap_step z db db'"
| add_reason: "create_reason i n site links p db = Inr (r, db') \<Longrightarrow> i \<notin> dz_id ` set (sc_reasons db) \<Longrightarrow> scrap_step z db db'"
| change_reason: "update_reason i n' links' p' db = Inr db' \<Longrightarrow> scrap_step z db db'"
| drop_reason: "remove_reason now i db = Inr db' \<Longrightarrow> scrap_step z db db'"
| add_log: "create_log v x db = Some (Inr (l, db')) \<Longrightarrow> se_zone v = z \<Longrightarrow> se_id v \<notin> dl_id ` set (sc_logs db) \<Longrightarrow> scrap_step z db db'"
| record_entry: "record_log v y db = Some (Inr (l, db')) \<Longrightarrow> se_zone v = z \<Longrightarrow> se_id v \<notin> dl_id ` set (sc_logs db) \<Longrightarrow> scrap_step z db db'"
| change_log: "update_log v i q db = Some (Inr (l, db')) \<Longrightarrow> se_zone v = z \<Longrightarrow> scrap_step z db db'"
| drop_log: "remove_log v i db = Some (Inr db') \<Longrightarrow> se_zone v = z \<Longrightarrow> scrap_step z db db'"

text \<open>A recorded entry is a created one.\<close>
lemma record_log_creates:
  assumes "record_log v y db = Some (Inr (l, db'))"
  obtains x where "create_log v x db = Some (Inr (l, db'))"
  using assms by (auto simp: record_log_def split: option.splits if_splits sum.splits prod.splits)

section \<open>The log refers to live entries\<close>

definition live_disposition :: "scrap_db \<Rightarrow> uuid \<Rightarrow> uuid \<Rightarrow> bool" where
  "live_disposition db site i \<longleftrightarrow> (\<exists>d \<in> set (sc_dispositions db). di_id d = i \<and> di_site d = site \<and> di_deleted d = None)"

definition live_reason :: "scrap_db \<Rightarrow> uuid \<Rightarrow> uuid \<Rightarrow> bool" where
  "live_reason db site i \<longleftrightarrow> (\<exists>r \<in> set (sc_reasons db). dz_id r = i \<and> dz_site r = site \<and> dz_deleted r = None)"

definition pair_sound :: "scrap_db \<Rightarrow> uuid \<Rightarrow> uuid option \<Rightarrow> uuid option \<Rightarrow> bool" where
  "pair_sound db site d r \<longleftrightarrow>
     (d = None \<longleftrightarrow> r = None) \<and> d \<noteq> Some [] \<and> r \<noteq> Some [] \<and> (\<forall>i. d = Some i \<longrightarrow> live_disposition db site i) \<and> (\<forall>j. r = Some j \<longrightarrow> live_reason db site j)"

definition scrap_sound :: "scrap_db \<Rightarrow> bool" where
  "scrap_sound db \<longleftrightarrow>
     distinct (map di_id (sc_dispositions db)) \<and> distinct (map dz_id (sc_reasons db))
     \<and> distinct (map dl_id (sc_logs db))
     \<and> (\<forall>r \<in> set (sc_reasons db). \<forall>i \<in> set (dz_links r). live_disposition db (dz_site r) i)
     \<and> (\<forall>l \<in> set (sc_logs db). pair_sound db (dl_site l) (dl_disposition l) (dl_reason l))"

lemma validate_pair_sound:
  assumes "validate_pair site d r db = Inr p"
  shows "p = (given d, given r)" "pair_sound db site (given d) (given r)"
  using assms
  by (auto simp: validate_pair_def pair_sound_def given_def live_disposition_def live_reason_def split: option.splits if_splits
      dest!: find_Some_in)

lemma first_per_set: "set (first_per f seen xs) \<subseteq> set xs" "distinct (map f (first_per f seen xs)) \<and> f ` set (first_per f seen xs) \<inter> set seen = {}"
  by (induction f seen xs rule: first_per.induct) auto

lemma validate_links_live:
  assumes "validate_links ids site db = Inr links" "distinct (map di_id (sc_dispositions db))" "i \<in> set links"
  shows "live_disposition db site i"
proof -
  let ?u = "first_per id [] ids"
  let ?f = "filter (\<lambda>d. di_id d \<in> set ?u \<and> di_deleted d = None) (sc_dispositions db)"
  have l: "links = ?u" "length ?f = length ?u" "\<not> list_ex (\<lambda>d. di_site d \<noteq> site) ?f" "?u \<noteq> []"
    using assms(1,3) by (auto simp: validate_links_def Let_def split: if_splits)
  have "distinct (map di_id ?f)" using assms(2) by (simp add: distinct_map_filter)
  from distinct_card[OF this] have "card (set (map di_id ?f)) = length ?f" by (simp del: set_map)
  moreover have "distinct ?u" using first_per_set(2)[of id "[]" ids] by simp
  ultimately have "card (set (map di_id ?f)) = card (set ?u)" using l(2) by (simp add: distinct_card del: set_map)
  moreover have "set (map di_id ?f) \<subseteq> set ?u" by auto
  ultimately have "set (map di_id ?f) = set ?u" by (intro card_subset_eq) simp_all
  moreover have "i \<in> set ?u" using assms(3) l(1) by simp
  ultimately have "i \<in> set (map di_id ?f)" by (simp only:)
  then obtain d where "d \<in> set ?f" "di_id d = i" by (auto simp del: set_filter)
  with l(3) show ?thesis by (auto simp: live_disposition_def list_ex_iff)
qed

text \<open>Only these tables matter, and only through their live entries.\<close>
lemma sound_mono:
  assumes "scrap_sound db" "distinct (map di_id (sc_dispositions db'))" "distinct (map dz_id (sc_reasons db'))"
    and "distinct (map dl_id (sc_logs db'))"
    and disp: "\<And>site i. live_disposition db site i \<Longrightarrow>
        (\<exists>r \<in> set (sc_reasons db'). i \<in> set (dz_links r)) \<or> (\<exists>l \<in> set (sc_logs db'). dl_disposition l = Some i) \<Longrightarrow> live_disposition db' site i"
    and reas: "\<And>site i. live_reason db site i \<Longrightarrow> \<exists>l \<in> set (sc_logs db'). dl_reason l = Some i \<Longrightarrow> live_reason db' site i"
    and links: "\<And>r. r \<in> set (sc_reasons db') \<Longrightarrow> \<forall>i \<in> set (dz_links r). live_disposition db (dz_site r) i"
    and logs: "\<And>l. l \<in> set (sc_logs db') \<Longrightarrow> pair_sound db (dl_site l) (dl_disposition l) (dl_reason l)"
  shows "scrap_sound db'"
proof -
  have "pair_sound db' (dl_site l) (dl_disposition l) (dl_reason l)" if "l \<in> set (sc_logs db')" for l
    using logs[OF that] disp reas that unfolding pair_sound_def by blast
  moreover have "live_disposition db' (dz_site r) i" if "r \<in> set (sc_reasons db')" "i \<in> set (dz_links r)" for r i
    using links[OF that(1)] disp that by blast
  ultimately show ?thesis using assms(2-4) by (simp add: scrap_sound_def)
qed

lemma count_bad_tables:
  assumes "count_bad v st site t q db = Some db'"
  shows "sc_dispositions db' = sc_dispositions db" "sc_reasons db' = sc_reasons db" "sc_logs db' = sc_logs db"
    "sc_orders db' = sc_orders db" "sc_product_blobs db' = sc_product_blobs db"
proof -
  obtain r :: "string + (bucket_row list \<times> bucket_db)" where "(case r of Inl _ \<Rightarrow> db | Inr (_, b) \<Rightarrow> db\<lparr>sc_buckets := b\<rparr>) = db'"
    using assms unfolding count_bad_def map_option_eq_Some by blast
  then show "sc_dispositions db' = sc_dispositions db" "sc_reasons db' = sc_reasons db" "sc_logs db' = sc_logs db"
    "sc_orders db' = sc_orders db" "sc_product_blobs db' = sc_product_blobs db"
    by (cases r; auto)+
qed

lemma live_same:
  assumes "sc_dispositions db' = sc_dispositions db" "sc_reasons db' = sc_reasons db"
  shows "live_disposition db' = live_disposition db" "live_reason db' = live_reason db" "pair_sound db' = pair_sound db"
  using assms by (simp_all add: live_disposition_def live_reason_def pair_sound_def fun_eq_iff)

lemma sound_logs:
  assumes "scrap_sound db" "sc_dispositions db' = sc_dispositions db" "sc_reasons db' = sc_reasons db"
    and "distinct (map dl_id (sc_logs db'))" "\<And>l. l \<in> set (sc_logs db') \<Longrightarrow> pair_sound db (dl_site l) (dl_disposition l) (dl_reason l)"
  shows "scrap_sound db'"
  using assms live_same[OF assms(2,3)] by (simp add: scrap_sound_def)

lemma update_where_in: "x \<in> set (update_where P f rows) \<Longrightarrow> \<exists>y \<in> set rows. x = (if P y then f y else y)"
  by (auto simp: update_where_def)

lemma update_where_live:
  "y \<in> set rows \<Longrightarrow> (if P y then f y else y) \<in> set (update_where P f rows)"
  by (induction rows) auto

lemma disposition_steps_sound:
  assumes "scrap_sound db"
  shows "create_disposition i n site db = Inr (d, db') \<Longrightarrow> i \<notin> di_id ` set (sc_dispositions db) \<Longrightarrow> scrap_sound db'"
    "update_disposition i m db = Inr db' \<Longrightarrow> scrap_sound db'"
    "remove_disposition now i db = Inr db' \<Longrightarrow> scrap_sound db'"
proof -
  note inv = assms[unfolded scrap_sound_def]
  show "scrap_sound db'" if "create_disposition i n site db = Inr (d, db')" "i \<notin> di_id ` set (sc_dispositions db)"
    by (rule sound_mono[OF assms]) (use that inv in \<open>auto simp: create_disposition_def Let_def live_disposition_def live_reason_def
        split: if_splits option.splits\<close>)
  show "scrap_sound db'" if upd: "update_disposition i m db = Inr db'"
  proof (cases "db' = db")
    case False
    then obtain k where db': "db' = db\<lparr>sc_dispositions := update_where (\<lambda>x. di_id x = i) (\<lambda>x. x\<lparr>di_name := k\<rparr>) (sc_dispositions db)\<rparr>"
      using upd by (auto simp: update_disposition_def split: option.splits if_splits)
    have live: "live_disposition db' s j" if "live_disposition db s j" for s j
    proof -
      from that obtain d where d: "d \<in> set (sc_dispositions db)" "di_id d = j" "di_site d = s" "di_deleted d = None"
        by (auto simp: live_disposition_def)
      from update_where_live[OF d(1), of "\<lambda>x. di_id x = i" "\<lambda>x. x\<lparr>di_name := k\<rparr>"] d show ?thesis
        unfolding live_disposition_def db' by (intro bexI[of _ "if di_id d = i then d\<lparr>di_name := k\<rparr> else d"]) auto
    qed
    have ids: "map di_id (sc_dispositions db') = map di_id (sc_dispositions db)"
      unfolding db' by (simp add: map_update_where)
    show ?thesis
      by (rule sound_mono[OF assms]) (use inv live in \<open>simp_all add: ids\<close>, use inv in \<open>simp_all add: db' live_reason_def\<close>)
  qed (use assms in simp)
  show "scrap_sound db'" if "remove_disposition now i db = Inr db'"
  proof -
    let ?f = "\<lambda>x. x\<lparr>di_deleted := Some now\<rparr>"
    have db': "db' = db\<lparr>sc_dispositions := update_where (\<lambda>x. di_id x = i) ?f (sc_dispositions db)\<rparr>"
      and free: "\<forall>l \<in> set (sc_logs db). dl_disposition l \<noteq> Some i" "\<forall>r \<in> set (sc_reasons db). i \<notin> set (dz_links r)"
      using that by (auto simp: remove_disposition_def count_where_zero split: option.splits if_splits)
    have live: "live_disposition db' s j" if "live_disposition db s j" "j \<noteq> i" for s j
    proof -
      from that obtain d where d: "d \<in> set (sc_dispositions db)" "di_id d = j" "di_site d = s" "di_deleted d = None"
        by (auto simp: live_disposition_def)
      from update_where_live[OF d(1), of "\<lambda>x. di_id x = i" ?f] d that(2) show ?thesis
        unfolding live_disposition_def db' by (intro bexI[of _ d]) auto
    qed
    have ids: "map di_id (sc_dispositions db') = map di_id (sc_dispositions db)"
      unfolding db' by (simp add: map_update_where)
    show ?thesis
    proof (rule sound_mono[OF assms])
      show "live_disposition db' s j" if "live_disposition db s j"
        "(\<exists>r \<in> set (sc_reasons db'). j \<in> set (dz_links r)) \<or> (\<exists>l \<in> set (sc_logs db'). dl_disposition l = Some j)" for s j
        using that free live[OF that(1)] by (auto simp: db')
    qed (use inv in \<open>simp_all add: ids\<close>, use inv in \<open>simp_all add: db' live_reason_def\<close>)
  qed
qed

lemma find_distinct:
  "distinct (map f xs) \<Longrightarrow> find (\<lambda>x. f x = i) xs = Some x \<Longrightarrow> y \<in> set xs \<Longrightarrow> f y = i \<Longrightarrow> y = x"
  by (induction xs) (auto simp: image_iff split: if_splits dest: find_Some_in)

lemma reason_steps_sound:
  assumes "scrap_sound db"
  shows "create_reason i n site links p db = Inr (r, db') \<Longrightarrow> i \<notin> dz_id ` set (sc_reasons db) \<Longrightarrow> scrap_sound db'"
    "update_reason i n' links' p' db = Inr db' \<Longrightarrow> scrap_sound db'"
    "remove_reason now i db = Inr db' \<Longrightarrow> scrap_sound db'"
proof -
  note inv = assms[unfolded scrap_sound_def]
  note valid = validate_links_live[OF _ conjunct1[OF inv]]
  show "scrap_sound db'" if upd: "create_reason i n site links p db = Inr (r, db')"
    and fresh: "i \<notin> dz_id ` set (sc_reasons db)"
  proof -
    have db': "db' = db\<lparr>sc_reasons := sc_reasons db @ [r]\<rparr>" "dz_id r = i" "\<forall>j \<in> set (dz_links r). live_disposition db (dz_site r) j"
      using upd by (auto simp: create_reason_def Let_def split: if_splits option.splits sum.splits dest: valid)
    show ?thesis
      by (rule sound_mono[OF assms]) (use inv db' fresh in \<open>auto simp: live_disposition_def live_reason_def\<close>)
  qed
  show "scrap_sound db'" if upd: "update_reason i n' links' p' db = Inr db'"
  proof -
    obtain x ids where db': "db' = db\<lparr>sc_reasons := update_where (\<lambda>x. dz_id x = i) (set_reason n' ids p') (sc_reasons db)\<rparr>"
      and x: "find (\<lambda>r. dz_id r = i) (sc_reasons db) = Some x"
      and ids: "\<forall>js j. ids = Some js \<longrightarrow> j \<in> set js \<longrightarrow> live_disposition db (dz_site x) j"
      using upd by (auto simp: update_reason_def Let_def map_sum_Inr_iff split: if_splits option.splits sum.splits dest: valid)
    let ?f = "set_reason n' ids p'"
    have f: "dz_id (?f y) = dz_id y" "dz_site (?f y) = dz_site y" "dz_deleted (?f y) = dz_deleted y"
      "dz_links (?f y) = (case ids of Some js \<Rightarrow> js | None \<Rightarrow> dz_links y)" for y
      by (simp_all add: set_reason_def)
    have live: "live_reason db' s j" if "live_reason db s j" for s j
    proof -
      from that obtain d where d: "d \<in> set (sc_reasons db)" "dz_id d = j" "dz_site d = s" "dz_deleted d = None"
        by (auto simp: live_reason_def)
      from update_where_live[OF d(1), of "\<lambda>x. dz_id x = i" ?f] d show ?thesis
        unfolding live_reason_def db' by (intro bexI[of _ "if dz_id d = i then ?f d else d"]) (auto simp: f)
    qed
    show ?thesis
    proof (rule sound_mono[OF assms])
      show "\<forall>j \<in> set (dz_links r). live_disposition db (dz_site r) j" if r: "r \<in> set (sc_reasons db')" for r
      proof -
        obtain y where y: "y \<in> set (sc_reasons db)" "r = (if dz_id y = i then ?f y else y)"
          using update_where_in[of r "\<lambda>x. dz_id x = i" ?f "sc_reasons db"] r by (auto simp: db')
        show ?thesis
        proof (cases "dz_id y = i")
          case True
          with find_distinct[of dz_id "sc_reasons db" i x y] inv x y(1) have "y = x" by simp
          with y True ids inv show ?thesis by (cases ids) (auto simp: set_reason_def)
        qed (use y inv in auto)
      qed
      show "distinct (map dz_id (sc_reasons db'))" using inv by (simp add: db' map_update_where f)
    qed (use inv live in \<open>simp_all add: db' live_disposition_def\<close>)
  qed
  show "scrap_sound db'" if upd: "remove_reason now i db = Inr db'"
  proof -
    let ?f = "\<lambda>x. x\<lparr>dz_deleted := Some now\<rparr>"
    have db': "db' = db\<lparr>sc_reasons := update_where (\<lambda>x. dz_id x = i) ?f (sc_reasons db)\<rparr>"
      and free: "\<forall>l \<in> set (sc_logs db). dl_reason l \<noteq> Some i"
      using upd by (auto simp: remove_reason_def count_where_zero split: option.splits if_splits)
    have live: "live_reason db' s j" if "live_reason db s j" "j \<noteq> i" for s j
    proof -
      from that obtain d where d: "d \<in> set (sc_reasons db)" "dz_id d = j" "dz_site d = s" "dz_deleted d = None"
        by (auto simp: live_reason_def)
      from update_where_live[OF d(1), of "\<lambda>x. dz_id x = i" ?f] d that(2) show ?thesis
        unfolding live_reason_def db' by (intro bexI[of _ d]) auto
    qed
    show ?thesis
    proof (rule sound_mono[OF assms])
      show "live_reason db' s j" if "live_reason db s j" "\<exists>l \<in> set (sc_logs db'). dl_reason l = Some j" for s j
        using that(2) free live[OF that(1)] by (auto simp: db')
      show "\<forall>j \<in> set (dz_links r). live_disposition db (dz_site r) j" if "r \<in> set (sc_reasons db')" for r
        using update_where_in[of r "\<lambda>x. dz_id x = i" ?f "sc_reasons db"] that inv by (auto simp: db' split: if_splits)
    qed (use inv in \<open>simp_all add: db' live_disposition_def map_update_where\<close>)
  qed
qed

lemma create_log_result:
  assumes "create_log v x db = Some (Inr (l, db'))"
  obtains product db1 where "l = new_log (se_id v) (se_now v) x (given (lx_disposition x), given (lx_reason x))"
    "pair_sound db (dl_site l) (dl_disposition l) (dl_reason l)" "map_of (sc_product_blobs db) (dl_product_blob l) = Some product"
    "count_bad v (dl_station l) (dl_site l) (dl_created l) (dl_quantity l) (db\<lparr>sc_logs := sc_logs db @ [l]\<rparr>) = Some db1"
    "db' = db1\<lparr>sc_orders := deduct_scrap (se_allocation v) (dl_site l) product (dl_quantity l) (sc_orders db)\<rparr>"
proof -
  from assms obtain pair product db1 where p: "validate_pair (lx_site x) (lx_disposition x) (lx_reason x) db = Inr pair"
      "map_of (sc_product_blobs db) (lx_product_blob x) = Some product" "l = new_log (se_id v) (se_now v) x pair"
      "count_bad v (lx_station x) (lx_site x) (dl_created l) (quantity_of x) (db\<lparr>sc_logs := sc_logs db @ [l]\<rparr>) = Some db1"
      "db' = db1\<lparr>sc_orders := deduct_scrap (se_allocation v) (lx_site x) product (quantity_of x) (sc_orders db1)\<rparr>"
    by (auto simp: create_log_def Let_def split: option.splits if_splits sum.splits)
  from validate_pair_sound[OF p(1)] p count_bad_tables(4)[OF p(4)] show thesis
    by (intro that[of product db1]) (simp_all add: new_log_def)
qed

lemma get_log_Some: "get_log i db = Some l \<Longrightarrow> l \<in> set (sc_logs db) \<and> dl_id l = i \<and> dl_deleted l = None"
  by (auto simp: get_log_def split: Option.bind_splits if_splits dest: find_Some_in)

lemma patch_ids [simp]: "dl_id (patch_log x l) = dl_id l" "dl_site (patch_log x l) = dl_site l" "dl_station (patch_log x l) = dl_station l"
    "dl_created (patch_log x l) = dl_created l" "dl_deleted (patch_log x l) = dl_deleted l"
  by (simp_all add: patch_log_def)

text \<open>The pair of a patched log is valid, and no id in it is empty when the old ones were not.\<close>
lemma update_log_result:
  assumes "update_log v i x db = Some (Inr (l', db'))"
  obtains l where "get_log i db = Some l" "l' = patch_log x l"
    "validate_pair (dl_site l) (dl_disposition l') (dl_reason l') db = Inr (given (dl_disposition l'), given (dl_reason l'))"
    "px_disposition x \<noteq> Some (Some [])" "px_reason x \<noteq> Some (Some [])"
    "if dl_quantity l' \<noteq> dl_quantity l
     then count_bad v (dl_station l) (dl_site l) (dl_created l) (dl_quantity l' - dl_quantity l)
            (db\<lparr>sc_logs := update_where (\<lambda>r. dl_id r = i) (patch_log x) (sc_logs db)\<rparr>) = Some db'
     else db' = db\<lparr>sc_logs := update_where (\<lambda>r. dl_id r = i) (patch_log x) (sc_logs db)\<rparr>"
proof -
  from assms obtain l p where l: "get_log i db = Some l" "l' = patch_log x l"
      "validate_pair (dl_site l) (dl_disposition (patch_log x l)) (dl_reason (patch_log x l)) db = Inr p"
      "px_disposition x \<noteq> Some (Some [])" "px_reason x \<noteq> Some (Some [])"
    "if dl_quantity l' \<noteq> dl_quantity l
     then count_bad v (dl_station l) (dl_site l) (dl_created l) (dl_quantity l' - dl_quantity l)
            (db\<lparr>sc_logs := update_where (\<lambda>r. dl_id r = i) (patch_log x) (sc_logs db)\<rparr>) = Some db'
     else db' = db\<lparr>sc_logs := update_where (\<lambda>r. dl_id r = i) (patch_log x) (sc_logs db)\<rparr>"
    by (auto simp: update_log_def Let_def split: option.splits if_splits sum.splits)
  with validate_pair_sound(1)[OF l(3)] show thesis by (intro that[of l]) simp_all
qed

lemma log_steps_sound:
  assumes "scrap_sound db"
  shows "create_log v x db = Some (Inr (l, db')) \<Longrightarrow> se_id v \<notin> dl_id ` set (sc_logs db) \<Longrightarrow> scrap_sound db'"
    "update_log v i q db = Some (Inr (l, db')) \<Longrightarrow> scrap_sound db'"
    "remove_log v i db = Some (Inr db') \<Longrightarrow> scrap_sound db'"
proof -
  note inv = assms[unfolded scrap_sound_def]
  have inlogs: "pair_sound db (dl_site r) (dl_disposition r) (dl_reason r)" if "r \<in> set (sc_logs db)" for r
    using inv that by blast
  show "scrap_sound db'" if new: "create_log v x db = Some (Inr (l, db'))" "se_id v \<notin> dl_id ` set (sc_logs db)"
  proof (rule create_log_result[OF new(1)])
    fix product db1
    assume l: "pair_sound db (dl_site l) (dl_disposition l) (dl_reason l)"
        "l = new_log (se_id v) (se_now v) x (given (lx_disposition x), given (lx_reason x))"
      and c: "count_bad v (dl_station l) (dl_site l) (dl_created l) (dl_quantity l) (db\<lparr>sc_logs := sc_logs db @ [l]\<rparr>) = Some db1"
      and db': "db' = db1\<lparr>sc_orders := deduct_scrap (se_allocation v) (dl_site l) product (dl_quantity l) (sc_orders db)\<rparr>"
    have "dl_id l = se_id v" by (simp add: l(2) new_log_def)
    with new(2) show ?thesis
      by (intro sound_logs[OF assms]) (use count_bad_tables[OF c] l(1) inlogs inv in \<open>auto simp: db'\<close>)
  qed
  have changed: "scrap_sound d" if "sc_dispositions d = sc_dispositions db" "sc_reasons d = sc_reasons db"
    "sc_logs d = update_where (\<lambda>r. dl_id r = i) f (sc_logs db)" "\<And>r. dl_id (f r) = dl_id r"
    "\<And>r. r \<in> set (sc_logs db) \<Longrightarrow> dl_id r = i \<Longrightarrow> pair_sound db (dl_site (f r)) (dl_disposition (f r)) (dl_reason (f r))" for d f
    by (rule sound_logs[OF assms]) (use that inlogs inv in \<open>auto simp: map_update_where simp del: set_map dest!: update_where_in\<close>)
  show "scrap_sound db'" if del: "remove_log v i db = Some (Inr db')"
  proof -
    obtain l :: disposition_log where c: "count_bad v (dl_station l) (dl_site l) (dl_created l) (- dl_quantity l)
        (db\<lparr>sc_logs := update_where (\<lambda>r. dl_id r = i) (\<lambda>r. r\<lparr>dl_deleted := Some (se_now v)\<rparr>) (sc_logs db)\<rparr>) = Some db'"
      using del by (auto simp: remove_log_def split: option.splits)
    show ?thesis by (rule changed[of _ "\<lambda>r. r\<lparr>dl_deleted := Some (se_now v)\<rparr>"]) (use count_bad_tables[OF c] inlogs in simp_all)
  qed
  show "scrap_sound db'" if upd: "update_log v i q db = Some (Inr (l, db'))"
  proof (rule update_log_result[OF upd])
    fix o'
    assume o: "get_log i db = Some o'" "l = patch_log q o'"
      and valid: "validate_pair (dl_site o') (dl_disposition l) (dl_reason l) db = Inr (given (dl_disposition l), given (dl_reason l))"
      and ids: "px_disposition q \<noteq> Some (Some [])" "px_reason q \<noteq> Some (Some [])"
      and run: "if dl_quantity l \<noteq> dl_quantity o'
         then count_bad v (dl_station o') (dl_site o') (dl_created o') (dl_quantity l - dl_quantity o')
                (db\<lparr>sc_logs := update_where (\<lambda>r. dl_id r = i) (patch_log q) (sc_logs db)\<rparr>) = Some db'
         else db' = db\<lparr>sc_logs := update_where (\<lambda>r. dl_id r = i) (patch_log q) (sc_logs db)\<rparr>"
    have same: "sc_dispositions db' = sc_dispositions db" "sc_reasons db' = sc_reasons db"
      "sc_logs db' = update_where (\<lambda>r. dl_id r = i) (patch_log q) (sc_logs db)"
      using run by (auto split: if_splits dest: count_bad_tables)
    note o' = get_log_Some[OF o(1)]
    have "dl_disposition l \<noteq> Some [] \<and> dl_reason l \<noteq> Some []"
      using ids inlogs[OF conjunct1[OF o']] by (auto simp: o(2) patch_log_def pair_sound_def split: option.splits)
    then have "given (dl_disposition l) = dl_disposition l" "given (dl_reason l) = dl_reason l"
      by (auto simp: given_def split: option.splits)
    with validate_pair_sound(2)[OF valid] have ok: "pair_sound db (dl_site l) (dl_disposition l) (dl_reason l)" by (simp add: o(2))
    have "r = o'" if "r \<in> set (sc_logs db)" "dl_id r = i" for r
      using inv o' that by (auto dest: eq_key_imp_eq_value[of "map (\<lambda>r. (dl_id r, r)) (sc_logs db)"] simp: distinct_map inj_on_def)
    with ok show ?thesis by (intro changed[OF same]) (auto simp: o(2))
  qed
qed

lemma dispositions_sound_step:
  assumes "scrap_step z db db'" "scrap_sound db"
  shows "scrap_sound db'"
  using assms(1)
proof cases
  case (record_entry v y l)
  with assms(2) show ?thesis by (blast elim: record_log_creates intro: log_steps_sound(1))
qed (use assms(2) in \<open>blast intro: disposition_steps_sound reason_steps_sound log_steps_sound\<close>)+

text \<open>
  C10: the log of scrapped items refers to live entries.  In every state that the operations reach
  from a sound one, the links of a reason and the disposition and the reason of every entry of the
  log are rows that exist, are not deleted and belong to the same site; an entry has both or
  neither.
\<close>
theorem dispositions_sound:
  assumes "(scrap_step z)\<^sup>*\<^sup>* db db'" "scrap_sound db"
  shows "scrap_sound db'"
  using assms by (induction rule: rtranclp_induct) (auto intro: dispositions_sound_step)

section \<open>The bad items follow the log\<close>

text \<open>The start of the hour of an instant at a station.\<close>
definition hour_start :: "(uuid \<Rightarrow> tz_offset) \<Rightarrow> bucket_db \<Rightarrow> uuid \<Rightarrow> uuid \<Rightarrow> ms \<Rightarrow> ms" where
  "hour_start z b st site t = (case resolve_hour_bucket (bd_shifts b) (z site) Station st site t of Inr w \<Rightarrow> hb_start w | Inl _ \<Rightarrow> t)"

text \<open>What an entry of the log adds to the hour of a station.\<close>
definition share :: "(uuid \<Rightarrow> tz_offset) \<Rightarrow> bucket_db \<Rightarrow> uuid \<Rightarrow> ms \<Rightarrow> disposition_log \<Rightarrow> int" where
  "share z b st s l =
     (if dl_deleted l = None \<and> dl_station l = st \<and> hour_start z b st (dl_site l) (dl_created l) = s then dl_quantity l else 0)"

definition logged_bad :: "(uuid \<Rightarrow> tz_offset) \<Rightarrow> uuid \<Rightarrow> ms \<Rightarrow> scrap_db \<Rightarrow> int" where
  "logged_bad z st s db = sum_list (map (share z (sc_buckets db) st s) (sc_logs db))"

definition no_old_hours :: "bucket_db \<Rightarrow> bool" where
  "no_old_hours b \<longleftrightarrow> (\<forall>r \<in> set (bd_log b). \<not> station_hour r)"

lemma share_fixed:
  assumes "fixed_tables b' = fixed_tables b"
  shows "share z b' = share z b"
  unfolding fun_eq_iff share_def hour_start_def fixed_tables_fields(5)[OF assms] by simp

lemma count_bad_result:
  assumes "count_bad v st site t q db = Some db'" "\<forall>t. 1000 dvd t \<longrightarrow> 1000 dvd se_zone v site t" "no_old_hours (sc_buckets db)"
  shows "hour_bad st' s (sc_buckets db') = hour_bad st' s (sc_buckets db)
      + (if st' = st \<and> hour_start (se_zone v) (sc_buckets db) st site t = s then q else 0)"
    "no_old_hours (sc_buckets db')" "fixed_tables (sc_buckets db') = fixed_tables (sc_buckets db)"
proof -
  let ?b = "sc_buckets db"
  obtain w where w: "resolve_hour_bucket (bd_shifts ?b) (se_zone v site) Station st site t = Inr w"
    using resolve_station_hour by blast
  obtain x where x: "update_disposition_bad_items (se_hash v) (se_zone v site) st site t q ?b = Some x"
      "db' = (case x of Inl _ \<Rightarrow> db | Inr (_, b) \<Rightarrow> db\<lparr>sc_buckets := b\<rparr>)"
    using assms(1) unfolding count_bad_def map_option_eq_Some by blast
  have "\<exists>y. x = Inr y" using x(1) w by (auto simp: update_disposition_bad_items_def ended_def)
  then obtain rows b where xb: "x = Inr (rows, b)" by auto
  with x have run: "update_disposition_bad_items (se_hash v) (se_zone v site) st site t q ?b = Some (Inr (rows, b))"
    and db': "sc_buckets db' = b" by simp_all
  have clear: "\<forall>u \<in> set (station_hours_at (se_zone v site) st site t ?b). hour_key st u \<notin> bucket_key ` set (bd_log ?b)"
    using assms(3) by (auto simp: no_old_hours_def station_hour_def hour_key_def bucket_key_def)
  note res = bad_items_counted[OF run assms(2) w clear]
  have "hour_start (se_zone v) ?b st site t = hb_start w" by (simp add: hour_start_def w)
  with res(1)[of st' s] show "hour_bad st' s (sc_buckets db') = hour_bad st' s ?b
      + (if st' = st \<and> hour_start (se_zone v) ?b st site t = s then q else 0)" by (auto simp: db')
  have "filter station_hour (bd_log ?b) = []" using assms(3) by (simp add: no_old_hours_def filter_empty_conv)
  with res(2) have "filter station_hour (bd_log b) = []" by simp
  then show "no_old_hours (sc_buckets db')" by (simp add: no_old_hours_def filter_empty_conv db')
  show "fixed_tables (sc_buckets db') = fixed_tables ?b" using res(3) by (simp add: db')
qed

lemma sum_update_where:
  fixes g :: "'a \<Rightarrow> int"
  assumes "distinct (map k rows)" "x \<in> set rows" "k x = i"
  shows "sum_list (map g (update_where (\<lambda>r. k r = i) f rows)) = sum_list (map g rows) - g x + g (f x)"
  using assms
proof (induction rows)
  case (Cons r rows)
  have rest: "update_where (\<lambda>r. k r = i) f rows = rows" if "i \<notin> k ` set rows"
    using that by (auto simp: update_where_def intro!: map_idI)
  show ?case
  proof (cases "r = x")
    case True
    with Cons.prems rest show ?thesis by simp
  next
    case False
    then have "x \<in> set rows" "k r \<noteq> i" using Cons.prems by auto
    with Cons show ?thesis by simp
  qed
qed simp

text \<open>The difference between the buckets and the log.\<close>
definition drift :: "(uuid \<Rightarrow> tz_offset) \<Rightarrow> uuid \<Rightarrow> ms \<Rightarrow> scrap_db \<Rightarrow> int" where
  "drift z st s db = hour_bad st s (sc_buckets db) - logged_bad z st s db"

lemma counted_drift:
  assumes "count_bad v (dl_station l) (dl_site l) (dl_created l) q (db\<lparr>sc_logs := logs\<rparr>) = Some db'"
    and "\<forall>site t. 1000 dvd t \<longrightarrow> 1000 dvd z site t" "no_old_hours (sc_buckets db)" "se_zone v = z"
    and "sum_list (map (share z (sc_buckets db) st s) logs) = logged_bad z st s db
        + (if dl_station l = st \<and> hour_start z (sc_buckets db) st (dl_site l) (dl_created l) = s then q else 0)"
  shows "drift z st s db' = drift z st s db" "no_old_hours (sc_buckets db')"
proof -
  have tz: "\<forall>t. 1000 dvd t \<longrightarrow> 1000 dvd se_zone v (dl_site l) t" using assms(2,4) by blast
  have old: "no_old_hours (sc_buckets (db\<lparr>sc_logs := logs\<rparr>))" using assms(3) by simp
  note res = count_bad_result[OF assms(1) tz old]
  show "no_old_hours (sc_buckets db')" by (rule res(2))
  have "logged_bad z st s db' = sum_list (map (share z (sc_buckets db) st s) logs)"
    using count_bad_tables(3)[OF assms(1)] share_fixed[OF res(3)] by (simp add: logged_bad_def)
  with res(1)[of st s] assms(4,5) show "drift z st s db' = drift z st s db" by (auto simp: drift_def)
qed

lemma log_drift:
  assumes "\<forall>site t. 1000 dvd t \<longrightarrow> 1000 dvd z site t" "no_old_hours (sc_buckets db)" "se_zone v = z"
    and "distinct (map dl_id (sc_logs db))"
  shows "create_log v x db = Some (Inr (l, db')) \<Longrightarrow> drift z st s db' = drift z st s db \<and> no_old_hours (sc_buckets db')"
    "update_log v i p db = Some (Inr (l, db')) \<Longrightarrow> drift z st s db' = drift z st s db \<and> no_old_hours (sc_buckets db')"
    "remove_log v i db = Some (Inr db') \<Longrightarrow> drift z st s db' = drift z st s db \<and> no_old_hours (sc_buckets db')"
proof -
  note drift = counted_drift[OF _ assms(1-3)]
  show "drift z st s db' = drift z st s db \<and> no_old_hours (sc_buckets db')" if new: "create_log v x db = Some (Inr (l, db'))"
  proof (rule create_log_result[OF new])
    fix product db1
    assume l: "l = new_log (se_id v) (se_now v) x (given (lx_disposition x), given (lx_reason x))"
      and c: "count_bad v (dl_station l) (dl_site l) (dl_created l) (dl_quantity l) (db\<lparr>sc_logs := sc_logs db @ [l]\<rparr>) = Some db1"
      and db': "db' = db1\<lparr>sc_orders := deduct_scrap (se_allocation v) (dl_site l) product (dl_quantity l) (sc_orders db)\<rparr>"
    have "sum_list (map (share z (sc_buckets db) st s) (sc_logs db @ [l])) = logged_bad z st s db
        + (if dl_station l = st \<and> hour_start z (sc_buckets db) st (dl_site l) (dl_created l) = s then dl_quantity l else 0)"
      by (simp add: logged_bad_def share_def) (simp add: l new_log_def)
    from drift[OF c this] show ?thesis by (simp add: db' drift_def logged_bad_def)
  qed
  show "drift z st s db' = drift z st s db \<and> no_old_hours (sc_buckets db')" if upd: "update_log v i p db = Some (Inr (l, db'))"
  proof (rule update_log_result[OF upd])
    fix o'
    assume o: "get_log i db = Some o'" "l = patch_log p o'"
      and run: "if dl_quantity l \<noteq> dl_quantity o'
         then count_bad v (dl_station o') (dl_site o') (dl_created o') (dl_quantity l - dl_quantity o')
                (db\<lparr>sc_logs := update_where (\<lambda>r. dl_id r = i) (patch_log p) (sc_logs db)\<rparr>) = Some db'
         else db' = db\<lparr>sc_logs := update_where (\<lambda>r. dl_id r = i) (patch_log p) (sc_logs db)\<rparr>"
    note o' = get_log_Some[OF o(1)]
    have sum: "sum_list (map (share z (sc_buckets db) st s) (update_where (\<lambda>r. dl_id r = i) (patch_log p) (sc_logs db)))
      = logged_bad z st s db + (if dl_station o' = st \<and> hour_start z (sc_buckets db) st (dl_site o') (dl_created o') = s
          then dl_quantity l - dl_quantity o' else 0)"
      using sum_update_where[OF assms(4), of o' i "share z (sc_buckets db) st s" "patch_log p"] o'
      by (simp add: logged_bad_def share_def o(2))
    show ?thesis
    proof (cases "dl_quantity l = dl_quantity o'")
      case True
      with run sum assms(2) show ?thesis by (simp add: drift_def logged_bad_def)
    next
      case False
      with run drift[OF _ sum] show ?thesis by simp
    qed
  qed
  show "drift z st s db' = drift z st s db \<and> no_old_hours (sc_buckets db')" if del: "remove_log v i db = Some (Inr db')"
  proof -
    let ?f = "\<lambda>r. r\<lparr>dl_deleted := Some (se_now v)\<rparr>"
    obtain l :: disposition_log where l: "get_log i db = Some l"
      and c: "count_bad v (dl_station l) (dl_site l) (dl_created l) (- dl_quantity l)
        (db\<lparr>sc_logs := update_where (\<lambda>r. dl_id r = i) ?f (sc_logs db)\<rparr>) = Some db'"
      using del by (auto simp: remove_log_def split: option.splits)
    note l' = get_log_Some[OF l]
    have "sum_list (map (share z (sc_buckets db) st s) (update_where (\<lambda>r. dl_id r = i) ?f (sc_logs db)))
      = logged_bad z st s db + (if dl_station l = st \<and> hour_start z (sc_buckets db) st (dl_site l) (dl_created l) = s
          then - dl_quantity l else 0)"
      using sum_update_where[OF assms(4), of l i "share z (sc_buckets db) st s" ?f] l' by (simp add: logged_bad_def share_def)
    from drift[OF c this] show ?thesis by simp
  qed
qed

lemma catalogue_keeps_log:
  "create_disposition i n site db = Inr (d, db') \<Longrightarrow> sc_logs db' = sc_logs db \<and> sc_buckets db' = sc_buckets db"
  "update_disposition i m db = Inr db' \<Longrightarrow> sc_logs db' = sc_logs db \<and> sc_buckets db' = sc_buckets db"
  "remove_disposition now i db = Inr db' \<Longrightarrow> sc_logs db' = sc_logs db \<and> sc_buckets db' = sc_buckets db"
  "create_reason i n site links p db = Inr (r, db') \<Longrightarrow> sc_logs db' = sc_logs db \<and> sc_buckets db' = sc_buckets db"
  "update_reason i m links' p' db = Inr db' \<Longrightarrow> sc_logs db' = sc_logs db \<and> sc_buckets db' = sc_buckets db"
  "remove_reason now i db = Inr db' \<Longrightarrow> sc_logs db' = sc_logs db \<and> sc_buckets db' = sc_buckets db"
  by (auto simp: create_disposition_def update_disposition_def remove_disposition_def create_reason_def update_reason_def remove_reason_def
      Let_def split: option.splits if_splits sum.splits)

lemma step_drift:
  assumes "scrap_step z db db'" "\<forall>site t. 1000 dvd t \<longrightarrow> 1000 dvd z site t" "no_old_hours (sc_buckets db)" "distinct (map dl_id (sc_logs db))"
  shows "drift z st s db' = drift z st s db \<and> no_old_hours (sc_buckets db')"
proof -
  have same: ?thesis if "sc_logs db' = sc_logs db \<and> sc_buckets db' = sc_buckets db"
    using that assms(3) by (simp add: drift_def logged_bad_def)
  note log = log_drift[OF assms(2,3) _ assms(4)]
  from assms(1) show ?thesis
  proof cases
    case (record_entry v y l)
    obtain x where "create_log v x db = Some (Inr (l, db'))" by (rule record_log_creates[OF record_entry(1)])
    then show ?thesis by (rule log(1)[OF record_entry(2)])
  qed ((rule same, rule catalogue_keeps_log, assumption) | (rule log, assumption, assumption))+
qed

text \<open>
  C7: the bad items of the hours follow the log.  Whatever entries are created, changed and
  removed, and in whatever order, the bad items of every hour of every station change exactly as
  the sum of the quantities of its live entries does, as long as no hour of a station is archived
  (the offsets of the time zones are whole seconds).
\<close>
theorem bad_items_follow_log:
  assumes "(scrap_step z)\<^sup>*\<^sup>* db db'" "scrap_sound db" "no_old_hours (sc_buckets db)"
    and "\<forall>site t. 1000 dvd t \<longrightarrow> 1000 dvd z site t"
  shows "hour_bad st s (sc_buckets db') - hour_bad st s (sc_buckets db) = logged_bad z st s db' - logged_bad z st s db"
proof -
  have "drift z st s db' = drift z st s db \<and> no_old_hours (sc_buckets db') \<and> scrap_sound db'"
    using assms(1-3)
  proof (induction rule: rtranclp_induct)
    case (step d d')
    then have d: "drift z st s d = drift z st s db" "no_old_hours (sc_buckets d)" "scrap_sound d" by simp_all
    have "scrap_sound d'" using dispositions_sound_step step.hyps(2) d(3) by blast
    with step_drift[OF step.hyps(2) assms(4) d(2)] d show ?case by (simp add: scrap_sound_def)
  qed simp
  then show ?thesis by (simp add: drift_def)
qed

lemma remove_log_result:
  assumes "remove_log v i db = Some (Inr db')"
  shows "sc_logs db' = update_where (\<lambda>r. dl_id r = i) (\<lambda>r. r\<lparr>dl_deleted := Some (se_now v)\<rparr>) (sc_logs db)"
    "sc_orders db' = sc_orders db"
    "\<forall>site t. 1000 dvd t \<longrightarrow> 1000 dvd se_zone v site t \<Longrightarrow> no_old_hours (sc_buckets db)
      \<Longrightarrow> fixed_tables (sc_buckets db') = fixed_tables (sc_buckets db)"
proof -
  obtain l :: disposition_log where c: "count_bad v (dl_station l) (dl_site l) (dl_created l) (- dl_quantity l)
      (db\<lparr>sc_logs := update_where (\<lambda>r. dl_id r = i) (\<lambda>r. r\<lparr>dl_deleted := Some (se_now v)\<rparr>) (sc_logs db)\<rparr>) = Some db'"
    using assms by (auto simp: remove_log_def split: option.splits)
  show "sc_logs db' = update_where (\<lambda>r. dl_id r = i) (\<lambda>r. r\<lparr>dl_deleted := Some (se_now v)\<rparr>) (sc_logs db)"
    "sc_orders db' = sc_orders db"
    using count_bad_tables(3,4)[OF c] by simp_all
  show "fixed_tables (sc_buckets db') = fixed_tables (sc_buckets db)"
    if "\<forall>site t. 1000 dvd t \<longrightarrow> 1000 dvd se_zone v site t" "no_old_hours (sc_buckets db)"
    using count_bad_result(3)[OF c] that by simp
qed

text \<open>
  C24: what a removed entry took from an order stays taken.  When an entry is created and then
  removed, the bad items of all hours are again what they were, but the orders keep the scrap that
  the creation deducted: the removal does not return it (no hour of a station is archived, and the
  offsets of the time zones are whole seconds).
\<close>
theorem removal_keeps_scrap:
  assumes "create_log v x db = Some (Inr (l, db1))" "remove_log v' (dl_id l) db1 = Some (Inr db2)"
    and "scrap_sound db" "se_id v \<notin> dl_id ` set (sc_logs db)" "se_zone v = z" "se_zone v' = z"
    and "no_old_hours (sc_buckets db)" "\<forall>site t. 1000 dvd t \<longrightarrow> 1000 dvd z site t"
  shows "hour_bad st s (sc_buckets db2) = hour_bad st s (sc_buckets db)
    \<and> (\<exists>product. map_of (sc_product_blobs db) (lx_product_blob x) = Some product
        \<and> sc_orders db2 = deduct_scrap (se_allocation v) (lx_site x) product (quantity_of x) (sc_orders db))"
proof (rule create_log_result[OF assms(1)])
  fix product b
  assume l: "l = new_log (se_id v) (se_now v) x (given (lx_disposition x), given (lx_reason x))"
    and product: "map_of (sc_product_blobs db) (dl_product_blob l) = Some product"
    and c: "count_bad v (dl_station l) (dl_site l) (dl_created l) (dl_quantity l) (db\<lparr>sc_logs := sc_logs db @ [l]\<rparr>) = Some b"
    and db1: "db1 = b\<lparr>sc_orders := deduct_scrap (se_allocation v) (dl_site l) product (dl_quantity l) (sc_orders db)\<rparr>"
  have tz: "\<forall>site t. 1000 dvd t \<longrightarrow> 1000 dvd se_zone v site t" "\<forall>site t. 1000 dvd t \<longrightarrow> 1000 dvd se_zone v' site t"
    using assms(5,6,8) by simp_all
  have logs: "sc_logs db1 = sc_logs db @ [l]" using count_bad_tables(3)[OF c] by (simp add: db1)
  have d0: "distinct (map dl_id (sc_logs db))" using assms(3) by (simp add: scrap_sound_def)
  have d1: "distinct (map dl_id (sc_logs db1))" using log_steps_sound(1)[OF assms(3,1,4)] by (simp add: scrap_sound_def)
  have "no_old_hours (sc_buckets (db\<lparr>sc_logs := sc_logs db @ [l]\<rparr>))" using assms(7) by simp
  from count_bad_result(3)[OF c spec[OF tz(1)] this]
  have fix1: "fixed_tables (sc_buckets db1) = fixed_tables (sc_buckets db)" by (simp add: db1)
  from log_drift(1)[OF assms(8,7,5) d0 assms(1)]
  have first: "drift z st s db1 = drift z st s db" "no_old_hours (sc_buckets db1)" by blast+
  have second: "drift z st s db2 = drift z st s db1"
    using log_drift(3)[OF assms(8) first(2) assms(6) d1 assms(2)] by blast
  note removed = remove_log_result[OF assms(2)]
  have same: "share z (sc_buckets db2) = share z (sc_buckets db)"
    using share_fixed[OF removed(3)[OF tz(2) first(2)]] share_fixed[OF fix1] by simp
  have "l \<in> set (sc_logs db1)" by (simp add: logs)
  from sum_update_where[OF d1 this refl, of "share z (sc_buckets db) st s" "\<lambda>r. r\<lparr>dl_deleted := Some (se_now v')\<rparr>"]
  have "logged_bad z st s db2 = logged_bad z st s db" by (simp add: logged_bad_def same removed(1) logs share_def)
  with first(1) second have "hour_bad st s (sc_buckets db2) = hour_bad st s (sc_buckets db)" by (simp add: drift_def)
  with product show ?thesis by (simp add: removed(2) db1 l new_log_def)
qed

section \<open>Samples\<close>

definition sample_scrap_db :: scrap_db where
  "sample_scrap_db =
     \<lparr>sc_dispositions = [\<lparr>di_id = ''d'', di_site = ''s'', di_name = ''Scrap'', di_deleted = None\<rparr>],
      sc_reasons = [\<lparr>dz_id = ''r'', dz_site = ''s'', dz_name = ''Short shot'', dz_links = [''d''], dz_process = None, dz_deleted = None\<rparr>],
      sc_processes = [], sc_products = [], sc_job_products = [], sc_cavities = [], sc_product_blobs = [(''b'', ''p'')],
      sc_station_blobs = [], sc_logs = [], sc_buckets = sample_bucket_db, sc_orders = sample_orders\<lparr>od_orders := [sample_order\<lparr>or_status := InProgress\<rparr>], od_lines := [sample_line\<lparr>li_completed := 4\<rparr>]\<rparr>\<rparr>"

definition sample_scrap :: log_input where
  "sample_scrap =
     \<lparr>lx_site = ''s'', lx_station = ''p'', lx_center = None, lx_quantity = Some 3, lx_disposition = Some ''d'', lx_reason = Some ''r'',
      lx_cycle = None, lx_shift = None, lx_product_blob = ''b'', lx_station_blob = None, lx_job_blob = None, lx_tool_blob = None,
      lx_cavity_blob = None, lx_materials = []\<rparr>"

definition sample_scrap_env :: scrap_env where
  "sample_scrap_env = \<lparr>se_hash = (\<lambda>s j. j), se_zone = (\<lambda>_ _. 0), se_now = 0, se_id = ''i'', se_allocation = ''a''\<rparr>"

lemma sample_scrap_created:
  "(case create_log sample_scrap_env sample_scrap sample_scrap_db of
      Some (Inr (l, db)) \<Rightarrow> dl_id l = ''i'' \<and> map al_quantity (od_allocations (sc_orders db)) = [-3]
        \<and> map dl_quantity (sc_logs db) = [3] \<and> hour_bad ''p'' 0 (sc_buckets db) = 3
        \<and> map_option (map_sum id (\<lambda>db'. map dl_deleted (sc_logs db'))) (remove_log sample_scrap_env ''i'' db) = Some (Inr [Some 0])
    | _ \<Rightarrow> False)"
  by code_simp

lemma sample_scrap_runs:
  obtains l db db' where "create_log sample_scrap_env sample_scrap sample_scrap_db = Some (Inr (l, db))"
    "remove_log sample_scrap_env (dl_id l) db = Some (Inr db')" "map al_quantity (od_allocations (sc_orders db)) = [-3]"
    "map dl_quantity (sc_logs db) = [3]" "hour_bad ''p'' 0 (sc_buckets db) = 3" "map dl_deleted (sc_logs db') = [Some 0]"
  using sample_scrap_created by (auto simp: map_sum_Inr_iff split: option.split_asm sum.split_asm prod.split_asm)

lemma sample_scrap_ok:
  "scrap_sound sample_scrap_db" "no_old_hours (sc_buckets sample_scrap_db)" "se_zone sample_scrap_env = (\<lambda>_ _. 0)"
  "sc_logs sample_scrap_db = []" "hour_bad st s (sc_buckets sample_scrap_db) = 0" "logged_bad z st s sample_scrap_db = 0"
  by (simp_all add: scrap_sound_def live_disposition_def no_old_hours_def sample_scrap_db_def sample_scrap_env_def sample_bucket_db_def
      hour_bad_def bucket_at_def find_key_def logged_bad_def)

lemma sample_scrap_step:
  assumes "create_log sample_scrap_env sample_scrap sample_scrap_db = Some (Inr (l, db))"
  shows "scrap_step (\<lambda>_ _. 0) sample_scrap_db db"
  using assms by (rule add_log) (simp_all add: sample_scrap_ok)

theorem dispositions_sound_witness:
  "\<exists>l db. create_log sample_scrap_env sample_scrap sample_scrap_db = Some (Inr (l, db)) \<and> sc_logs db \<noteq> [] \<and> scrap_sound db"
proof (rule sample_scrap_runs)
  fix l db
  assume r: "create_log sample_scrap_env sample_scrap sample_scrap_db = Some (Inr (l, db))" "map dl_quantity (sc_logs db) = [3]"
  have "scrap_sound db"
    by (rule dispositions_sound[OF _ sample_scrap_ok(1)]) (use sample_scrap_step[OF r(1)] in auto)
  with r show ?thesis by (intro exI conjI) auto
qed

theorem bad_items_follow_log_witness:
  "\<exists>l db. create_log sample_scrap_env sample_scrap sample_scrap_db = Some (Inr (l, db))
    \<and> hour_bad ''p'' 0 (sc_buckets db) = 3 \<and> logged_bad (\<lambda>_ _. 0) ''p'' 0 db = 3"
proof (rule sample_scrap_runs)
  fix l db
  assume r: "create_log sample_scrap_env sample_scrap sample_scrap_db = Some (Inr (l, db))" "hour_bad ''p'' 0 (sc_buckets db) = 3"
  have "hour_bad ''p'' 0 (sc_buckets db) - hour_bad ''p'' 0 (sc_buckets sample_scrap_db)
      = logged_bad (\<lambda>_ _. 0) ''p'' 0 db - logged_bad (\<lambda>_ _. 0) ''p'' 0 sample_scrap_db"
    by (rule bad_items_follow_log) (use sample_scrap_step[OF r(1)] sample_scrap_ok in auto)
  with r show ?thesis by (intro exI conjI) (auto simp: sample_scrap_ok)
qed

theorem removal_keeps_scrap_witness:
  "\<exists>l db db'. create_log sample_scrap_env sample_scrap sample_scrap_db = Some (Inr (l, db))
    \<and> remove_log sample_scrap_env (dl_id l) db = Some (Inr db')
    \<and> hour_bad ''p'' 0 (sc_buckets db) = 3 \<and> hour_bad ''p'' 0 (sc_buckets db') = 0
    \<and> map al_quantity (od_allocations (sc_orders db')) = [-3]"
proof (rule sample_scrap_runs)
  fix l db db'
  assume r: "create_log sample_scrap_env sample_scrap sample_scrap_db = Some (Inr (l, db))"
    "remove_log sample_scrap_env (dl_id l) db = Some (Inr db')" "hour_bad ''p'' 0 (sc_buckets db) = 3"
  from removal_keeps_scrap[OF r(1,2) sample_scrap_ok(1) _ sample_scrap_ok(3,3,2), of "''p''" 0]
  have h: "hour_bad ''p'' 0 (sc_buckets db') = 0"
    and o: "\<exists>product. map_of (sc_product_blobs sample_scrap_db) (lx_product_blob sample_scrap) = Some product
      \<and> sc_orders db' = deduct_scrap (se_allocation sample_scrap_env) (lx_site sample_scrap) product (quantity_of sample_scrap) (sc_orders sample_scrap_db)"
    by (simp_all add: sample_scrap_ok)
  have "map_of (sc_product_blobs sample_scrap_db) (lx_product_blob sample_scrap) = Some ''p''"
    "map al_quantity (od_allocations (deduct_scrap (se_allocation sample_scrap_env) (lx_site sample_scrap) ''p'' (quantity_of sample_scrap) (sc_orders sample_scrap_db))) = [-3]"
    by code_simp+
  with o have "map al_quantity (od_allocations (sc_orders db')) = [-3]" by auto
  with r h show ?thesis by (intro exI conjI)
qed

end
