(* ===== verification/Spec2Isabelle.thy ===== *)
theory Spec2Isabelle
  imports Events Runtime Caches Trigger Shifts Orders StateLog Metrics Iam Contracts Employees Sessions Materials Buckets Cascade Cycles Recalc Dispositions
begin

text \<open>
  A verified model of the core of the server of a manufacturing execution system: machines
  report points through gateways, the workers turn them into station events, events complete
  cycles, and a cycle writes the state log of its station, its inventory items, the progress
  of the orders and the metric buckets from which availability, performance, quality and OEE
  are shown.  Around it stand the shift calendar, the access control of the API and the
  sessions of users, displays and operators.  Paths below are relative to \<open>src/\<close>, and
  \<open>services\<close> is short for \<open>packages/services/src\<close>, \<open>ported\<close> for
  \<open>apps/workers/src/processor/_ported\<close>.

  \<^bold>\<open>Theories, from the bottom up.\<close>

  \<^item> \<open>Prelude\<close>, \<open>JsValue\<close> and \<open>JsDate\<close> hold what the components share: tables as lists of rows
    with \<open>findFirst\<close>, \<open>updateMany\<close> and \<open>count\<close>, insertion-ordered maps, JSON values with
    \<open>String\<close>, \<open>Number\<close> and \<open>===\<close>, and the calendar of \<open>Date\<close>.
  \<^item> \<open>Deque\<close> and \<open>Runtime\<close> model the bounded event runtime (\<open>ported/pipeline/runtime/\<close>) on its ring
    buffer.  The locale \<open>bounded_fifo\<close> is the contract of the buffer.  Shown: the bounds on
    queue and concurrency, the account of every submitted event, and that a shutdown drains in
    whatever order the events end.
  \<^item> \<open>Events\<close> models the messages (\<open>ported/pipeline/parser.ts\<close>, \<open>types.ts\<close>, \<open>metrics.ts\<close>), the point
    readings and the enrichment of split messages.
  \<^item> \<open>Caches\<close> models the TTL cache (\<open>services/metrics/ttl-cache.ts\<close>) and the cache of tag
    snapshots (\<open>ported/station-events/tag-snapshot-cache.ts\<close>) with its loader; both interpret
    the locale \<open>bounded_cache\<close>.
  \<^item> \<open>Trigger\<close> models the conditions of station events over snapshots, the compiled index and the
    processor (\<open>ported/station-events/\<close>, \<open>ported/processors/station-events-processor.ts\<close>).
    Shown: the declarative meaning of a trigger, and that the index misses no candidate.
  \<^item> \<open>Shifts\<close> models the resolution of shifts and hour buckets (\<open>services/metrics/shift.ts\<close>) and the
    planning of shift instances (\<open>services/facility/shift/materialize.ts\<close>).  Shown: the hours
    partition a shift, materialization is idempotent, reconciliation keeps the past.
  \<^item> \<open>Orders\<close> models orders and the allocation of produced items (\<open>services/order/\<close>).  Shown: the
    life cycle of a status, step by step, and the ledger of allocations in every reachable state.
  \<^item> \<open>StateLog\<close> models the state log of stations and the detection timers
    (\<open>services/facility/station/state.ts\<close>, \<open>state-detection.ts\<close>).  The locale \<open>log_writer\<close> is the
    contract of an operation on the log.  Shown: the entries of a station tile time.
  \<^item> \<open>Metrics\<close> models the values of a bucket (\<open>services/metrics/compute.ts\<close>,
    \<open>packages/metrics/src/index.ts\<close>).  Shown: a bucket accounts for its time, and hours sum to
    their shift.
  \<^item> \<open>Iam\<close> models permissions, roles, members and users (\<open>services/iam/\<close>,
    \<open>apps/api/src/services/account/\<close>).  Shown: the owner's permission is confined, and an owner
    stays; and one way in which adding a member escalates.
  \<^item> \<open>Contracts\<close> holds the locales \<open>lockout\<close> and \<open>token_store\<close>.  \<open>Employees\<close> (PINs, logon,
    \<open>apps/api/src/services/employee/\<close>) and \<open>Sessions\<close> (\<open>services/auth/\<close>,
    \<open>apps/api/src/services/auth/\<close>, invitations and passwords) interpret them.  Shown: guesses
    are bounded, a refresh token is used once, a disabled user stays out.
  \<^item> \<open>Materials\<close> models items, staged usage and the material ledger (\<open>services/inventory/\<close>).  Shown:
    what a cycle consumes reaches the ledger exactly, up to the rounding of a column.
  \<^item> \<open>Buckets\<close> models the hierarchy, the creation, the rollup and the archive of buckets
    (\<open>services/metrics/hierarchy.ts\<close>, \<open>bucket.ts\<close>, \<open>rollup.ts\<close>, \<open>archive.ts\<close>).  Shown: what a
    rollup leaves is the sum, twice is once, and the archive does not show in sums.
  \<^item> \<open>Cascade\<close> models the tick that computes the live buckets by SQL (\<open>cascade.ts\<close>, \<open>batcher.ts\<close>).
    Shown: the statements agree with the event computation and with the rollup, they settle,
    and they keep the types of the columns.
  \<^item> \<open>Cycles\<close> models the completion of a cycle (\<open>services/cycle/cycle.ts\<close>) and the repair after a
    replay (\<open>replay.ts\<close>) on one state of the tables of \<open>StateLog\<close>, \<open>Materials\<close>, \<open>Orders\<close> and
    \<open>Buckets\<close>.  Shown: a completion refines the transition of the state log, so that the
    invariant of the log covers it; the counts of the hour follow the items of the inventory;
    cycles tile time; what the repair after a replay restores, loses and leaves overlapping.
  \<^item> \<open>Recalc\<close> models the entry points that recompute station buckets over an instant or a range
    (\<open>services/metrics/recalc.ts\<close>): the windows of a range, counts, durations, dispositions, the
    full recomputation and the buckets of jobs.  Shown: the walk over a range ends and misses no
    window of a shift, a second update finds nothing to do, a full recomputation restores what
    the events say, and a disposition of an archived hour hides it.
  \<^item> \<open>Dispositions\<close> models scrapped items: dispositions, their reasons and the log
    (\<open>services/inventory/disposition.ts\<close>, \<open>disposition-reason.ts\<close>, \<open>disposition-log.ts\<close>), with what the
    log writes to the hours of \<open>Recalc\<close> and to the orders.  Its operations are the steps of
    \<open>scrap_step\<close>.  Shown: the log refers to live rows of its site, the bad items of the hours
    follow the log, and a removed entry leaves its scrap in the orders.

  \<^bold>\<open>Conventions.\<close>  A service takes the tables it reads and returns them updated; an operation that
  throws or answers with an error is \<open>Inl\<close>, and a transaction that fails leaves the tables of
  its caller.  Every branch of the code is a branch of the definition.  Generated ids, the
  clock, the offset of a time zone, the window of a local day, the parser of JSON, the hash of
  a password or token, the signature, the remote loader and the hash that names the bucket of
  a job are arguments; where a theorem needs a law of one of them, it is a hypothesis.  A SQL
  statement reads the tables as they were before it, also where it writes them.  Decimals and
  doubles are exact rationals, and the columns of two and four places round where a row is
  stored; counters are unbounded.  Concurrent calls over several rows (\<open>Promise.all\<close>) are
  taken in order; where an interleaving of two transactions matters, it is a sequence of
  steps, as in the race of two refreshes and the stale split of the state log.

  \<^bold>\<open>Termination.\<close>  Loops are structural or have a measure.  Recursive queries over parents can
  run forever on a cyclic table, so \<open>wc_chain\<close>, \<open>centers_up\<close>, \<open>centers_down\<close> and \<open>ancestor_ids\<close> are
  partial functions with \<open>None\<close> for a query that does not end; the loop of the snapshot
  loader \<open>hydrate_batches\<close> and the walk over a range \<open>base_walk\<close> are such functions too, and
  theorems prove that they return.
  The only fuel bounds the scan of a string for references, by the length of the string, and
  the digits of a decimal text, by 400, more than the shortest text of any double has.

  \<^bold>\<open>Not modelled.\<close>  The routers of the API, which decode requests and call the services; the
  records of catalogues (products, jobs, tools, stations, sites, reasons, displays), which
  appear as tables, except the dispositions; the forwarding of changed rows to subscribers; storage of raw events, queues, sockets, mail, audit log and
  start-up; generated clients, the import of data and deployment.  Caches in front of lookups
  and the time stamps of updates are left out, except in the state log.
\<close>

end
